(* ===== verification/PS2_Prelude.thy ===== *)
theory PS2_Prelude
  imports Main "HOL-Library.Word" "HOL-Library.Monad_Syntax"
begin

text \<open>
  Shared vocabulary of the development: the machine integer types of the driver code, the
  collections of rewrite rules the component theories fill, and the generic facts on words,
  lists and the option monad that more than one component needs.

  Code that may block for ever or dereference a null pointer is modelled in the option
  monad: \<open>None\<close> is ``does not return normally'', \<open>Some (x, s)\<close> is the returned value
  with the new state. Loops without a static bound take a fuel argument.
\<close>

unbundle bit_operations_syntax

section \<open>Machine integers\<close>

type_synonym u8 = "8 word"
type_synonym u16 = "16 word"
type_synonym u32 = "32 word"
type_synonym u64 = "64 word"

named_theorems ring_simps \<open>facts on the ring buffer operations\<close>
named_theorems port_simps \<open>unfolding rules of the port level operations\<close>
named_theorems frame_simps \<open>state components an operation leaves alone\<close>
named_theorems touch_simps \<open>unfolding rules of the packet decoders\<close>

section \<open>Words\<close>

lemma unat_and_le: "unat (x AND m) \<le> unat (m :: 'a::len word)"
  using word_and_le1 [of x m] by (simp add: word_le_nat_alt and.commute)

lemma unat_and_less: "unat (m :: 'a::len word) < n \<Longrightarrow> unat (x AND m) < n"
  using unat_and_le [of x m] by linarith

lemma unat_u8_less [simp]: "unat (x :: u8) < 256"
  using unsigned_less [of x] by simp

lemma unat_drop_bit_u8 [simp]: "unat (drop_bit n (x :: u8)) = unat x div 2 ^ n"
  by (simp add: unat_drop_bit_eq flip: drop_bit_eq_div)

lemma and_single_bit: "(x AND 2 ^ n \<noteq> 0) = bit (x :: 'a::len word) n" if "n < LENGTH('a)"
proof -
  have "x AND 2 ^ n = (if bit x n then 2 ^ n else 0)"
    by (rule bit_word_eqI) (auto simp: bit_and_iff bit_exp_iff that)
  moreover have "(2 :: 'a word) ^ n \<noteq> 0"
    using that by (metis bit_0_eq bit_exp_iff bot_apply bot_bool_def possible_bit_word)
  ultimately show ?thesis by simp
qed

section \<open>Lists\<close>

lemma take_drop_update_outside:
  "i < a \<or> a + n \<le> i \<Longrightarrow> take n (drop a (xs[i := v])) = take n (drop a xs)"
  by (auto intro!: nth_equalityI simp: nth_list_update)

lemma take_drop_update_inside:
  "\<lbrakk>a \<le> i; i < a + n; i < length xs\<rbrakk> \<Longrightarrow>
   take n (drop a (xs[i := v])) = (take n (drop a xs))[i - a := v]"
  by (auto intro!: nth_equalityI simp: nth_list_update)

lemma mod_add_window:
  fixes t k S :: nat
  assumes "t < S" "k < S"
  shows "(t + k) mod S = (if t + k < S then t + k else t + k - S)"
  using assms by (auto simp: mod_if)

section \<open>Arrays\<close>

text \<open>Reading or writing outside an array has no value.\<close>

definition array_get :: "'a list \<Rightarrow> nat \<Rightarrow> 'a option" where
  "array_get xs i = (if i < length xs then Some (xs ! i) else None)"

definition array_set :: "nat \<Rightarrow> 'a \<Rightarrow> 'a list \<Rightarrow> 'a list option" where
  "array_set i x xs = (if i < length xs then Some (xs[i := x]) else None)"

lemma array_get_Some [simp]: "i < length xs \<Longrightarrow> array_get xs i = Some (xs ! i)"
  by (simp add: array_get_def)

lemma array_set_Some [simp]: "i < length xs \<Longrightarrow> array_set i x xs = Some (xs[i := x])"
  by (simp add: array_set_def)

section \<open>Option monad\<close>

lemma bind_eq_SomeE:
  assumes "Option.bind m f = Some y"
  obtains x where "m = Some x" "f x = Some y"
  using assms by (cases m) auto

text \<open>Iterating a fallible step over a list.\<close>

fun fold_opt :: "('a \<Rightarrow> 's \<Rightarrow> 's option) \<Rightarrow> 'a list \<Rightarrow> 's \<Rightarrow> 's option" where
  "fold_opt f [] s = Some s"
| "fold_opt f (x # xs) s = Option.bind (f x s) (fold_opt f xs)"

lemma fold_opt_append: "fold_opt f (xs @ ys) s = Option.bind (fold_opt f xs s) (fold_opt f ys)"
  by (induction xs arbitrary: s) (auto simp: bind_eq_None_conv split: Option.bind_splits)

lemma fold_opt_invariant:
  assumes "\<And>x s s'. \<lbrakk>P s; f x s = Some s'\<rbrakk> \<Longrightarrow> P s'"
  shows "\<lbrakk>P s; fold_opt f xs s = Some s'\<rbrakk> \<Longrightarrow> P s'"
  by (induction xs arbitrary: s) (auto elim!: bind_eq_SomeE dest: assms)

end
