(* ===== verification/PS2_Defs.thy ===== *)
theory PS2_Defs
  imports PS2_Prelude
begin

text \<open>
  The vocabulary of \<^verbatim>\<open>ApplePS2Device.h\<close> and \<^verbatim>\<open>VoodooPS2Controller.h\<close>: command codes of the two i8042
  ports, status and command byte bits, port indices, power states, messages, and the request
  structure the drivers hand to the controller.
\<close>

section \<open>Command codes and register bits\<close>

definition kDP_SetMouseScaling1To1 :: u8 where [simp]: "kDP_SetMouseScaling1To1 = 0xE6"
definition kDP_SetMouseScaling2To1 :: u8 where [simp]: "kDP_SetMouseScaling2To1 = 0xE7"
definition kDP_SetMouseResolution :: u8 where [simp]: "kDP_SetMouseResolution = 0xE8"
definition kDP_GetMouseInformation :: u8 where [simp]: "kDP_GetMouseInformation = 0xE9"
definition kDP_SetMouseStreamMode :: u8 where [simp]: "kDP_SetMouseStreamMode = 0xEA"
definition kDP_MousePoll :: u8 where [simp]: "kDP_MousePoll = 0xEB"
definition kDP_MouseResetWrap :: u8 where [simp]: "kDP_MouseResetWrap = 0xEC"
definition kDP_SetKeyboardLEDs :: u8 where [simp]: "kDP_SetKeyboardLEDs = 0xED"
definition kDP_TestKeyboardEcho :: u8 where [simp]: "kDP_TestKeyboardEcho = 0xEE"
definition kDP_GetSetKeyboardASCs :: u8 where [simp]: "kDP_GetSetKeyboardASCs = 0xF0"
definition kDP_MouseSetPoll :: u8 where [simp]: "kDP_MouseSetPoll = 0xF0"
definition kDP_GetId :: u8 where [simp]: "kDP_GetId = 0xF2"
definition kDP_SetKeyboardTypematic :: u8 where [simp]: "kDP_SetKeyboardTypematic = 0xF3"
definition kDP_SetMouseSampleRate :: u8 where [simp]: "kDP_SetMouseSampleRate = 0xF3"
definition kDP_Enable :: u8 where [simp]: "kDP_Enable = 0xF4"
definition kDP_SetDefaultsAndDisable :: u8 where [simp]: "kDP_SetDefaultsAndDisable = 0xF5"
definition kDP_SetDefaults :: u8 where [simp]: "kDP_SetDefaults = 0xF6"
definition kDP_SetAllTypematic :: u8 where [simp]: "kDP_SetAllTypematic = 0xF7"
definition kDP_SetAllMakeRelease :: u8 where [simp]: "kDP_SetAllMakeRelease = 0xF8"
definition kDP_SetAllMakeOnly :: u8 where [simp]: "kDP_SetAllMakeOnly = 0xF9"
definition kDP_SetAllTypematicMakeRelease :: u8 where [simp]: "kDP_SetAllTypematicMakeRelease = 0xFA"
definition kDP_SetKeyMakeRelease :: u8 where [simp]: "kDP_SetKeyMakeRelease = 0xFB"
definition kDP_SetKeyMakeOnly :: u8 where [simp]: "kDP_SetKeyMakeOnly = 0xFC"
definition kDP_Reset :: u8 where [simp]: "kDP_Reset = 0xFF"
definition kCP_GetCommandByte :: u8 where [simp]: "kCP_GetCommandByte = 0x20"
definition kCP_ReadControllerRAMBase :: u8 where [simp]: "kCP_ReadControllerRAMBase = 0x21"
definition kCP_SetCommandByte :: u8 where [simp]: "kCP_SetCommandByte = 0x60"
definition kCP_WriteControllerRAMBase :: u8 where [simp]: "kCP_WriteControllerRAMBase = 0x61"
definition kCP_TransmitToMuxedMouse :: u8 where [simp]: "kCP_TransmitToMuxedMouse = 0x90"
definition kCP_TestPassword :: u8 where [simp]: "kCP_TestPassword = 0xA4"
definition kCP_GetPassword :: u8 where [simp]: "kCP_GetPassword = 0xA5"
definition kCP_VerifyPassword :: u8 where [simp]: "kCP_VerifyPassword = 0xA6"
definition kCP_DisableMouseClock :: u8 where [simp]: "kCP_DisableMouseClock = 0xA7"
definition kCP_EnableMouseClock :: u8 where [simp]: "kCP_EnableMouseClock = 0xA8"
definition kCP_TestMousePort :: u8 where [simp]: "kCP_TestMousePort = 0xA9"
definition kCP_TestController :: u8 where [simp]: "kCP_TestController = 0xAA"
definition kCP_TestKeyboardPort :: u8 where [simp]: "kCP_TestKeyboardPort = 0xAB"
definition kCP_GetControllerDiagnostic :: u8 where [simp]: "kCP_GetControllerDiagnostic = 0xAC"
definition kCP_DisableKeyboardClock :: u8 where [simp]: "kCP_DisableKeyboardClock = 0xAD"
definition kCP_EnableKeyboardClock :: u8 where [simp]: "kCP_EnableKeyboardClock = 0xAE"
definition kCP_ReadInputPort :: u8 where [simp]: "kCP_ReadInputPort = 0xC0"
definition kCP_PollInputPortLow :: u8 where [simp]: "kCP_PollInputPortLow = 0xC1"
definition kCP_PollInputPortHigh :: u8 where [simp]: "kCP_PollInputPortHigh = 0xC2"
definition kCP_ReadOutputPort :: u8 where [simp]: "kCP_ReadOutputPort = 0xD0"
definition kCP_WriteOutputPort :: u8 where [simp]: "kCP_WriteOutputPort = 0xD1"
definition kCP_WriteKeyboardOutputBuffer :: u8 where [simp]: "kCP_WriteKeyboardOutputBuffer = 0xD2"
definition kCP_WriteMouseOutputBuffer :: u8 where [simp]: "kCP_WriteMouseOutputBuffer = 0xD3"
definition kCP_TransmitToMouse :: u8 where [simp]: "kCP_TransmitToMouse = 0xD4"
definition kCP_ReadTestInputs :: u8 where [simp]: "kCP_ReadTestInputs = 0xE0"
definition kCP_PulseOutputBitBase :: u8 where [simp]: "kCP_PulseOutputBitBase = 0xF0"
definition kCB_EnableKeyboardIRQ :: u8 where [simp]: "kCB_EnableKeyboardIRQ = 0x01"
definition kCB_EnableMouseIRQ :: u8 where [simp]: "kCB_EnableMouseIRQ = 0x02"
definition kCB_SystemFlag :: u8 where [simp]: "kCB_SystemFlag = 0x04"
definition kCB_InhibitOverride :: u8 where [simp]: "kCB_InhibitOverride = 0x08"
definition kCB_DisableKeyboardClock :: u8 where [simp]: "kCB_DisableKeyboardClock = 0x10"
definition kCB_DisableMouseClock :: u8 where [simp]: "kCB_DisableMouseClock = 0x20"
definition kCB_TranslateMode :: u8 where [simp]: "kCB_TranslateMode = 0x40"
definition kLED_ScrollLock :: u8 where [simp]: "kLED_ScrollLock = 0x01"
definition kLED_NumLock :: u8 where [simp]: "kLED_NumLock = 0x02"
definition kLED_CapsLock :: u8 where [simp]: "kLED_CapsLock = 0x04"
definition kSC_Acknowledge :: u8 where [simp]: "kSC_Acknowledge = 0xFA"
definition kSC_Extend :: u8 where [simp]: "kSC_Extend = 0xE0"
definition kSC_Pause :: u8 where [simp]: "kSC_Pause = 0xE1"
definition kSC_Resend :: u8 where [simp]: "kSC_Resend = 0xFE"
definition kSC_Reset :: u8 where [simp]: "kSC_Reset = 0xAA"
definition kSC_UpBit :: u8 where [simp]: "kSC_UpBit = 0x80"
definition kSC_ID :: u8 where [simp]: "kSC_ID = 0x00"
definition kSC_Alt :: u8 where [simp]: "kSC_Alt = 0x38"
definition kSC_Ctrl :: u8 where [simp]: "kSC_Ctrl = 0x1D"
definition kSC_ShiftLeft :: u8 where [simp]: "kSC_ShiftLeft = 0x2A"
definition kSC_ShiftRight :: u8 where [simp]: "kSC_ShiftRight = 0x36"
definition kSC_WindowsLeft :: u8 where [simp]: "kSC_WindowsLeft = 0x5B"
definition kSC_WindowsRight :: u8 where [simp]: "kSC_WindowsRight = 0x5C"
definition kSC_Delete :: u8 where [simp]: "kSC_Delete = 0x53"
definition kSC_NumLock :: u8 where [simp]: "kSC_NumLock = 0x45"
definition kIRQ_Keyboard :: nat where [simp]: "kIRQ_Keyboard = 1"
definition kIRQ_Mouse :: nat where [simp]: "kIRQ_Mouse = 12"
definition kDataPort :: u16 where [simp]: "kDataPort = 0x60"
definition kCommandPort :: u16 where [simp]: "kCommandPort = 0x64"
definition kOutputReady :: u8 where [simp]: "kOutputReady = 0x01"
definition kInputBusy :: u8 where [simp]: "kInputBusy = 0x02"
definition kMouseData :: u8 where [simp]: "kMouseData = 0x20"
definition kDP_MuxCmd :: u8 where [simp]: "kDP_MuxCmd = 0xF0"
definition kDP_EnableMuxCmd1 :: u8 where [simp]: "kDP_EnableMuxCmd1 = 0x56"
definition kDP_GetMuxVersion :: u8 where [simp]: "kDP_GetMuxVersion = 0xA4"
definition kDP_DisableMuxCmd1 :: u8 where [simp]: "kDP_DisableMuxCmd1 = 0xF6"
definition kDP_DisableMuxCmd2 :: u8 where [simp]: "kDP_DisableMuxCmd2 = 0xA5"
definition RESET_CONTROLLER_ON_BOOT :: u32 where [simp]: "RESET_CONTROLLER_ON_BOOT = 1"
definition RESET_CONTROLLER_ON_WAKEUP :: u32 where [simp]: "RESET_CONTROLLER_ON_WAKEUP = 2"
definition PS2_MUX_PORTS :: nat where [simp]: "PS2_MUX_PORTS = 4"
definition PS2_STA_MUX_MASK :: u8 where [simp]: "PS2_STA_MUX_MASK = 0x03"
definition PS2_STA_MUX_SHIFT :: nat where [simp]: "PS2_STA_MUX_SHIFT = 0x06"

section \<open>Port indices and power states\<close>

definition kPS2KbdIdx :: nat where [simp]: "kPS2KbdIdx = 0"
definition kPS2AuxIdx :: nat where [simp]: "kPS2AuxIdx = 1"
definition kPS2AuxMaxIdx :: nat where [simp]: "kPS2AuxMaxIdx = 2"
definition kPS2MuxMaxIdx :: nat where [simp]: "kPS2MuxMaxIdx = PS2_MUX_PORTS + 1"

definition kPS2PowerStateSleep :: u32 where [simp]: "kPS2PowerStateSleep = 0"
definition kPS2PowerStateDoze :: u32 where [simp]: "kPS2PowerStateDoze = 1"
definition kPS2PowerStateNormal :: u32 where [simp]: "kPS2PowerStateNormal = 2"

datatype PS2PowerWhat = kPS2C_DisableDevice | kPS2C_EnableDevice

datatype PS2InterruptResult = kPS2IR_packetReady | kPS2IR_packetBuffering

section \<open>Commands and requests\<close>

datatype PS2CommandEnum =
    kPS2C_ReadDataPort
  | kPS2C_ReadDataPortAndCompare
  | kPS2C_WriteDataPort
  | kPS2C_SendCommandAndCompareAck
  | kPS2C_FlushDataPort
  | kPS2C_SleepMS
  | kPS2C_ModifyCommandByte

text \<open>
  The union of \<^verbatim>\<open>PS2Command\<close> is its 32-bit member; the byte members are read from and written
  into it in little-endian order: \<^verbatim>\<open>inOrOut\<close> and \<^verbatim>\<open>setBits\<close> are byte 0, \<^verbatim>\<open>clearBits\<close> is byte 1 and
  \<^verbatim>\<open>oldBits\<close> is byte 2.
\<close>

record PS2Command =
  command :: PS2CommandEnum
  inOrOut32 :: u32

definition get_byte :: "nat \<Rightarrow> u32 \<Rightarrow> u8" where
  "get_byte k w = ucast (drop_bit (8 * k) w)"

definition put_byte :: "nat \<Rightarrow> u8 \<Rightarrow> u32 \<Rightarrow> u32" where
  "put_byte k b w = (w AND NOT (push_bit (8 * k) 0xFF)) OR push_bit (8 * k) (ucast b)"

definition inOrOut :: "PS2Command \<Rightarrow> u8" where "inOrOut cmd = get_byte 0 (inOrOut32 cmd)"
definition setBits :: "PS2Command \<Rightarrow> u8" where "setBits cmd = get_byte 0 (inOrOut32 cmd)"
definition clearBits :: "PS2Command \<Rightarrow> u8" where "clearBits cmd = get_byte 1 (inOrOut32 cmd)"
definition oldBits :: "PS2Command \<Rightarrow> u8" where "oldBits cmd = get_byte 2 (inOrOut32 cmd)"

definition set_inOrOut :: "u8 \<Rightarrow> PS2Command \<Rightarrow> PS2Command" where
  "set_inOrOut b cmd = cmd\<lparr>inOrOut32 := put_byte 0 b (inOrOut32 cmd)\<rparr>"

definition set_oldBits :: "u8 \<Rightarrow> PS2Command \<Rightarrow> PS2Command" where
  "set_oldBits b cmd = cmd\<lparr>inOrOut32 := put_byte 2 b (inOrOut32 cmd)\<rparr>"

text \<open>The command as the callers fill it in: one byte argument, or set and clear masks.\<close>

definition cmd_byte :: "PS2CommandEnum \<Rightarrow> u8 \<Rightarrow> PS2Command" where
  "cmd_byte k b = \<lparr>command = k, inOrOut32 = ucast b\<rparr>"

definition cmd_bits :: "u8 \<Rightarrow> u8 \<Rightarrow> PS2Command" where
  "cmd_bits s c = \<lparr>command = kPS2C_ModifyCommandByte, inOrOut32 = put_byte 1 c (ucast s)\<rparr>"

text \<open>
  The completion target decides what happens to a request once it is processed: null (the
  controller frees it), the marker of a request on the stack, or the address of a client object.
\<close>

datatype PS2CompletionTarget = NullTarget | kStackCompletionTarget | ClientTarget nat

record PS2Request =
  req_port :: nat
  commandsCount :: u8
  completionTarget :: PS2CompletionTarget
  completionAction :: bool
  completionParam :: nat
  commands :: "PS2Command list"

definition newPS2Request :: "nat \<Rightarrow> PS2Request" where
  "newPS2Request n = \<lparr>req_port = 0, commandsCount = 0, completionTarget = NullTarget,
     completionAction = False, completionParam = 0,
     commands = replicate n \<lparr>command = kPS2C_ReadDataPort, inOrOut32 = 0\<rparr>\<rparr>"

definition TPS2Request :: "PS2Command list \<Rightarrow> PS2Request" where
  "TPS2Request cmds = \<lparr>req_port = 0, commandsCount = of_nat (length cmds),
     completionTarget = kStackCompletionTarget, completionAction = False, completionParam = 0,
     commands = cmds\<rparr>"

section \<open>Messages between the drivers\<close>

record PS2KeyInfo =
  key_time :: u64
  adbKeyCode :: u16
  goingDown :: bool
  eatKey :: bool

datatype PS2Message =
    kPS2M_setDisableTouchpad bool
  | kPS2M_getDisableTouchpad
  | kPS2M_notifyKeyPressed PS2KeyInfo
  | kPS2M_notifyKeyTime u64
  | kPS2M_resetTouchpad int
  | kPS2K_setKeyboardStatus bool
  | kPS2K_getKeyboardStatus
  | kPS2K_notifyKeystroke PS2KeyInfo

section \<open>Byte access to the command union\<close>

lemma bit_get_byte: "bit (get_byte k w) n \<longleftrightarrow> n < 8 \<and> bit w (n + 8 * k)"
  by (auto simp: get_byte_def bit_ucast_iff bit_drop_bit_eq add.commute possible_bit_word)

lemma bit_put_byte:
  "bit (put_byte k b w) n \<longleftrightarrow>
   n < 32 \<and> (if 8 * k \<le> n \<and> n < 8 * k + 8 then bit b (n - 8 * k) else bit w n)"
proof -
  have ff: "(0xFF :: u32) = mask 8" by (simp add: mask_eq_exp_minus_1)
  show ?thesis unfolding put_byte_def ff
    by (auto simp: bit_or_iff bit_and_iff bit_not_iff bit_push_bit_iff bit_ucast_iff bit_mask_iff
        possible_bit_word dest: bit_imp_le_length)
qed

lemma get_put_byte [simp]: "k < 4 \<Longrightarrow> get_byte k (put_byte k b w) = b"
  by (rule bit_word_eqI) (auto simp: bit_get_byte bit_put_byte)

lemma get_put_other [simp]: "j \<noteq> k \<Longrightarrow> get_byte j (put_byte k b w) = get_byte j w"
  by (rule bit_word_eqI) (auto simp: bit_get_byte bit_put_byte dest: bit_imp_le_length)

lemma get_byte_ucast [simp]: "get_byte 0 (ucast (b :: u8)) = b"
  by (rule bit_word_eqI) (auto simp: bit_get_byte bit_ucast_iff)

lemma cmd_simps [simp]:
  "inOrOut (cmd_byte k b) = b" "command (cmd_byte k b) = k"
  "setBits (cmd_bits s c) = s" "clearBits (cmd_bits s c) = c"
  "command (cmd_bits s c) = kPS2C_ModifyCommandByte"
  "inOrOut (set_inOrOut b cmd) = b" "command (set_inOrOut b cmd) = command cmd"
  "oldBits (set_oldBits b cmd) = b" "command (set_oldBits b cmd) = command cmd"
  "setBits (set_oldBits b cmd) = setBits cmd" "clearBits (set_oldBits b cmd) = clearBits cmd"
  by (simp_all add: inOrOut_def setBits_def clearBits_def oldBits_def set_inOrOut_def
      set_oldBits_def cmd_byte_def cmd_bits_def)

lemma TPS2Request_simps [simp]:
  "commands (TPS2Request cmds) = cmds"
  "completionTarget (TPS2Request cmds) = kStackCompletionTarget"
  "commandsCount (TPS2Request cmds) = of_nat (length cmds)"
  by (simp_all add: TPS2Request_def)

end
