(* ===== verification/PS2_Controller.thy ===== *)
theory PS2_Controller
  imports PS2_Defs
begin

text \<open>
  The i8042 controller driver, \<^verbatim>\<open>ApplePS2Controller\<close> of \<^verbatim>\<open>VoodooPS2Controller.cpp\<close>, with the part of
  the device nub (\<^verbatim>\<open>ApplePS2Device.cpp\<close>) it calls back into.

  The state \<open>ctl\<close> holds the members of the class; \<open>hw\<close> is the hardware behind the I/O ports and
  \<open>clients\<close> the state of the attached drivers. What the kernel, the hardware and the drivers do is
  the record \<open>env\<close>, an argument of every operation that reaches them. An operation returns \<open>None\<close>
  when it does not return: a null device is dereferenced, an array is left, or a polling loop
  exceeds the number of iterations \<open>fuel\<close>. Delays of a few microseconds have no effect on the
  model; \<^verbatim>\<open>IOSleep\<close> passes time in the hardware.
\<close>

section \<open>State\<close>

text \<open>
  A nub: which of its function pointers are set, and whether its event source was signalled
  since the work loop last served it.
\<close>

record nub =
  nub_port :: nat
  nub_client :: bool
  nub_interrupt_action :: bool
  nub_packet_action :: bool
  nub_power_action :: bool
  nub_signalled :: bool

record ('h, 'c) ctl =
  hw :: 'h
  clients :: 'c
  requestQueue :: "PS2Request list"
  interruptInstalledKeyboard :: bool
  interruptInstalledMouse :: int
  ignoreInterrupts :: int
  ignoreOutOfOrder :: int
  devices :: "nub option list"
  currentPowerState :: u32
  hardwareOffline :: bool
  suppressTimeout :: bool
  wakedelay :: u32
  mouseWakeFirst :: bool
  muxPresent :: bool
  nubsCount :: nat
  resetControllerFlag :: u32
  kbdOnly :: bool

record ('h, 'c) env =
  inb :: "u16 \<Rightarrow> 'h \<Rightarrow> u8 \<times> 'h"
  outb :: "u16 \<Rightarrow> u8 \<Rightarrow> 'h \<Rightarrow> 'h"
  IOSleep :: "u32 \<Rightarrow> 'h \<Rightarrow> 'h"
  enableInterrupt :: "nat \<Rightarrow> 'h \<Rightarrow> 'h"
  disableInterrupt :: "nat \<Rightarrow> 'h \<Rightarrow> 'h"
  interruptOccurred :: "nat \<Rightarrow> u8 \<Rightarrow> 'c \<Rightarrow> PS2InterruptResult \<times> 'c"
  packetReady :: "nat \<Rightarrow> 'c \<Rightarrow> 'c"
  setDevicePowerState :: "nat \<Rightarrow> PS2PowerWhat \<Rightarrow> ('h, 'c) ctl \<Rightarrow> ('h, 'c) ctl option"
  complete :: "nat \<Rightarrow> nat \<Rightarrow> 'c \<Rightarrow> 'c"
  fuel :: nat

section \<open>The nub's side of the callbacks\<close>

definition device_at :: "nat \<Rightarrow> ('h, 'c) ctl \<Rightarrow> nub option" where
  "device_at p c = (if p < length (devices c) then devices c ! p else None)"

definition nub_interruptAction ::
  "('h, 'c) env \<Rightarrow> nub \<Rightarrow> u8 \<Rightarrow> 'c \<Rightarrow> PS2InterruptResult \<times> 'c" where
  "nub_interruptAction e d data cl =
     (if \<not> nub_client d \<or> \<not> nub_interrupt_action d then (kPS2IR_packetBuffering, cl)
      else interruptOccurred e (nub_port d) data cl)"

definition nub_packetActionInterrupt :: "nub \<Rightarrow> nub" where
  "nub_packetActionInterrupt d = d\<lparr>nub_signalled := True\<rparr>"

definition nub_powerAction ::
  "('h, 'c) env \<Rightarrow> nub \<Rightarrow> PS2PowerWhat \<Rightarrow> ('h, 'c) ctl \<Rightarrow> ('h, 'c) ctl option" where
  "nub_powerAction e d whatToDo c =
     (if \<not> nub_client d \<or> \<not> nub_power_action d then Some c
      else setDevicePowerState e (nub_port d) whatToDo c)"

definition nub_packetAction :: "('h, 'c) env \<Rightarrow> nub \<Rightarrow> 'c \<Rightarrow> 'c" where
  "nub_packetAction e d cl =
     (if \<not> nub_client d \<or> \<not> nub_packet_action d then cl else packetReady e (nub_port d) cl)"

section \<open>Port access\<close>

definition c_inb :: "('h, 'c) env \<Rightarrow> u16 \<Rightarrow> ('h, 'c) ctl \<Rightarrow> u8 \<times> ('h, 'c) ctl" where
  "c_inb e p c = (let (b, h) = inb e p (hw c) in (b, c\<lparr>hw := h\<rparr>))"

definition c_outb :: "('h, 'c) env \<Rightarrow> u16 \<Rightarrow> u8 \<Rightarrow> ('h, 'c) ctl \<Rightarrow> ('h, 'c) ctl" where
  "c_outb e p b c = c\<lparr>hw := outb e p b (hw c)\<rparr>"

fun waitInput :: "('h, 'c) env \<Rightarrow> nat \<Rightarrow> ('h, 'c) ctl \<Rightarrow> ('h, 'c) ctl option" where
  "waitInput e 0 c = None"
| "waitInput e (Suc n) c =
     (let (status, c) = c_inb e kCommandPort c
      in if status AND kInputBusy \<noteq> 0 then waitInput e n c else Some c)"

definition writeDataPort :: "('h, 'c) env \<Rightarrow> u8 \<Rightarrow> ('h, 'c) ctl \<Rightarrow> ('h, 'c) ctl option" where
  "writeDataPort e byte c = do {
     c \<leftarrow> waitInput e (fuel e) c;
     Some (c_outb e kDataPort byte c)
   }"

definition writeCommandPort :: "('h, 'c) env \<Rightarrow> u8 \<Rightarrow> ('h, 'c) ctl \<Rightarrow> ('h, 'c) ctl option" where
  "writeCommandPort e byte c = do {
     c \<leftarrow> waitInput e (fuel e) c;
     Some (c_outb e kCommandPort byte c)
   }"

text \<open>The flush loop also counts the bytes it drops (\<^verbatim>\<open>kPS2C_FlushDataPort\<close> reports the count).\<close>

fun flushLoop :: "('h, 'c) env \<Rightarrow> nat \<Rightarrow> u32 \<Rightarrow> ('h, 'c) ctl \<Rightarrow> (u32 \<times> ('h, 'c) ctl) option" where
  "flushLoop e 0 n c = None"
| "flushLoop e (Suc k) n c =
     (let (status, c) = c_inb e kCommandPort c
      in if status AND kOutputReady \<noteq> 0
         then let (_, c) = c_inb e kDataPort c in flushLoop e k (n + 1) c
         else Some (n, c))"

definition flushDataPort :: "('h, 'c) env \<Rightarrow> ('h, 'c) ctl \<Rightarrow> ('h, 'c) ctl option" where
  "flushDataPort e c = map_option snd (flushLoop e (fuel e) 0 c)"

definition getPortFromStatus :: "bool \<Rightarrow> u8 \<Rightarrow> nat" where
  "getPortFromStatus mux status =
     (let auxPort = (status AND kMouseData \<noteq> 0);
          p = (if auxPort then kPS2AuxIdx else kPS2KbdIdx)
      in if mux \<and> auxPort
         then p + unat (drop_bit PS2_STA_MUX_SHIFT status AND PS2_STA_MUX_MASK) else p)"

section \<open>Interrupt dispatch\<close>

definition dispatchDriverInterrupt0 ::
  "('h, 'c) env \<Rightarrow> nat \<Rightarrow> u8 \<Rightarrow> ('h, 'c) ctl \<Rightarrow> (PS2InterruptResult \<times> ('h, 'c) ctl) option" where
  "dispatchDriverInterrupt0 e p data c =
     (if p \<ge> kPS2AuxIdx \<and> interruptInstalledMouse c \<noteq> 0 then do {
        d \<leftarrow> device_at p c;
        let (result, cl) = nub_interruptAction e d data (clients c);
        Some (result, c\<lparr>clients := cl\<rparr>)
      }
      else if kPS2KbdIdx = p \<and> interruptInstalledKeyboard c then do {
        d \<leftarrow> device_at kPS2KbdIdx c;
        let (result, cl) = nub_interruptAction e d data (clients c);
        Some (result, c\<lparr>clients := cl\<rparr>)
      }
      else Some (kPS2IR_packetBuffering, c))"

definition signalDevice :: "nat \<Rightarrow> ('h, 'c) ctl \<Rightarrow> ('h, 'c) ctl option" where
  "signalDevice p c = do {
     d \<leftarrow> device_at p c;
     Some (c\<lparr>devices := (devices c)[p := Some (nub_packetActionInterrupt d)]\<rparr>)
   }"

definition dispatchDriverInterrupt ::
  "('h, 'c) env \<Rightarrow> nat \<Rightarrow> u8 \<Rightarrow> ('h, 'c) ctl \<Rightarrow> ('h, 'c) ctl option" where
  "dispatchDriverInterrupt e p data c = do {
     (result, c) \<leftarrow> dispatchDriverInterrupt0 e p data c;
     if kPS2IR_packetReady = result then signalDevice p c else Some c
   }"

section \<open>Reading the data port\<close>

text \<open>\<open>waitOutput\<close> is the inner loop: what is left of the timeout counter, and the last status.\<close>

fun waitOutput :: "('h, 'c) env \<Rightarrow> nat \<Rightarrow> u8 \<Rightarrow> ('h, 'c) ctl \<Rightarrow> nat \<times> u8 \<times> ('h, 'c) ctl" where
  "waitOutput e 0 status c = (0, status, c)"
| "waitOutput e (Suc n) status c =
     (let (status, c) = c_inb e kCommandPort c
      in if status AND kOutputReady \<noteq> 0 then (Suc n, status, c) else waitOutput e n status c)"

fun readLoop ::
  "('h, 'c) env \<Rightarrow> nat \<Rightarrow> nat \<Rightarrow> u8 \<Rightarrow> nat \<Rightarrow> ('h, 'c) ctl \<Rightarrow> (u8 \<times> ('h, 'c) ctl) option" where
  "readLoop e 0 timeoutCounter status expectedPort c = None"
| "readLoop e (Suc k) timeoutCounter status expectedPort c =
     (let (timeoutCounter, status, c) = waitOutput e timeoutCounter status c
      in if timeoutCounter = 0 then Some (0, c)
         else let (readByte, c) = c_inb e kDataPort c
           in if suppressTimeout c then Some (readByte, c)
              else let p = getPortFromStatus (muxPresent c) status
                in if expectedPort = p then Some (readByte, c)
                   else do {
                     c \<leftarrow> dispatchDriverInterrupt e p readByte c;
                     readLoop e k timeoutCounter status expectedPort c
                   })"

definition readDataPort ::
  "('h, 'c) env \<Rightarrow> nat \<Rightarrow> ('h, 'c) ctl \<Rightarrow> (u8 \<times> ('h, 'c) ctl) option" where
  "readDataPort e expectedPort c = readLoop e (fuel e) 20000 0 expectedPort c"

text \<open>
  The second form expects a byte. \<open>held\<close> is \<^verbatim>\<open>firstByteHeld\<close> with \<^verbatim>\<open>firstByte\<close>: \<open>None\<close> until a
  byte of the right port that differs from the expected one has been put aside.
\<close>

definition dispatchUnlessIgnored ::
  "('h, 'c) env \<Rightarrow> nat \<Rightarrow> u8 \<Rightarrow> ('h, 'c) ctl \<Rightarrow> ('h, 'c) ctl option" where
  "dispatchUnlessIgnored e p b c =
     (if ignoreOutOfOrder c = 0 then dispatchDriverInterrupt e p b c else Some c)"

fun readExpLoop ::
  "('h, 'c) env \<Rightarrow> nat \<Rightarrow> nat \<Rightarrow> u8 \<Rightarrow> u8 option \<Rightarrow> nat \<Rightarrow> u8 \<Rightarrow> ('h, 'c) ctl \<Rightarrow>
   (u8 \<times> ('h, 'c) ctl) option" where
  "readExpLoop e 0 timeoutCounter status held expectedPort expectedByte c = None"
| "readExpLoop e (Suc k) timeoutCounter status held expectedPort expectedByte c =
     (let (timeoutCounter, status, c) = waitOutput e timeoutCounter status c
      in if timeoutCounter = 0
         then Some (case held of Some firstByte \<Rightarrow> firstByte | None \<Rightarrow> 0, c)
         else let (readByte, c) = c_inb e kDataPort c;
                  p = getPortFromStatus (muxPresent c) status
           in if expectedPort = p
              then (if readByte = expectedByte
                    then (case held of
                            None \<Rightarrow> Some (readByte, c)
                          | Some firstByte \<Rightarrow> do {
                              c \<leftarrow> dispatchUnlessIgnored e expectedPort firstByte c;
                              Some (readByte, c)
                            })
                    else (case held of
                            None \<Rightarrow>
                              readExpLoop e k timeoutCounter status (Some readByte)
                                expectedPort expectedByte c
                          | Some firstByte \<Rightarrow> do {
                              c \<leftarrow> dispatchUnlessIgnored e expectedPort readByte c;
                              Some (firstByte, c)
                            }))
              else do {
                c \<leftarrow> dispatchUnlessIgnored e p readByte c;
                readExpLoop e k timeoutCounter status held expectedPort expectedByte c
              })"

definition readDataPortExpect ::
  "('h, 'c) env \<Rightarrow> nat \<Rightarrow> u8 \<Rightarrow> ('h, 'c) ctl \<Rightarrow> (u8 \<times> ('h, 'c) ctl) option" where
  "readDataPortExpect e expectedPort expectedByte c =
     readExpLoop e (fuel e) 10000 0 None expectedPort expectedByte c"

section \<open>Controller commands\<close>

definition setCommandByteGated ::
  "('h, 'c) env \<Rightarrow> PS2Command \<Rightarrow> ('h, 'c) ctl \<Rightarrow> (PS2Command \<times> ('h, 'c) ctl) option" where
  "setCommandByteGated e cmd c = do {
     let c = c\<lparr>ignoreInterrupts := ignoreInterrupts c + 1\<rparr>;
     c \<leftarrow> writeCommandPort e kCP_GetCommandByte c;
     (oldCommandByte, c) \<leftarrow> readDataPort e kPS2KbdIdx c;
     let c = c\<lparr>ignoreInterrupts := ignoreInterrupts c - 1\<rparr>;
     let newCommandByte = (oldCommandByte OR setBits cmd) AND NOT (clearBits cmd);
     c \<leftarrow> (if oldCommandByte \<noteq> newCommandByte
          then do {
            c \<leftarrow> writeCommandPort e kCP_SetCommandByte c;
            writeDataPort e newCommandByte c
          }
          else Some c);
     Some (set_oldBits oldCommandByte cmd, c)
   }"

definition setCommandByte ::
  "('h, 'c) env \<Rightarrow> u8 \<Rightarrow> u8 \<Rightarrow> ('h, 'c) ctl \<Rightarrow> (u8 \<times> ('h, 'c) ctl) option" where
  "setCommandByte e s cl c = do {
     (cmd, c) \<leftarrow> setCommandByteGated e (cmd_bits s cl) c;
     Some (oldBits cmd, c)
   }"

definition muxed_write :: "('h, 'c) env \<Rightarrow> u8 \<Rightarrow> ('h, 'c) ctl \<Rightarrow> ('h, 'c) ctl option" where
  "muxed_write e param c = do {
     c \<leftarrow> writeCommandPort e kCP_WriteMouseOutputBuffer c;
     writeDataPort e param c
   }"

definition setMuxMode :: "('h, 'c) env \<Rightarrow> bool \<Rightarrow> ('h, 'c) ctl \<Rightarrow> (bool \<times> ('h, 'c) ctl) option" where
  "setMuxMode e enable c = do {
     let param = kDP_MuxCmd;
     c \<leftarrow> muxed_write e param c;
     (b, c) \<leftarrow> readDataPort e kPS2AuxIdx c;
     if b \<noteq> param then Some (False, c) else do {
       let param = (if enable then kDP_EnableMuxCmd1 else kDP_DisableMuxCmd1);
       c \<leftarrow> muxed_write e param c;
       (b, c) \<leftarrow> readDataPort e kPS2AuxIdx c;
       if b \<noteq> param then Some (False, c) else do {
         let param = (if enable then kDP_GetMuxVersion else kDP_DisableMuxCmd2);
         c \<leftarrow> muxed_write e param c;
         (ver, c) \<leftarrow> readDataPort e kPS2AuxIdx c;
         Some (\<not> (enable \<and> ver = param \<or> \<not> enable \<and> ver \<noteq> param), c)
       }
     }
   }"

fun enableMuxLoop :: "('h, 'c) env \<Rightarrow> nat \<Rightarrow> nat \<Rightarrow> ('h, 'c) ctl \<Rightarrow> ('h, 'c) ctl option" where
  "enableMuxLoop e i 0 c = Some c"
| "enableMuxLoop e i (Suc n) c = do {
     c \<leftarrow> writeCommandPort e (kCP_TransmitToMuxedMouse + of_nat i) c;
     c \<leftarrow> writeCommandPort e kCP_EnableMouseClock c;
     enableMuxLoop e (Suc i) n c
   }"

definition enableMuxPorts :: "('h, 'c) env \<Rightarrow> ('h, 'c) ctl \<Rightarrow> ('h, 'c) ctl option" where
  "enableMuxPorts e c = enableMuxLoop e 0 PS2_MUX_PORTS c"

section \<open>Requests\<close>

definition transmitPrefix ::
  "('h, 'c) env \<Rightarrow> nat \<Rightarrow> ('h, 'c) ctl \<Rightarrow> ('h, 'c) ctl option" where
  "transmitPrefix e devicePort c =
     (if devicePort \<ge> kPS2AuxIdx
      then if muxPresent c
           then writeCommandPort e (kCP_TransmitToMuxedMouse + of_nat (devicePort - kPS2AuxIdx)) c
           else writeCommandPort e kCP_TransmitToMouse c
      else Some c)"

text \<open>One command: whether it failed, the command with its result, the new state.\<close>

definition runCommand ::
  "('h, 'c) env \<Rightarrow> nat \<Rightarrow> PS2Command \<Rightarrow> ('h, 'c) ctl \<Rightarrow>
   (bool \<times> PS2Command \<times> ('h, 'c) ctl) option" where
  "runCommand e devicePort cmd c = (case command cmd of
     kPS2C_ReadDataPort \<Rightarrow> do {
       (byte, c) \<leftarrow> readDataPort e devicePort c;
       Some (False, set_inOrOut byte cmd, c)
     }
   | kPS2C_ReadDataPortAndCompare \<Rightarrow> do {
       (byte, c) \<leftarrow> readDataPortExpect e devicePort (inOrOut cmd) c;
       Some (byte \<noteq> inOrOut cmd, set_inOrOut byte cmd, c)
     }
   | kPS2C_WriteDataPort \<Rightarrow> do {
       c \<leftarrow> transmitPrefix e devicePort c;
       c \<leftarrow> writeDataPort e (inOrOut cmd) c;
       Some (False, cmd, c)
     }
   | kPS2C_SendCommandAndCompareAck \<Rightarrow> do {
       c \<leftarrow> transmitPrefix e devicePort c;
       c \<leftarrow> writeDataPort e (inOrOut cmd) c;
       (byte, c) \<leftarrow> readDataPortExpect e devicePort kSC_Acknowledge c;
       Some (byte \<noteq> kSC_Acknowledge, cmd, c)
     }
   | kPS2C_FlushDataPort \<Rightarrow> do {
       (n, c) \<leftarrow> flushLoop e (fuel e) 0 c;
       Some (False, cmd\<lparr>inOrOut32 := n\<rparr>, c)
     }
   | kPS2C_SleepMS \<Rightarrow> Some (False, cmd, c\<lparr>hw := IOSleep e (inOrOut32 cmd) (hw c)\<rparr>)
   | kPS2C_ModifyCommandByte \<Rightarrow> do {
       c \<leftarrow> writeCommandPort e kCP_GetCommandByte c;
       (commandByte, c) \<leftarrow> readDataPort e kPS2KbdIdx c;
       c \<leftarrow> writeCommandPort e kCP_SetCommandByte c;
       c \<leftarrow> writeDataPort e ((commandByte OR setBits cmd) AND NOT (clearBits cmd)) c;
       Some (False, set_oldBits commandByte cmd, c)
     })"

text \<open>
  The command loop from \<open>index\<close> on, \<open>left\<close> iterations before \<^verbatim>\<open>commandsCount\<close>: the failure flag, the
  index at which it stopped, the request's command array.
\<close>

fun runCommands ::
  "('h, 'c) env \<Rightarrow> nat \<Rightarrow> nat \<Rightarrow> nat \<Rightarrow> PS2Command list \<Rightarrow> ('h, 'c) ctl \<Rightarrow>
   (bool \<times> nat \<times> PS2Command list \<times> ('h, 'c) ctl) option" where
  "runCommands e devicePort index 0 cmds c = Some (False, index, cmds, c)"
| "runCommands e devicePort index (Suc left) cmds c =
     (if index < length cmds then do {
        (failed, cmd, c) \<leftarrow> runCommand e devicePort (cmds ! index) c;
        let cmds = cmds[index := cmd];
        if failed then Some (True, index, cmds, c)
        else runCommands e devicePort (Suc index) left cmds c
      } else None)"

datatype disposal = Completed nat nat | Freed | LeftOnStack

definition disposeRequest ::
  "('h, 'c) env \<Rightarrow> PS2Request \<Rightarrow> ('h, 'c) ctl \<Rightarrow> disposal \<times> ('h, 'c) ctl" where
  "disposeRequest e r c = (case completionTarget r of
     ClientTarget t \<Rightarrow>
       if completionAction r
       then (Completed t (completionParam r), c\<lparr>clients := complete e t (completionParam r) (clients c)\<rparr>)
       else (Freed, c)
   | kStackCompletionTarget \<Rightarrow> (LeftOnStack, c)
   | NullTarget \<Rightarrow> (Freed, c))"

definition processRequest ::
  "('h, 'c) env \<Rightarrow> PS2Request \<Rightarrow> ('h, 'c) ctl \<Rightarrow> (disposal \<times> PS2Request \<times> ('h, 'c) ctl) option" where
  "processRequest e r c = do {
     (failed, index, cmds, c) \<leftarrow>
       (if hardwareOffline c then Some (True, 0, commands r, c)
        else do {
          let c = c\<lparr>ignoreInterrupts := ignoreInterrupts c + 1\<rparr>;
          (failed, index, cmds, c) \<leftarrow>
            runCommands e (req_port r) 0 (unat (commandsCount r)) (commands r) c;
          Some (failed, index, cmds, c\<lparr>ignoreInterrupts := ignoreInterrupts c - 1\<rparr>)
        });
     let r = r\<lparr>commands := cmds\<rparr>;
     let r = (if failed then r\<lparr>commandsCount := of_nat index\<rparr> else r);
     let (d, c) = disposeRequest e r c;
     Some (d, r, c)
   }"

fun processRequests ::
  "('h, 'c) env \<Rightarrow> PS2Request list \<Rightarrow> ('h, 'c) ctl \<Rightarrow>
   ((disposal \<times> PS2Request) list \<times> ('h, 'c) ctl) option" where
  "processRequests e [] c = Some ([], c)"
| "processRequests e (r # localQueue) c = do {
     (d, r', c) \<leftarrow> processRequest e r c;
     (ds, c) \<leftarrow> processRequests e localQueue c;
     Some ((d, r') # ds, c)
   }"

definition processRequestQueue ::
  "('h, 'c) env \<Rightarrow> ('h, 'c) ctl \<Rightarrow> ((disposal \<times> PS2Request) list \<times> ('h, 'c) ctl) option" where
  "processRequestQueue e c = processRequests e (requestQueue c) (c\<lparr>requestQueue := []\<rparr>)"

definition submitRequest :: "PS2Request \<Rightarrow> ('h, 'c) ctl \<Rightarrow> bool \<times> ('h, 'c) ctl" where
  "submitRequest r c = (True, c\<lparr>requestQueue := requestQueue c @ [r]\<rparr>)"

definition submitRequestAndBlock ::
  "('h, 'c) env \<Rightarrow> PS2Request \<Rightarrow> ('h, 'c) ctl \<Rightarrow> (PS2Request \<times> ('h, 'c) ctl) option" where
  "submitRequestAndBlock e r c = do {
     (_, c) \<leftarrow> processRequestQueue e c;
     (_, r, c) \<leftarrow> processRequest e r c;
     Some (r, c)
   }"

section \<open>Interrupt handlers\<close>

text \<open>
  The loop of \<^verbatim>\<open>handleInterrupt\<close>; \<open>wakePort\<close> has one entry per port. Afterwards the nubs of the
  ports that completed a packet are signalled, in order of the port.
\<close>

fun interruptLoop ::
  "('h, 'c) env \<Rightarrow> nat \<Rightarrow> bool list \<Rightarrow> ('h, 'c) ctl \<Rightarrow> (bool list \<times> ('h, 'c) ctl) option" where
  "interruptLoop e 0 wakePort c = None"
| "interruptLoop e (Suc k) wakePort c =
     (let (status, c) = c_inb e kCommandPort c
      in if status AND kOutputReady = 0 then Some (wakePort, c)
         else let (data, c) = c_inb e kDataPort c;
                  p = getPortFromStatus (muxPresent c) status
           in do {
             (result, c) \<leftarrow> dispatchDriverInterrupt0 e p data c;
             if kPS2IR_packetReady = result
             then (if p < length wakePort then interruptLoop e k (wakePort[p := True]) c else None)
             else interruptLoop e k wakePort c
           })"

fun wakeLoop :: "nat \<Rightarrow> nat \<Rightarrow> bool list \<Rightarrow> ('h, 'c) ctl \<Rightarrow> ('h, 'c) ctl option" where
  "wakeLoop i 0 wakePort c = Some c"
| "wakeLoop i (Suc n) wakePort c =
     (if i < length wakePort
      then do {
        c \<leftarrow> (if wakePort ! i then signalDevice i c else Some c);
        wakeLoop (Suc i) n wakePort c
      }
      else None)"

definition handleInterrupt :: "('h, 'c) env \<Rightarrow> ('h, 'c) ctl \<Rightarrow> ('h, 'c) ctl option" where
  "handleInterrupt e c = do {
     (wakePort, c) \<leftarrow> interruptLoop e (fuel e) (replicate kPS2MuxMaxIdx False) c;
     wakeLoop kPS2KbdIdx (nubsCount c) wakePort c
   }"

definition interruptHandlerMouse :: "('h, 'c) env \<Rightarrow> ('h, 'c) ctl \<Rightarrow> ('h, 'c) ctl option" where
  "interruptHandlerMouse e c = (if ignoreInterrupts c \<noteq> 0 then Some c else handleInterrupt e c)"

definition interruptHandlerKeyboard :: "('h, 'c) env \<Rightarrow> ('h, 'c) ctl \<Rightarrow> ('h, 'c) ctl option" where
  "interruptHandlerKeyboard e c = (if ignoreInterrupts c \<noteq> 0 then Some c else handleInterrupt e c)"

end
