(* ===== verification/PS2_Requests.thy ===== *)
theory PS2_Requests
  imports PS2_Controller
begin

text \<open>
  What the port level and the request machinery of the controller guarantee: the members they
  leave alone, the exact trace of bytes they put on the bus, where a request stops, that requests
  are processed in order and disposed of once, and that an interrupt byte always finds a device.
\<close>

section \<open>The members an I/O operation leaves alone\<close>

text \<open>
  \<open>core\<close> is the controller state without the hardware, the drivers and the event signals. Port
  I/O and byte delivery change nothing of it.
\<close>

definition unsignalled :: "nub \<Rightarrow> nub" where
  "unsignalled d = d\<lparr>nub_signalled := False\<rparr>"

definition core :: "('h, 'c) ctl \<Rightarrow> (unit, unit) ctl" where
  "core c = \<lparr>hw = (), clients = (), requestQueue = requestQueue c,
     interruptInstalledKeyboard = interruptInstalledKeyboard c,
     interruptInstalledMouse = interruptInstalledMouse c,
     ignoreInterrupts = ignoreInterrupts c, ignoreOutOfOrder = ignoreOutOfOrder c,
     devices = map (map_option unsignalled) (devices c),
     currentPowerState = currentPowerState c, hardwareOffline = hardwareOffline c,
     suppressTimeout = suppressTimeout c, wakedelay = wakedelay c,
     mouseWakeFirst = mouseWakeFirst c, muxPresent = muxPresent c, nubsCount = nubsCount c,
     resetControllerFlag = resetControllerFlag c, kbdOnly = kbdOnly c\<rparr>"

lemma core_update [simp]:
  "core (c\<lparr>hw := h\<rparr>) = core c"
  "core (c\<lparr>clients := cl\<rparr>) = core c"
  "core (c\<lparr>ignoreInterrupts := i\<rparr>) = (core c)\<lparr>ignoreInterrupts := i\<rparr>"
  "core (c\<lparr>requestQueue := q\<rparr>) = (core c)\<lparr>requestQueue := q\<rparr>"
  "core (c\<lparr>hardwareOffline := b\<rparr>) = (core c)\<lparr>hardwareOffline := b\<rparr>"
  "core (c\<lparr>suppressTimeout := b\<rparr>) = (core c)\<lparr>suppressTimeout := b\<rparr>"
  "core (c\<lparr>currentPowerState := p\<rparr>) = (core c)\<lparr>currentPowerState := p\<rparr>"
  "core (c\<lparr>interruptInstalledMouse := m\<rparr>) = (core c)\<lparr>interruptInstalledMouse := m\<rparr>"
  "core (c\<lparr>interruptInstalledKeyboard := b\<rparr>) = (core c)\<lparr>interruptInstalledKeyboard := b\<rparr>"
  by (simp_all add: core_def)

lemma core_sel [simp]:
  "requestQueue (core c) = requestQueue c"
  "interruptInstalledKeyboard (core c) = interruptInstalledKeyboard c"
  "interruptInstalledMouse (core c) = interruptInstalledMouse c"
  "ignoreInterrupts (core c) = ignoreInterrupts c"
  "ignoreOutOfOrder (core c) = ignoreOutOfOrder c"
  "currentPowerState (core c) = currentPowerState c"
  "hardwareOffline (core c) = hardwareOffline c"
  "suppressTimeout (core c) = suppressTimeout c"
  "mouseWakeFirst (core c) = mouseWakeFirst c"
  "muxPresent (core c) = muxPresent c"
  "nubsCount (core c) = nubsCount c"
  "kbdOnly (core c) = kbdOnly c"
  by (simp_all add: core_def)

lemma core_eqD:
  assumes "core c' = core c"
  shows "requestQueue c' = requestQueue c" "ignoreInterrupts c' = ignoreInterrupts c"
    "hardwareOffline c' = hardwareOffline c" "muxPresent c' = muxPresent c"
    "nubsCount c' = nubsCount c" "kbdOnly c' = kbdOnly c"
    "currentPowerState c' = currentPowerState c"
    "interruptInstalledMouse c' = interruptInstalledMouse c"
    "interruptInstalledKeyboard c' = interruptInstalledKeyboard c"
    "mouseWakeFirst c' = mouseWakeFirst c" "suppressTimeout c' = suppressTimeout c"
    "map (map_option unsignalled) (devices c') = map (map_option unsignalled) (devices c)"
  using assms by (simp_all add: core_def)

lemma core_same_counter [simp]: "(core c)\<lparr>ignoreInterrupts := ignoreInterrupts c\<rparr> = core c"
  by (simp add: core_def)

lemma core_counter: "core c' = (core c)\<lparr>ignoreInterrupts := i\<rparr> \<Longrightarrow> ignoreInterrupts c' = i"
  by (simp add: core_def)

lemma core_balance:
  "core b = (core c)\<lparr>ignoreInterrupts := ignoreInterrupts c + 1\<rparr> \<Longrightarrow>
   (core c)\<lparr>ignoreInterrupts := ignoreInterrupts b - 1\<rparr> = core c"
  by (drule core_counter) simp

lemma c_inb_core: "c_inb e p c = (b, c') \<Longrightarrow> core c' = core c"
  by (auto simp: c_inb_def split: prod.splits)

lemma c_outb_core [simp]: "core (c_outb e p b c) = core c"
  by (simp add: c_outb_def)

lemma waitInput_core: "waitInput e n c = Some c' \<Longrightarrow> core c' = core c"
proof (induction e n c rule: waitInput.induct)
  case (2 e n c)
  then show ?case
    by (auto simp: c_inb_core split: prod.splits if_splits)
qed simp

lemma writePort_core:
  "writeDataPort e b c = Some c' \<Longrightarrow> core c' = core c"
  "writeCommandPort e b c = Some c' \<Longrightarrow> core c' = core c"
  by (auto simp: writeDataPort_def writeCommandPort_def dest!: waitInput_core elim!: bind_eq_SomeE)

lemma flushLoop_core: "flushLoop e k n c = Some (m, c') \<Longrightarrow> core c' = core c"
proof (induction e k n c rule: flushLoop.induct)
  case (2 e k n c)
  then show ?case
    by (auto dest!: c_inb_core split: prod.splits if_splits)
qed simp

lemma signalDevice_core: "signalDevice p c = Some c' \<Longrightarrow> core c' = core c"
proof -
  assume "signalDevice p c = Some c'"
  then obtain d where p: "p < length (devices c)" "devices c ! p = Some d"
    and c': "c' = c\<lparr>devices := (devices c)[p := Some (nub_packetActionInterrupt d)]\<rparr>"
    by (auto simp: signalDevice_def device_at_def split: if_splits elim!: bind_eq_SomeE)
  have "unsignalled (nub_packetActionInterrupt d) = unsignalled d"
    by (simp add: unsignalled_def nub_packetActionInterrupt_def)
  then have "map (map_option unsignalled) ((devices c)[p := Some (nub_packetActionInterrupt d)]) =
    map (map_option unsignalled) (devices c)"
    using p by (intro nth_equalityI) (auto simp: nth_list_update)
  then show ?thesis by (simp add: c' core_def)
qed

lemma dispatch0_core: "dispatchDriverInterrupt0 e p b c = Some (r, c') \<Longrightarrow> core c' = core c"
  by (auto simp: dispatchDriverInterrupt0_def split: if_splits prod.splits elim!: bind_eq_SomeE)

lemma dispatch_core: "dispatchDriverInterrupt e p b c = Some c' \<Longrightarrow> core c' = core c"
  by (auto simp: dispatchDriverInterrupt_def dest!: dispatch0_core signalDevice_core
      split: if_splits prod.splits elim!: bind_eq_SomeE)

lemma dispatchUnless_core: "dispatchUnlessIgnored e p b c = Some c' \<Longrightarrow> core c' = core c"
  by (auto simp: dispatchUnlessIgnored_def dest: dispatch_core split: if_splits)

lemma waitOutput_core: "waitOutput e n s c = (k, s', c') \<Longrightarrow> core c' = core c"
proof (induction e n s c rule: waitOutput.induct)
  case (2 e n s c)
  then show ?case by (auto dest!: c_inb_core split: prod.splits if_splits)
qed simp

lemma readLoop_core: "readLoop e k n s p c = Some (b, c') \<Longrightarrow> core c' = core c"
proof (induction k arbitrary: n s p c)
  case (Suc k)
  obtain n1 s1 c1 where w: "waitOutput e n s c = (n1, s1, c1)" by (metis prod_cases3)
  obtain d c2 where i: "c_inb e kDataPort c1 = (d, c2)" by fastforce
  have "core c2 = core c" using waitOutput_core [OF w] c_inb_core [OF i] by simp
  moreover have "core c1 = core c" by (rule waitOutput_core [OF w])
  ultimately show ?case using Suc.prems w i
    by (auto simp: Let_def dest!: dispatch_core Suc.IH split: if_splits elim!: bind_eq_SomeE)
qed simp

lemma readDataPort_core: "readDataPort e p c = Some (b, c') \<Longrightarrow> core c' = core c"
  by (auto simp: readDataPort_def dest: readLoop_core)

lemma readExpLoop_core: "readExpLoop e k n s held p x c = Some (b, c') \<Longrightarrow> core c' = core c"
proof (induction k arbitrary: n s held p c)
  case (Suc k)
  obtain n1 s1 c1 where w: "waitOutput e n s c = (n1, s1, c1)" by (metis prod_cases3)
  obtain d c2 where i: "c_inb e kDataPort c1 = (d, c2)" by fastforce
  have "core c2 = core c" using waitOutput_core [OF w] c_inb_core [OF i] by simp
  moreover have "core c1 = core c" by (rule waitOutput_core [OF w])
  ultimately show ?case using Suc.prems w i
    by (auto simp: Let_def dest!: dispatchUnless_core Suc.IH split: if_splits option.splits
        elim!: bind_eq_SomeE)
qed simp

lemma readDataPortExpect_core: "readDataPortExpect e p x c = Some (b, c') \<Longrightarrow> core c' = core c"
  by (auto simp: readDataPortExpect_def dest: readExpLoop_core)

lemmas io_core = writePort_core readDataPort_core readDataPortExpect_core flushLoop_core

lemma transmitPrefix_core: "transmitPrefix e p c = Some c' \<Longrightarrow> core c' = core c"
  by (auto simp: transmitPrefix_def dest: writePort_core split: if_splits)

lemma runCommand_core: "runCommand e p cmd c = Some (f, cmd', c') \<Longrightarrow> core c' = core c"
  by (auto simp: runCommand_def dest!: io_core transmitPrefix_core
      split: PS2CommandEnum.splits elim!: bind_eq_SomeE)

lemma runCommands_core: "runCommands e p i n cmds c = Some (f, j, cmds', c') \<Longrightarrow> core c' = core c"
proof (induction n arbitrary: i cmds c)
  case (Suc n)
  then show ?case
    by (auto simp: Let_def dest!: runCommand_core Suc.IH split: if_splits elim!: bind_eq_SomeE)
qed simp

lemma disposeRequest_core: "disposeRequest e r c = (d, c') \<Longrightarrow> core c' = core c"
  by (auto simp: disposeRequest_def split: PS2CompletionTarget.splits if_splits)

lemma processRequest_core:
  assumes "processRequest e r c = Some (d, r', c')" shows "core c' = core c"
proof (cases "hardwareOffline c")
  case True
  then show ?thesis using assms
    by (auto simp: processRequest_def Let_def dest: disposeRequest_core split: prod.splits)
next
  case False
  then obtain f i cmds c1 r1 where
    run: "runCommands e (req_port r) 0 (unat (commandsCount r)) (commands r)
      (c\<lparr>ignoreInterrupts := ignoreInterrupts c + 1\<rparr>) = Some (f, i, cmds, c1)"
    and disp: "disposeRequest e r1 (c1\<lparr>ignoreInterrupts := ignoreInterrupts c1 - 1\<rparr>) = (d, c')"
    using assms by (auto simp: processRequest_def Let_def split: prod.splits elim!: bind_eq_SomeE)
  from runCommands_core [OF run]
  have c1: "core c1 = (core c)\<lparr>ignoreInterrupts := ignoreInterrupts c + 1\<rparr>" by simp
  then show ?thesis
    using disposeRequest_core [OF disp] core_counter [OF c1] by simp
qed

lemma processRequests_core: "processRequests e rs c = Some (ds, c') \<Longrightarrow> core c' = core c"
  by (induction rs arbitrary: c ds) (auto dest!: processRequest_core elim!: bind_eq_SomeE)

lemma processRequestQueue_core:
  "processRequestQueue e c = Some (ds, c') \<Longrightarrow> core c' = (core c)\<lparr>requestQueue := []\<rparr>"
  by (auto simp: processRequestQueue_def dest: processRequests_core)

lemma submitRequestAndBlock_core:
  "submitRequestAndBlock e r c = Some (r', c') \<Longrightarrow> core c' = (core c)\<lparr>requestQueue := []\<rparr>"
  by (auto simp: submitRequestAndBlock_def dest!: processRequestQueue_core processRequest_core
      elim!: bind_eq_SomeE)

lemma setCommandByteGated_core: "setCommandByteGated e cmd c = Some (cmd', c') \<Longrightarrow> core c' = core c"
  by (auto simp: setCommandByteGated_def Let_def dest!: writePort_core readDataPort_core
      split: if_splits elim!: bind_eq_SomeE)
    (rule core_balance, assumption)+

lemma setCommandByte_core: "setCommandByte e s cl c = Some (b, c') \<Longrightarrow> core c' = core c"
  by (auto simp: setCommandByte_def dest: setCommandByteGated_core elim!: bind_eq_SomeE)

lemma muxed_write_core: "muxed_write e b c = Some c' \<Longrightarrow> core c' = core c"
  by (auto simp: muxed_write_def dest!: writePort_core elim!: bind_eq_SomeE)

lemma setMuxMode_core: "setMuxMode e b c = Some (ok, c') \<Longrightarrow> core c' = core c"
  by (auto simp: setMuxMode_def Let_def dest!: muxed_write_core readDataPort_core
      split: if_splits elim!: bind_eq_SomeE)

lemma enableMuxLoop_core: "enableMuxLoop e i n c = Some c' \<Longrightarrow> core c' = core c"
  by (induction n arbitrary: i c) (auto dest!: writePort_core elim!: bind_eq_SomeE)

lemma enableMuxPorts_core: "enableMuxPorts e c = Some c' \<Longrightarrow> core c' = core c"
  by (auto simp: enableMuxPorts_def dest: enableMuxLoop_core)

section \<open>The trace of bytes written\<close>

text \<open>
  \<open>logs e wr\<close>: \<open>wr\<close> reads off the hardware state the list of port writes so far. Port reads and
  sleeping write nothing.
\<close>

definition logs :: "('h, 'c) env \<Rightarrow> ('h \<Rightarrow> (u16 \<times> u8) list) \<Rightarrow> bool" where
  "logs e wr \<longleftrightarrow> (\<forall>p b h. wr (outb e p b h) = wr h @ [(p, b)]) \<and>
     (\<forall>p h. wr (snd (inb e p h)) = wr h) \<and> (\<forall>n h. wr (IOSleep e n h) = wr h)"

definition prefix_writes :: "bool \<Rightarrow> nat \<Rightarrow> (u16 \<times> u8) list" where
  "prefix_writes mux p =
     (if p = kPS2KbdIdx then []
      else if mux then [(kCommandPort, kCP_TransmitToMuxedMouse + of_nat (p - kPS2AuxIdx))]
      else [(kCommandPort, kCP_TransmitToMouse)])"

text \<open>The writes of one executed command; the command byte update is computed from \<open>oldBits\<close>.\<close>

definition command_writes :: "bool \<Rightarrow> nat \<Rightarrow> PS2Command \<Rightarrow> (u16 \<times> u8) list" where
  "command_writes mux p cmd = (case command cmd of
     kPS2C_WriteDataPort \<Rightarrow> prefix_writes mux p @ [(kDataPort, inOrOut cmd)]
   | kPS2C_SendCommandAndCompareAck \<Rightarrow> prefix_writes mux p @ [(kDataPort, inOrOut cmd)]
   | kPS2C_ModifyCommandByte \<Rightarrow> [(kCommandPort, kCP_GetCommandByte), (kCommandPort, kCP_SetCommandByte),
       (kDataPort, (oldBits cmd OR setBits cmd) AND NOT (clearBits cmd))]
   | _ \<Rightarrow> [])"

lemma c_inb_log: "logs e wr \<Longrightarrow> c_inb e p c = (b, c') \<Longrightarrow> wr (hw c') = wr (hw c)"
  unfolding logs_def c_inb_def by (auto split: prod.splits) (metis snd_conv)

lemma c_outb_log: "logs e wr \<Longrightarrow> wr (hw (c_outb e p b c)) = wr (hw c) @ [(p, b)]"
  by (simp add: logs_def c_outb_def)

lemma waitInput_log: "logs e wr \<Longrightarrow> waitInput e n c = Some c' \<Longrightarrow> wr (hw c') = wr (hw c)"
  by (induction n arbitrary: c) (auto dest!: c_inb_log split: prod.splits if_splits)

lemma writePort_log:
  assumes "logs e wr"
  shows "writeDataPort e b c = Some c' \<Longrightarrow> wr (hw c') = wr (hw c) @ [(kDataPort, b)]"
    and "writeCommandPort e b c = Some c' \<Longrightarrow> wr (hw c') = wr (hw c) @ [(kCommandPort, b)]"
  by (auto simp: writeDataPort_def writeCommandPort_def c_outb_log [OF assms]
      dest!: waitInput_log [OF assms] elim!: bind_eq_SomeE)

lemma waitOutput_log: "logs e wr \<Longrightarrow> waitOutput e n s c = (k, s', c') \<Longrightarrow> wr (hw c') = wr (hw c)"
  by (induction n arbitrary: s c) (auto dest!: c_inb_log split: prod.splits if_splits)

lemma flushLoop_log:
  assumes "logs e wr"
  shows "flushLoop e k n c = Some (m, c') \<Longrightarrow> wr (hw c') = wr (hw c)"
  by (induction k arbitrary: n c)
    (auto dest!: c_inb_log [OF assms] split: prod.splits if_splits)

lemma dispatch0_hw: "dispatchDriverInterrupt0 e p b c = Some (r, c') \<Longrightarrow> hw c' = hw c"
  by (auto simp: dispatchDriverInterrupt0_def split: if_splits prod.splits elim!: bind_eq_SomeE)

lemma dispatch_hw: "dispatchDriverInterrupt e p b c = Some c' \<Longrightarrow> hw c' = hw c"
  by (auto simp: dispatchDriverInterrupt_def signalDevice_def dest!: dispatch0_hw
      split: if_splits prod.splits elim!: bind_eq_SomeE)

lemma dispatchUnless_hw: "dispatchUnlessIgnored e p b c = Some c' \<Longrightarrow> hw c' = hw c"
  by (auto simp: dispatchUnlessIgnored_def dest: dispatch_hw split: if_splits)

lemma readLoop_log:
  "logs e wr \<Longrightarrow> readLoop e k n s p c = Some (b, c') \<Longrightarrow> wr (hw c') = wr (hw c)"
proof (induction k arbitrary: n s p c)
  case (Suc k)
  obtain n1 s1 c1 where w: "waitOutput e n s c = (n1, s1, c1)" by (metis prod_cases3)
  obtain d c2 where i: "c_inb e kDataPort c1 = (d, c2)" by fastforce
  note l = waitOutput_log [OF Suc.prems(1) w] c_inb_log [OF Suc.prems(1) i]
  show ?case using Suc.prems w i l
    by (auto simp: Let_def dest!: dispatch_hw Suc.IH split: if_splits elim!: bind_eq_SomeE)
qed simp

lemma readExpLoop_log:
  "logs e wr \<Longrightarrow> readExpLoop e k n s held p x c = Some (b, c') \<Longrightarrow> wr (hw c') = wr (hw c)"
proof (induction k arbitrary: n s held p c)
  case (Suc k)
  obtain n1 s1 c1 where w: "waitOutput e n s c = (n1, s1, c1)" by (metis prod_cases3)
  obtain d c2 where i: "c_inb e kDataPort c1 = (d, c2)" by fastforce
  note l = waitOutput_log [OF Suc.prems(1) w] c_inb_log [OF Suc.prems(1) i]
  show ?case using Suc.prems w i l
    by (auto simp: Let_def dest!: dispatchUnless_hw Suc.IH split: if_splits option.splits
        elim!: bind_eq_SomeE)
qed simp

lemma readDataPort_log:
  "logs e wr \<Longrightarrow> readDataPort e p c = Some (b, c') \<Longrightarrow> wr (hw c') = wr (hw c)"
  "logs e wr \<Longrightarrow> readDataPortExpect e p x c = Some (b, c') \<Longrightarrow> wr (hw c') = wr (hw c)"
  by (auto simp: readDataPort_def readDataPortExpect_def dest: readLoop_log readExpLoop_log)

lemmas io_log = writePort_log readDataPort_log flushLoop_log

lemma transmitPrefix_log:
  "logs e wr \<Longrightarrow> transmitPrefix e p c = Some c' \<Longrightarrow>
   wr (hw c') = wr (hw c) @ prefix_writes (muxPresent c) p"
  by (auto simp: transmitPrefix_def prefix_writes_def dest: writePort_log split: if_splits)

text \<open>
  What the drivers rely on of an executed command, depending on whether it failed: the shape of what it
  leaves in the request. (Which byte that is and when a command fails is specified on the log of the
  ports in theory \<^verbatim>\<open>PS2_Log\<close>.)
\<close>

definition executed :: "bool \<Rightarrow> PS2Command \<Rightarrow> PS2Command \<Rightarrow> bool" where
  "executed failed old new \<longleftrightarrow> command new = command old \<and> (case command old of
     kPS2C_ReadDataPort \<Rightarrow> \<not> failed
   | kPS2C_ReadDataPortAndCompare \<Rightarrow> failed = (inOrOut new \<noteq> inOrOut old)
   | kPS2C_WriteDataPort \<Rightarrow> \<not> failed \<and> new = old
   | kPS2C_SendCommandAndCompareAck \<Rightarrow> new = old
   | kPS2C_FlushDataPort \<Rightarrow> \<not> failed
   | kPS2C_SleepMS \<Rightarrow> \<not> failed \<and> new = old
   | kPS2C_ModifyCommandByte \<Rightarrow> \<not> failed \<and> setBits new = setBits old \<and> clearBits new = clearBits old)"

lemma runCommand_executed: "runCommand e p cmd c = Some (f, cmd', c') \<Longrightarrow> executed f cmd cmd'"
  by (auto simp: runCommand_def executed_def split: PS2CommandEnum.splits elim!: bind_eq_SomeE)

lemma runCommand_log:
  assumes "logs e wr" "runCommand e p cmd c = Some (f, cmd', c')"
  shows "wr (hw c') = wr (hw c) @ command_writes (muxPresent c) p cmd'"
proof (cases "command cmd")
  case kPS2C_SleepMS
  then show ?thesis using assms by (auto simp: runCommand_def command_writes_def logs_def)
qed (use assms in \<open>auto simp: runCommand_def command_writes_def
      dest!: io_log [OF assms(1)] transmitPrefix_log [OF assms(1)] elim!: bind_eq_SomeE\<close>)

lemma runCommands_outcome:
  "runCommands e p i n cmds c = Some (f, j, cmds', c') \<Longrightarrow>
   length cmds' = length cmds \<and> i \<le> j \<and> (if f then j < i + n else j = i + n) \<and>
   take i cmds' = take i cmds \<and> drop (if f then Suc j else j) cmds' = drop (if f then Suc j else j) cmds \<and>
   (\<forall>k. i \<le> k \<and> k < j \<longrightarrow> executed False (cmds ! k) (cmds' ! k)) \<and>
   (f \<longrightarrow> executed True (cmds ! j) (cmds' ! j))"
proof (induction n arbitrary: i cmds c)
  case (Suc n)
  then obtain g cmd c1 where i: "i < length cmds" and run: "runCommand e p (cmds ! i) c = Some (g, cmd, c1)"
    and rest: "if g then (f, j, cmds', c') = (True, i, cmds[i := cmd], c1)
      else runCommands e p (Suc i) n (cmds[i := cmd]) c1 = Some (f, j, cmds', c')"
    by (auto simp: Let_def split: if_splits elim!: bind_eq_SomeE)
  note ex = runCommand_executed [OF run]
  show ?case
  proof (cases g)
    case True
    then show ?thesis using rest ex i by auto
  next
    case False
    then have IH: "length cmds' = length cmds" "Suc i \<le> j" "if f then j < Suc i + n else j = Suc i + n"
      "take (Suc i) cmds' = take (Suc i) (cmds[i := cmd])"
      "drop (if f then Suc j else j) cmds' = drop (if f then Suc j else j) (cmds[i := cmd])"
      "\<forall>k. Suc i \<le> k \<and> k < j \<longrightarrow> executed False (cmds[i := cmd] ! k) (cmds' ! k)"
      "f \<longrightarrow> executed True (cmds[i := cmd] ! j) (cmds' ! j)"
      using Suc.IH [of "Suc i" "cmds[i := cmd]" c1] rest by auto
    have here: "cmds' ! i = cmd" using IH(4) i by (metis nth_list_update_eq lessI nth_take)
    have "executed False (cmds ! k) (cmds' ! k)" if "i \<le> k" "k < j" for k
      using that here ex False IH(6) [rule_format, of k] by (cases "k = i") auto
    moreover have "take i cmds' = take i cmds"
      using arg_cong [OF IH(4), of "take i"] by (simp add: take_update_cancel)
    ultimately show ?thesis using IH i by (simp split: if_splits)
  qed
qed auto

lemma runCommands_log:
  "\<lbrakk>logs e wr; runCommands e p i n cmds c = Some (f, j, cmds', c')\<rbrakk> \<Longrightarrow>
   wr (hw c') = wr (hw c) @
     concat (map (command_writes (muxPresent c) p) (drop i (take (if f then Suc j else j) cmds')))"
proof (induction n arbitrary: i cmds c)
  case (Suc n)
  then obtain g cmd c1 where i: "i < length cmds" and run: "runCommand e p (cmds ! i) c = Some (g, cmd, c1)"
    and rest: "if g then (f, j, cmds', c') = (True, i, cmds[i := cmd], c1)
      else runCommands e p (Suc i) n (cmds[i := cmd]) c1 = Some (f, j, cmds', c')"
    by (auto simp: Let_def split: if_splits elim!: bind_eq_SomeE)
  note log = runCommand_log [OF Suc.prems(1) run]
  show ?case
  proof (cases g)
    case True
    then show ?thesis using rest log i by (auto simp: take_Suc_conv_app_nth)
  next
    case False
    with rest have run': "runCommands e p (Suc i) n (cmds[i := cmd]) c1 = Some (f, j, cmds', c')" by simp
    note out = runCommands_outcome [OF run']
    define m where "m = (if f then Suc j else j)"
    have "i < m" "m \<le> length cmds' \<or> i < length cmds'" "length cmds' = length cmds"
      using out i by (auto simp: m_def)
    moreover have "cmds' ! i = cmd"
      using out i by (metis nth_list_update_eq lessI nth_take)
    ultimately have "drop i (take m cmds') = cmd # drop (Suc i) (take m cmds')"
      using i by (subst Cons_nth_drop_Suc [symmetric]) auto
    moreover have "muxPresent c1 = muxPresent c" using runCommand_core [OF run] by (rule core_eqD)
    ultimately show ?thesis using Suc.IH [OF Suc.prems(1) run'] log by (simp add: m_def)
  qed
qed simp

section \<open>Whole requests\<close>

lemma processRequest_online:
  assumes "processRequest e r c = Some (d, r', c')" "\<not> hardwareOffline c"
  obtains f i cmds c1 where
    "runCommands e (req_port r) 0 (unat (commandsCount r)) (commands r)
      (c\<lparr>ignoreInterrupts := ignoreInterrupts c + 1\<rparr>) = Some (f, i, cmds, c1)"
    "r' = (if f then r\<lparr>commands := cmds, commandsCount := of_nat i\<rparr> else r\<lparr>commands := cmds\<rparr>)"
    "hw c' = hw c1" "(d, c') = disposeRequest e r' (c1\<lparr>ignoreInterrupts := ignoreInterrupts c1 - 1\<rparr>)"
proof -
  obtain f i cmds c1 where
    run: "runCommands e (req_port r) 0 (unat (commandsCount r)) (commands r)
      (c\<lparr>ignoreInterrupts := ignoreInterrupts c + 1\<rparr>) = Some (f, i, cmds, c1)"
    and r': "r' = (if f then r\<lparr>commands := cmds, commandsCount := of_nat i\<rparr> else r\<lparr>commands := cmds\<rparr>)"
    and disp: "disposeRequest e r' (c1\<lparr>ignoreInterrupts := ignoreInterrupts c1 - 1\<rparr>) = (d, c')"
    using assms by (auto simp: processRequest_def Let_def split: prod.splits elim!: bind_eq_SomeE)
  moreover have "hw c' = hw c1"
    using disp by (auto simp: disposeRequest_def split: PS2CompletionTarget.splits if_splits)
  ultimately show ?thesis using that by metis
qed

lemma unat_of_nat_u8:
  assumes "i \<le> unat (n :: u8)" shows "unat (of_nat i :: u8) = i"
proof -
  have "i < 256" using assms unat_u8_less [of n] by (rule le_less_trans)
  then show ?thesis by (simp add: unsigned_of_nat take_bit_nat_eq_self_iff)
qed

lemma processRequest_count:
  assumes "processRequest e r c = Some (d, r', c')" "\<not> hardwareOffline c"
  obtains f i c1 where
    "runCommands e (req_port r) 0 (unat (commandsCount r)) (commands r)
      (c\<lparr>ignoreInterrupts := ignoreInterrupts c + 1\<rparr>) = Some (f, i, commands r', c1)"
    "hw c' = hw c1" "unat (commandsCount r') = i" "f = (i < unat (commandsCount r))"
    "i \<le> unat (commandsCount r)" "req_port r' = req_port r"
proof -
  obtain f i cmds c1 where
    run: "runCommands e (req_port r) 0 (unat (commandsCount r)) (commands r)
      (c\<lparr>ignoreInterrupts := ignoreInterrupts c + 1\<rparr>) = Some (f, i, cmds, c1)"
    and r': "r' = (if f then r\<lparr>commands := cmds, commandsCount := of_nat i\<rparr> else r\<lparr>commands := cmds\<rparr>)"
    and hw: "hw c' = hw c1"
    using processRequest_online [OF assms] by metis
  have i: "if f then i < unat (commandsCount r) else i = unat (commandsCount r)"
    using runCommands_outcome [OF run] by (cases f) auto
  have "unat (commandsCount r') = i" using i unat_of_nat_u8 [of i "commandsCount r"] by (auto simp: r' split: if_splits)
  moreover have "commands r' = cmds" "req_port r' = req_port r" by (simp_all add: r')
  ultimately show ?thesis using that run hw i by (auto split: if_splits)
qed

definition executedCommands :: "PS2Request \<Rightarrow> PS2Request \<Rightarrow> PS2Command list" where
  "executedCommands r r' =
     take (if commandsCount r' < commandsCount r then Suc (unat (commandsCount r'))
           else unat (commandsCount r')) (commands r')"

definition request_writes :: "bool \<Rightarrow> PS2Request \<Rightarrow> PS2Request \<Rightarrow> (u16 \<times> u8) list" where
  "request_writes mux r r' = concat (map (command_writes mux (req_port r)) (executedCommands r r'))"

lemma processRequest_log:
  assumes "logs e wr" "processRequest e r c = Some (d, r', c')" "\<not> hardwareOffline c"
  shows "wr (hw c') = wr (hw c) @ request_writes (muxPresent c) r r'"
proof -
  obtain f i c1 where
    run: "runCommands e (req_port r) 0 (unat (commandsCount r)) (commands r)
      (c\<lparr>ignoreInterrupts := ignoreInterrupts c + 1\<rparr>) = Some (f, i, commands r', c1)"
    and "hw c' = hw c1" "unat (commandsCount r') = i" "f = (i < unat (commandsCount r))"
    using processRequest_count [OF assms(2,3)] by metis
  then show ?thesis using runCommands_log [OF assms(1) run]
    by (simp add: request_writes_def executedCommands_def word_less_nat_alt)
qed

lemma processRequest_result:
  assumes "processRequest e r c = Some (d, r', c')"
  shows "completionTarget r' = completionTarget r" "completionAction r' = completionAction r"
    "completionParam r' = completionParam r" "req_port r' = req_port r"
    "commandsCount r' \<le> commandsCount r" "map command (commands r') = map command (commands r)"
proof -
  show "completionTarget r' = completionTarget r" "completionAction r' = completionAction r"
    "completionParam r' = completionParam r" "req_port r' = req_port r"
    using assms by (auto simp: processRequest_def Let_def split: prod.splits if_splits elim!: bind_eq_SomeE)
  show "commandsCount r' \<le> commandsCount r"
  proof (cases "hardwareOffline c")
    case True
    then show ?thesis using assms by (auto simp: processRequest_def Let_def split: prod.splits)
  next
    case False
    then show ?thesis using processRequest_count [OF assms] by (metis word_le_nat_alt)
  qed
  show "map command (commands r') = map command (commands r)"
  proof (cases "hardwareOffline c")
    case True
    then show ?thesis using assms by (auto simp: processRequest_def Let_def split: prod.splits)
  next
    case False
    then obtain f i c1 where
      run: "runCommands e (req_port r) 0 (unat (commandsCount r)) (commands r)
        (c\<lparr>ignoreInterrupts := ignoreInterrupts c + 1\<rparr>) = Some (f, i, commands r', c1)"
      using processRequest_count [OF assms] by metis
    note out = runCommands_outcome [OF run]
    show ?thesis
    proof (rule nth_equalityI)
      fix k assume "k < length (map command (commands r'))"
      then have k: "k < length (commands r')" "k < length (commands r)" using out by auto
      define m where "m = (if f then Suc i else i)"
      have "command (commands r' ! k) = command (commands r ! k)"
      proof (cases "k < m")
        case True
        then have "k < i \<or> f \<and> k = i" by (auto simp: m_def split: if_splits)
        then have "\<exists>b. executed b (commands r ! k) (commands r' ! k)" using out by auto
        then show ?thesis by (auto simp: executed_def)
      next
        case False
        have "drop m (commands r') = drop m (commands r)" using out by (simp add: m_def)
        then have "drop m (commands r') ! (k - m) = drop m (commands r) ! (k - m)" by simp
        then have "commands r' ! k = commands r ! k" using False k by simp
        then show ?thesis by simp
      qed
      then show "map command (commands r') ! k = map command (commands r) ! k" using k by simp
    qed (use out in auto)
  qed
qed

definition disposal_of :: "PS2Request \<Rightarrow> disposal" where
  "disposal_of r = (case completionTarget r of
     ClientTarget t \<Rightarrow> if completionAction r then Completed t (completionParam r) else Freed
   | kStackCompletionTarget \<Rightarrow> LeftOnStack
   | NullTarget \<Rightarrow> Freed)"

lemma processRequest_disposal:
  assumes "processRequest e r c = Some (d, r', c')" shows "d = disposal_of r"
proof -
  have "\<exists>c1. disposeRequest e r' c1 = (d, c')"
    using assms by (auto simp: processRequest_def Let_def split: prod.splits if_splits elim!: bind_eq_SomeE)
  then have "d = disposal_of r'"
    by (auto simp: disposeRequest_def disposal_of_def split: PS2CompletionTarget.splits if_splits)
  then show ?thesis using processRequest_result(1,2,3) [OF assms]
    by (simp add: disposal_of_def split: PS2CompletionTarget.splits)
qed

end
