(* ===== verification/PS2_Script.thy ===== *)
theory PS2_Script
  imports PS2_Requests
begin

text \<open>
  A concrete environment, on which the witnesses evaluate the model. The hardware is a script:
  the values successive reads of the status port and of the data port return (zero once the
  script is exhausted), and the list of bytes written so far. The attached drivers are a log of
  the bytes delivered to them; a byte with the top bit set completes a packet.
\<close>

record script =
  statuses :: "u8 list"
  bytes :: "u8 list"
  written :: "(u16 \<times> u8) list"

definition script_inb :: "u16 \<Rightarrow> script \<Rightarrow> u8 \<times> script" where
  "script_inb p h =
     (if p = kCommandPort
      then (case statuses h of [] \<Rightarrow> (0, h) | s # ss \<Rightarrow> (s, h\<lparr>statuses := ss\<rparr>))
      else (case bytes h of [] \<Rightarrow> (0, h) | b # bs \<Rightarrow> (b, h\<lparr>bytes := bs\<rparr>)))"

definition script_outb :: "u16 \<Rightarrow> u8 \<Rightarrow> script \<Rightarrow> script" where
  "script_outb p b h = h\<lparr>written := written h @ [(p, b)]\<rparr>"

definition log_byte :: "nat \<Rightarrow> u8 \<Rightarrow> (nat \<times> u8) list \<Rightarrow> PS2InterruptResult \<times> (nat \<times> u8) list" where
  "log_byte p b cl = (if b \<ge> 0x80 then kPS2IR_packetReady else kPS2IR_packetBuffering, cl @ [(p, b)])"

definition script_env :: "(script, (nat \<times> u8) list) env" where
  "script_env = \<lparr>inb = script_inb, outb = script_outb, IOSleep = (\<lambda>_ h. h),
     enableInterrupt = (\<lambda>_ h. h), disableInterrupt = (\<lambda>_ h. h),
     interruptOccurred = log_byte, packetReady = (\<lambda>_ cl. cl),
     setDevicePowerState = (\<lambda>_ _ c. Some c), complete = (\<lambda>_ _ cl. cl), fuel = 9\<rparr>"

definition script_nub :: "nat \<Rightarrow> nub" where
  "script_nub p = \<lparr>nub_port = p, nub_client = True, nub_interrupt_action = True,
     nub_packet_action = True, nub_power_action = True, nub_signalled = False\<rparr>"

definition script_ctl :: "bool \<Rightarrow> u8 list \<Rightarrow> u8 list \<Rightarrow> (script, (nat \<times> u8) list) ctl" where
  "script_ctl mux ss bs = \<lparr>hw = \<lparr>statuses = ss, bytes = bs, written = []\<rparr>, clients = [],
     requestQueue = [], interruptInstalledKeyboard = True, interruptInstalledMouse = 1,
     ignoreInterrupts = 0, ignoreOutOfOrder = 0,
     devices = map (\<lambda>p. if p < (if mux then 5 else 2) then Some (script_nub p) else None) [0..<5],
     currentPowerState = kPS2PowerStateNormal, hardwareOffline = False, suppressTimeout = False,
     wakedelay = 10, mouseWakeFirst = False, muxPresent = mux,
     nubsCount = (if mux then 5 else 2), resetControllerFlag = 3, kbdOnly = False\<rparr>"

lemma script_logs: "logs script_env written"
  by (auto simp: logs_def script_env_def script_inb_def script_outb_def split: list.splits)

lemma script_env_sel [simp]:
  "inb script_env = script_inb" "outb script_env = script_outb" "IOSleep script_env n h = h"
  "interruptOccurred script_env = log_byte" "fuel script_env = 9"
  "enableInterrupt script_env i h = h" "disableInterrupt script_env i h = h"
  "setDevicePowerState script_env p w c = Some c" "complete script_env t k cl = cl"
  by (simp_all add: script_env_def)

lemma waitOutput_numeral:
  "waitOutput e (numeral n) status c =
     (let (status, c) = c_inb e kCommandPort c
      in if status AND kOutputReady \<noteq> 0 then (numeral n, status, c)
         else waitOutput e (pred_numeral n) status c)"
  by (simp only: numeral_eq_Suc waitOutput.simps)

lemma fuel_9: "(9 :: nat) = Suc (Suc (Suc (Suc (Suc (Suc (Suc (Suc (Suc 0))))))))"
  by simp

lemmas script_simps = script_ctl_def script_inb_def script_outb_def c_inb_def c_outb_def
  script_nub_def log_byte_def readDataPort_def readDataPortExpect_def writeDataPort_def
  writeCommandPort_def waitOutput_numeral fuel_9 getPortFromStatus_def
  dispatchUnlessIgnored_def dispatchDriverInterrupt_def dispatchDriverInterrupt0_def
  signalDevice_def device_at_def nub_interruptAction_def nub_packetActionInterrupt_def

end
