(* ===== verification/PS2_Reads.thy ===== *)
theory PS2_Reads
  imports PS2_Script "HOL-Library.Multiset"
begin

text \<open>
  What reading the data port does with the bytes that arrive. The hardware is described by the
  events a polling reader sees: bytes with the port they belong to, and the expiry of the timeout
  counter. \<open>read_spec\<close> and \<open>expect_spec\<close> are reference definitions of the two \<^verbatim>\<open>readDataPort\<close>
  routines on such event lists; the loops of the driver implement them.
\<close>

section \<open>Events\<close>

datatype event = Byte nat u8 | Timeout

text \<open>
  The next byte a reader that polls at most \<open>n\<close> times finds: what is left of the counter, the
  status, the byte and the hardware afterwards.
\<close>

fun next_byte :: "('h, 'c) env \<Rightarrow> nat \<Rightarrow> 'h \<Rightarrow> (nat \<times> u8 \<times> u8 \<times> 'h) option" where
  "next_byte e 0 h = None"
| "next_byte e (Suc n) h =
     (let (s, h) = inb e kCommandPort h
      in if s AND kOutputReady \<noteq> 0 then let (b, h) = inb e kDataPort h in Some (Suc n, s, b, h)
         else next_byte e n h)"

fun delivers :: "('h, 'c) env \<Rightarrow> bool \<Rightarrow> nat \<Rightarrow> 'h \<Rightarrow> event list \<Rightarrow> bool" where
  "delivers e mux n h [] = True"
| "delivers e mux n h (Timeout # es) = (next_byte e n h = None)"
| "delivers e mux n h (Byte q b # es) =
     (case next_byte e n h of None \<Rightarrow> False
      | Some (n', s, b', h') \<Rightarrow> getPortFromStatus mux s = q \<and> b' = b \<and> delivers e mux n' h' es)"

lemma next_byte_None:
  "next_byte e n (hw c) = None \<Longrightarrow> \<exists>s' h. waitOutput e n s c = (0, s', c\<lparr>hw := h\<rparr>)"
proof (induction n arbitrary: s c)
  case 0
  show ?case by (rule exI [of _ s], rule exI [of _ "hw c"]) simp
next
  case (Suc n)
  obtain s1 h1 where i: "inb e kCommandPort (hw c) = (s1, h1)" by fastforce
  with Suc.prems have "s1 AND kOutputReady = 0" "next_byte e n (hw (c\<lparr>hw := h1\<rparr>)) = None"
    by (auto split: if_splits prod.splits)
  then show ?case using Suc.IH [of "c\<lparr>hw := h1\<rparr>" s1] i by (simp add: c_inb_def)
qed

lemma next_byte_Some:
  "next_byte e n (hw c) = Some (n', s', b, h) \<Longrightarrow>
   \<exists>h1. waitOutput e n s c = (n', s', c\<lparr>hw := h1\<rparr>) \<and> 0 < n' \<and> inb e kDataPort h1 = (b, h)"
proof (induction n arbitrary: s c)
  case (Suc n)
  obtain s1 h1 where i: "inb e kCommandPort (hw c) = (s1, h1)" by fastforce
  show ?case
  proof (cases "s1 AND kOutputReady = 0")
    case True
    with Suc.prems i have "next_byte e n (hw (c\<lparr>hw := h1\<rparr>)) = Some (n', s', b, h)" by simp
    then show ?thesis using Suc.IH [of "c\<lparr>hw := h1\<rparr>" s1] i True by (simp add: c_inb_def)
  next
    case False
    then show ?thesis using Suc.prems i by (auto simp: c_inb_def split: prod.splits)
  qed
qed simp

section \<open>Delivering a byte to its driver\<close>

text \<open>
  The state after start: a nub for every port in use. \<open>ctl_wf\<close> is an invariant of the controller
  (theory \<^verbatim>\<open>PS2_Power\<close>); it is what keeps byte delivery from touching a null device.
\<close>

definition ctl_wf :: "('h, 'c) ctl \<Rightarrow> bool" where
  "ctl_wf c \<longleftrightarrow> length (devices c) = kPS2MuxMaxIdx \<and>
     nubsCount c \<le> kPS2MuxMaxIdx \<and> 1 \<le> nubsCount c \<and>
     (muxPresent c \<longrightarrow> nubsCount c = kPS2MuxMaxIdx) \<and>
     (interruptInstalledMouse c \<noteq> 0 \<longrightarrow> kPS2AuxMaxIdx \<le> nubsCount c) \<and>
     (\<forall>i < nubsCount c. map_option nub_port (devices c ! i) = Some i)"

lemma nub_unsignalled [simp]: "nub_port (unsignalled d) = nub_port d"
  "nub_interruptAction e (unsignalled d) = nub_interruptAction e d"
  by (auto simp: unsignalled_def nub_interruptAction_def fun_eq_iff)

lemma device_at_core: "device_at p (core c) = map_option unsignalled (device_at p c)"
  by (simp add: device_at_def core_def)

lemma ctl_wf_core: "ctl_wf (core c) = ctl_wf c"
proof -
  have "map_option nub_port (map (map_option unsignalled) ds ! i) = map_option nub_port (ds ! i)"
    if "i < length ds" for i ds
    using that by (cases "ds ! i") auto
  then show ?thesis unfolding ctl_wf_def core_def by (simp cong: conj_cong imp_cong)
qed

lemma ctl_wf_cong: "core c' = core c \<Longrightarrow> ctl_wf c' = ctl_wf c"
  by (metis ctl_wf_core)

definition deliver :: "('h, 'c) env \<Rightarrow> (unit, unit) ctl \<Rightarrow> nat \<Rightarrow> u8 \<Rightarrow> 'c \<Rightarrow> PS2InterruptResult \<times> 'c" where
  "deliver e k q b cl =
     (if (if q = kPS2KbdIdx then interruptInstalledKeyboard k else interruptInstalledMouse k \<noteq> 0)
      then nub_interruptAction e (the (device_at q k)) b cl else (kPS2IR_packetBuffering, cl))"

definition port_bound :: "('h, 'c) ctl \<Rightarrow> nat" where
  "port_bound c = (if muxPresent c then kPS2MuxMaxIdx else kPS2AuxMaxIdx)"

lemma getPortFromStatus_bound: "getPortFromStatus mux s < (if mux then kPS2MuxMaxIdx else kPS2AuxMaxIdx)"
  using unat_and_less [of 3 4 "drop_bit 6 s"] by (simp add: getPortFromStatus_def Let_def)

lemma wf_device:
  assumes "ctl_wf c" "i < nubsCount c"
  obtains d where "device_at i c = Some d" "nub_port d = i"
  using assms by (auto simp: ctl_wf_def device_at_def)

lemma dispatch0_ok:
  assumes wf: "ctl_wf c" and q: "q < port_bound c"
  shows "dispatchDriverInterrupt0 e q b c =
    Some (fst (deliver e (core c) q b (clients c)),
          c\<lparr>clients := snd (deliver e (core c) q b (clients c))\<rparr>)"
proof (cases "(if q = kPS2KbdIdx then interruptInstalledKeyboard c else interruptInstalledMouse c \<noteq> 0)")
  case True
  then have "q < nubsCount c" using wf q by (auto simp: ctl_wf_def port_bound_def split: if_splits)
  then obtain d where "device_at q c = Some d" by (rule wf_device [OF wf])
  then show ?thesis using True
    by (auto simp: dispatchDriverInterrupt0_def deliver_def device_at_core split: prod.splits if_splits)
next
  case False
  then show ?thesis by (auto simp: dispatchDriverInterrupt0_def deliver_def split: if_splits)
qed

lemma signalDevice_ok:
  assumes "ctl_wf c" "q < nubsCount c"
  shows "\<exists>c'. signalDevice q c = Some c' \<and> clients c' = clients c \<and> hw c' = hw c \<and> core c' = core c"
proof -
  obtain d where "device_at q c = Some d" using wf_device [OF assms] by metis
  then obtain c' where c': "signalDevice q c = Some c'" "clients c' = clients c" "hw c' = hw c"
    by (auto simp: signalDevice_def)
  then show ?thesis using signalDevice_core by blast
qed

lemma dispatch_ok:
  assumes wf: "ctl_wf c" and q: "q < port_bound c"
  shows "\<exists>c'. dispatchDriverInterrupt e q b c = Some c' \<and>
    clients c' = snd (deliver e (core c) q b (clients c)) \<and> hw c' = hw c \<and> core c' = core c"
proof -
  let ?r = "deliver e (core c) q b (clients c)"
  let ?c = "c\<lparr>clients := snd ?r\<rparr>"
  show ?thesis
  proof (cases "fst ?r")
    case kPS2IR_packetReady
    then have "q < nubsCount c"
      using wf q by (auto simp: deliver_def ctl_wf_def port_bound_def split: if_splits)
    moreover have "ctl_wf ?c" using wf ctl_wf_cong [of ?c c] by simp
    ultimately obtain c' where "signalDevice q ?c = Some c'" "clients c' = clients ?c"
      "hw c' = hw ?c" "core c' = core ?c"
      using signalDevice_ok [of ?c q] by auto
    then show ?thesis using kPS2IR_packetReady by (simp add: dispatchDriverInterrupt_def dispatch0_ok [OF wf q])
  next
    case kPS2IR_packetBuffering
    then show ?thesis by (simp add: dispatchDriverInterrupt_def dispatch0_ok [OF wf q])
  qed
qed

section \<open>Reference definitions of the two read routines\<close>

text \<open>Result: the byte returned, the bytes handed to the drivers, the events not consumed.\<close>

fun read_spec :: "nat \<Rightarrow> event list \<Rightarrow> (u8 \<times> (nat \<times> u8) list \<times> event list) option" where
  "read_spec p [] = None"
| "read_spec p (Timeout # es) = Some (0, [], es)"
| "read_spec p (Byte q b # es) =
     (if p = q then Some (b, [], es)
      else map_option (\<lambda>(r, ds, rest). (r, (q, b) # ds, rest)) (read_spec p es))"

fun expect_spec ::
  "nat \<Rightarrow> u8 \<Rightarrow> u8 option \<Rightarrow> event list \<Rightarrow> (u8 \<times> (nat \<times> u8) list \<times> event list) option" where
  "expect_spec p x held [] = None"
| "expect_spec p x held (Timeout # es) = Some (case held of Some f \<Rightarrow> f | None \<Rightarrow> 0, [], es)"
| "expect_spec p x held (Byte q b # es) =
     (if p \<noteq> q
      then map_option (\<lambda>(r, ds, rest). (r, (q, b) # ds, rest)) (expect_spec p x held es)
      else if b = x then Some (x, case held of Some f \<Rightarrow> [(p, f)] | None \<Rightarrow> [], es)
      else case held of
             None \<Rightarrow> expect_spec p x (Some b) es
           | Some f \<Rightarrow> Some (f, [(p, b)], es))"

definition deliver_all ::
  "('h, 'c) env \<Rightarrow> (unit, unit) ctl \<Rightarrow> (nat \<times> u8) list \<Rightarrow> 'c \<Rightarrow> 'c" where
  "deliver_all e k ds cl = fold (\<lambda>(q, b) cl. snd (deliver e k q b cl)) ds cl"

lemma deliver_all_simps [simp]:
  "deliver_all e k [] cl = cl"
  "deliver_all e k ((q, b) # ds) cl = deliver_all e k ds (snd (deliver e k q b cl))"
  by (simp_all add: deliver_all_def)

lemma delivers_Byte:
  assumes "delivers e (muxPresent c) n (hw c) (Byte q b # es)"
  obtains n' s' h1 h' where "waitOutput e n s c = (n', s', c\<lparr>hw := h1\<rparr>)" "0 < n'"
    "c_inb e kDataPort (c\<lparr>hw := h1\<rparr>) = (b, c\<lparr>hw := h'\<rparr>)" "getPortFromStatus (muxPresent c) s' = q"
    "q < port_bound c" "delivers e (muxPresent c) n' h' es"
proof -
  obtain n' s' h' where nb: "next_byte e n (hw c) = Some (n', s', b, h')"
    and q: "getPortFromStatus (muxPresent c) s' = q" and rest: "delivers e (muxPresent c) n' h' es"
    using assms by (auto split: option.splits)
  obtain h1 where "waitOutput e n s c = (n', s', c\<lparr>hw := h1\<rparr>)" "0 < n'" "inb e kDataPort h1 = (b, h')"
    using next_byte_Some [OF nb] by blast
  moreover have "q < port_bound c"
    using getPortFromStatus_bound [of "muxPresent c" s'] q by (auto simp: port_bound_def)
  ultimately show ?thesis using that q rest by (simp add: c_inb_def)
qed

lemma delivers_Timeout:
  assumes "delivers e mux n (hw c) (Timeout # es)"
  obtains s' h where "waitOutput e n s c = (0, s', c\<lparr>hw := h\<rparr>)"
  using assms next_byte_None [of e n c s] by auto

lemma readLoop_spec:
  "\<lbrakk>read_spec p es = Some (r, ds, rest); delivers e (muxPresent c) n (hw c) es; length es \<le> k;
    ctl_wf c; \<not> suppressTimeout c\<rbrakk> \<Longrightarrow>
   \<exists>c'. readLoop e k n s p c = Some (r, c') \<and> clients c' = deliver_all e (core c) ds (clients c) \<and>
     core c' = core c"
proof (induction es arbitrary: k n s c ds)
  case (Cons ev es)
  then obtain j where k: "k = Suc j" by (cases k) auto
  show ?case
  proof (cases ev)
    case Timeout
    then obtain s' h where "waitOutput e n s c = (0, s', c\<lparr>hw := h\<rparr>)"
      using Cons.prems(2) delivers_Timeout [of e "muxPresent c" n c es s] by blast
    then show ?thesis using Cons.prems Timeout k by simp
  next
    case (Byte q b)
    obtain n' s' h1 h' where w: "waitOutput e n s c = (n', s', c\<lparr>hw := h1\<rparr>)" "0 < n'"
      and i: "c_inb e kDataPort (c\<lparr>hw := h1\<rparr>) = (b, c\<lparr>hw := h'\<rparr>)"
      and q: "getPortFromStatus (muxPresent c) s' = q" "q < port_bound c"
      and rest: "delivers e (muxPresent c) n' h' es"
      using delivers_Byte Cons.prems(2) Byte by metis
    show ?thesis
    proof (cases "p = q")
      case True
      then show ?thesis using Cons.prems w i q Byte k by simp
    next
      case False
      have "ctl_wf (c\<lparr>hw := h'\<rparr>)" "q < port_bound (c\<lparr>hw := h'\<rparr>)"
        using Cons.prems(4) q(2) by (auto simp: ctl_wf_def port_bound_def)
      then obtain c2 where c2: "dispatchDriverInterrupt e q b (c\<lparr>hw := h'\<rparr>) = Some c2"
        "clients c2 = snd (deliver e (core c) q b (clients c))" "hw c2 = h'" "core c2 = core c"
        using dispatch_ok [of "c\<lparr>hw := h'\<rparr>" q e b] by auto
      obtain ds' where "read_spec p es = Some (r, ds', rest)" "ds = (q, b) # ds'"
        using Cons.prems(1) False Byte by auto
      then show ?thesis
        using Cons.IH [of ds' c2 n' j s'] c2 rest Cons.prems k w i q(1) False Byte
          core_eqD(4,11) [OF c2(4)] ctl_wf_cong [OF c2(4)] by simp
    qed
  qed
qed simp

lemma readExpLoop_spec:
  "\<lbrakk>expect_spec p x held es = Some (r, ds, rest); delivers e (muxPresent c) n (hw c) es; length es \<le> k;
    ctl_wf c; p < port_bound c; ignoreOutOfOrder c = 0\<rbrakk> \<Longrightarrow>
   \<exists>c'. readExpLoop e k n s held p x c = Some (r, c') \<and>
     clients c' = deliver_all e (core c) ds (clients c) \<and> core c' = core c"
proof (induction es arbitrary: k n s c ds held)
  case (Cons ev es)
  then obtain j where k: "k = Suc j" by (cases k) auto
  show ?case
  proof (cases ev)
    case Timeout
    then obtain s' h where "waitOutput e n s c = (0, s', c\<lparr>hw := h\<rparr>)"
      using Cons.prems(2) delivers_Timeout [of e "muxPresent c" n c es s] by blast
    then show ?thesis using Cons.prems Timeout k by simp
  next
    case (Byte q b)
    obtain n' s' h1 h' where w: "waitOutput e n s c = (n', s', c\<lparr>hw := h1\<rparr>)" "0 < n'"
      and i: "c_inb e kDataPort (c\<lparr>hw := h1\<rparr>) = (b, c\<lparr>hw := h'\<rparr>)"
      and q: "getPortFromStatus (muxPresent c) s' = q" "q < port_bound c"
      and rest: "delivers e (muxPresent c) n' h' es"
      using delivers_Byte Cons.prems(2) Byte by metis
    have ok: "ctl_wf (c\<lparr>hw := h'\<rparr>)" "port_bound (c\<lparr>hw := h'\<rparr>) = port_bound c"
      using Cons.prems(4) by (auto simp: ctl_wf_def port_bound_def)
    have disp: "\<exists>c2. dispatchUnlessIgnored e v y (c\<lparr>hw := h'\<rparr>) = Some c2 \<and>
      clients c2 = snd (deliver e (core c) v y (clients c)) \<and> hw c2 = h' \<and> core c2 = core c"
      if "v < port_bound c" for v y
      using dispatch_ok [OF ok(1), of v e y] ok(2) that Cons.prems(6)
      by (auto simp: dispatchUnlessIgnored_def)
    note here = w i q(1) k Byte Cons.prems(6)
    show ?thesis
    proof (cases "p = q")
      case True
      then show ?thesis
      proof (cases "b \<noteq> x \<and> held = None")
        case True
        then show ?thesis
          using \<open>p = q\<close> Cons.IH [of "Some b" ds "c\<lparr>hw := h'\<rparr>" n' j s'] Cons.prems here ok rest by simp
      next
        case False
        then show ?thesis
          using \<open>p = q\<close> Cons.prems(1) here disp [OF q(2), of "the held"] disp [OF q(2), of b]
          by (cases held) (auto split: if_splits)
      qed
    next
      case False
      obtain c2 where c2: "dispatchUnlessIgnored e q b (c\<lparr>hw := h'\<rparr>) = Some c2"
        "clients c2 = snd (deliver e (core c) q b (clients c))" "hw c2 = h'" "core c2 = core c"
        using disp [OF q(2), of b] by blast
      obtain ds' where "expect_spec p x held es = Some (r, ds', rest)" "ds = (q, b) # ds'"
        using Cons.prems(1) False Byte by auto
      moreover have "ignoreOutOfOrder c2 = 0" "port_bound c2 = port_bound c"
        using c2(4) Cons.prems(6) by (simp_all add: core_def port_bound_def)
      ultimately show ?thesis
        using Cons.IH [of held ds' c2 n' j s'] c2 rest Cons.prems here False
          core_eqD(4) [OF c2(4)] ctl_wf_cong [OF c2(4)] by simp
    qed
  qed
qed simp

section \<open>Serving an interrupt\<close>

text \<open>The ports whose driver completes a packet while the bytes \<open>ds\<close> are delivered.\<close>

fun wakes :: "('h, 'c) env \<Rightarrow> (unit, unit) ctl \<Rightarrow> (nat \<times> u8) list \<Rightarrow> 'c \<Rightarrow> nat list" where
  "wakes e k [] cl = []"
| "wakes e k ((q, b) # ds) cl =
     (if fst (deliver e k q b cl) = kPS2IR_packetReady then [q] else []) @
     wakes e k ds (snd (deliver e k q b cl))"

definition as_events :: "(nat \<times> u8) list \<Rightarrow> event list" where
  "as_events ds = map (\<lambda>(q, b). Byte q b) ds @ [Timeout]"

definition signalled :: "nat \<Rightarrow> ('h, 'c) ctl \<Rightarrow> bool" where
  "signalled i c = (case device_at i c of Some d \<Rightarrow> nub_signalled d | None \<Rightarrow> False)"

lemma interruptLoop_spec:
  "\<lbrakk>delivers e (muxPresent c) 1 (hw c) (as_events ds); length ds < k; ctl_wf c;
    length wakePort = kPS2MuxMaxIdx\<rbrakk> \<Longrightarrow>
   \<exists>c'. interruptLoop e k wakePort c =
       Some (fold (\<lambda>q w. w[q := True]) (wakes e (core c) ds (clients c)) wakePort, c') \<and>
     clients c' = deliver_all e (core c) ds (clients c) \<and> core c' = core c \<and> devices c' = devices c"
proof (induction ds arbitrary: k c wakePort)
  case Nil
  then show ?case by (cases k) (auto simp: as_events_def c_inb_def split: prod.splits if_splits)
next
  case (Cons d ds)
  obtain q b where d: "d = (q, b)" by fastforce
  obtain j where k: "k = Suc j" using Cons.prems(2) by (cases k) auto
  obtain s h1 h' where i: "inb e kCommandPort (hw c) = (s, h1)" "s AND kOutputReady \<noteq> 0"
    "inb e kDataPort h1 = (b, h')" "getPortFromStatus (muxPresent c) s = q"
    and rest: "delivers e (muxPresent c) 1 h' (as_events ds)"
    using Cons.prems(1) by (auto simp: d as_events_def split: prod.splits if_splits)
  have q: "q < port_bound c"
    using getPortFromStatus_bound [of "muxPresent c" s] i(4) by (auto simp: port_bound_def)
  then have q5: "q < length wakePort" using Cons.prems(4) by (auto simp: port_bound_def split: if_splits)
  define r where "r = deliver e (core c) q b (clients c)"
  define c2 where "c2 = c\<lparr>hw := h', clients := snd r\<rparr>"
  have "ctl_wf (c\<lparr>hw := h'\<rparr>)" "q < port_bound (c\<lparr>hw := h'\<rparr>)"
    using Cons.prems(3) q by (auto simp: ctl_wf_def port_bound_def)
  then have disp: "dispatchDriverInterrupt0 e q b (c\<lparr>hw := h'\<rparr>) = Some (fst r, c2)"
    by (simp add: dispatch0_ok r_def c2_def)
  have core2: "core c2 = core c" by (simp add: c2_def)
  note IH = Cons.IH [of c2 j "if fst r = kPS2IR_packetReady then wakePort[q := True] else wakePort"]
  show ?case
    using IH rest Cons.prems i disp q5 k core_eqD(4) [OF core2] core2 ctl_wf_cong [OF core2]
    by (auto simp: d c_inb_def r_def [symmetric] c2_def)
qed

lemma fold_wake_nth:
  "i < length w \<Longrightarrow> fold (\<lambda>q w. w[q := True]) qs w ! i = (w ! i \<or> i \<in> set qs)"
proof (induction qs arbitrary: w)
  case (Cons q qs)
  then show ?case by (cases "q = i") auto
qed simp

lemma fold_wake_length [simp]: "length (fold (\<lambda>q w. w[q := True]) qs w) = length w"
  by (induction qs arbitrary: w) auto

lemma signalDevice_signalled:
  assumes "signalDevice q c = Some c'"
  shows "signalled i c' = (signalled i c \<or> i = q)"
  using assms by (auto simp: signalDevice_def signalled_def device_at_def nub_packetActionInterrupt_def
      nth_list_update split: if_splits option.splits elim!: bind_eq_SomeE)

lemma wakeLoop_spec:
  "\<lbrakk>ctl_wf c; i + n \<le> nubsCount c; length wakePort = kPS2MuxMaxIdx\<rbrakk> \<Longrightarrow>
   \<exists>c'. wakeLoop i n wakePort c = Some c' \<and> clients c' = clients c \<and> core c' = core c \<and>
     (\<forall>p. signalled p c' = (signalled p c \<or> i \<le> p \<and> p < i + n \<and> wakePort ! p))"
proof (induction n arbitrary: i c)
  case (Suc n)
  have i: "i < length wakePort" "i < nubsCount c" using Suc.prems by (auto simp: ctl_wf_def)
  obtain c1 where c1: "(if wakePort ! i then signalDevice i c else Some c) = Some c1"
    "clients c1 = clients c" "core c1 = core c"
    using signalDevice_ok [OF Suc.prems(1) i(2)] by (cases "wakePort ! i") auto
  have sig: "signalled p c1 = (signalled p c \<or> p = i \<and> wakePort ! i)" for p
    using c1(1) signalDevice_signalled by (auto split: if_splits)
  obtain c' where "wakeLoop (Suc i) n wakePort c1 = Some c'" "clients c' = clients c1" "core c' = core c1"
    "\<forall>p. signalled p c' = (signalled p c1 \<or> Suc i \<le> p \<and> p < Suc i + n \<and> wakePort ! p)"
    using Suc.IH [of c1 "Suc i"] Suc.prems ctl_wf_cong [OF c1(3)] core_eqD(5) [OF c1(3)] by auto
  moreover have "(p = i \<and> wakePort ! i \<or> Suc i \<le> p \<and> p < Suc i + n \<and> wakePort ! p) =
    (i \<le> p \<and> p < i + Suc n \<and> wakePort ! p)" for p
    by (cases "p = i") auto
  ultimately show ?case using c1 i sig by (simp add: disj_assoc)
qed auto

section \<open>Bytes are neither lost nor duplicated\<close>

definition event_bytes :: "event list \<Rightarrow> (nat \<times> u8) list" where
  "event_bytes es = concat (map (\<lambda>ev. case ev of Byte q b \<Rightarrow> [(q, b)] | Timeout \<Rightarrow> []) es)"

lemma event_bytes_simps [simp]:
  "event_bytes [] = []" "event_bytes (Timeout # es) = event_bytes es"
  "event_bytes (Byte q b # es) = (q, b) # event_bytes es"
  by (simp_all add: event_bytes_def)

definition accounts :: "nat \<Rightarrow> u8 \<Rightarrow> (nat \<times> u8) multiset \<Rightarrow> (nat \<times> u8) list \<Rightarrow> bool" where
  "accounts p r received ds \<longleftrightarrow> received = mset ds + {#(p, r)#} \<or> received = mset ds \<and> r = 0"

lemma expect_spec_returns: "Timeout \<in> set es \<Longrightarrow> expect_spec p x held es \<noteq> None"
  by (induction p x held es rule: expect_spec.induct) (auto split: option.splits)

lemma read_spec_accounts:
  "read_spec p es = Some (r, ds, rest) \<Longrightarrow>
   \<exists>used. es = used @ rest \<and> accounts p r (mset (event_bytes used)) ds"
proof (induction p es arbitrary: ds rule: read_spec.induct)
  case (2 p es)
  then show ?case by (intro exI [of _ "[Timeout]"]) (auto simp: accounts_def)
next
  case (3 p q b es)
  show ?case
  proof (cases "p = q")
    case True
    then show ?thesis using "3.prems" by (intro exI [of _ "[Byte q b]"]) (auto simp: accounts_def)
  next
    case False
    then obtain ds' where "ds = (q, b) # ds'" "read_spec p es = Some (r, ds', rest)"
      using "3.prems" by auto
    moreover then obtain used where "es = used @ rest" "accounts p r (mset (event_bytes used)) ds'"
      using "3.IH" False by blast
    ultimately show ?thesis by (intro exI [of _ "Byte q b # used"]) (auto simp: accounts_def)
  qed
qed simp

section \<open>Properties\<close>

text \<open>
  C3. The read that expects a byte implements the ``second chance'' policy its comment promises:
  on the arriving bytes it returns what \<open>expect_spec\<close> returns, it hands exactly the bytes of
  \<open>expect_spec\<close> to the drivers, in that order, and it changes nothing else of the controller. It
  does return, whenever the loop may run once per arriving event.
\<close>

theorem readDataPortExpect_refines:
  assumes "expect_spec p x None es = Some (r, ds, rest)"
    and "delivers e (muxPresent c) 10000 (hw c) es" and "length es \<le> fuel e"
    and "ctl_wf c" and "p < port_bound c" and "ignoreOutOfOrder c = 0"
  shows "\<exists>c'. readDataPortExpect e p x c = Some (r, c') \<and>
    clients c' = deliver_all e (core c) ds (clients c) \<and> core c' = core c"
  unfolding readDataPortExpect_def by (rule readExpLoop_spec [OF assms])

lemma script_wf: "ctl_wf (script_ctl False ss bs)" "port_bound (script_ctl False ss bs) = 2"
  "muxPresent (script_ctl mux ss bs) = mux" "ignoreOutOfOrder (script_ctl mux ss bs) = 0"
  "hw (script_ctl mux ss bs) = \<lparr>statuses = ss, bytes = bs, written = []\<rparr>"
  "suppressTimeout (script_ctl mux ss bs) = False" "hardwareOffline (script_ctl mux ss bs) = False"
  "clients (script_ctl mux ss bs) = []" "nubsCount (script_ctl False ss bs) = 2"
  by (auto simp: ctl_wf_def script_ctl_def port_bound_def script_nub_def upt_rec less_Suc_eq
      numeral_2_eq_2 nth_Cons split: nat.splits)

lemma next_byte_numeral:
  "next_byte e (numeral n) h =
     (let (s, h) = inb e kCommandPort h
      in if s AND kOutputReady \<noteq> 0 then let (b, h) = inb e kDataPort h in Some (numeral n, s, b, h)
         else next_byte e (pred_numeral n) h)"
  by (simp only: numeral_eq_Suc next_byte.simps)

theorem readDataPortExpect_refines_witness:
  "\<exists>c'. readDataPortExpect script_env 0 0xFA (script_ctl False [0, 1, 0x21, 1] [0x11, 0x22, 0xFA]) =
      Some (0xFA, c') \<and> clients c' = [(1, 0x22), (0, 0x11)] \<and>
      core c' = core (script_ctl False [0, 1, 0x21, 1] [0x11, 0x22, 0xFA])"
proof -
  let ?c = "script_ctl False [0, 1, 0x21, 1] [0x11, 0x22, 0xFA]"
  let ?es = "[Byte 0 0x11, Byte 1 0x22, Byte 0 0xFA]"
  have spec: "expect_spec 0 0xFA None ?es = Some (0xFA, [(1, 0x22), (0, 0x11)], [])" by simp
  have del: "delivers script_env (muxPresent ?c) 10000 (hw ?c) ?es"
    by (simp add: script_wf next_byte_numeral script_inb_def getPortFromStatus_def)
  have "deliver_all script_env (core ?c) [(1, 0x22), (0, 0x11)] (clients ?c) = [(1, 0x22), (0, 0x11)]"
    by (simp add: deliver_def device_at_core) (simp add: script_simps upt_rec)
  moreover have "\<exists>c'. readDataPortExpect script_env 0 0xFA ?c = Some (0xFA, c') \<and>
    clients c' = deliver_all script_env (core ?c) [(1, 0x22), (0, 0x11)] (clients ?c) \<and> core c' = core ?c"
    by (rule readDataPortExpect_refines [OF spec del]) (simp_all add: script_wf)
  ultimately show ?thesis by metis
qed

lemma next_byte_script_quiet [simp]: "statuses h = [] \<Longrightarrow> next_byte script_env n h = None"
  by (induction n) (simp_all add: script_inb_def)

text \<open>
  C5. The plain read returns the first byte of the requested port, or zero when the timeout
  counter expires; every byte of another port that arrives before goes to that port's driver, in
  order, and no byte is lost.
\<close>

theorem readDataPort_refines:
  assumes "read_spec p es = Some (r, ds, rest)"
    and "delivers e (muxPresent c) 20000 (hw c) es" and "length es \<le> fuel e"
    and "ctl_wf c" and "\<not> suppressTimeout c"
  shows "\<exists>c' used. readDataPort e p c = Some (r, c') \<and> core c' = core c \<and>
    clients c' = deliver_all e (core c) ds (clients c) \<and>
    es = used @ rest \<and> accounts p r (mset (event_bytes used)) ds"
  using readLoop_spec [OF assms] read_spec_accounts [OF assms(1)] by (fastforce simp: readDataPort_def)

theorem readDataPort_refines_witness:
  "\<exists>c' used. readDataPort script_env 1 (script_ctl False [1, 0, 0x21] [0x1E, 0x08]) = Some (0x08, c') \<and>
     core c' = core (script_ctl False [1, 0, 0x21] [0x1E, 0x08]) \<and>
     clients c' = deliver_all script_env (core (script_ctl False [1, 0, 0x21] [0x1E, 0x08])) [(0, 0x1E)] [] \<and>
     [Byte 0 0x1E, Byte 1 0x08] = used @ [] \<and> accounts 1 0x08 (mset (event_bytes used)) [(0, 0x1E)]"
proof -
  let ?c = "script_ctl False [1, 0, 0x21] [0x1E, 0x08]" and ?es = "[Byte 0 0x1E, Byte 1 0x08]"
  have spec: "read_spec 1 ?es = Some (0x08, [(0, 0x1E)], [])" by simp
  have del: "delivers script_env (muxPresent ?c) 20000 (hw ?c) ?es"
    by (simp add: script_wf next_byte_numeral script_inb_def getPortFromStatus_def)
  have "\<exists>c' used. readDataPort script_env 1 ?c = Some (0x08, c') \<and> core c' = core ?c \<and>
     clients c' = deliver_all script_env (core ?c) [(0, 0x1E)] (clients ?c) \<and>
     ?es = used @ [] \<and> accounts 1 0x08 (mset (event_bytes used)) [(0, 0x1E)]"
    by (rule readDataPort_refines [OF spec del]) (simp_all add: script_wf)
  then show ?thesis by (simp only: script_wf)
qed

text \<open>
  C9. The timeout of the plain read does not bound it: the counter only runs while the controller
  is idle, so with a device that keeps sending on another port the read never returns, whatever
  number of iterations is allowed. (The comment of \<^verbatim>\<open>readDataPort\<close> promises a built-in timeout.)
\<close>

theorem readDataPort_starves:
  assumes "\<And>h. fst (inb e kCommandPort h) = s" and "s AND kOutputReady \<noteq> 0"
    and "getPortFromStatus (muxPresent c) s \<noteq> p" and "\<not> suppressTimeout c"
  shows "readDataPort (e\<lparr>fuel := k\<rparr>) p c = None"
proof -
  let ?e = "e\<lparr>fuel := k\<rparr>"
  have "readLoop ?e j (Suc n) s' p c = None"
    if "getPortFromStatus (muxPresent c) s \<noteq> p" "\<not> suppressTimeout c" for j n s' c
    using that
  proof (induction j arbitrary: c s')
    case (Suc j)
    obtain h1 where i: "inb e kCommandPort (hw c) = (s, h1)" by (metis assms(1) prod.collapse)
    obtain b h2 where d: "inb e kDataPort h1 = (b, h2)" by fastforce
    have "readLoop ?e j (Suc n) s p c2 = None"
      if "dispatchDriverInterrupt ?e (getPortFromStatus (muxPresent c) s) b (c\<lparr>hw := h2\<rparr>) = Some c2" for c2
      using Suc.IH [of c2 s] Suc.prems core_eqD(4,11) [OF dispatch_core [OF that]] by simp
    then show ?case using i d assms(2) Suc.prems
      by (cases "dispatchDriverInterrupt ?e (getPortFromStatus (muxPresent c) s) b (c\<lparr>hw := h2\<rparr>)")
        (simp_all add: c_inb_def)
  qed simp
  from this [OF assms(3,4), of k 19999 0] show ?thesis by (simp add: readDataPort_def)
qed

theorem readDataPort_starves_witness:
  "readDataPort (script_env\<lparr>inb := \<lambda>p h. (0x21, h), fuel := 1000\<rparr>) 0 (script_ctl False [] []) = None"
  using readDataPort_starves [of "script_env\<lparr>inb := \<lambda>p h. (0x21, h)\<rparr>" "0x21" "script_ctl False [] []" 0 1000]
  by (simp add: script_wf getPortFromStatus_def)

text \<open>
  C6. Serving an interrupt empties the output buffer: every pending byte is delivered exactly once,
  in order, to the driver of its port, no null nub is dereferenced, and the event source of a port
  is signalled exactly when its driver reported a complete packet (or it was signalled before).
\<close>

theorem handleInterrupt_delivers:
  assumes "delivers e (muxPresent c) 1 (hw c) (as_events ds)" and "length ds < fuel e" and "ctl_wf c"
  shows "\<exists>c'. handleInterrupt e c = Some c' \<and> core c' = core c \<and>
    clients c' = deliver_all e (core c) ds (clients c) \<and>
    (\<forall>i < nubsCount c. signalled i c' = (signalled i c \<or> i \<in> set (wakes e (core c) ds (clients c))))"
proof -
  let ?w = "fold (\<lambda>q w. w[q := True]) (wakes e (core c) ds (clients c)) (replicate kPS2MuxMaxIdx False)"
  obtain c1 where c1: "interruptLoop e (fuel e) (replicate kPS2MuxMaxIdx False) c = Some (?w, c1)"
    "clients c1 = deliver_all e (core c) ds (clients c)" "core c1 = core c" "devices c1 = devices c"
    using interruptLoop_spec [OF assms, of "replicate kPS2MuxMaxIdx False"] by auto
  have wf: "ctl_wf c1" and n: "nubsCount c1 = nubsCount c"
    using ctl_wf_cong [OF c1(3)] assms(3) core_eqD(5) [OF c1(3)] by auto
  obtain c' where c': "wakeLoop 0 (nubsCount c1) ?w c1 = Some c'" "clients c' = clients c1" "core c' = core c1"
    "\<forall>p. signalled p c' = (signalled p c1 \<or> 0 \<le> p \<and> p < 0 + nubsCount c1 \<and> ?w ! p)"
    using wakeLoop_spec [OF wf, of 0 "nubsCount c1" ?w] by auto
  have "?w ! i = (i \<in> set (wakes e (core c) ds (clients c)))" if "i < nubsCount c" for i
    using that assms(3) by (subst fold_wake_nth) (auto simp: ctl_wf_def)
  moreover have "signalled i c1 = signalled i c" for i using c1(4) by (simp add: signalled_def device_at_def)
  ultimately show ?thesis using c1 c' n by (auto simp: handleInterrupt_def)
qed

theorem handleInterrupt_delivers_witness:
  "\<exists>c'. handleInterrupt script_env (script_ctl False [1, 0x21, 0] [0x9E, 0x08]) = Some c' \<and>
     clients c' = [(0, 0x9E), (1, 0x08)] \<and> signalled 0 c' \<and> \<not> signalled 1 c'"
proof -
  let ?c = "script_ctl False [1, 0x21, 0] [0x9E, 0x08]" and ?ds = "[(0, 0x9E), (1, 0x08)]"
  have "delivers script_env (muxPresent ?c) 1 (hw ?c) (as_events ?ds)"
    by (simp add: as_events_def script_wf script_inb_def getPortFromStatus_def)
  then obtain c' where c': "handleInterrupt script_env ?c = Some c'"
    "clients c' = deliver_all script_env (core ?c) ?ds (clients ?c)"
    "\<forall>i < nubsCount ?c. signalled i c' =
       (signalled i ?c \<or> i \<in> set (wakes script_env (core ?c) ?ds (clients ?c)))"
    using handleInterrupt_delivers [of script_env ?c ?ds] by (auto simp: script_wf)
  have dw: "deliver_all script_env (core ?c) ?ds (clients ?c) = ?ds"
    "wakes script_env (core ?c) ?ds (clients ?c) = [0]"
    by (simp_all add: deliver_def device_at_core) (simp_all add: script_simps upt_rec)
  have "\<not> signalled 0 ?c" "\<not> signalled 1 ?c"
    by (simp_all add: signalled_def) (simp_all add: script_simps upt_rec)
  then show ?thesis
    using c'(1) c'(2,3) [unfolded dw] by (simp add: script_wf)
qed

end
