(* ===== verification/PS2_Log.thy ===== *)
theory PS2_Log
  imports PS2_Reads
begin

text \<open>
  The complete log of what the controller driver does at its ports, and what a log says: which bytes
  a reader heard, which bytes a writer sent once the controller was ready for them, and the
  conversation of every kind of command. The properties of requests are stated on the log, so that the
  bytes stored in a request, the answers it is judged by and the bytes written are those of the hardware.
\<close>

section \<open>Logs\<close>

datatype io = In u16 u8 | Out u16 u8 | Slept u32

definition io_logs :: "('h, 'c) env \<Rightarrow> ('h \<Rightarrow> io list) \<Rightarrow> bool" where
  "io_logs e lg \<longleftrightarrow> (\<forall>p b h. lg (outb e p b h) = lg h @ [Out p b]) \<and>
     (\<forall>p h. lg (snd (inb e p h)) = lg h @ [In p (fst (inb e p h))]) \<and> (\<forall>n h. lg (IOSleep e n h) = lg h @ [Slept n])"

text \<open>The writes of a log; they are a trace in the sense of \<open>logs\<close>.\<close>

fun io_writes :: "io list \<Rightarrow> (u16 \<times> u8) list" where
  "io_writes [] = []"
| "io_writes (Out p b # l) = (p, b) # io_writes l"
| "io_writes (_ # l) = io_writes l"

lemma io_writes_append [simp]: "io_writes (a @ b) = io_writes a @ io_writes b"
  by (induction a rule: io_writes.induct) auto

lemma io_logs_logs: "io_logs e lg \<Longrightarrow> logs e (\<lambda>h. io_writes (lg h))"
  by (simp add: io_logs_def logs_def)

text \<open>
  The events a reader with \<open>n\<close> polls of an empty buffer left hears. \<open>None\<close>: the log is not one of a
  reader that polls the status and takes a byte exactly when one is there.
\<close>

fun heard :: "bool \<Rightarrow> nat \<Rightarrow> io list \<Rightarrow> event list option" where
  "heard mux 0 [] = Some [Timeout]"
| "heard mux 0 (_ # _) = None"
| "heard mux (Suc n) [] = Some []"
| "heard mux (Suc n) (In a s # l) =
     (if a \<noteq> kCommandPort then None
      else if s AND kOutputReady = 0 then heard mux n l
      else case l of
        In d b # l' \<Rightarrow> if d = kDataPort then map_option ((#) (Byte (getPortFromStatus mux s) b)) (heard mux (Suc n) l') else None
      | _ \<Rightarrow> None)"
| "heard mux (Suc n) (_ # l) = None"

text \<open>All bytes a log takes from the data port, each with the port of the status read last.\<close>

fun taken :: "bool \<Rightarrow> u8 \<Rightarrow> io list \<Rightarrow> (nat \<times> u8) list" where
  "taken mux s [] = []"
| "taken mux s (In a v # l) = (if a = kCommandPort then taken mux v l else (getPortFromStatus mux s, v) # taken mux s l)"
| "taken mux s (_ # l) = taken mux s l"

text \<open>The log of writing \<open>ws\<close>: before each write the controller is polled until it is ready.\<close>

fun wrote :: "(u16 \<times> u8) list \<Rightarrow> io list \<Rightarrow> bool" where
  "wrote [] l \<longleftrightarrow> l = []"
| "wrote (w # ws) (In a s # l) \<longleftrightarrow> a = kCommandPort \<and>
     (if s AND kInputBusy \<noteq> 0 then wrote (w # ws) l
      else case l of Out p b # l' \<Rightarrow> (p, b) = w \<and> wrote ws l' | _ \<Rightarrow> False)"
| "wrote (w # ws) l \<longleftrightarrow> False"

text \<open>The log of emptying the buffer, with the number of bytes thrown away.\<close>

fun flushed :: "nat \<Rightarrow> io list \<Rightarrow> bool" where
  "flushed n (In a s # l) \<longleftrightarrow> a = kCommandPort \<and>
     (if s AND kOutputReady = 0 then n = 0 \<and> l = []
      else case n of 0 \<Rightarrow> False
        | Suc m \<Rightarrow> (case l of In d b # l' \<Rightarrow> d = kDataPort \<and> flushed m l' | _ \<Rightarrow> False))"
| "flushed n l \<longleftrightarrow> False"

section \<open>Conversations\<close>

text \<open>
  A plain read on port \<open>p\<close> that yields \<open>b\<close> (\<open>any\<close>: the mode in which the driver takes the first byte
  of whatever port), and a read that expects \<open>x\<close>.
\<close>

definition answered :: "bool \<Rightarrow> bool \<Rightarrow> nat \<Rightarrow> io list \<Rightarrow> u8 \<Rightarrow> bool" where
  "answered any mux p l b \<longleftrightarrow> (\<exists>es. heard mux 20000 l = Some es \<and>
     (if any then es = [Timeout] \<and> b = 0 \<or> (\<exists>q. es = [Byte q b]) else \<exists>ds. read_spec p es = Some (b, ds, [])))"

definition expected :: "bool \<Rightarrow> nat \<Rightarrow> u8 \<Rightarrow> io list \<Rightarrow> u8 \<Rightarrow> bool" where
  "expected mux p x l b \<longleftrightarrow> (\<exists>es ds. heard mux 10000 l = Some es \<and> expect_spec p x None es = Some (b, ds, []))"

text \<open>The log \<open>l\<close> of a command, whether it failed, and what it has become in the request.\<close>

definition conversed :: "bool \<Rightarrow> bool \<Rightarrow> nat \<Rightarrow> PS2Command \<Rightarrow> bool \<Rightarrow> PS2Command \<Rightarrow> io list \<Rightarrow> bool" where
  "conversed any mux p cmd failed cmd' l \<longleftrightarrow> (case command cmd of
     kPS2C_ReadDataPort \<Rightarrow> \<not> failed \<and> (\<exists>b. answered any mux p l b \<and> cmd' = set_inOrOut b cmd)
   | kPS2C_ReadDataPortAndCompare \<Rightarrow>
       (\<exists>b. expected mux p (inOrOut cmd) l b \<and> cmd' = set_inOrOut b cmd \<and> failed = (b \<noteq> inOrOut cmd))
   | kPS2C_WriteDataPort \<Rightarrow> \<not> failed \<and> cmd' = cmd \<and> wrote (prefix_writes mux p @ [(kDataPort, inOrOut cmd)]) l
   | kPS2C_SendCommandAndCompareAck \<Rightarrow> cmd' = cmd \<and>
       (\<exists>l1 l2 b. l = l1 @ l2 \<and> wrote (prefix_writes mux p @ [(kDataPort, inOrOut cmd)]) l1 \<and>
          expected mux p 0xFA l2 b \<and> failed = (b \<noteq> 0xFA))
   | kPS2C_FlushDataPort \<Rightarrow> \<not> failed \<and> (\<exists>n. flushed n l \<and> cmd' = cmd\<lparr>inOrOut32 := of_nat n\<rparr>)
   | kPS2C_SleepMS \<Rightarrow> \<not> failed \<and> cmd' = cmd \<and> l = [Slept (inOrOut32 cmd)]
   | kPS2C_ModifyCommandByte \<Rightarrow> \<not> failed \<and>
       (\<exists>l1 l2 l3 old. l = l1 @ l2 @ l3 \<and> wrote [(kCommandPort, kCP_GetCommandByte)] l1 \<and> answered any mux kPS2KbdIdx l2 old \<and>
          wrote [(kCommandPort, kCP_SetCommandByte), (kDataPort, (old OR setBits cmd) AND NOT (clearBits cmd))] l3 \<and>
          cmd' = set_oldBits old cmd))"

text \<open>
  A request \<open>r\<close> served with log \<open>l\<close> and given back as \<open>r'\<close>: the conversations of its commands follow
  each other; all but the last succeed, and the last one failed exactly if \<^verbatim>\<open>commandsCount\<close> was lowered.
\<close>

definition served :: "bool \<Rightarrow> bool \<Rightarrow> PS2Request \<Rightarrow> PS2Request \<Rightarrow> io list \<Rightarrow> bool" where
  "served any mux r r' l \<longleftrightarrow>
     r' = r\<lparr>commands := commands r', commandsCount := commandsCount r'\<rparr> \<and> commandsCount r' \<le> commandsCount r \<and>
     length (commands r') = length (commands r) \<and>
     (let n = unat (commandsCount r'); stopped = (commandsCount r' < commandsCount r) in
      \<exists>ls. l = concat ls \<and> length ls = (if stopped then Suc n else n) \<and>
        (\<forall>k < n. conversed any mux (req_port r) (commands r ! k) False (commands r' ! k) (ls ! k)) \<and>
        (stopped \<longrightarrow> conversed any mux (req_port r) (commands r ! n) True (commands r' ! n) (ls ! n)) \<and>
        drop (length ls) (commands r') = drop (length ls) (commands r))"

section \<open>The port operations on the log\<close>

lemma c_inb_io: "io_logs e lg \<Longrightarrow> c_inb e p c = (b, c') \<Longrightarrow> lg (hw c') = lg (hw c) @ [In p b] \<and> core c' = core c \<and> clients c' = clients c"
  unfolding io_logs_def c_inb_def by (auto split: prod.splits) (metis fst_conv snd_conv)

lemma waitInput_io:
  assumes lg: "io_logs e lg"
  shows "waitInput e n c = Some c' \<Longrightarrow> \<exists>l. lg (hw c') = lg (hw c) @ l \<and>
     (\<forall>ws p b l'. wrote ((p, b) # ws) (l @ Out p b # l') = wrote ws l')"
proof (induction n arbitrary: c)
  case (Suc n)
  obtain s c1 where i: "c_inb e kCommandPort c = (s, c1)" by fastforce
  note one = c_inb_io [OF lg i]
  show ?case
  proof (cases "s AND kInputBusy = 0")
    case True
    then show ?thesis using Suc.prems i one by (intro exI [of _ "[In kCommandPort s]"]) auto
  next
    case False
    then obtain l where "lg (hw c') = lg (hw c1) @ l" "\<forall>ws p b l'. wrote ((p, b) # ws) (l @ Out p b # l') = wrote ws l'"
      using Suc.IH [of c1] Suc.prems i by auto
    then show ?thesis using one False by (intro exI [of _ "In kCommandPort s # l"]) simp
  qed
qed simp

lemma writePort_io:
  assumes lg: "io_logs e lg"
  shows "writeDataPort e b c = Some c' \<Longrightarrow> \<exists>l. lg (hw c') = lg (hw c) @ l \<and> (\<forall>ws l'. wrote ((kDataPort, b) # ws) (l @ l') = wrote ws l')"
  "writeCommandPort e b c = Some c' \<Longrightarrow> \<exists>l. lg (hw c') = lg (hw c) @ l \<and> (\<forall>ws l'. wrote ((kCommandPort, b) # ws) (l @ l') = wrote ws l')"
proof -
  have one: "\<exists>l. lg (hw (c_outb e p b c1)) = lg (hw c) @ l \<and> (\<forall>ws l'. wrote ((p, b) # ws) (l @ l') = wrote ws l')"
    if wait: "waitInput e (fuel e) c = Some c1" for p c1
  proof -
    obtain l where "lg (hw c1) = lg (hw c) @ l" "\<forall>ws p b l'. wrote ((p, b) # ws) (l @ Out p b # l') = wrote ws l'"
      using waitInput_io [OF lg wait] by blast
    then show ?thesis using lg by (intro exI [of _ "l @ [Out p b]"]) (simp add: c_outb_def io_logs_def)
  qed
  show "writeDataPort e b c = Some c' \<Longrightarrow> \<exists>l. lg (hw c') = lg (hw c) @ l \<and> (\<forall>ws l'. wrote ((kDataPort, b) # ws) (l @ l') = wrote ws l')"
    "writeCommandPort e b c = Some c' \<Longrightarrow> \<exists>l. lg (hw c') = lg (hw c) @ l \<and> (\<forall>ws l'. wrote ((kCommandPort, b) # ws) (l @ l') = wrote ws l')"
    using one by (auto simp: writeDataPort_def writeCommandPort_def elim!: bind_eq_SomeE)
qed

lemma flushLoop_io:
  assumes lg: "io_logs e lg"
  shows "flushLoop e k m c = Some (m', c') \<Longrightarrow> \<exists>l n. lg (hw c') = lg (hw c) @ l \<and> flushed n l \<and> m' = m + of_nat n"
proof (induction k arbitrary: m c)
  case (Suc k)
  obtain s c1 where i: "c_inb e kCommandPort c = (s, c1)" by fastforce
  obtain b c2 where j: "c_inb e kDataPort c1 = (b, c2)" by fastforce
  note one = c_inb_io [OF lg i] c_inb_io [OF lg j]
  show ?case
  proof (cases "s AND kOutputReady = 0")
    case True
    then show ?thesis using Suc.prems i one by (intro exI [of _ "[In kCommandPort s]"] exI [of _ 0]) auto
  next
    case False
    then obtain l n where "lg (hw c') = lg (hw c2) @ l" "flushed n l" "m' = m + 1 + of_nat n"
      using Suc.IH [of "m + 1" c2] Suc.prems i j by auto
    then show ?thesis using one False
      by (intro exI [of _ "In kCommandPort s # In kDataPort b # l"] exI [of _ "Suc n"]) simp
  qed
qed simp

text \<open>Polling ends with the byte that is then read, or with the counter at zero.\<close>

lemma waitOutput_io:
  assumes lg: "io_logs e lg"
  shows "waitOutput e n s c = (n', s', c') \<Longrightarrow> \<exists>l. lg (hw c') = lg (hw c) @ l \<and> clients c' = clients c \<and> (\<forall>l'. taken mux s (l @ l') = taken mux s' l') \<and>
     (if n' = 0 then heard mux n l = Some [Timeout]
      else \<forall>b l'. heard mux n (l @ In kDataPort b # l') = map_option ((#) (Byte (getPortFromStatus mux s') b)) (heard mux n' l'))"
proof (induction n arbitrary: s c)
  case 0
  then show ?case by (intro exI [of _ "[]"]) simp
next
  case (Suc n)
  obtain s1 c1 where i: "c_inb e kCommandPort c = (s1, c1)" by fastforce
  note one = c_inb_io [OF lg i]
  show ?case
  proof (cases "s1 AND kOutputReady = 0")
    case False
    then show ?thesis using Suc.prems i one by (intro exI [of _ "[In kCommandPort s1]"]) auto
  next
    case True
    then obtain l where "lg (hw c') = lg (hw c1) @ l" "clients c' = clients c1" "\<forall>l'. taken mux s1 (l @ l') = taken mux s' l'"
      "if n' = 0 then heard mux n l = Some [Timeout]
       else \<forall>b l'. heard mux n (l @ In kDataPort b # l') = map_option ((#) (Byte (getPortFromStatus mux s') b)) (heard mux n' l')"
      using Suc.IH [of s1 c1] Suc.prems i by auto
    then show ?thesis using one True by (intro exI [of _ "In kCommandPort s1 # l"]) (simp split: if_splits)
  qed
qed

lemma readLoop_io:
  assumes lg: "io_logs e lg"
  shows "readLoop e k n s p c = Some (b, c') \<Longrightarrow> \<exists>l es. lg (hw c') = lg (hw c) @ l \<and> heard (muxPresent c) n l = Some es \<and>
     (if suppressTimeout c then es = [Timeout] \<and> b = 0 \<or> (\<exists>q. es = [Byte q b]) else \<exists>ds. read_spec p es = Some (b, ds, []))"
proof (induction k arbitrary: n s c)
  case (Suc k)
  obtain n1 s1 c1 where w: "waitOutput e n s c = (n1, s1, c1)" by (metis prod_cases3)
  obtain d c2 where i: "c_inb e kDataPort c1 = (d, c2)" by fastforce
  obtain l where l: "lg (hw c1) = lg (hw c) @ l"
    "if n1 = 0 then heard (muxPresent c) n l = Some [Timeout]
     else \<forall>b l'. heard (muxPresent c) n (l @ In kDataPort b # l') =
       map_option ((#) (Byte (getPortFromStatus (muxPresent c) s1) b)) (heard (muxPresent c) n1 l')"
    using waitOutput_io [OF lg w, of "muxPresent c"] by blast
  note c2 = c_inb_io [OF lg i]
  have core: "core c2 = core c" using waitOutput_core [OF w] c2 by simp
  note same = core_eqD(4,11) [OF core]
  show ?case
  proof (cases "n1 = 0")
    case True
    then show ?thesis using Suc.prems w l by (intro exI [of _ l] exI [of _ "[Timeout]"]) auto
  next
    case False
    let ?q = "getPortFromStatus (muxPresent c) s1"
    have step: "heard (muxPresent c) n ((l @ [In kDataPort d]) @ l') = map_option ((#) (Byte ?q d)) (heard (muxPresent c) n1 l')" for l'
      using l(2) False by simp
    have lg2: "lg (hw c2) = lg (hw c) @ l @ [In kDataPort d]" using c2 l(1) by simp
    have h0: "heard (muxPresent c) n1 [] = Some []" using False by (cases n1) simp_all
    show ?thesis
    proof (cases "suppressTimeout c \<or> p = ?q")
      case True
      then have "b = d" "c' = c2" using Suc.prems w i False same by (auto split: if_splits)
      then show ?thesis using True step [of "[]"] h0 lg2
        by (intro exI [of _ "l @ [In kDataPort d]"] exI [of _ "[Byte ?q d]"]) auto
    next
      case no: False
      then obtain c3 where c3: "dispatchDriverInterrupt e ?q d c2 = Some c3" "readLoop e k n1 s1 p c3 = Some (b, c')"
        using Suc.prems w i False same by (auto simp: Let_def elim!: bind_eq_SomeE)
      note core3 = core_eqD(4,11) [OF dispatch_core [OF c3(1)]]
      obtain l' es where l': "lg (hw c') = lg (hw c3) @ l'" "heard (muxPresent c) n1 l' = Some es" "\<exists>ds. read_spec p es = Some (b, ds, [])"
        using Suc.IH [OF c3(2)] no core3 same by auto
      then show ?thesis using step [of l'] no lg2 dispatch_hw [OF c3(1)]
        by (intro exI [of _ "(l @ [In kDataPort d]) @ l'"] exI [of _ "Byte ?q d # es"]) auto
    qed
  qed
qed simp

definition expecting :: "('h, 'c) ctl \<Rightarrow> nat \<Rightarrow> bool" where
  "expecting c p \<longleftrightarrow> ctl_wf c \<and> p < port_bound c \<and> ignoreOutOfOrder c = 0"

lemma expecting_cong: "core c' = core c \<Longrightarrow> expecting c' p = expecting c p"
  using ctl_wf_cong [of c' c] core_eqD(4) [of c' c] core_sel(5) [of c'] core_sel(5) [of c] by (simp add: expecting_def port_bound_def)

lemma dispatch_expecting:
  assumes "dispatchUnlessIgnored e q b c = Some c'" "expecting c p" "q < port_bound c"
  shows "clients c' = snd (deliver e (core c) q b (clients c))"
  using assms dispatch_ok [of c q e b] by (auto simp: dispatchUnlessIgnored_def expecting_def)

lemma readExpLoop_io:
  assumes lg: "io_logs e lg"
  shows "readExpLoop e k n s held p x c = Some (b, c') \<Longrightarrow> \<exists>l es ds. lg (hw c') = lg (hw c) @ l \<and> heard (muxPresent c) n l = Some es \<and>
     taken (muxPresent c) s l = event_bytes es \<and> expect_spec p x held es = Some (b, ds, []) \<and>
     (expecting c p \<longrightarrow> clients c' = deliver_all e (core c) ds (clients c))"
proof (induction k arbitrary: n s c held)
  case (Suc k)
  obtain n1 s1 c1 where w: "waitOutput e n s c = (n1, s1, c1)" by (metis prod_cases3)
  obtain d c2 where i: "c_inb e kDataPort c1 = (d, c2)" by fastforce
  obtain l where l: "lg (hw c1) = lg (hw c) @ l" "clients c1 = clients c"
    "\<forall>l'. taken (muxPresent c) s (l @ l') = taken (muxPresent c) s1 l'"
    "if n1 = 0 then heard (muxPresent c) n l = Some [Timeout]
     else \<forall>b l'. heard (muxPresent c) n (l @ In kDataPort b # l') =
       map_option ((#) (Byte (getPortFromStatus (muxPresent c) s1) b)) (heard (muxPresent c) n1 l')"
    using waitOutput_io [OF lg w, of "muxPresent c"] by blast
  note c2 = c_inb_io [OF lg i]
  have core: "core c2 = core c" using waitOutput_core [OF w] c2 by simp
  note same = core_eqD(4) [OF core]
  show ?case
  proof (cases "n1 = 0")
    case True
    have "taken (muxPresent c) s l = []" using l(3) [rule_format, of "[]"] by simp
    then show ?thesis using Suc.prems w l True
      by (intro exI [of _ l] exI [of _ "[Timeout]"] exI [of _ "[]"]) (auto split: option.splits)
  next
    case False
    let ?q = "getPortFromStatus (muxPresent c) s1"
    have step: "heard (muxPresent c) n ((l @ [In kDataPort d]) @ l') = map_option ((#) (Byte ?q d)) (heard (muxPresent c) n1 l')"
      "taken (muxPresent c) s ((l @ [In kDataPort d]) @ l') = (?q, d) # taken (muxPresent c) s1 l'" for l'
      using l(3,4) False by simp_all
    have lg2: "lg (hw c2) = lg (hw c) @ l @ [In kDataPort d]" "clients c2 = clients c" using c2 l(1,2) by simp_all
    have h0: "heard (muxPresent c) n1 [] = Some []" using False by (cases n1) simp_all
    have q: "?q < port_bound c2" using getPortFromStatus_bound [of "muxPresent c" s1] same by (simp add: port_bound_def)
    have disp: "clients c3 = snd (deliver e (core c) v y (clients c))"
      if "dispatchUnlessIgnored e v y c2 = Some c3" "expecting c p" "v < port_bound c2" for v y c3
      using dispatch_expecting [OF that(1) _ that(3), of p] that(2) expecting_cong [OF core] core lg2(2) by simp
    have finish: ?thesis if "lg (hw c') = lg (hw c2)" "expect_spec p x held [Byte ?q d] = Some (b, ds, [])"
      "expecting c p \<longrightarrow> clients c' = deliver_all e (core c) ds (clients c)" for ds
      using that step [of "[]"] h0 lg2
      by (intro exI [of _ "l @ [In kDataPort d]"] exI [of _ "[Byte ?q d]"] exI [of _ ds]) auto
    have again: ?thesis if c3: "lg (hw c3) = lg (hw c2)" "core c3 = core c2" "readExpLoop e k n1 s1 held' p x c3 = Some (b, c')"
      "\<And>es ds. expect_spec p x held' es = Some (b, ds, []) \<Longrightarrow> expect_spec p x held (Byte ?q d # es) = Some (b, ds0 @ ds, [])"
      "expecting c p \<longrightarrow> clients c3 = deliver_all e (core c) ds0 (clients c)" for c3 held' ds0
    proof -
      have core3: "core c3 = core c" using c3(2) core by simp
      obtain l' es ds where l': "lg (hw c') = lg (hw c3) @ l'" "heard (muxPresent c) n1 l' = Some es"
        "taken (muxPresent c) s1 l' = event_bytes es" "expect_spec p x held' es = Some (b, ds, [])"
        "expecting c p \<longrightarrow> clients c' = deliver_all e (core c) ds (clients c3)"
        using Suc.IH [OF c3(3)] core_eqD(4) [OF core3] expecting_cong [OF core3] core3 by auto
      have "deliver_all e (core c) (ds0 @ ds) (clients c) = deliver_all e (core c) ds (deliver_all e (core c) ds0 (clients c))"
        by (simp add: deliver_all_def)
      then show ?thesis using step [of l'] lg2 l' c3(1,5) c3(4) [OF l'(4)]
        by (intro exI [of _ "(l @ [In kDataPort d]) @ l'"] exI [of _ "Byte ?q d # es"] exI [of _ "ds0 @ ds"]) auto
    qed
    consider (other) "p \<noteq> ?q" | (first) "p = ?q" "d \<noteq> x" "held = None" | (only) "p = ?q" "d = x" "held = None"
      | (both) f where "p = ?q" "held = Some f" by blast
    then show ?thesis
    proof cases
      case other
      then obtain c3 where c3: "dispatchUnlessIgnored e ?q d c2 = Some c3" "readExpLoop e k n1 s1 held p x c3 = Some (b, c')"
        using Suc.prems w i False same by (auto simp: Let_def elim!: bind_eq_SomeE)
      show ?thesis using again [of c3 held "[(?q, d)]"] c3 other dispatchUnless_hw [OF c3(1)] dispatchUnless_core [OF c3(1)]
        disp [OF c3(1) _ q] by auto
    next
      case first
      then have "readExpLoop e k n1 s1 (Some d) p x c2 = Some (b, c')" using Suc.prems w i False same by auto
      then show ?thesis using again [of c2 "Some d" "[]"] first lg2 by auto
    next
      case only
      then have "b = d" "c' = c2" using Suc.prems w i False same by auto
      then show ?thesis using finish [of "[]"] only lg2 by auto
    next
      case both
      obtain y z where yz: "dispatchUnlessIgnored e p y c2 = Some c'" "b = z" "if d = x then y = f \<and> z = d else y = d \<and> z = f"
        using Suc.prems w i False same both by (auto simp: Let_def split: if_splits elim!: bind_eq_SomeE)
      show ?thesis using finish [of "[(p, y)]"] both yz dispatchUnless_hw [OF yz(1)] disp [OF yz(1)] q by (auto split: if_splits)
    qed
  qed
qed simp

lemma readDataPort_io:
  assumes lg: "io_logs e lg"
  shows "readDataPort e p c = Some (b, c') \<Longrightarrow>
      \<exists>l. lg (hw c') = lg (hw c) @ l \<and> answered (suppressTimeout c) (muxPresent c) p l b"
    and "readDataPortExpect e p x c = Some (b, c') \<Longrightarrow> \<exists>l. lg (hw c') = lg (hw c) @ l \<and> expected (muxPresent c) p x l b"
  unfolding readDataPort_def readDataPortExpect_def answered_def expected_def
  using readLoop_io [OF lg] readExpLoop_io [OF lg] by metis+

lemma transmitPrefix_io:
  assumes lg: "io_logs e lg" and run: "transmitPrefix e p c = Some c'"
  shows "\<exists>l. lg (hw c') = lg (hw c) @ l \<and> (\<forall>ws l'. wrote (prefix_writes (muxPresent c) p @ ws) (l @ l') = wrote ws l')"
proof (cases "p = kPS2KbdIdx")
  case True
  then show ?thesis using run by (intro exI [of _ "[]"]) (auto simp: transmitPrefix_def prefix_writes_def)
next
  case False
  then obtain b where "writeCommandPort e b c = Some c'" "prefix_writes (muxPresent c) p = [(kCommandPort, b)]"
    using run by (auto simp: transmitPrefix_def prefix_writes_def split: if_splits)
  then show ?thesis using writePort_io(2) [OF lg] by fastforce
qed

lemma transmit_io:
  assumes lg: "io_logs e lg" and run: "transmitPrefix e p c = Some c1" "writeDataPort e b c1 = Some c'"
  shows "\<exists>l. lg (hw c') = lg (hw c) @ l \<and> wrote (prefix_writes (muxPresent c) p @ [(kDataPort, b)]) l"
proof -
  obtain l1 where 1: "lg (hw c1) = lg (hw c) @ l1" "\<And>ws l'. wrote (prefix_writes (muxPresent c) p @ ws) (l1 @ l') = wrote ws l'"
    using transmitPrefix_io [OF lg run(1)] by blast
  obtain l2 where 2: "lg (hw c') = lg (hw c1) @ l2" "\<And>ws l'. wrote ((kDataPort, b) # ws) (l2 @ l') = wrote ws l'"
    using writePort_io(1) [OF lg run(2)] by blast
  show ?thesis using 1 2(1) 2(2) [of "[]" "[]"] by (intro exI [of _ "l1 @ l2"]) simp
qed

lemma set_command_byte_io:
  assumes lg: "io_logs e lg" and run: "writeCommandPort e kCP_SetCommandByte c = Some c1" "writeDataPort e b c1 = Some c'"
  shows "\<exists>l. lg (hw c') = lg (hw c) @ l \<and> wrote [(kCommandPort, kCP_SetCommandByte), (kDataPort, b)] l"
proof -
  obtain l1 where 1: "lg (hw c1) = lg (hw c) @ l1" "\<And>ws l'. wrote ((kCommandPort, kCP_SetCommandByte) # ws) (l1 @ l') = wrote ws l'"
    using writePort_io(2) [OF lg run(1)] by blast
  obtain l2 where 2: "lg (hw c') = lg (hw c1) @ l2" "\<And>ws l'. wrote ((kDataPort, b) # ws) (l2 @ l') = wrote ws l'"
    using writePort_io(1) [OF lg run(2)] by blast
  show ?thesis using 1(1) 1(2) [of "[(kDataPort, b)]" l2] 2(1) 2(2) [of "[]" "[]"] by (intro exI [of _ "l1 @ l2"]) simp
qed

lemma get_command_byte_io:
  assumes lg: "io_logs e lg" and run: "writeCommandPort e kCP_GetCommandByte c = Some c1" "readDataPort e kPS2KbdIdx c1 = Some (b, c')"
  shows "\<exists>l1 l2. lg (hw c') = lg (hw c) @ l1 @ l2 \<and> wrote [(kCommandPort, kCP_GetCommandByte)] l1 \<and>
    answered (suppressTimeout c) (muxPresent c) kPS2KbdIdx l2 b"
proof -
  obtain l1 where 1: "lg (hw c1) = lg (hw c) @ l1" "\<And>ws l'. wrote ((kCommandPort, kCP_GetCommandByte) # ws) (l1 @ l') = wrote ws l'"
    using writePort_io(2) [OF lg run(1)] by blast
  note same = core_eqD(4,11) [OF writePort_core(2) [OF run(1)]]
  show ?thesis using readDataPort_io(1) [OF lg run(2)] 1(1) 1(2) [of "[]" "[]"] same by force
qed

section \<open>Requests on the log\<close>

lemma runCommand_io:
  assumes lg: "io_logs e lg" and run: "runCommand e p cmd c = Some (f, cmd', c')"
  shows "\<exists>l. lg (hw c') = lg (hw c) @ l \<and> conversed (suppressTimeout c) (muxPresent c) p cmd f cmd' l"
proof (cases "command cmd")
  case kPS2C_ReadDataPort
  then obtain b where "readDataPort e p c = Some (b, c')" "\<not> f" "cmd' = set_inOrOut b cmd"
    using run by (auto simp: runCommand_def elim!: bind_eq_SomeE)
  then show ?thesis using readDataPort_io(1) [OF lg] kPS2C_ReadDataPort by (fastforce simp: conversed_def)
next
  case kPS2C_ReadDataPortAndCompare
  then obtain b where "readDataPortExpect e p (inOrOut cmd) c = Some (b, c')" "f = (b \<noteq> inOrOut cmd)" "cmd' = set_inOrOut b cmd"
    using run by (auto simp: runCommand_def elim!: bind_eq_SomeE)
  then show ?thesis using readDataPort_io(2) [OF lg] kPS2C_ReadDataPortAndCompare by (fastforce simp: conversed_def)
next
  case kPS2C_WriteDataPort
  then obtain c1 where "transmitPrefix e p c = Some c1" "writeDataPort e (inOrOut cmd) c1 = Some c'" "\<not> f" "cmd' = cmd"
    using run by (auto simp: runCommand_def elim!: bind_eq_SomeE)
  then show ?thesis using transmit_io [OF lg] kPS2C_WriteDataPort by (fastforce simp: conversed_def)
next
  case kPS2C_SendCommandAndCompareAck
  then obtain c1 c2 b where w: "transmitPrefix e p c = Some c1" "writeDataPort e (inOrOut cmd) c1 = Some c2"
    and r: "readDataPortExpect e p 0xFA c2 = Some (b, c')" "f = (b \<noteq> 0xFA)" "cmd' = cmd"
    using run by (auto simp: runCommand_def elim!: bind_eq_SomeE)
  obtain l1 where l1: "lg (hw c2) = lg (hw c) @ l1" "wrote (prefix_writes (muxPresent c) p @ [(kDataPort, inOrOut cmd)]) l1"
    using transmit_io [OF lg w] by blast
  have "core c2 = core c" using transmitPrefix_core [OF w(1)] writePort_core(1) [OF w(2)] by simp
  then have "muxPresent c2 = muxPresent c" by (rule core_eqD)
  then obtain l2 where "lg (hw c') = lg (hw c2) @ l2" "expected (muxPresent c) p 0xFA l2 b"
    using readDataPort_io(2) [OF lg r(1)] by auto
  moreover from this have "conversed (suppressTimeout c) (muxPresent c) p cmd f cmd' (l1 @ l2)"
    unfolding conversed_def kPS2C_SendCommandAndCompareAck PS2CommandEnum.case using l1(2) r(2,3) by blast
  ultimately show ?thesis using l1(1) by auto
next
  case kPS2C_FlushDataPort
  then obtain n where "flushLoop e (fuel e) 0 c = Some (n, c')" "\<not> f" "cmd' = cmd\<lparr>inOrOut32 := n\<rparr>"
    using run by (auto simp: runCommand_def elim!: bind_eq_SomeE)
  then show ?thesis using flushLoop_io [OF lg, of "fuel e" 0 c n c'] kPS2C_FlushDataPort by (auto simp: conversed_def)
next
  case kPS2C_SleepMS
  then show ?thesis using run lg by (auto simp: runCommand_def conversed_def io_logs_def)
next
  case kPS2C_ModifyCommandByte
  then obtain c1 c2 c3 b where r: "writeCommandPort e kCP_GetCommandByte c = Some c1" "readDataPort e kPS2KbdIdx c1 = Some (b, c2)"
    and w: "writeCommandPort e kCP_SetCommandByte c2 = Some c3"
      "writeDataPort e ((b OR setBits cmd) AND NOT (clearBits cmd)) c3 = Some c'" "\<not> f" "cmd' = set_oldBits b cmd"
    using run by (auto simp: runCommand_def elim!: bind_eq_SomeE)
  obtain l1 l2 where "lg (hw c2) = lg (hw c) @ l1 @ l2" "wrote [(kCommandPort, kCP_GetCommandByte)] l1"
    "answered (suppressTimeout c) (muxPresent c) kPS2KbdIdx l2 b" using get_command_byte_io [OF lg r] by blast
  moreover obtain l3 where "lg (hw c') = lg (hw c2) @ l3"
    "wrote [(kCommandPort, kCP_SetCommandByte), (kDataPort, (b OR setBits cmd) AND NOT (clearBits cmd))] l3"
    using set_command_byte_io [OF lg w(1,2)] by blast
  ultimately show ?thesis using w(3,4) kPS2C_ModifyCommandByte by (intro exI [of _ "l1 @ l2 @ l3"]) (auto simp: conversed_def)
qed

lemma runCommands_io:
  assumes lg: "io_logs e lg"
  shows "runCommands e p i n cmds c = Some (f, j, cmds', c') \<Longrightarrow> \<exists>ls. lg (hw c') = lg (hw c) @ concat ls \<and>
    length ls = (if f then Suc j else j) - i \<and>
    (\<forall>k < j - i. conversed (suppressTimeout c) (muxPresent c) p (cmds ! (i + k)) False (cmds' ! (i + k)) (ls ! k)) \<and>
    (f \<longrightarrow> conversed (suppressTimeout c) (muxPresent c) p (cmds ! j) True (cmds' ! j) (ls ! (j - i)))"
proof (induction n arbitrary: i cmds c)
  case (Suc n)
  then obtain g cmd c1 where i: "i < length cmds" and run: "runCommand e p (cmds ! i) c = Some (g, cmd, c1)"
    and rest: "if g then (f, j, cmds', c') = (True, i, cmds[i := cmd], c1)
      else runCommands e p (Suc i) n (cmds[i := cmd]) c1 = Some (f, j, cmds', c')"
    by (auto simp: Let_def split: if_splits elim!: bind_eq_SomeE)
  obtain l where l: "lg (hw c1) = lg (hw c) @ l" "conversed (suppressTimeout c) (muxPresent c) p (cmds ! i) g cmd l"
    using runCommand_io [OF lg run] by blast
  note same = core_eqD(4,11) [OF runCommand_core [OF run]]
  show ?case
  proof (cases g)
    case True
    then show ?thesis using rest l i by (intro exI [of _ "[l]"]) auto
  next
    case False
    then have run': "runCommands e p (Suc i) n (cmds[i := cmd]) c1 = Some (f, j, cmds', c')" using rest by simp
    note out = runCommands_outcome [OF run']
    have here: "cmds' ! i = cmd" using out i by (metis nth_list_update_eq lessI nth_take)
    have j: "Suc i \<le> j" using out by simp
    obtain ls where ls: "lg (hw c') = lg (hw c1) @ concat ls" "length ls = (if f then Suc j else j) - Suc i"
      "\<forall>k < j - Suc i. conversed (suppressTimeout c) (muxPresent c) p (cmds[i := cmd] ! (Suc i + k)) False (cmds' ! (Suc i + k)) (ls ! k)"
      "f \<longrightarrow> conversed (suppressTimeout c) (muxPresent c) p (cmds[i := cmd] ! j) True (cmds' ! j) (ls ! (j - Suc i))"
      using Suc.IH [OF run'] same by auto
    have "conversed (suppressTimeout c) (muxPresent c) p (cmds ! (i + k)) False (cmds' ! (i + k)) ((l # ls) ! k)" if "k < j - i" for k
      using that ls(3) l(2) False here by (cases k) auto
    moreover have "f \<longrightarrow> conversed (suppressTimeout c) (muxPresent c) p (cmds ! j) True (cmds' ! j) ((l # ls) ! (j - i))"
      using ls(4) j by (auto simp: nth_Cons')
    ultimately show ?thesis using ls(1,2) l(1) j by (intro exI [of _ "l # ls"]) auto
  qed
qed simp

lemma processRequest_io:
  assumes lg: "io_logs e lg" and req: "processRequest e r c = Some (d, r', c')" and on: "\<not> hardwareOffline c"
  shows "\<exists>l. lg (hw c') = lg (hw c) @ l \<and> served (suppressTimeout c) (muxPresent c) r r' l"
proof -
  obtain f i c1 where
    run: "runCommands e (req_port r) 0 (unat (commandsCount r)) (commands r)
      (c\<lparr>ignoreInterrupts := ignoreInterrupts c + 1\<rparr>) = Some (f, i, commands r', c1)"
    and i: "hw c' = hw c1" "unat (commandsCount r') = i" "f = (i < unat (commandsCount r))" "i \<le> unat (commandsCount r)"
    using processRequest_count [OF req on] by metis
  have f: "f = (commandsCount r' < commandsCount r)" using i by (simp add: word_less_nat_alt)
  note out = runCommands_outcome [OF run]
  obtain ls where ls: "lg (hw c1) = lg (hw c) @ concat ls" "length ls = (if f then Suc i else i)"
    "\<forall>k < i. conversed (suppressTimeout c) (muxPresent c) (req_port r) (commands r ! k) False (commands r' ! k) (ls ! k)"
    "f \<longrightarrow> conversed (suppressTimeout c) (muxPresent c) (req_port r) (commands r ! i) True (commands r' ! i) (ls ! i)"
    using runCommands_io [OF lg run] by auto
  have shape: "r' = r\<lparr>commands := commands r', commandsCount := commandsCount r'\<rparr>"
    using processRequest_result(1-4) [OF req] by (cases r; cases r') simp
  have len: "length (commands r') = length (commands r)" "drop (length ls) (commands r') = drop (length ls) (commands r)"
    using out ls(2) by simp_all
  have "served (suppressTimeout c) (muxPresent c) r r' (concat ls)"
    unfolding served_def Let_def f [symmetric] i(2)
    by (intro conjI shape len(1) processRequest_result(5) [OF req] exI [of _ ls] refl ls(2-4) len(2))
  then show ?thesis using ls(1) i(1) by auto
qed

lemma processRequests_io:
  assumes lg: "io_logs e lg"
  shows "\<lbrakk>processRequests e rs c = Some (ds, c'); \<not> hardwareOffline c\<rbrakk> \<Longrightarrow>
    \<exists>qs. lg (hw c') = lg (hw c) @ concat (map snd qs) \<and> map snd ds = map fst qs \<and>
      list_all2 (\<lambda>r (r', l). served (suppressTimeout c) (muxPresent c) r r' l) rs qs"
proof (induction rs arbitrary: c ds)
  case (Cons r rs)
  then obtain d r' c1 ds' where req: "processRequest e r c = Some (d, r', c1)" and ds: "ds = (d, r') # ds'"
    and rest: "processRequests e rs c1 = Some (ds', c')"
    by (auto elim!: bind_eq_SomeE)
  note same = core_eqD(3,4,11) [OF processRequest_core [OF req]]
  obtain l where l: "lg (hw c1) = lg (hw c) @ l" "served (suppressTimeout c) (muxPresent c) r r' l"
    using processRequest_io [OF lg req Cons.prems(2)] by blast
  obtain qs where "lg (hw c') = lg (hw c1) @ concat (map snd qs)" "map snd ds' = map fst qs"
    "list_all2 (\<lambda>r (r', l). served (suppressTimeout c) (muxPresent c) r r' l) rs qs"
    using Cons.IH [OF rest] Cons.prems(2) same by auto
  then show ?case using l ds by (intro exI [of _ "(r', l) # qs"]) simp
qed simp

lemma submitRequestAndBlock_io:
  assumes lg: "io_logs e lg" and run: "submitRequestAndBlock e r c = Some (r', c')" and on: "\<not> hardwareOffline c"
  shows "\<exists>qs l. lg (hw c') = lg (hw c) @ concat (map snd qs) @ l \<and> served (suppressTimeout c) (muxPresent c) r r' l \<and>
    list_all2 (\<lambda>r (r', l). served (suppressTimeout c) (muxPresent c) r r' l) (requestQueue c) qs"
proof -
  obtain ds c1 d where q: "processRequestQueue e c = Some (ds, c1)" and req: "processRequest e r c1 = Some (d, r', c')"
    using run by (auto simp: submitRequestAndBlock_def elim!: bind_eq_SomeE)
  have core: "core c1 = (core c)\<lparr>requestQueue := []\<rparr>" by (rule processRequestQueue_core [OF q])
  have "muxPresent (core c1) = muxPresent c" "hardwareOffline (core c1) = hardwareOffline c" "suppressTimeout (core c1) = suppressTimeout c"
    unfolding core by simp_all
  then have same: "muxPresent c1 = muxPresent c" "hardwareOffline c1 = hardwareOffline c" "suppressTimeout c1 = suppressTimeout c" by simp_all
  obtain qs where qs: "lg (hw c1) = lg (hw c) @ concat (map snd qs)"
    "list_all2 (\<lambda>r (r', l). served (suppressTimeout c) (muxPresent c) r r' l) (requestQueue c) qs"
    using processRequests_io [OF lg, of "requestQueue c" "c\<lparr>requestQueue := []\<rparr>" ds c1] q on by (auto simp: processRequestQueue_def)
  obtain l where "lg (hw c') = lg (hw c1) @ l" "served (suppressTimeout c) (muxPresent c) r r' l"
    using processRequest_io [OF lg req] on same by auto
  then show ?thesis using qs by auto
qed

text \<open>The controller's own update of its command byte: it is written only if a bit changes.\<close>

definition modified :: "bool \<Rightarrow> bool \<Rightarrow> u8 \<Rightarrow> u8 \<Rightarrow> io list \<Rightarrow> bool" where
  "modified any mux s cl l \<longleftrightarrow> (\<exists>l1 l2 l3 old. l = l1 @ l2 @ l3 \<and> wrote [(kCommandPort, kCP_GetCommandByte)] l1 \<and>
     answered any mux kPS2KbdIdx l2 old \<and>
     (let new = (old OR s) AND NOT cl in
      wrote (if new = old then [] else [(kCommandPort, kCP_SetCommandByte), (kDataPort, new)]) l3))"

lemma setCommandByte_io:
  assumes lg: "io_logs e lg" and run: "setCommandByte e s cl c = Some (b, c')"
  shows "\<exists>l. lg (hw c') = lg (hw c) @ l \<and> modified (suppressTimeout c) (muxPresent c) s cl l"
proof -
  let ?c = "c\<lparr>ignoreInterrupts := ignoreInterrupts c + 1\<rparr>"
  obtain c1 c2 old where r: "writeCommandPort e kCP_GetCommandByte ?c = Some c1" "readDataPort e kPS2KbdIdx c1 = Some (old, c2)"
    and w: "if old \<noteq> (old OR s) AND NOT cl
      then Option.bind (writeCommandPort e kCP_SetCommandByte (c2\<lparr>ignoreInterrupts := ignoreInterrupts c2 - 1\<rparr>))
        (writeDataPort e ((old OR s) AND NOT cl)) = Some c'
      else c' = c2\<lparr>ignoreInterrupts := ignoreInterrupts c2 - 1\<rparr>"
    using run by (auto simp: setCommandByte_def setCommandByteGated_def Let_def split: if_splits elim!: bind_eq_SomeE)
  obtain l1 l2 where l: "lg (hw c2) = lg (hw c) @ l1 @ l2" "wrote [(kCommandPort, kCP_GetCommandByte)] l1"
    "answered (suppressTimeout c) (muxPresent c) kPS2KbdIdx l2 old" using get_command_byte_io [OF lg r] by auto
  obtain l3 where "lg (hw c') = lg (hw c2) @ l3"
    "wrote (if (old OR s) AND NOT cl = old then [] else [(kCommandPort, kCP_SetCommandByte), (kDataPort, (old OR s) AND NOT cl)]) l3"
    using w set_command_byte_io [OF lg] by (fastforce split: if_splits elim!: bind_eq_SomeE)
  then show ?thesis using l unfolding modified_def Let_def
    by (intro exI [of _ "l1 @ l2 @ l3"] conjI exI [of _ l1] exI [of _ l2] exI [of _ l3] exI [of _ old]) simp_all
qed

section \<open>A tape for the witnesses\<close>

text \<open>The scripted hardware, with the log of what was done at its ports.\<close>

definition tape_env :: "(script \<times> io list, (nat \<times> u8) list) env" where
  "tape_env = \<lparr>inb = (\<lambda>p (h, l). let (b, h) = script_inb p h in (b, h, l @ [In p b])),
     outb = (\<lambda>p b (h, l). (script_outb p b h, l @ [Out p b])), IOSleep = (\<lambda>n (h, l). (h, l @ [Slept n])),
     enableInterrupt = (\<lambda>_ h. h), disableInterrupt = (\<lambda>_ h. h),
     interruptOccurred = log_byte, packetReady = (\<lambda>_ cl. cl),
     setDevicePowerState = (\<lambda>_ _ c. Some c), complete = (\<lambda>_ _ cl. cl), fuel = 9\<rparr>"

definition tape_ctl :: "u8 list \<Rightarrow> u8 list \<Rightarrow> (script \<times> io list, (nat \<times> u8) list) ctl" where
  "tape_ctl ss bs = \<lparr>hw = (\<lparr>statuses = ss, bytes = bs, written = []\<rparr>, []), clients = [],
     requestQueue = [], interruptInstalledKeyboard = True, interruptInstalledMouse = 1,
     ignoreInterrupts = 0, ignoreOutOfOrder = 0,
     devices = map (\<lambda>p. if p < 2 then Some (script_nub p) else None) [0..<5],
     currentPowerState = kPS2PowerStateNormal, hardwareOffline = False, suppressTimeout = False,
     wakedelay = 10, mouseWakeFirst = False, muxPresent = False,
     nubsCount = 2, resetControllerFlag = 3, kbdOnly = False\<rparr>"

lemma tape_env_sel [simp]:
  "inb tape_env p (h, l) = (let (b, h) = script_inb p h in (b, h, l @ [In p b]))"
  "interruptOccurred tape_env = log_byte" "fuel tape_env = 9"
  by (simp_all add: tape_env_def)

lemma next_byte_tape_quiet [simp]: "statuses h = [] \<Longrightarrow> next_byte tape_env n (h, l) = None"
  by (induction n arbitrary: l) (simp_all add: script_inb_def)

lemma tape_logs: "io_logs tape_env snd"
  by (simp add: io_logs_def tape_env_def split: prod.splits)

lemma tape_wf: "ctl_wf (tape_ctl ss bs)" "port_bound (tape_ctl ss bs) = 2" "muxPresent (tape_ctl ss bs) = False"
  "ignoreOutOfOrder (tape_ctl ss bs) = 0" "suppressTimeout (tape_ctl ss bs) = False" "hardwareOffline (tape_ctl ss bs) = False"
  "hw (tape_ctl ss bs) = (\<lparr>statuses = ss, bytes = bs, written = []\<rparr>, [])" "clients (tape_ctl ss bs) = []"
  "requestQueue (tape_ctl ss bs) = []"
  by (auto simp: ctl_wf_def tape_ctl_def port_bound_def script_nub_def upt_rec less_Suc_eq
      numeral_2_eq_2 nth_Cons split: nat.splits)

section \<open>Properties\<close>

text \<open>A read that expects a byte accounts for every byte; it makes up a zero only if nothing came from its port.\<close>

lemma expect_spec_account_from:
  "expect_spec p x held es = Some (r, ds, []) \<Longrightarrow>
   (let received = mset (event_bytes es) + (case held of Some f \<Rightarrow> {#(p, f)#} | None \<Rightarrow> {#}) in
    received = mset ds + {#(p, r)#} \<or> held = None \<and> received = mset ds \<and> p \<notin> fst ` set ds \<and> r = 0)"
proof (induction p x held es arbitrary: ds rule: expect_spec.induct)
  case (3 p x held q b es)
  then show ?case by (force simp: Let_def image_iff split: if_splits option.splits)
qed (auto split: option.splits)

lemmas expect_spec_account = expect_spec_account_from [where held = None, simplified]

text \<open>
  C4. No input byte is lost or duplicated while the controller waits for an expected answer. When the
  input goes quiet at last, the routine returns; and all the bytes it has taken from the data port,
  as the log of the hardware shows them, are exactly the byte it returned together with the bytes
  handed to the drivers of their ports (no byte at all was returned, but zero, only when none had
  come from the expected port).
\<close>

theorem readDataPortExpect_conserves:
  assumes "io_logs e lg" and "Timeout \<in> set es"
    and "delivers e (muxPresent c) 10000 (hw c) es" and "length es \<le> fuel e"
    and "ctl_wf c" and "p < port_bound c" and "ignoreOutOfOrder c = 0"
  shows "\<exists>r c' l ds. readDataPortExpect e p x c = Some (r, c') \<and> lg (hw c') = lg (hw c) @ l \<and>
    clients c' = deliver_all e (core c) ds (clients c) \<and>
    (mset (taken (muxPresent c) 0 l) = mset ds + {#(p, r)#} \<or>
     mset (taken (muxPresent c) 0 l) = mset ds \<and> p \<notin> fst ` set ds \<and> r = 0)"
proof -
  obtain r ds rest where spec: "expect_spec p x None es = Some (r, ds, rest)"
    using expect_spec_returns [OF assms(2)] by (metis option.exhaust prod_cases3)
  obtain c' where run: "readDataPortExpect e p x c = Some (r, c')"
    using readExpLoop_spec [OF spec assms(3-7)] by (auto simp: readDataPortExpect_def)
  obtain l es' ds' where l: "lg (hw c') = lg (hw c) @ l" "taken (muxPresent c) 0 l = event_bytes es'"
    "expect_spec p x None es' = Some (r, ds', [])" "clients c' = deliver_all e (core c) ds' (clients c)"
    using readExpLoop_io [OF assms(1) run [unfolded readDataPortExpect_def]] assms(5-7) by (auto simp: expecting_def)
  show ?thesis using run l expect_spec_account [OF l(3)] by (auto simp: Let_def)
qed

theorem readDataPortExpect_conserves_witness:
  "\<exists>r c' l ds. readDataPortExpect tape_env 0 0xFA (tape_ctl [0, 1] [0x11]) = Some (r, c') \<and>
     snd (hw c') = l \<and> clients c' = deliver_all tape_env (core (tape_ctl [0, 1] [0x11])) ds [] \<and>
     (mset (taken False 0 l) = mset ds + {#(0, r)#} \<or> mset (taken False 0 l) = mset ds \<and> 0 \<notin> fst ` set ds \<and> r = 0)"
proof -
  let ?c = "tape_ctl [0, 1] [0x11]" and ?es = "[Byte 0 0x11, Timeout]"
  have "next_byte tape_env 10000 (hw ?c) = Some (9999, 1, 0x11, \<lparr>statuses = [], bytes = [], written = []\<rparr>, [In 0x64 0, In 0x64 1, In 0x60 0x11])"
    by (simp add: tape_wf next_byte_numeral script_inb_def)
  then have "delivers tape_env (muxPresent ?c) 10000 (hw ?c) ?es" by (simp add: tape_wf getPortFromStatus_def)
  from readDataPortExpect_conserves [OF tape_logs _ this, where p = 0 and x = "0xFA"] show ?thesis
    by (simp add: tape_wf)
qed

end
