(* ===== verification/PS2_Transport.thy ===== *)
theory PS2_Transport
  imports PS2_Log
begin

text \<open>
  The request interface the device drivers use. First the nub operations of \<^verbatim>\<open>ApplePS2Device.cpp\<close>
  that forward to the controller, and the installation of interrupt handlers; then what a
  request promises (properties of \<^verbatim>\<open>processRequest\<close> and the queue); then the contract \<open>transport\<close>
  against which the driver protocols are verified, and its interpretation by the nub.
\<close>

section \<open>Nub operations\<close>

definition nub_submitRequest :: "nat \<Rightarrow> PS2Request \<Rightarrow> ('h, 'c) ctl \<Rightarrow> bool \<times> ('h, 'c) ctl" where
  "nub_submitRequest p r c = submitRequest (r\<lparr>req_port := p\<rparr>) c"

definition nub_submitRequestAndBlock ::
  "('h, 'c) env \<Rightarrow> nat \<Rightarrow> PS2Request \<Rightarrow> ('h, 'c) ctl \<Rightarrow> (PS2Request \<times> ('h, 'c) ctl) option" where
  "nub_submitRequestAndBlock e p r c = submitRequestAndBlock e (r\<lparr>req_port := p\<rparr>) c"

definition nub_setCommandByte ::
  "('h, 'c) env \<Rightarrow> u8 \<Rightarrow> u8 \<Rightarrow> ('h, 'c) ctl \<Rightarrow> (u8 \<times> ('h, 'c) ctl) option" where
  "nub_setCommandByte e s cl c = setCommandByte e s cl c"

definition installInterruptAction ::
  "('h, 'c) env \<Rightarrow> nat \<Rightarrow> ('h, 'c) ctl \<Rightarrow> ('h, 'c) ctl option" where
  "installInterruptAction e p c =
     (if p = kPS2KbdIdx \<and> \<not> interruptInstalledKeyboard c then do {
        (_, c) \<leftarrow> setCommandByte e kCB_EnableKeyboardIRQ 0 c;
        let c = c\<lparr>hw := enableInterrupt e kIRQ_Keyboard (hw c)\<rparr>;
        Some (c\<lparr>interruptInstalledKeyboard := True\<rparr>)
      }
      else if p > kPS2KbdIdx then do {
        c \<leftarrow> (if interruptInstalledMouse c = 0 then do {
                c \<leftarrow> (if muxPresent c then enableMuxPorts e c else Some c);
                (_, c) \<leftarrow> setCommandByte e kCB_EnableMouseIRQ 0 c;
                Some (c\<lparr>hw := enableInterrupt e kIRQ_Mouse (hw c)\<rparr>)
              } else Some c);
        Some (c\<lparr>interruptInstalledMouse := interruptInstalledMouse c + 1\<rparr>)
      }
      else Some c)"

definition uninstallInterruptAction ::
  "('h, 'c) env \<Rightarrow> nat \<Rightarrow> ('h, 'c) ctl \<Rightarrow> ('h, 'c) ctl option" where
  "uninstallInterruptAction e p c =
     (if p = kPS2KbdIdx \<and> interruptInstalledKeyboard c then do {
        (_, c) \<leftarrow> setCommandByte e 0 kCB_EnableKeyboardIRQ c;
        let c = c\<lparr>hw := disableInterrupt e kIRQ_Keyboard (hw c)\<rparr>;
        Some (c\<lparr>interruptInstalledKeyboard := False\<rparr>)
      }
      else if p > kPS2KbdIdx then do {
        let c = c\<lparr>interruptInstalledMouse := interruptInstalledMouse c - 1\<rparr>;
        if interruptInstalledMouse c = 0 then do {
          (_, c) \<leftarrow> setCommandByte e 0 kCB_EnableMouseIRQ c;
          Some (c\<lparr>hw := disableInterrupt e kIRQ_Mouse (hw c)\<rparr>)
        } else Some c
      }
      else Some c)"

definition update_nub :: "nat \<Rightarrow> (nub \<Rightarrow> nub) \<Rightarrow> ('h, 'c) ctl \<Rightarrow> ('h, 'c) ctl option" where
  "update_nub p f c = do {
     d \<leftarrow> device_at p c;
     Some (c\<lparr>devices := (devices c)[p := Some (f d)]\<rparr>)
   }"

definition nub_installInterruptAction ::
  "('h, 'c) env \<Rightarrow> nat \<Rightarrow> ('h, 'c) ctl \<Rightarrow> ('h, 'c) ctl option" where
  "nub_installInterruptAction e p c = do {
     c \<leftarrow> update_nub p (nub_client_update (\<lambda>_. True)) c;
     c \<leftarrow> installInterruptAction e p c;
     c \<leftarrow> update_nub p (nub_interrupt_action_update (\<lambda>_. True)) c;
     update_nub p (nub_packet_action_update (\<lambda>_. True)) c
   }"

definition nub_uninstallInterruptAction ::
  "('h, 'c) env \<Rightarrow> nat \<Rightarrow> ('h, 'c) ctl \<Rightarrow> ('h, 'c) ctl option" where
  "nub_uninstallInterruptAction e p c = do {
     c \<leftarrow> uninstallInterruptAction e p c;
     c \<leftarrow> update_nub p (nub_interrupt_action_update (\<lambda>_. False)) c;
     c \<leftarrow> update_nub p (nub_packet_action_update (\<lambda>_. False)) c;
     update_nub p (nub_client_update (\<lambda>_. False)) c
   }"

definition nub_installPowerControlAction :: "nat \<Rightarrow> ('h, 'c) ctl \<Rightarrow> ('h, 'c) ctl option" where
  "nub_installPowerControlAction p c = update_nub p (nub_power_action_update (\<lambda>_. True)) c"

definition nub_uninstallPowerControlAction :: "nat \<Rightarrow> ('h, 'c) ctl \<Rightarrow> ('h, 'c) ctl option" where
  "nub_uninstallPowerControlAction p c = update_nub p (nub_power_action_update (\<lambda>_. False)) c"

text \<open>The work loop of a nub serves its event source: the signal is cleared and the driver called.\<close>

definition nub_workloop :: "('h, 'c) env \<Rightarrow> nat \<Rightarrow> ('h, 'c) ctl \<Rightarrow> ('h, 'c) ctl option" where
  "nub_workloop e p c = do {
     d \<leftarrow> device_at p c;
     if nub_signalled d then do {
       c \<leftarrow> update_nub p (nub_signalled_update (\<lambda>_. False)) c;
       Some (c\<lparr>clients := nub_packetAction e d (clients c)\<rparr>)
     } else Some c
   }"

section \<open>Properties of requests\<close>

text \<open>
  C1. A request runs its commands in order up to the first failure, and what it reports is what the
  hardware said. The log of the ports falls into one conversation per executed command: the bytes sent
  are those of the command with the prefix of its port, each after the controller was ready; a read
  stores the byte heard for that port (zero after the full timeout), a flush the number of bytes thrown
  away; a command fails exactly if the answer heard is not the expected byte, or not an acknowledgement.
  \<^verbatim>\<open>commandsCount\<close> afterwards is the number of commands that succeeded, the commands behind the one
  that failed are untouched, and nothing else of the controller changes.
\<close>

theorem processRequest_outcome:
  assumes "io_logs e lg" and "processRequest e r c = Some (d, r', c')" and "\<not> hardwareOffline c"
  shows "core c' = core c \<and>
    (\<exists>l. lg (hw c') = lg (hw c) @ l \<and> served (suppressTimeout c) (muxPresent c) r r' l)"
  using processRequest_core [OF assms(2)] processRequest_io [OF assms] by blast

text \<open>The request used by the witnesses: enable the mouse, then read a byte that must be zero.\<close>

definition script_request :: PS2Request where
  "script_request = (TPS2Request [cmd_byte kPS2C_SendCommandAndCompareAck kDP_Enable,
     cmd_byte kPS2C_ReadDataPortAndCompare 0, cmd_byte kPS2C_WriteDataPort kDP_SetDefaults])\<lparr>req_port := 1\<rparr>"

definition script_failing :: "(script, (nat \<times> u8) list) ctl" where
  "script_failing = script_ctl False [0, 0, 0x21, 0x21, 0x21] [0xFA, 0x55, 0x66]"

lemma script_failing_run:
  obtains d r' c' where "processRequest script_env script_request script_failing = Some (d, r', c')"
    "commandsCount r' = 1" "\<not> hardwareOffline script_failing" "written (hw script_failing) = []"
    "muxPresent script_failing = False" "executedCommands script_request r' = take 2 (commands r')"
    "written (hw c') = [(0x64, 0xD4), (0x60, 0xF4)]"
proof -
  have "map_option (\<lambda>(d, r', c'). (commandsCount r', written (hw c')))
    (processRequest script_env script_request script_failing) = Some (1, [(0x64, 0xD4), (0x60, 0xF4)])"
    by code_simp
  then obtain d r' c' where run: "processRequest script_env script_request script_failing = Some (d, r', c')"
    "commandsCount r' = 1" "written (hw c') = [(0x64, 0xD4), (0x60, 0xF4)]" by auto
  moreover have "(1 :: u8) < 3" by (simp add: word_less_nat_alt)
  then have "executedCommands script_request r' = take 2 (commands r')"
    using run(2) by (simp add: executedCommands_def script_request_def numeral_2_eq_2)
  ultimately show ?thesis using that by (simp add: script_failing_def script_wf)
qed

text \<open>The same request with a log: the mouse acknowledges, then sends \<open>0x55\<close> where zero was expected.\<close>

theorem processRequest_outcome_witness:
  "\<exists>d r' c'. processRequest tape_env script_request (tape_ctl [0, 0, 0x21, 0x21, 0x21] [0xFA, 0x55, 0x66]) = Some (d, r', c') \<and>
     commandsCount r' = 1 \<and> served False False script_request r' (snd (hw c'))"
proof -
  let ?c = "tape_ctl [0, 0, 0x21, 0x21, 0x21] [0xFA, 0x55, 0x66]"
  have "map_option (\<lambda>(d, r', c'). commandsCount r') (processRequest tape_env script_request ?c) = Some 1" by code_simp
  then obtain d r' c' where run: "processRequest tape_env script_request ?c = Some (d, r', c')" "commandsCount r' = 1" by auto
  then show ?thesis using processRequest_outcome [OF tape_logs run(1)] by (auto simp: tape_wf)
qed

text \<open>
  C2. The bytes on the bus are exactly those of the executed commands, in order: for every command
  sent to a device the transmit prefix of its port (none for the keyboard, the auxiliary prefix,
  or the multiplexer prefix of that port) followed by the byte; for a command byte update the read
  command, the write command and the new value. Commands behind a failure write nothing.
\<close>

theorem processRequest_trace:
  assumes "logs e wr" and "processRequest e r c = Some (d, r', c')" and "\<not> hardwareOffline c"
  shows "wr (hw c') = wr (hw c) @
    concat (map (command_writes (muxPresent c) (req_port r)) (executedCommands r r'))"
  using processRequest_log [OF assms] by (simp add: request_writes_def)

theorem processRequest_trace_witness:
  "\<exists>d r' c'. processRequest script_env script_request script_failing = Some (d, r', c') \<and>
     written (hw c') = concat (map (command_writes False 1) (executedCommands script_request r'))"
proof -
  obtain d r' c' where run: "processRequest script_env script_request script_failing = Some (d, r', c')"
    and on: "\<not> hardwareOffline script_failing" and st: "written (hw script_failing) = []"
      "muxPresent script_failing = False"
    by (rule script_failing_run)
  have "req_port script_request = 1" by (simp add: script_request_def)
  then show ?thesis using processRequest_trace [OF script_logs run on] run st by simp
qed

lemma disposeRequest_shape: "\<exists>cl. disposeRequest e r c = (disposal_of r, c\<lparr>clients := cl\<rparr>)"
  by (auto simp: disposeRequest_def disposal_of_def split: PS2CompletionTarget.splits
      intro: exI [of _ "clients c"])

lemma disposal_of_count [simp]: "disposal_of (r\<lparr>commandsCount := n\<rparr>) = disposal_of r"
  by (simp add: disposal_of_def split: PS2CompletionTarget.splits)

text \<open>
  While the hardware is offline (asleep, or after stop) a request fails at once: it returns,
  reports zero completed commands, leaves its commands unchanged and performs no port access.
\<close>

lemma processRequest_offline:
  assumes "hardwareOffline c"
  shows "\<exists>c'. processRequest e r c = Some (disposal_of r, r\<lparr>commandsCount := 0\<rparr>, c') \<and>
    hw c' = hw c \<and> core c' = core c"
proof -
  obtain cl where "disposeRequest e (r\<lparr>commandsCount := 0\<rparr>) c = (disposal_of r, c\<lparr>clients := cl\<rparr>)"
    using disposeRequest_shape [of e "r\<lparr>commandsCount := 0\<rparr>" c] by auto
  then have "processRequest e r c = Some (disposal_of r, r\<lparr>commandsCount := 0\<rparr>, c\<lparr>clients := cl\<rparr>)"
    using assms by (simp add: processRequest_def Let_def)
  then show ?thesis by simp
qed

lemma processRequests_all:
  "processRequests e rs c = Some (ds, c') \<Longrightarrow>
   list_all2 (\<lambda>r (d, r'). d = disposal_of r \<and> req_port r' = req_port r \<and>
     map command (commands r') = map command (commands r) \<and> commandsCount r' \<le> commandsCount r) rs ds"
proof (induction rs arbitrary: c ds)
  case (Cons r rs)
  then obtain d r' c1 ds' where req: "processRequest e r c = Some (d, r', c1)"
    and "ds = (d, r') # ds'" "processRequests e rs c1 = Some (ds', c')"
    by (auto elim!: bind_eq_SomeE)
  then show ?case
    using Cons.IH processRequest_result [OF req] processRequest_disposal [OF req] by simp
qed simp

text \<open>
  C7. Serving the queue processes every queued request exactly once, in the order of submission,
  and leaves the queue empty; each is disposed of as its completion target asks (completion routine
  called, freed, or left to its owner on the stack).
\<close>

theorem processRequestQueue_all:
  assumes "processRequestQueue e c = Some (ds, c')"
  shows "core c' = (core c)\<lparr>requestQueue := []\<rparr> \<and> requestQueue c' = [] \<and>
    list_all2 (\<lambda>r (d, r'). d = disposal_of r \<and> req_port r' = req_port r \<and>
      map command (commands r') = map command (commands r) \<and>
      commandsCount r' \<le> commandsCount r) (requestQueue c) ds"
proof -
  note core = processRequestQueue_core [OF assms]
  have "requestQueue (core c') = []" unfolding core by simp
  then have "requestQueue c' = []" by simp
  then show ?thesis using core assms by (auto simp: processRequestQueue_def dest: processRequests_all)
qed

text \<open>A queue of two: one to be freed by the controller, one on the stack.\<close>

definition script_queue :: "(script, (nat \<times> u8) list) ctl" where
  "script_queue = (script_ctl False [0, 0, 0x21, 0, 0, 0x21] [0xFA, 0xFA])\<lparr>requestQueue :=
     [(TPS2Request [cmd_byte kPS2C_SendCommandAndCompareAck kDP_SetDefaults])\<lparr>req_port := 1, completionTarget := NullTarget\<rparr>,
      (TPS2Request [cmd_byte kPS2C_SendCommandAndCompareAck kDP_Enable])\<lparr>req_port := 1\<rparr>]\<rparr>"

theorem processRequestQueue_all_witness:
  "\<exists>ds c'. processRequestQueue script_env script_queue = Some (ds, c') \<and>
     map fst ds = [Freed, LeftOnStack] \<and> requestQueue c' = []"
proof -
  have "map_option (\<lambda>(ds, c'). map fst ds) (processRequestQueue script_env script_queue) =
    Some [Freed, LeftOnStack]" by code_simp
  then obtain ds c' where run: "processRequestQueue script_env script_queue = Some (ds, c')"
    "map fst ds = [Freed, LeftOnStack]" by auto
  then show ?thesis using processRequestQueue_all [OF run(1)] by auto
qed

text \<open>
  C8. A blocking request never overtakes asynchronous ones: the log begins with the complete
  conversations of all queued requests, in the order of the queue, and ends with the conversation of
  the request itself; the queue is empty afterwards.
\<close>

theorem submitRequestAndBlock_order:
  assumes "io_logs e lg" and "submitRequestAndBlock e r c = Some (r', c')" and "\<not> hardwareOffline c"
  shows "requestQueue c' = [] \<and> (\<exists>qs l. lg (hw c') = lg (hw c) @ concat (map snd qs) @ l \<and>
    list_all2 (\<lambda>q (q', l). served (suppressTimeout c) (muxPresent c) q q' l) (requestQueue c) qs \<and>
    served (suppressTimeout c) (muxPresent c) r r' l)"
proof -
  have "requestQueue (core c') = []" unfolding submitRequestAndBlock_core [OF assms(2)] by simp
  then show ?thesis using submitRequestAndBlock_io [OF assms] by auto
qed

definition tape_queue :: "(script \<times> io list, (nat \<times> u8) list) ctl" where
  "tape_queue = (tape_ctl [0, 0, 0x21, 0, 0, 0x21, 0, 0, 0x21] [0xFA, 0xFA, 0xFA])\<lparr>requestQueue :=
     [(TPS2Request [cmd_byte kPS2C_SendCommandAndCompareAck kDP_SetDefaults])\<lparr>req_port := 1, completionTarget := NullTarget\<rparr>,
      (TPS2Request [cmd_byte kPS2C_SendCommandAndCompareAck kDP_Enable])\<lparr>req_port := 1\<rparr>]\<rparr>"

theorem submitRequestAndBlock_order_witness:
  "\<exists>r' c' qs l. submitRequestAndBlock tape_env
       ((TPS2Request [cmd_byte kPS2C_SendCommandAndCompareAck 0xEA])\<lparr>req_port := 1\<rparr>) tape_queue = Some (r', c') \<and>
     length qs = 2 \<and> snd (hw c') = concat (map snd qs) @ l \<and>
     list_all2 (\<lambda>q (q', l). served False False q q' l) (requestQueue tape_queue) qs \<and>
     served False False ((TPS2Request [cmd_byte kPS2C_SendCommandAndCompareAck 0xEA])\<lparr>req_port := 1\<rparr>) r' l"
proof -
  let ?r = "(TPS2Request [cmd_byte kPS2C_SendCommandAndCompareAck 0xEA])\<lparr>req_port := 1\<rparr>"
  have "submitRequestAndBlock tape_env ?r tape_queue \<noteq> None" by code_simp
  then obtain r' c' where run: "submitRequestAndBlock tape_env ?r tape_queue = Some (r', c')"
    by (metis not_None_eq surj_pair)
  have q: "\<not> hardwareOffline tape_queue" "suppressTimeout tape_queue = False" "muxPresent tape_queue = False"
    "snd (hw tape_queue) = []" "length (requestQueue tape_queue) = 2"
    by (simp_all add: tape_queue_def tape_wf)
  obtain qs l where "snd (hw c') = concat (map snd qs) @ l"
    "list_all2 (\<lambda>q (q', l). served False False q q' l) (requestQueue tape_queue) qs" "served False False ?r r' l"
    using submitRequestAndBlock_order [OF tape_logs run q(1)] unfolding q(2-4) by auto
  then show ?thesis using run q(5) list_all2_lengthD by metis
qed

section \<open>The contract the drivers are verified against\<close>

text \<open>
  \<open>submit\<close> hands a request over and waits for it; \<open>wire\<close> is the trace of port writes, \<open>online\<close> the
  states in which requests are served, \<open>writes\<close> the port writes of one executed command.
\<close>

locale transport =
  fixes submit :: "PS2Request \<Rightarrow> 's \<Rightarrow> (PS2Request \<times> 's) option"
    and wire :: "'s \<Rightarrow> (u16 \<times> u8) list"
    and online :: "'s \<Rightarrow> bool"
    and writes :: "'s \<Rightarrow> PS2Command \<Rightarrow> (u16 \<times> u8) list"
  assumes submit_online: "\<lbrakk>submit r s = Some (r', s'); online s\<rbrakk> \<Longrightarrow> online s' \<and> writes s' = writes s"
    and submit_wire: "\<lbrakk>submit r s = Some (r', s'); online s\<rbrakk> \<Longrightarrow>
      wire s' = wire s @ concat (map (writes s) (executedCommands r r'))"
    and submit_count: "\<lbrakk>submit r s = Some (r', s'); online s\<rbrakk> \<Longrightarrow> commandsCount r' \<le> commandsCount r"
    and submit_length: "\<lbrakk>submit r s = Some (r', s'); online s\<rbrakk> \<Longrightarrow>
      length (commands r') = length (commands r)"
    and submit_executed: "\<lbrakk>submit r s = Some (r', s'); online s; k < unat (commandsCount r')\<rbrakk> \<Longrightarrow>
      executed False (commands r ! k) (commands r' ! k)"
begin

text \<open>A stack request that completes has run all its commands, and all of them are on the wire.\<close>

lemma completed:
  assumes run: "submit (TPS2Request cmds) s = Some (r', s')" "online s"
    and all_run: "unat (commandsCount r') = length cmds" and len: "length cmds < 256"
  shows "online s'" "writes s' = writes s" "wire s' = wire s @ concat (map (writes s) (commands r'))"
    "list_all2 (executed False) cmds (commands r')"
proof -
  show "online s'" "writes s' = writes s" using submit_online [OF run] by auto
  have n: "unat (of_nat (length cmds) :: u8) = length cmds"
    using len by (simp add: unsigned_of_nat take_bit_nat_eq_self_iff)
  have len': "length (commands r') = length cmds" using submit_length [OF run] by simp
  have "executedCommands (TPS2Request cmds) r' = commands r'"
    using all_run len' n by (simp add: executedCommands_def word_less_nat_alt)
  then show "wire s' = wire s @ concat (map (writes s) (commands r'))" using submit_wire [OF run] by simp
  show "list_all2 (executed False) cmds (commands r')"
    using submit_executed [OF run] len' all_run by (simp add: list_all2_conv_all_nth)
qed

end

text \<open>The nub of port \<open>p\<close>, with no asynchronous request pending, is such a transport.\<close>

definition nub_online :: "('h, 'c) env \<Rightarrow> ('h \<Rightarrow> (u16 \<times> u8) list) \<Rightarrow> ('h, 'c) ctl \<Rightarrow> bool" where
  "nub_online e wr c \<longleftrightarrow> logs e wr \<and> \<not> hardwareOffline c \<and> requestQueue c = []"

interpretation nub_transport: transport "nub_submitRequestAndBlock e p" "\<lambda>c. wr (hw c)"
  "nub_online e wr" "\<lambda>c. command_writes (muxPresent c) p"
proof
  fix r r' :: PS2Request and c c' :: "('a, 'b) ctl" and k
  assume run: "nub_submitRequestAndBlock e p r c = Some (r', c')" and on: "nub_online e wr c"
  let ?r = "r\<lparr>req_port := p\<rparr>"
  have "c\<lparr>requestQueue := []\<rparr> = c" using on by (cases c) (simp add: nub_online_def)
  then obtain d where req: "processRequest e ?r c = Some (d, r', c')"
    using run on by (auto simp: nub_submitRequestAndBlock_def submitRequestAndBlock_def nub_online_def
        processRequestQueue_def elim!: bind_eq_SomeE)
  have off: "\<not> hardwareOffline c" and log: "logs e wr" using on by (auto simp: nub_online_def)
  note core = processRequest_core [OF req]
  show "nub_online e wr c' \<and> command_writes (muxPresent c') p = command_writes (muxPresent c) p"
    using on core_eqD [OF core] by (simp add: nub_online_def)
  show "wr (hw c') = wr (hw c) @ concat (map (command_writes (muxPresent c) p) (executedCommands r r'))"
    using processRequest_log [OF log req off] by (simp add: request_writes_def executedCommands_def)
  show "commandsCount r' \<le> commandsCount r" "length (commands r') = length (commands r)"
    using processRequest_result(5,6) [OF req] by (auto dest: map_eq_imp_length_eq)
  obtain f i c1 where cnt: "runCommands e (req_port ?r) 0 (unat (commandsCount ?r)) (commands ?r)
      (c\<lparr>ignoreInterrupts := ignoreInterrupts c + 1\<rparr>) = Some (f, i, commands r', c1)"
    "unat (commandsCount r') = i"
    using processRequest_count [OF req off] by metis
  show "executed False (commands r ! k) (commands r' ! k)" if "k < unat (commandsCount r')"
    using runCommands_outcome [OF cnt(1)] cnt(2) that by simp
qed

end
