(* ===== verification/PS2_Power.thy ===== *)
theory PS2_Power
  imports PS2_Transport
begin

text \<open>
  The life of the controller: hardware reset, start and stop, sleep and wake, and the messages it
  relays. The last section is the controller as a state machine, whose steps are the interrupts,
  requests, installations and power changes it serves one at a time, with the invariant that holds
  in every reachable state.
\<close>

section \<open>Resetting the hardware\<close>

definition resetController :: "('h, 'c) env \<Rightarrow> ('h, 'c) ctl \<Rightarrow> ('h, 'c) ctl option" where
  "resetController e c = do {
     let c = c\<lparr>suppressTimeout := True\<rparr>;
     c \<leftarrow> writeCommandPort e kCP_DisableKeyboardClock c;
     c \<leftarrow> writeCommandPort e kCP_DisableMouseClock c;
     c \<leftarrow> flushDataPort e c;
     c \<leftarrow> (if \<not> kbdOnly c then writeCommandPort e kCP_EnableMouseClock c else Some c);
     c \<leftarrow> writeCommandPort e kCP_EnableKeyboardClock c;
     c \<leftarrow> writeCommandPort e kCP_GetCommandByte c;
     (commandByte, c) \<leftarrow> readDataPort e kPS2KbdIdx c;
     c \<leftarrow> writeCommandPort e kCP_TestController c;
     (_, c) \<leftarrow> readDataPort e kPS2KbdIdx c;
     c \<leftarrow> (if \<not> kbdOnly c then map_option snd (readDataPort e kPS2AuxIdx c) else Some c);
     c \<leftarrow> writeCommandPort e kCP_TestKeyboardPort c;
     (_, c) \<leftarrow> readDataPort e kPS2KbdIdx c;
     c \<leftarrow> (if \<not> kbdOnly c
          then do {
            c \<leftarrow> writeCommandPort e kCP_TestMousePort c;
            map_option snd (readDataPort e kPS2AuxIdx c)
          }
          else Some c);
     let c = c\<lparr>suppressTimeout := False\<rparr>;
     let commandByte =
       (if \<not> kbdOnly c
        then commandByte AND NOT (kCB_EnableKeyboardIRQ OR kCB_EnableMouseIRQ OR kCB_DisableMouseClock OR
               kCB_DisableKeyboardClock)
        else commandByte AND NOT (kCB_EnableKeyboardIRQ OR kCB_EnableMouseIRQ OR kCB_DisableKeyboardClock));
     let commandByte = commandByte OR kCB_TranslateMode;
     c \<leftarrow> writeCommandPort e kCP_SetCommandByte c;
     writeDataPort e commandByte c
   }"

fun resetMuxLoop :: "('h, 'c) env \<Rightarrow> nat \<Rightarrow> nat \<Rightarrow> ('h, 'c) ctl \<Rightarrow> ('h, 'c) ctl option" where
  "resetMuxLoop e i 0 c = Some c"
| "resetMuxLoop e i (Suc n) c = do {
     c \<leftarrow> writeCommandPort e (kCP_TransmitToMuxedMouse + of_nat i) c;
     c \<leftarrow> writeDataPort e kDP_SetDefaultsAndDisable c;
     (_, c) \<leftarrow> readDataPort e (kPS2AuxIdx + i) c;
     resetMuxLoop e (Suc i) n c
   }"

definition resetDevices :: "('h, 'c) env \<Rightarrow> ('h, 'c) ctl \<Rightarrow> ('h, 'c) ctl option" where
  "resetDevices e c = do {
     c \<leftarrow> writeDataPort e kDP_SetDefaultsAndDisable c;
     (_, c) \<leftarrow> readDataPort e kPS2KbdIdx c;
     if \<not> muxPresent c
     then (if \<not> kbdOnly c
           then do {
             c \<leftarrow> writeCommandPort e kCP_TransmitToMouse c;
             c \<leftarrow> writeDataPort e kDP_SetDefaultsAndDisable c;
             map_option snd (readDataPort e kPS2AuxIdx c)
           }
           else Some c)
     else resetMuxLoop e 0 PS2_MUX_PORTS c
   }"

section \<open>Sleep and wake\<close>

fun powerLoop ::
  "('h, 'c) env \<Rightarrow> PS2PowerWhat \<Rightarrow> nat \<Rightarrow> nat \<Rightarrow> ('h, 'c) ctl \<Rightarrow> ('h, 'c) ctl option" where
  "powerLoop e whatToDo i 0 c = Some c"
| "powerLoop e whatToDo i (Suc n) c = do {
     d \<leftarrow> device_at i c;
     c \<leftarrow> nub_powerAction e d whatToDo c;
     powerLoop e whatToDo (Suc i) n c
   }"

definition dispatchDriverPowerControl ::
  "('h, 'c) env \<Rightarrow> PS2PowerWhat \<Rightarrow> nat \<Rightarrow> ('h, 'c) ctl \<Rightarrow> ('h, 'c) ctl option" where
  "dispatchDriverPowerControl e whatToDo p c =
     (if p = kPS2KbdIdx then do {
        d \<leftarrow> device_at kPS2KbdIdx c;
        nub_powerAction e d whatToDo c
      }
      else powerLoop e whatToDo kPS2AuxIdx (nubsCount c - kPS2AuxIdx) c)"

definition goToSleep :: "('h, 'c) env \<Rightarrow> ('h, 'c) ctl \<Rightarrow> ('h, 'c) ctl option" where
  "goToSleep e c = do {
     let c = c\<lparr>ignoreInterrupts := ignoreInterrupts c + 1\<rparr>;
     (_, c) \<leftarrow> setCommandByte e 0 (kCB_EnableKeyboardIRQ OR kCB_EnableMouseIRQ) c;
     c \<leftarrow> dispatchDriverPowerControl e kPS2C_DisableDevice kPS2AuxIdx c;
     c \<leftarrow> dispatchDriverPowerControl e kPS2C_DisableDevice kPS2KbdIdx c;
     let c = c\<lparr>hardwareOffline := True\<rparr>;
     map_option snd (setCommandByte e (kCB_DisableKeyboardClock OR kCB_DisableMouseClock) 0 c)
   }"

text \<open>Waking up: a reset and the clocks on with the interrupts still off, then the drivers, then the interrupts.\<close>

definition wakeClocks :: "('h, 'c) env \<Rightarrow> ('h, 'c) ctl \<Rightarrow> ('h, 'c) ctl option" where
  "wakeClocks e c = do {
     let c = (if wakedelay c \<noteq> 0 then c\<lparr>hw := IOSleep e (wakedelay c) (hw c)\<rparr> else c);
     c \<leftarrow> (if resetControllerFlag c AND RESET_CONTROLLER_ON_WAKEUP \<noteq> 0 then resetController e c else Some c);
     c \<leftarrow> (if muxPresent c then map_option snd (setMuxMode e True c) else Some c);
     c \<leftarrow> (if resetControllerFlag c AND RESET_CONTROLLER_ON_WAKEUP \<noteq> 0
          then do {
            c \<leftarrow> resetDevices e c;
            flushDataPort e c
          }
          else Some c);
     c \<leftarrow> (if muxPresent c then enableMuxPorts e c else Some c);
     map_option snd
       (if \<not> kbdOnly c
        then setCommandByte e 0 (kCB_DisableKeyboardClock OR kCB_DisableMouseClock OR
               kCB_EnableKeyboardIRQ OR kCB_EnableMouseIRQ) c
        else setCommandByte e 0 (kCB_DisableKeyboardClock OR kCB_EnableKeyboardIRQ OR kCB_EnableMouseIRQ) c)
   }"

definition wakeClients :: "('h, 'c) env \<Rightarrow> ('h, 'c) ctl \<Rightarrow> ('h, 'c) ctl option" where
  "wakeClients e c =
     (if \<not> mouseWakeFirst c
      then do {
        c \<leftarrow> dispatchDriverPowerControl e kPS2C_EnableDevice kPS2KbdIdx c;
        dispatchDriverPowerControl e kPS2C_EnableDevice kPS2AuxIdx c
      }
      else do {
        c \<leftarrow> dispatchDriverPowerControl e kPS2C_EnableDevice kPS2AuxIdx c;
        dispatchDriverPowerControl e kPS2C_EnableDevice kPS2KbdIdx c
      })"

definition wakeIRQs :: "('h, 'c) env \<Rightarrow> ('h, 'c) ctl \<Rightarrow> ('h, 'c) ctl option" where
  "wakeIRQs e c = map_option snd
     (if \<not> kbdOnly c
      then setCommandByte e (kCB_EnableKeyboardIRQ OR kCB_EnableMouseIRQ OR kCB_SystemFlag) 0 c
      else setCommandByte e (kCB_EnableKeyboardIRQ OR kCB_SystemFlag) 0 c)"

definition wakeUp :: "('h, 'c) env \<Rightarrow> ('h, 'c) ctl \<Rightarrow> ('h, 'c) ctl option" where
  "wakeUp e c = do {
     c \<leftarrow> wakeClocks e c;
     let c = c\<lparr>hardwareOffline := False\<rparr>;
     c \<leftarrow> wakeClients e c;
     c \<leftarrow> wakeIRQs e c;
     Some (c\<lparr>ignoreInterrupts := ignoreInterrupts c - 1\<rparr>)
   }"

definition setPowerStateGated :: "('h, 'c) env \<Rightarrow> u32 \<Rightarrow> ('h, 'c) ctl \<Rightarrow> ('h, 'c) ctl option" where
  "setPowerStateGated e powerState c =
     (if currentPowerState c \<noteq> powerState then do {
        c \<leftarrow> (if powerState = kPS2PowerStateSleep then goToSleep e c
             else if powerState = kPS2PowerStateDoze \<or> powerState = kPS2PowerStateNormal
             then (if currentPowerState c \<noteq> kPS2PowerStateSleep then Some c else wakeUp e c)
             else Some c);
        Some (c\<lparr>currentPowerState := powerState\<rparr>)
      }
      else Some c)"

section \<open>Start and stop\<close>

text \<open>
  The kernel objects the driver allocates, as present or null, beside the controller state; and
  the outcome of each allocation, which the kernel decides. \<open>boot_kbdonly\<close> and \<open>boot_ps2rst\<close> are the
  boot arguments when given.
\<close>

record ('h, 'c) service =
  ctl_of :: "('h, 'c) ctl"
  requestQueueLock :: bool
  workLoop :: bool
  cmdGate :: bool
  interruptSourceQueue :: bool
  powerChangeThreadCall :: bool
  publishNotify :: bool
  terminateNotify :: bool
  notificationServices :: bool

record kernel =
  super_start :: bool
  boot_kbdonly :: "bool option"
  boot_ps2rst :: "u32 option"
  IOLockAlloc :: bool
  workLoop_ok :: bool
  commandGate_ok :: bool
  interruptEventSource_ok :: bool
  addEventSource_queue :: bool
  addEventSource_gate :: bool
  thread_call_allocate :: bool
  nub_ok :: "nat \<Rightarrow> bool"
  propertyMatching_ok :: bool
  addMatchingNotification_ok :: bool

definition stop :: "('h, 'c) env \<Rightarrow> ('h, 'c) service \<Rightarrow> ('h, 'c) service option" where
  "stop e s =
     (if publishNotify s \<and> terminateNotify s \<and> notificationServices s then do {
        let c = (ctl_of s)\<lparr>devices := replicate kPS2MuxMaxIdx None\<rparr>;
        let s = s\<lparr>publishNotify := False, terminateNotify := False, notificationServices := False,
                  interruptSourceQueue := False, cmdGate := False, workLoop := False\<rparr>;
        c \<leftarrow> (if requestQueueLock s
             then map_option snd (processRequestQueue e (c\<lparr>hardwareOffline := True\<rparr>))
             else Some c);
        Some (s\<lparr>ctl_of := c, requestQueueLock := False, powerChangeThreadCall := False\<rparr>)
      }
      else None)"

definition new_nub :: "nat \<Rightarrow> nub" where
  "new_nub p = \<lparr>nub_port = p, nub_client = False, nub_interrupt_action = False,
     nub_packet_action = False, nub_power_action = False, nub_signalled = False\<rparr>"

fun createNubs :: "kernel \<Rightarrow> nat \<Rightarrow> nat \<Rightarrow> ('h, 'c) ctl \<Rightarrow> bool \<times> ('h, 'c) ctl" where
  "createNubs k i 0 c = (True, c)"
| "createNubs k i (Suc n) c =
     (if nub_ok k i
      then createNubs k (Suc i) n (c\<lparr>devices := (devices c)[i := Some (new_nub i)]\<rparr>)
      else (False, c\<lparr>devices := (devices c)[i := None]\<rparr>))"

definition startHardware :: "('h, 'c) env \<Rightarrow> kernel \<Rightarrow> ('h, 'c) ctl \<Rightarrow> ('h, 'c) ctl option" where
  "startHardware e k c = do {
     let c = (case boot_kbdonly k of Some b \<Rightarrow> c\<lparr>kbdOnly := b\<rparr> | None \<Rightarrow> c);
     let c = (case boot_ps2rst k of Some f \<Rightarrow> c\<lparr>resetControllerFlag := f\<rparr> | None \<Rightarrow> c);
     c \<leftarrow> (if resetControllerFlag c AND RESET_CONTROLLER_ON_BOOT \<noteq> 0 then resetController e c else Some c);
     c \<leftarrow> (if kbdOnly c then Some (c\<lparr>muxPresent := False, nubsCount := 1\<rparr>)
          else do {
            (mux, c) \<leftarrow> setMuxMode e True c;
            Some (c\<lparr>muxPresent := mux, nubsCount := (if mux then kPS2MuxMaxIdx else kPS2AuxMaxIdx)\<rparr>)
          });
     if resetControllerFlag c AND RESET_CONTROLLER_ON_BOOT \<noteq> 0
     then do {
       c \<leftarrow> resetDevices e c;
       flushDataPort e c
     }
     else Some c
   }"

definition start :: "('h, 'c) env \<Rightarrow> kernel \<Rightarrow> ('h, 'c) service \<Rightarrow> (bool \<times> ('h, 'c) service) option" where
  "start e k s =
     (if \<not> super_start k then Some (False, s) else do {
        c \<leftarrow> startHardware e k (ctl_of s);
        let fail = (\<lambda>s. map_option (\<lambda>s. (False, s)) (stop e s));
        let s = s\<lparr>ctl_of := c, requestQueueLock := IOLockAlloc k\<rparr>;
        if \<not> requestQueueLock s then fail s else do {
          let s = s\<lparr>workLoop := workLoop_ok k, cmdGate := commandGate_ok k,
                    interruptSourceQueue := interruptEventSource_ok k\<rparr>;
          if \<not> workLoop s \<or> \<not> interruptSourceQueue s \<or> \<not> cmdGate s then fail s
          else if \<not> addEventSource_queue k \<or> \<not> addEventSource_gate k then fail s
          else do {
            let s = s\<lparr>powerChangeThreadCall := thread_call_allocate k\<rparr>;
            if \<not> powerChangeThreadCall s then fail s else do {
              let (nubs, c) = createNubs k 0 (nubsCount c) c;
              let s = s\<lparr>ctl_of := c\<rparr>;
              if \<not> nubs then fail s
              else Some (True,
                if propertyMatching_ok k
                then s\<lparr>publishNotify := addMatchingNotification_ok k,
                       terminateNotify := addMatchingNotification_ok k\<rparr>
                else s)
            }
          }
        }
      })"

definition init_ctl :: "'h \<Rightarrow> 'c \<Rightarrow> ('h, 'c) ctl" where
  "init_ctl h cl = \<lparr>hw = h, clients = cl, requestQueue = [], interruptInstalledKeyboard = False,
     interruptInstalledMouse = 0, ignoreInterrupts = 0, ignoreOutOfOrder = 0,
     devices = replicate kPS2MuxMaxIdx None, currentPowerState = kPS2PowerStateNormal,
     hardwareOffline = False, suppressTimeout = False, wakedelay = 10, mouseWakeFirst = False,
     muxPresent = False, nubsCount = 0,
     resetControllerFlag = RESET_CONTROLLER_ON_BOOT OR RESET_CONTROLLER_ON_WAKEUP, kbdOnly = False\<rparr>"

definition init_service :: "'h \<Rightarrow> 'c \<Rightarrow> ('h, 'c) service" where
  "init_service h cl = \<lparr>ctl_of = init_ctl h cl, requestQueueLock = False, workLoop = False,
     cmdGate = False, interruptSourceQueue = False, powerChangeThreadCall = False,
     publishNotify = False, terminateNotify = False, notificationServices = True\<rparr>"

section \<open>Messages\<close>

text \<open>
  The messages the registered services receive, in order; \<open>services\<close> is the collection
  \<^verbatim>\<open>_notificationServices\<close>. A pressed key is passed on, and additionally announced by its time
  unless it is a modifier.
\<close>

definition is_modifier_key :: "u16 \<Rightarrow> bool" where
  "is_modifier_key k \<longleftrightarrow> k \<in> {0x38, 0x3c, 0x3b, 0x3e, 0x3a, 0x3d, 0x37, 0x36, 0x3f}"

fun dispatchMessageGated :: "'s list \<Rightarrow> PS2Message \<Rightarrow> ('s \<times> PS2Message) list" where
  "dispatchMessageGated services (kPS2M_notifyKeyPressed pInfo) =
     map (\<lambda>s. (s, kPS2M_notifyKeyPressed pInfo)) services @
     (if is_modifier_key (adbKeyCode pInfo) then []
      else map (\<lambda>s. (s, kPS2M_notifyKeyTime (key_time pInfo))) services)"
| "dispatchMessageGated services m = map (\<lambda>s. (s, m)) services"

definition notificationHandlerPublish :: "'s \<Rightarrow> 's list \<Rightarrow> 's list" where
  "notificationHandlerPublish s services = (if s \<in> set services then services else services @ [s])"

definition notificationHandlerTerminate :: "'s \<Rightarrow> 's list \<Rightarrow> 's list" where
  "notificationHandlerTerminate s services = filter (\<lambda>t. t \<noteq> s) services"

section \<open>Frames of the life cycle operations\<close>

text \<open>
  \<open>framed\<close>: at most the request queue changed (a driver that submits a blocking request makes the
  controller serve the queue). \<open>power_framed\<close> is what the controller relies on: a driver's power
  action goes through requests and leaves the controller's own members alone.
\<close>

definition framed :: "('h, 'c) ctl \<Rightarrow> ('h, 'c) ctl \<Rightarrow> bool" where
  "framed c c' \<longleftrightarrow> core c' = (core c)\<lparr>requestQueue := requestQueue c'\<rparr>"

definition power_framed :: "('h, 'c) env \<Rightarrow> bool" where
  "power_framed e \<longleftrightarrow> (\<forall>p w c c'. setDevicePowerState e p w c = Some c' \<longrightarrow> framed c c')"

lemma framed_trans: "\<lbrakk>framed a b; framed b c\<rbrakk> \<Longrightarrow> framed a c"
  by (simp add: framed_def)

lemma core_framed: "core c' = core c \<Longrightarrow> framed c c'"
  using core_eqD(1) [of c' c] by (simp add: framed_def core_def)

lemma framed_refl [simp]: "framed c c"
  by (simp add: core_framed)

lemma framedD:
  assumes "framed c c'"
  shows "ignoreInterrupts c' = ignoreInterrupts c" "hardwareOffline c' = hardwareOffline c"
    "currentPowerState c' = currentPowerState c" "muxPresent c' = muxPresent c"
    "nubsCount c' = nubsCount c" "kbdOnly c' = kbdOnly c" "mouseWakeFirst c' = mouseWakeFirst c"
    "interruptInstalledMouse c' = interruptInstalledMouse c"
    "interruptInstalledKeyboard c' = interruptInstalledKeyboard c" "ctl_wf c' = ctl_wf c"
    "map (map_option unsignalled) (devices c') = map (map_option unsignalled) (devices c)"
proof -
  have "ctl_wf ((core c)\<lparr>requestQueue := requestQueue c'\<rparr>) = ctl_wf (core c)" by (simp add: ctl_wf_def)
  then show "ctl_wf c' = ctl_wf c" using assms by (metis framed_def ctl_wf_core)
qed (use assms in \<open>simp_all add: framed_def core_def\<close>)

lemma powerAction_framed:
  "\<lbrakk>power_framed e; nub_powerAction e d w c = Some c'\<rbrakk> \<Longrightarrow> framed c c'"
  by (auto simp: nub_powerAction_def power_framed_def split: if_splits)

lemma powerLoop_framed:
  assumes "power_framed e"
  shows "powerLoop e w i n c = Some c' \<Longrightarrow> framed c c'"
proof (induction n arbitrary: i c)
  case (Suc n)
  then obtain d c1 where "nub_powerAction e d w c = Some c1" "powerLoop e w (Suc i) n c1 = Some c'"
    by (auto elim!: bind_eq_SomeE)
  then show ?case using powerAction_framed [OF assms] Suc.IH framed_trans by blast
qed simp

lemma dispatchPower_framed:
  "\<lbrakk>power_framed e; dispatchDriverPowerControl e w p c = Some c'\<rbrakk> \<Longrightarrow> framed c c'"
  by (auto simp: dispatchDriverPowerControl_def dest: powerLoop_framed powerAction_framed
      split: if_splits elim!: bind_eq_SomeE)

lemma flushDataPort_core: "flushDataPort e c = Some c' \<Longrightarrow> core c' = core c"
  by (auto simp: flushDataPort_def dest: flushLoop_core)

lemma readDiscard_core: "map_option snd (readDataPort e p c) = Some c' \<Longrightarrow> core c' = core c"
  by (auto dest: readDataPort_core)

lemma resetController_core:
  "resetController e c = Some c' \<Longrightarrow> core c' = (core c)\<lparr>suppressTimeout := False\<rparr>"
  unfolding resetController_def Let_def
  by (elim bind_eq_SomeE)
    (auto dest!: writePort_core readDataPort_core flushDataPort_core split: if_splits elim!: bind_eq_SomeE)

lemma resetMuxLoop_core: "resetMuxLoop e i n c = Some c' \<Longrightarrow> core c' = core c"
  by (induction n arbitrary: i c) (auto dest!: writePort_core readDataPort_core elim!: bind_eq_SomeE)

lemma resetDevices_core: "resetDevices e c = Some c' \<Longrightarrow> core c' = core c"
  by (auto simp: resetDevices_def dest!: writePort_core readDataPort_core resetMuxLoop_core
      split: if_splits elim!: bind_eq_SomeE)

lemma goToSleep_frame:
  assumes fr: "power_framed e" and run: "goToSleep e c = Some c'"
  obtains c1 where "framed (c\<lparr>ignoreInterrupts := ignoreInterrupts c + 1\<rparr>) c1"
    "core c' = (core c1)\<lparr>hardwareOffline := True\<rparr>"
proof -
  obtain b c1 c2 c3 b' where
    "setCommandByte e 0 (kCB_EnableKeyboardIRQ OR kCB_EnableMouseIRQ)
      (c\<lparr>ignoreInterrupts := ignoreInterrupts c + 1\<rparr>) = Some (b, c1)"
    "dispatchDriverPowerControl e kPS2C_DisableDevice kPS2AuxIdx c1 = Some c2"
    "dispatchDriverPowerControl e kPS2C_DisableDevice kPS2KbdIdx c2 = Some c3" and
    last: "setCommandByte e (kCB_DisableKeyboardClock OR kCB_DisableMouseClock) 0 (c3\<lparr>hardwareOffline := True\<rparr>) = Some (b', c')"
    using run unfolding goToSleep_def Let_def by (auto elim!: bind_eq_SomeE)
  then have "framed (c\<lparr>ignoreInterrupts := ignoreInterrupts c + 1\<rparr>) c3"
    using framed_trans core_framed setCommandByte_core dispatchPower_framed [OF fr] by metis
  moreover have "core c' = (core c3)\<lparr>hardwareOffline := True\<rparr>" using setCommandByte_core [OF last] by simp
  ultimately show ?thesis by (rule that)
qed

text \<open>A reset on wake clears \<^verbatim>\<open>_suppressTimeout\<close>; apart from it no member of the controller changes.\<close>

lemma wakeClocks_core:
  assumes "wakeClocks e c = Some c'"
  shows "core c' = (core c)\<lparr>suppressTimeout := suppressTimeout c'\<rparr> \<and> (suppressTimeout c' \<longrightarrow> suppressTimeout c)"
proof -
  define c0 where "c0 = (if wakedelay c \<noteq> 0 then c\<lparr>hw := IOSleep e (wakedelay c) (hw c)\<rparr> else c)"
  have c0: "core c0 = core c" by (simp add: c0_def)
  obtain c1 c2 c3 c4 where
    1: "(if resetControllerFlag c0 AND RESET_CONTROLLER_ON_WAKEUP \<noteq> 0 then resetController e c0 else Some c0) = Some c1" and
    2: "(if muxPresent c1 then map_option snd (setMuxMode e True c1) else Some c1) = Some c2" and
    3: "(if resetControllerFlag c2 AND RESET_CONTROLLER_ON_WAKEUP \<noteq> 0
      then Option.bind (resetDevices e c2) (flushDataPort e) else Some c2) = Some c3" and
    4: "(if muxPresent c3 then enableMuxPorts e c3 else Some c3) = Some c4" and
    5: "core c' = core c4"
    using assms unfolding wakeClocks_def Let_def c0_def [symmetric]
    by (auto elim!: bind_eq_SomeE dest!: setCommandByte_core split: if_splits)
  have "core c' = core c1"
    using 2 3 4 5 by (auto dest!: setMuxMode_core enableMuxPorts_core resetDevices_core flushDataPort_core
        split: if_splits elim!: bind_eq_SomeE)
  moreover have "core c1 = (core c)\<lparr>suppressTimeout := suppressTimeout c1\<rparr> \<and> (suppressTimeout c1 \<longrightarrow> suppressTimeout c)"
    using 1 c0 resetController_core [of e c0 c1] by (auto simp: core_def split: if_splits)
  ultimately show ?thesis by (auto simp: core_def)
qed

lemma wakeIRQs_core: "wakeIRQs e c = Some c' \<Longrightarrow> core c' = core c"
  by (auto simp: wakeIRQs_def dest!: setCommandByte_core split: if_splits)

lemma wakeClients_framed: "\<lbrakk>power_framed e; wakeClients e c = Some c'\<rbrakk> \<Longrightarrow> framed c c'"
  by (auto simp: wakeClients_def split: if_splits elim!: bind_eq_SomeE
      intro: framed_trans dest: dispatchPower_framed)

lemma wakeUp_frame:
  assumes fr: "power_framed e" and run: "wakeUp e c = Some c'"
  obtains c1 c2 where "core c1 = (core c)\<lparr>suppressTimeout := suppressTimeout c1\<rparr>"
    "suppressTimeout c1 \<longrightarrow> suppressTimeout c" "framed (c1\<lparr>hardwareOffline := False\<rparr>) c2"
    "c' = c2\<lparr>ignoreInterrupts := ignoreInterrupts c2 - 1\<rparr>"
proof -
  obtain c1 d c2 where r: "wakeClocks e c = Some c1" "wakeClients e (c1\<lparr>hardwareOffline := False\<rparr>) = Some d"
    "wakeIRQs e d = Some c2" "c' = c2\<lparr>ignoreInterrupts := ignoreInterrupts c2 - 1\<rparr>"
    using run by (auto simp: wakeUp_def Let_def elim!: bind_eq_SomeE)
  have "framed (c1\<lparr>hardwareOffline := False\<rparr>) c2"
    using wakeClients_framed [OF fr r(2)] core_framed [OF wakeIRQs_core [OF r(3)]] by (rule framed_trans)
  then show ?thesis using that wakeClocks_core [OF r(1)] r(4) by blast
qed

section \<open>The controller as a state machine\<close>

definition installed :: "nat \<Rightarrow> ('h, 'c) ctl \<Rightarrow> bool" where
  "installed i c = (case device_at i c of Some d \<Rightarrow> nub_client d | None \<Rightarrow> False)"

definition mouse_clients :: "('h, 'c) ctl \<Rightarrow> nat set" where
  "mouse_clients c = {i. kPS2AuxIdx \<le> i \<and> i < nubsCount c \<and> installed i c}"

text \<open>
  The steps: interrupts, asynchronous and blocking requests, command byte changes, the work loop of
  a nub, a driver that installs or removes its handlers (each nub has one client at a time), and a
  change to one of the three power states the controller registered.
\<close>

inductive ctl_step :: "('h, 'c) env \<Rightarrow> ('h, 'c) ctl \<Rightarrow> ('h, 'c) ctl \<Rightarrow> bool" for e where
  irq_keyboard: "interruptHandlerKeyboard e c = Some c' \<Longrightarrow> ctl_step e c c'"
| irq_mouse: "interruptHandlerMouse e c = Some c' \<Longrightarrow> ctl_step e c c'"
| submit: "p < nubsCount c \<Longrightarrow> nub_submitRequest p r c = (b, c') \<Longrightarrow> ctl_step e c c'"
| serve: "processRequestQueue e c = Some (ds, c') \<Longrightarrow> ctl_step e c c'"
| block: "p < nubsCount c \<Longrightarrow> nub_submitRequestAndBlock e p r c = Some (r', c') \<Longrightarrow> ctl_step e c c'"
| command_byte: "nub_setCommandByte e st cl c = Some (b, c') \<Longrightarrow> ctl_step e c c'"
| work_loop: "p < nubsCount c \<Longrightarrow> nub_workloop e p c = Some c' \<Longrightarrow> ctl_step e c c'"
| install: "\<lbrakk>p < nubsCount c; \<not> installed p c; nub_installInterruptAction e p c = Some c'\<rbrakk> \<Longrightarrow> ctl_step e c c'"
| uninstall: "\<lbrakk>p < nubsCount c; installed p c; nub_uninstallInterruptAction e p c = Some c'\<rbrakk> \<Longrightarrow> ctl_step e c c'"
| install_power: "p < nubsCount c \<Longrightarrow> nub_installPowerControlAction p c = Some c' \<Longrightarrow> ctl_step e c c'"
| uninstall_power: "p < nubsCount c \<Longrightarrow> nub_uninstallPowerControlAction p c = Some c' \<Longrightarrow> ctl_step e c c'"
| power: "\<lbrakk>w \<in> {kPS2PowerStateSleep, kPS2PowerStateDoze, kPS2PowerStateNormal};
    setPowerStateGated e w c = Some c'\<rbrakk> \<Longrightarrow> ctl_step e c c'"

inductive reachable :: "('h, 'c) env \<Rightarrow> ('h, 'c) ctl \<Rightarrow> ('h, 'c) ctl \<Rightarrow> bool" for e c0 where
  start: "reachable e c0 c0"
| step: "\<lbrakk>reachable e c0 c; ctl_step e c c'\<rbrakk> \<Longrightarrow> reachable e c0 c'"

definition asleep :: "('h, 'c) ctl \<Rightarrow> bool" where
  "asleep c \<longleftrightarrow> currentPowerState c = kPS2PowerStateSleep"

definition ctl_inv :: "('h, 'c) ctl \<Rightarrow> bool" where
  "ctl_inv c \<longleftrightarrow> ctl_wf c \<and> hardwareOffline c = asleep c \<and>
     ignoreInterrupts c = (if asleep c then 1 else 0) \<and>
     interruptInstalledMouse c = int (card (mouse_clients c)) \<and>
     interruptInstalledKeyboard c = installed kPS2KbdIdx c"

lemma installed_devices:
  "map (map_option unsignalled) (devices c') = map (map_option unsignalled) (devices c) \<Longrightarrow>
   installed i c' = installed i c"
proof -
  assume eq: "map (map_option unsignalled) (devices c') = map (map_option unsignalled) (devices c)"
  then have len: "length (devices c') = length (devices c)" by (rule map_eq_imp_length_eq)
  have "map_option unsignalled (device_at i c') = map_option unsignalled (device_at i c)"
    using arg_cong [OF eq, of "\<lambda>xs. xs ! i"] len by (auto simp: device_at_def)
  then have "map_option nub_client (device_at i c') = map_option nub_client (device_at i c)"
    by (cases "device_at i c"; cases "device_at i c'")
      (auto simp: unsignalled_def dest: arg_cong [of _ _ nub_client])
  then show ?thesis by (auto simp: installed_def split: option.splits)
qed

lemma framed_inv: "\<lbrakk>framed c c'; ctl_inv c\<rbrakk> \<Longrightarrow> ctl_inv c'"
  using framedD [of c c'] installed_devices [of c' c]
  by (simp add: ctl_inv_def asleep_def mouse_clients_def)

lemma interruptLoop_core: "interruptLoop e k w c = Some (w', c') \<Longrightarrow> core c' = core c"
proof (induction k arbitrary: w c)
  case (Suc k)
  then show ?case
    by (auto simp: Let_def dest!: c_inb_core dispatch0_core split: prod.splits if_splits elim!: bind_eq_SomeE)
qed simp

lemma wakeLoop_core: "wakeLoop i n w c = Some c' \<Longrightarrow> core c' = core c"
  by (induction n arbitrary: i c) (auto dest!: signalDevice_core split: if_splits elim!: bind_eq_SomeE)

lemma handleInterrupt_core: "handleInterrupt e c = Some c' \<Longrightarrow> core c' = core c"
  by (auto simp: handleInterrupt_def dest!: interruptLoop_core wakeLoop_core elim!: bind_eq_SomeE)

lemma update_nub_effect:
  assumes "update_nub p f c = Some c'"
  obtains d where "device_at p c = Some d" "c' = c\<lparr>devices := (devices c)[p := Some (f d)]\<rparr>"
  using assms by (auto simp: update_nub_def elim!: bind_eq_SomeE)

lemma device_at_update:
  "device_at i (c\<lparr>devices := (devices c)[p := x]\<rparr>) =
   (if i = p \<and> p < length (devices c) then x else device_at i c)"
  by (simp add: device_at_def)

lemma update_nub_installed:
  assumes "update_nub p f c = Some c'"
  shows "installed i c' = (if i = p then nub_client (f (the (device_at p c))) else installed i c)"
  using assms by (auto simp: installed_def device_at_update device_at_def elim!: update_nub_effect
      split: if_splits option.splits)

lemma update_nub_wf:
  assumes "update_nub p f c = Some c'" "\<And>d. nub_port (f d) = nub_port d"
  shows "ctl_wf c' = ctl_wf c"
proof -
  obtain d where d: "device_at p c = Some d" "c' = c\<lparr>devices := (devices c)[p := Some (f d)]\<rparr>"
    using update_nub_effect [OF assms(1)] .
  then have p: "p < length (devices c)" "devices c ! p = Some d" by (auto simp: device_at_def split: if_splits)
  have "map_option nub_port ((devices c)[p := Some (f d)] ! i) = map_option nub_port (devices c ! i)" for i
    using p assms(2) by (cases "i = p") auto
  then show ?thesis by (simp add: d(2) ctl_wf_def)
qed

lemma update_nub_same:
  assumes "update_nub p f c = Some c'"
  shows "nubsCount c' = nubsCount c" "currentPowerState c' = currentPowerState c"
    "hardwareOffline c' = hardwareOffline c" "ignoreInterrupts c' = ignoreInterrupts c"
    "interruptInstalledMouse c' = interruptInstalledMouse c"
    "interruptInstalledKeyboard c' = interruptInstalledKeyboard c"
  using assms by (auto elim!: update_nub_effect)

lemma update_nub_installed_same:
  assumes up: "update_nub p f c = Some c'" and f: "\<And>d. nub_client (f d) = nub_client d"
  shows "installed i c' = installed i c"
proof -
  obtain d where "device_at p c = Some d" using update_nub_effect [OF up] by metis
  then show ?thesis using update_nub_installed [OF up] f by (simp add: installed_def)
qed

lemma update_nub_inv:
  assumes up: "update_nub p f c = Some c'" and f: "\<And>d. nub_port (f d) = nub_port d" "\<And>d. nub_client (f d) = nub_client d"
    and inv: "ctl_inv c"
  shows "ctl_inv c'"
  using inv update_nub_wf [OF up f(1)] update_nub_same [OF up] update_nub_installed_same [OF up f(2)]
  by (simp add: ctl_inv_def asleep_def mouse_clients_def)

lemma install_core:
  assumes "installInterruptAction e p c = Some c'"
  shows "core c' = (if p = kPS2KbdIdx then (core c)\<lparr>interruptInstalledKeyboard := True\<rparr>
    else (core c)\<lparr>interruptInstalledMouse := interruptInstalledMouse c + 1\<rparr>)"
proof (cases "p = kPS2KbdIdx")
  case True
  show ?thesis
  proof (cases "interruptInstalledKeyboard c")
    case True
    then show ?thesis using assms \<open>p = kPS2KbdIdx\<close> by (simp add: installInterruptAction_def core_def)
  next
    case False
    then show ?thesis using assms True
      by (auto simp: installInterruptAction_def Let_def dest!: setCommandByte_core elim!: bind_eq_SomeE)
  qed
next
  case False
  then show ?thesis using assms
    by (auto simp: installInterruptAction_def dest!: setCommandByte_core enableMuxPorts_core
        split: if_splits elim!: bind_eq_SomeE) (drule core_eqD(8), simp)+
qed

lemma uninstall_core:
  assumes "uninstallInterruptAction e p c = Some c'"
  shows "core c' = (if p = kPS2KbdIdx then (core c)\<lparr>interruptInstalledKeyboard := False\<rparr>
    else (core c)\<lparr>interruptInstalledMouse := interruptInstalledMouse c - 1\<rparr>)"
proof (cases "p = kPS2KbdIdx")
  case True
  show ?thesis
  proof (cases "interruptInstalledKeyboard c")
    case False
    then show ?thesis using assms True by (simp add: uninstallInterruptAction_def core_def)
  next
    case True
    then show ?thesis using assms \<open>p = kPS2KbdIdx\<close>
      by (auto simp: uninstallInterruptAction_def Let_def dest!: setCommandByte_core elim!: bind_eq_SomeE)
  qed
next
  case False
  then show ?thesis using assms
    by (auto simp: uninstallInterruptAction_def Let_def dest!: setCommandByte_core
        split: if_splits elim!: bind_eq_SomeE)
qed

lemma core_devices:
  "core c' = k \<Longrightarrow> devices k = devices (core c) \<Longrightarrow>
   map (map_option unsignalled) (devices c') = map (map_option unsignalled) (devices c)"
  by (auto simp: core_def)

lemma finite_mouse_clients [simp]: "finite (mouse_clients c)"
  by (rule finite_subset [of _ "{..< nubsCount c}"]) (auto simp: mouse_clients_def)

text \<open>What installing and removing a handler does to the members the invariant speaks of.\<close>

lemma nub_install_effect:
  assumes "nub_installInterruptAction e p c = Some c'"
  shows "installed i c' = (i = p \<or> installed i c)" "nubsCount c' = nubsCount c"
    "currentPowerState c' = currentPowerState c" "hardwareOffline c' = hardwareOffline c"
    "ignoreInterrupts c' = ignoreInterrupts c"
    "interruptInstalledMouse c' = interruptInstalledMouse c + (if p = kPS2KbdIdx then 0 else 1)"
    "interruptInstalledKeyboard c' = (p = kPS2KbdIdx \<or> interruptInstalledKeyboard c)"
    "\<lbrakk>ctl_wf c; p < nubsCount c\<rbrakk> \<Longrightarrow> ctl_wf c'"
proof -
  obtain c1 c2 c3 where 1: "update_nub p (nub_client_update (\<lambda>_. True)) c = Some c1"
    and 2: "installInterruptAction e p c1 = Some c2"
    and 3: "update_nub p (nub_interrupt_action_update (\<lambda>_. True)) c2 = Some c3"
    and 4: "update_nub p (nub_packet_action_update (\<lambda>_. True)) c3 = Some c'"
    using assms by (auto simp: nub_installInterruptAction_def elim!: bind_eq_SomeE)
  note core = install_core [OF 2]
  have dev: "map (map_option unsignalled) (devices c2) = map (map_option unsignalled) (devices c1)"
    by (rule core_devices [OF core]) simp
  have in2: "installed j c2 = (j = p \<or> installed j c)" for j
    using installed_devices [OF dev, of j] update_nub_installed [OF 1, of j] by simp
  have "installed j c' = installed j c2" for j
    using update_nub_installed_same [OF 3] update_nub_installed_same [OF 4] by simp
  then show "installed i c' = (i = p \<or> installed i c)" by (simp add: in2)
  note f1 = update_nub_same [OF 1] and f3 = update_nub_same [OF 3] and f4 = update_nub_same [OF 4]
  have f2: "nubsCount c2 = nubsCount c1" "currentPowerState c2 = currentPowerState c1"
    "hardwareOffline c2 = hardwareOffline c1" "ignoreInterrupts c2 = ignoreInterrupts c1"
    "interruptInstalledMouse c2 = interruptInstalledMouse c1 + (if p = kPS2KbdIdx then 0 else 1)"
    "interruptInstalledKeyboard c2 = (p = kPS2KbdIdx \<or> interruptInstalledKeyboard c1)"
    using core by (auto simp: core_def split: if_splits)
  show "nubsCount c' = nubsCount c" "currentPowerState c' = currentPowerState c"
    "hardwareOffline c' = hardwareOffline c" "ignoreInterrupts c' = ignoreInterrupts c"
    "interruptInstalledMouse c' = interruptInstalledMouse c + (if p = kPS2KbdIdx then 0 else 1)"
    "interruptInstalledKeyboard c' = (p = kPS2KbdIdx \<or> interruptInstalledKeyboard c)"
    using f1 f2 f3 f4 by simp_all
  assume wf: "ctl_wf c" and p: "p < nubsCount c"
  have "ctl_wf (core c1)" using wf update_nub_wf [OF 1] by (simp add: ctl_wf_core)
  then have "ctl_wf (core c2)" using p f1(1) unfolding core by (auto simp: ctl_wf_def)
  then show "ctl_wf c'" using update_nub_wf [OF 3] update_nub_wf [OF 4] by (simp add: ctl_wf_core)
qed

lemma nub_uninstall_effect:
  assumes "nub_uninstallInterruptAction e p c = Some c'"
  shows "installed i c' = (i \<noteq> p \<and> installed i c)" "nubsCount c' = nubsCount c"
    "currentPowerState c' = currentPowerState c" "hardwareOffline c' = hardwareOffline c"
    "ignoreInterrupts c' = ignoreInterrupts c"
    "interruptInstalledMouse c' = interruptInstalledMouse c - (if p = kPS2KbdIdx then 0 else 1)"
    "interruptInstalledKeyboard c' = (p \<noteq> kPS2KbdIdx \<and> interruptInstalledKeyboard c)"
    "\<lbrakk>ctl_wf c; p < nubsCount c\<rbrakk> \<Longrightarrow> ctl_wf c'"
proof -
  obtain c1 c2 c3 where 1: "uninstallInterruptAction e p c = Some c1"
    and 2: "update_nub p (nub_interrupt_action_update (\<lambda>_. False)) c1 = Some c2"
    and 3: "update_nub p (nub_packet_action_update (\<lambda>_. False)) c2 = Some c3"
    and 4: "update_nub p (nub_client_update (\<lambda>_. False)) c3 = Some c'"
    using assms by (auto simp: nub_uninstallInterruptAction_def elim!: bind_eq_SomeE)
  note core = uninstall_core [OF 1]
  have "map (map_option unsignalled) (devices c1) = map (map_option unsignalled) (devices c)"
    by (rule core_devices [OF core]) simp
  then have "installed j c1 = installed j c" for j by (rule installed_devices)
  then show "installed i c' = (i \<noteq> p \<and> installed i c)"
    using update_nub_installed_same [OF 2, of i] update_nub_installed_same [OF 3, of i]
      update_nub_installed [OF 4, of i] by simp
  note f2 = update_nub_same [OF 2] and f3 = update_nub_same [OF 3] and f4 = update_nub_same [OF 4]
  have f1: "nubsCount c1 = nubsCount c" "currentPowerState c1 = currentPowerState c"
    "hardwareOffline c1 = hardwareOffline c" "ignoreInterrupts c1 = ignoreInterrupts c"
    "interruptInstalledMouse c1 = interruptInstalledMouse c - (if p = kPS2KbdIdx then 0 else 1)"
    "interruptInstalledKeyboard c1 = (p \<noteq> kPS2KbdIdx \<and> interruptInstalledKeyboard c)"
    using core by (auto simp: core_def split: if_splits)
  show "nubsCount c' = nubsCount c" "currentPowerState c' = currentPowerState c"
    "hardwareOffline c' = hardwareOffline c" "ignoreInterrupts c' = ignoreInterrupts c"
    "interruptInstalledMouse c' = interruptInstalledMouse c - (if p = kPS2KbdIdx then 0 else 1)"
    "interruptInstalledKeyboard c' = (p \<noteq> kPS2KbdIdx \<and> interruptInstalledKeyboard c)"
    using f1 f2 f3 f4 by simp_all
  assume wf: "ctl_wf c" and p: "p < nubsCount c"
  have "ctl_wf (core c1)" using wf p unfolding core by (auto simp: ctl_wf_def core_def option.map_comp o_def)
  then show "ctl_wf c'"
    using update_nub_wf [OF 2] update_nub_wf [OF 3] update_nub_wf [OF 4] by (simp add: ctl_wf_core)
qed

lemma install_inv:
  assumes inv: "ctl_inv c" and p: "p < nubsCount c" "\<not> installed p c"
    and run: "nub_installInterruptAction e p c = Some c'"
  shows "ctl_inv c'"
proof -
  note eff = nub_install_effect [OF run]
  have "mouse_clients c' = (if p = kPS2KbdIdx then mouse_clients c else insert p (mouse_clients c))"
    using p by (auto simp: mouse_clients_def eff)
  moreover have "p \<notin> mouse_clients c" using p by (simp add: mouse_clients_def)
  ultimately show ?thesis using inv p eff by (auto simp: ctl_inv_def asleep_def)
qed

lemma uninstall_inv:
  assumes inv: "ctl_inv c" and p: "p < nubsCount c" "installed p c"
    and run: "nub_uninstallInterruptAction e p c = Some c'"
  shows "ctl_inv c'"
proof -
  note eff = nub_uninstall_effect [OF run]
  have m: "mouse_clients c' = mouse_clients c - {p}" by (auto simp: mouse_clients_def eff)
  have "int (card (mouse_clients c')) = int (card (mouse_clients c)) - (if p = kPS2KbdIdx then 0 else 1)"
  proof (cases "p = kPS2KbdIdx")
    case True
    then have "p \<notin> mouse_clients c" by (simp add: mouse_clients_def)
    then show ?thesis using m True by simp
  next
    case False
    then have mem: "p \<in> mouse_clients c" using p by (simp add: mouse_clients_def)
    then have "Suc (card (mouse_clients c - {p})) = card (mouse_clients c)"
      by (intro card_Suc_Diff1) simp_all
    then show ?thesis using m False by simp
  qed
  then show ?thesis using inv p eff by (auto simp: ctl_inv_def asleep_def)
qed

section \<open>Power changes and the invariant\<close>

lemma goToSleep_state:
  assumes "power_framed e" "goToSleep e c = Some c'"
  shows "core c' = (core c)\<lparr>requestQueue := requestQueue c', ignoreInterrupts := ignoreInterrupts c + 1,
    hardwareOffline := True\<rparr>"
proof -
  obtain c1 where c: "framed (c\<lparr>ignoreInterrupts := ignoreInterrupts c + 1\<rparr>) c1"
    "core c' = (core c1)\<lparr>hardwareOffline := True\<rparr>"
    using goToSleep_frame [OF assms] .
  have "requestQueue c' = requestQueue c1" using c(2) by (simp add: core_def)
  then show ?thesis using c by (simp add: framed_def)
qed

lemma wakeUp_state:
  assumes "power_framed e" "wakeUp e c = Some c'"
  shows "core c' = (core c)\<lparr>requestQueue := requestQueue c', ignoreInterrupts := ignoreInterrupts c - 1,
    hardwareOffline := False, suppressTimeout := suppressTimeout c'\<rparr> \<and> (suppressTimeout c' \<longrightarrow> suppressTimeout c)"
proof -
  obtain c1 c2 where c: "core c1 = (core c)\<lparr>suppressTimeout := suppressTimeout c1\<rparr>"
    "suppressTimeout c1 \<longrightarrow> suppressTimeout c" "framed (c1\<lparr>hardwareOffline := False\<rparr>) c2"
    "c' = c2\<lparr>ignoreInterrupts := ignoreInterrupts c2 - 1\<rparr>"
    using wakeUp_frame [OF assms] .
  have "ignoreInterrupts c1 = ignoreInterrupts c" using c(1) by (simp add: core_def)
  moreover have "suppressTimeout c2 = suppressTimeout c1" using c(3) by (simp add: framed_def core_def)
  ultimately show ?thesis using c framedD(1) [OF c(3)] by (simp add: framed_def)
qed

lemma inv_of_core:
  assumes "core c' = (core c)\<lparr>requestQueue := q, ignoreInterrupts := i, hardwareOffline := b, currentPowerState := w,
      suppressTimeout := t\<rparr>"
    and "ctl_inv c" "i = (if w = kPS2PowerStateSleep then 1 else 0)" "b = (w = kPS2PowerStateSleep)"
  shows "ctl_inv c'"
proof -
  have "ctl_wf (core c')" using assms(2) ctl_wf_core [of c] unfolding assms(1) by (simp add: ctl_inv_def ctl_wf_def)
  then have wf: "ctl_wf c'" by (simp add: ctl_wf_core)
  have inst: "installed j c' = installed j c" for j
    by (rule installed_devices) (use assms(1) in \<open>simp add: core_def\<close>)
  have f: "nubsCount c' = nubsCount c" "interruptInstalledMouse c' = interruptInstalledMouse c"
    "interruptInstalledKeyboard c' = interruptInstalledKeyboard c"
    "currentPowerState c' = w" "hardwareOffline c' = b" "ignoreInterrupts c' = i"
    using assms(1) by (simp_all add: core_def)
  have "mouse_clients c' = mouse_clients c" by (simp add: mouse_clients_def f inst)
  then show ?thesis using assms(2-4) wf inst f unfolding ctl_inv_def asleep_def by simp
qed

lemma setPowerState_inv:
  assumes fr: "power_framed e" and inv: "ctl_inv c" and run: "setPowerStateGated e w c = Some c'"
    and w: "w \<in> {kPS2PowerStateSleep, kPS2PowerStateDoze, kPS2PowerStateNormal}"
  shows "ctl_inv c'"
proof (cases "currentPowerState c = w")
  case True
  then show ?thesis using run inv by (simp add: setPowerStateGated_def)
next
  case False
  consider (sleep) "w = kPS2PowerStateSleep" | (wake) "w \<noteq> kPS2PowerStateSleep" "asleep c"
    | (work) "w \<noteq> kPS2PowerStateSleep" "\<not> asleep c" by blast
  then show ?thesis
  proof cases
    case sleep
    then obtain c1 where "goToSleep e c = Some c1" "c' = c1\<lparr>currentPowerState := w\<rparr>"
      using run False by (auto simp: setPowerStateGated_def elim!: bind_eq_SomeE)
    then have core: "core c' = (core c)\<lparr>requestQueue := requestQueue c1, ignoreInterrupts := ignoreInterrupts c + 1,
      hardwareOffline := True, currentPowerState := w, suppressTimeout := suppressTimeout c\<rparr>"
      using goToSleep_state [OF fr, of c c1] by (simp add: core_def)
    have "ignoreInterrupts c = 0" using inv False sleep by (simp add: ctl_inv_def asleep_def)
    then show ?thesis using sleep by (intro inv_of_core [OF core inv]) simp_all
  next
    case wake
    then obtain c1 where "wakeUp e c = Some c1" "c' = c1\<lparr>currentPowerState := w\<rparr>"
      using run False w by (auto simp: setPowerStateGated_def asleep_def elim!: bind_eq_SomeE)
    then have core: "core c' = (core c)\<lparr>requestQueue := requestQueue c1, ignoreInterrupts := ignoreInterrupts c - 1,
      hardwareOffline := False, currentPowerState := w, suppressTimeout := suppressTimeout c1\<rparr>"
      using wakeUp_state [OF fr, of c c1] by simp
    have "ignoreInterrupts c = 1" using inv wake by (simp add: ctl_inv_def)
    then show ?thesis using wake by (intro inv_of_core [OF core inv]) simp_all
  next
    case work
    then have "c' = c\<lparr>currentPowerState := w\<rparr>"
      using run False w by (auto simp: setPowerStateGated_def asleep_def split: if_splits)
    then show ?thesis using inv work
      by (auto simp: ctl_inv_def asleep_def ctl_wf_def mouse_clients_def installed_def device_at_def)
  qed
qed

lemma submit_framed: "nub_submitRequest p r c = (b, c') \<Longrightarrow> framed c c'"
  by (auto simp: nub_submitRequest_def submitRequest_def framed_def)

lemma queue_framed: "core c' = (core c)\<lparr>requestQueue := []\<rparr> \<Longrightarrow> framed c c'"
  by (simp add: framed_def core_def)

lemma workloop_inv:
  assumes "nub_workloop e p c = Some c'" "ctl_inv c" shows "ctl_inv c'"
proof -
  obtain d where d: "device_at p c = Some d" using assms(1) by (auto simp: nub_workloop_def elim!: bind_eq_SomeE)
  show ?thesis
  proof (cases "nub_signalled d")
    case True
    then obtain c1 where up: "update_nub p (nub_signalled_update (\<lambda>_. False)) c = Some c1"
      and c': "c' = c1\<lparr>clients := nub_packetAction e d (clients c1)\<rparr>"
      using assms(1) d by (auto simp: nub_workloop_def elim!: bind_eq_SomeE)
    have "ctl_inv c1" by (rule update_nub_inv [OF up _ _ assms(2)]) simp_all
    moreover have "framed c1 c'" unfolding c' by (rule core_framed) simp
    ultimately show ?thesis using framed_inv by blast
  next
    case False
    then show ?thesis using assms d by (simp add: nub_workloop_def)
  qed
qed

lemma ctl_step_inv:
  assumes "ctl_step e c c'" "power_framed e" "ctl_inv c"
  shows "ctl_inv c'"
  using assms
proof (cases rule: ctl_step.cases)
  case irq_keyboard
  then show ?thesis using assms(3) framed_inv [OF core_framed [OF handleInterrupt_core]]
    by (auto simp: interruptHandlerKeyboard_def split: if_splits)
next
  case irq_mouse
  then show ?thesis using assms(3) framed_inv [OF core_framed [OF handleInterrupt_core]]
    by (auto simp: interruptHandlerMouse_def split: if_splits)
next
  case (submit p r b)
  then show ?thesis using assms(3) framed_inv [OF submit_framed] by blast
next
  case (serve ds)
  then show ?thesis using assms(3) framed_inv [OF queue_framed [OF processRequestQueue_core]] by blast
next
  case (block p r r')
  then show ?thesis using assms(3) framed_inv [OF queue_framed [OF submitRequestAndBlock_core]]
    by (auto simp: nub_submitRequestAndBlock_def)
next
  case (command_byte st cl b)
  then show ?thesis using assms(3) framed_inv [OF core_framed [OF setCommandByte_core]]
    by (auto simp: nub_setCommandByte_def)
next
  case (work_loop p)
  then show ?thesis using assms(3) workloop_inv by blast
next
  case (install p)
  then show ?thesis using assms(3) install_inv by blast
next
  case (uninstall p)
  then show ?thesis using assms(3) uninstall_inv by blast
next
  case (install_power p)
  then show ?thesis using assms(3) update_nub_inv [of p _ c c'] by (simp add: nub_installPowerControlAction_def)
next
  case (uninstall_power p)
  then show ?thesis using assms(3) update_nub_inv [of p _ c c'] by (simp add: nub_uninstallPowerControlAction_def)
next
  case (power w)
  then show ?thesis using assms setPowerState_inv by blast
qed

section \<open>Starting\<close>

text \<open>What the hardware phase of start fixes, and what it leaves as \<^verbatim>\<open>init\<close> made it.\<close>

definition fresh :: "('h, 'c) ctl \<Rightarrow> bool" where
  "fresh c \<longleftrightarrow> devices c = replicate kPS2MuxMaxIdx None \<and> \<not> interruptInstalledKeyboard c \<and>
     interruptInstalledMouse c = 0 \<and> ignoreInterrupts c = 0 \<and> \<not> hardwareOffline c \<and>
     currentPowerState c = kPS2PowerStateNormal"

lemma fresh_init: "fresh (init_ctl h cl)"
  by (simp add: fresh_def init_ctl_def)

lemma fresh_core: "fresh (core c) = fresh c"
proof -
  have "(map (map_option unsignalled) ds = replicate n None) = (ds = replicate n None)" for n and ds :: "nub option list"
    by (induction n arbitrary: ds) (auto simp: map_eq_Cons_conv)
  from this [of _ kPS2MuxMaxIdx] show ?thesis by (simp only: fresh_def core_sel) (simp add: core_def)
qed

lemma fresh_cong: "core c' = core c \<Longrightarrow> fresh c' = fresh c"
  by (metis fresh_core)

lemma startHardware_state:
  assumes run: "startHardware e k c = Some c'" and fresh: "fresh c"
  shows "fresh c'" and "(muxPresent c' \<longrightarrow> \<not> kbdOnly c')"
    and "nubsCount c' = (if kbdOnly c' then 1 else if muxPresent c' then kPS2MuxMaxIdx else kPS2AuxMaxIdx)"
proof -
  define c1 where "c1 = (case boot_kbdonly k of Some b \<Rightarrow> c\<lparr>kbdOnly := b\<rparr> | None \<Rightarrow> c)"
  define c2 where "c2 = (case boot_ps2rst k of Some f \<Rightarrow> c1\<lparr>resetControllerFlag := f\<rparr> | None \<Rightarrow> c1)"
  have f2: "fresh c2" using fresh by (auto simp: c1_def c2_def fresh_def split: option.splits)
  obtain c3 c4 where
    r: "(if resetControllerFlag c2 AND RESET_CONTROLLER_ON_BOOT \<noteq> 0 then resetController e c2 else Some c2) = Some c3"
    and x: "(if kbdOnly c3 then Some (c3\<lparr>muxPresent := False, nubsCount := 1\<rparr>)
          else do {
            (mux, c) \<leftarrow> setMuxMode e True c3;
            Some (c\<lparr>muxPresent := mux, nubsCount := (if mux then kPS2MuxMaxIdx else kPS2AuxMaxIdx)\<rparr>)
          }) = Some c4"
    and d: "(if resetControllerFlag c4 AND RESET_CONTROLLER_ON_BOOT \<noteq> 0
     then Option.bind (resetDevices e c4) (flushDataPort e) else Some c4) = Some c'"
    using run unfolding startHardware_def c1_def [symmetric] Let_def c2_def [symmetric]
    by (elim bind_eq_SomeE) blast
  have core': "core c' = core c4"
    using d by (auto dest!: resetDevices_core flushDataPort_core split: if_splits elim!: bind_eq_SomeE)
  have "fresh (core c3)"
  proof (cases "resetControllerFlag c2 AND RESET_CONTROLLER_ON_BOOT \<noteq> 0")
    case True
    then have "core c3 = (core c2)\<lparr>suppressTimeout := False\<rparr>" using r resetController_core by auto
    then show ?thesis using f2 fresh_core [of c2] by (simp add: fresh_def)
  next
    case False
    then show ?thesis using r f2 by (simp add: fresh_core)
  qed
  then have f3: "fresh c3" by (simp add: fresh_core)
  have "fresh c4 \<and> (muxPresent c4 \<longrightarrow> \<not> kbdOnly c4) \<and>
    nubsCount c4 = (if kbdOnly c4 then 1 else if muxPresent c4 then kPS2MuxMaxIdx else kPS2AuxMaxIdx)"
  proof (cases "kbdOnly c3")
    case True
    then show ?thesis using x f3 by (auto simp: fresh_def)
  next
    case False
    then obtain mux c5 where "setMuxMode e True c3 = Some (mux, c5)"
      and c4: "c4 = c5\<lparr>muxPresent := mux, nubsCount := (if mux then kPS2MuxMaxIdx else kPS2AuxMaxIdx)\<rparr>"
      using x by (auto elim!: bind_eq_SomeE)
    then have "core c5 = core c3" by (intro setMuxMode_core)
    then have "fresh c5" "kbdOnly c5 = kbdOnly c3" using f3 fresh_cong core_eqD(6) by blast+
    then show ?thesis using False by (auto simp: c4 fresh_def)
  qed
  then show "fresh c'" "(muxPresent c' \<longrightarrow> \<not> kbdOnly c')"
    "nubsCount c' = (if kbdOnly c' then 1 else if muxPresent c' then kPS2MuxMaxIdx else kPS2AuxMaxIdx)"
    using core_eqD(4,5,6) [OF core'] fresh_cong [OF core'] by simp_all
qed

lemma createNubs_state:
  "\<lbrakk>createNubs k i n c = (ok, c'); i + n \<le> length (devices c)\<rbrakk> \<Longrightarrow>
   c' = c\<lparr>devices := devices c'\<rparr> \<and> length (devices c') = length (devices c) \<and>
   ok = (\<forall>j. i \<le> j \<and> j < i + n \<longrightarrow> nub_ok k j) \<and>
   (ok \<longrightarrow> (\<forall>j < length (devices c). devices c' ! j =
      (if i \<le> j \<and> j < i + n then Some (new_nub j) else devices c ! j)))"
proof (induction n arbitrary: i c)
  case (Suc n)
  show ?case
  proof (cases "nub_ok k i")
    case True
    let ?c = "c\<lparr>devices := (devices c)[i := Some (new_nub i)]\<rparr>"
    have IH: "c' = ?c\<lparr>devices := devices c'\<rparr>" "length (devices c') = length (devices c)"
      "ok = (\<forall>j. Suc i \<le> j \<and> j < Suc i + n \<longrightarrow> nub_ok k j)"
      "ok \<longrightarrow> (\<forall>j < length (devices c). devices c' ! j =
        (if Suc i \<le> j \<and> j < Suc i + n then Some (new_nub j) else (devices c)[i := Some (new_nub i)] ! j))"
      using Suc.IH [of "Suc i" ?c] Suc.prems True by auto
    have range: "(i \<le> j \<and> j < i + Suc n) = (j = i \<or> Suc i \<le> j \<and> j < Suc i + n)" for j by auto
    have "ok = (\<forall>j. i \<le> j \<and> j < i + Suc n \<longrightarrow> nub_ok k j)" unfolding range using IH(3) True by auto
    moreover have "devices c' ! j = (if i \<le> j \<and> j < i + Suc n then Some (new_nub j) else devices c ! j)"
      if "ok" "j < length (devices c)" for j
      using IH(4) that unfolding range by (cases "j = i") auto
    moreover have "c' = c\<lparr>devices := devices c'\<rparr>" using IH(1) by simp
    ultimately show ?thesis using IH(2) by blast
  next
    case False
    then show ?thesis using Suc.prems by auto
  qed
qed auto

definition alloc_ok :: "kernel \<Rightarrow> nat \<Rightarrow> bool" where
  "alloc_ok k n \<longleftrightarrow> IOLockAlloc k \<and> workLoop_ok k \<and> commandGate_ok k \<and> interruptEventSource_ok k \<and>
     addEventSource_queue k \<and> addEventSource_gate k \<and> thread_call_allocate k \<and> (\<forall>i < n. nub_ok k i)"

lemma start_cases:
  assumes "super_start k" "startHardware e k (init_ctl h cl) = Some c"
  shows "start e k (init_service h cl) =
    (if alloc_ok k (nubsCount c) then
       Some (True, \<lparr>ctl_of = snd (createNubs k 0 (nubsCount c) c), requestQueueLock = True, workLoop = True,
         cmdGate = True, interruptSourceQueue = True, powerChangeThreadCall = True,
         publishNotify = propertyMatching_ok k \<and> addMatchingNotification_ok k,
         terminateNotify = propertyMatching_ok k \<and> addMatchingNotification_ok k,
         notificationServices = True\<rparr>)
     else None)"
proof -
  have "fresh c" "nubsCount c \<le> kPS2MuxMaxIdx"
    using startHardware_state [OF assms(2) fresh_init] by (auto split: if_splits)
  then have n: "0 + nubsCount c \<le> length (devices c)" by (simp add: fresh_def)
  obtain ok c' where nubs: "createNubs k 0 (nubsCount c) c = (ok, c')" by fastforce
  have "ok = (\<forall>j < nubsCount c. nub_ok k j)" using createNubs_state [OF nubs n] by auto
  then show ?thesis using assms nubs
    by (auto simp: start_def init_service_def Let_def stop_def alloc_ok_def)
qed

lemma ctl_of_init [simp]: "ctl_of (init_service h cl) = init_ctl h cl"
  by (simp add: init_service_def)

lemma start_inv:
  assumes "start e k (init_service h cl) = Some (True, s)"
  shows "ctl_inv (ctl_of s)"
proof -
  have sup: "super_start k" using assms by (auto simp: start_def split: if_splits)
  then obtain c where hwd: "startHardware e k (init_ctl h cl) = Some c"
    using assms by (auto simp: start_def elim!: bind_eq_SomeE)
  note st = startHardware_state [OF hwd fresh_init]
  have ok: "alloc_ok k (nubsCount c)" and s: "ctl_of s = snd (createNubs k 0 (nubsCount c) c)"
    using assms start_cases [OF sup hwd] by (auto split: if_splits)
  obtain b c' where nubs: "createNubs k 0 (nubsCount c) c = (b, c')" by fastforce
  have n: "0 + nubsCount c \<le> length (devices c)" using st by (auto simp: fresh_def split: if_splits)
  have c': "c' = c\<lparr>devices := devices c'\<rparr>" "length (devices c') = kPS2MuxMaxIdx"
    "\<forall>j < kPS2MuxMaxIdx. devices c' ! j = (if j < nubsCount c then Some (new_nub j) else None)"
    using createNubs_state [OF nubs n] ok st(1) by (auto simp: alloc_ok_def fresh_def)
  have f: "nubsCount c' = nubsCount c" "muxPresent c' = muxPresent c" "interruptInstalledMouse c' = 0"
    "\<not> interruptInstalledKeyboard c'" "ignoreInterrupts c' = 0" "\<not> hardwareOffline c'"
    "currentPowerState c' = kPS2PowerStateNormal"
    using st(1) by (subst c'(1); simp add: fresh_def)+
  have "\<not> installed i c'" for i
    using c'(2,3) by (auto simp: installed_def device_at_def new_nub_def split: option.splits if_splits)
  then have "mouse_clients c' = {}" "\<not> installed kPS2KbdIdx c'" by (simp_all add: mouse_clients_def)
  moreover have "ctl_wf c'"
    using c'(2,3) f st(2,3) by (auto simp: ctl_wf_def new_nub_def split: if_splits)
  ultimately show ?thesis using f nubs by (simp add: s ctl_inv_def asleep_def)
qed

section \<open>Properties\<close>

text \<open>
  C10. In every state the controller reaches after a successful start, whatever interleaving of
  interrupts, requests, installations and power changes it serves: the hardware is offline and
  interrupts are ignored exactly while it sleeps (the counter is 1 then and 0 otherwise), every
  port in use has its nub, the number of installed mice is the number of auxiliary nubs with a
  client, and the keyboard interrupt is installed exactly when the keyboard nub has a client.
\<close>

theorem reachable_inv:
  assumes "power_framed e" and "start e k (init_service h cl) = Some (True, s)"
    and "reachable e (ctl_of s) c"
  shows "ctl_inv c"
  using assms(3)
proof (induction rule: reachable.induct)
  case start
  show ?case by (rule start_inv [OF assms(2)])
next
  case (step c c')
  show ?case by (rule ctl_step_inv [OF step.hyps(2) assms(1) step.IH])
qed

definition script_kernel :: kernel where
  "script_kernel = \<lparr>super_start = True, boot_kbdonly = Some True, boot_ps2rst = Some 0, IOLockAlloc = True,
     workLoop_ok = True, commandGate_ok = True, interruptEventSource_ok = True,
     addEventSource_queue = True, addEventSource_gate = True, thread_call_allocate = True,
     nub_ok = (\<lambda>_. True), propertyMatching_ok = True, addMatchingNotification_ok = True\<rparr>"

lemma script_framed: "power_framed script_env"
  by (simp add: power_framed_def)

lemma script_hardware:
  "startHardware script_env script_kernel (init_ctl h cl) =
   Some ((init_ctl h cl)\<lparr>kbdOnly := True, resetControllerFlag := 0, muxPresent := False, nubsCount := 1\<rparr>)"
  by (simp add: startHardware_def script_kernel_def)

theorem reachable_inv_witness:
  "\<exists>s. start script_env script_kernel (init_service \<lparr>statuses = [], bytes = [], written = []\<rparr> []) = Some (True, s) \<and>
     ctl_inv ((ctl_of s)\<lparr>requestQueue := [script_request\<lparr>req_port := 0\<rparr>]\<rparr>)"
proof -
  let ?h = "\<lparr>statuses = [], bytes = [], written = []\<rparr> :: script"
  obtain s where s: "start script_env script_kernel (init_service ?h []) = Some (True, s)"
    "ctl_of s = snd (createNubs script_kernel 0 1
      ((init_ctl ?h [])\<lparr>kbdOnly := True, resetControllerFlag := 0, muxPresent := False, nubsCount := 1\<rparr>))"
    using start_cases [OF _ script_hardware] by (auto simp: script_kernel_def alloc_ok_def)
  then have "nubsCount (ctl_of s) = 1" "requestQueue (ctl_of s) = []"
    by (simp_all add: script_kernel_def init_ctl_def)
  then have "ctl_step script_env (ctl_of s) ((ctl_of s)\<lparr>requestQueue := [script_request\<lparr>req_port := 0\<rparr>]\<rparr>)"
    by (intro ctl_step.submit [of 0 _ script_request True]) (auto simp: nub_submitRequest_def submitRequest_def)
  then have "reachable script_env (ctl_of s) ((ctl_of s)\<lparr>requestQueue := [script_request\<lparr>req_port := 0\<rparr>]\<rparr>)"
    by (rule reachable.step [OF reachable.start])
  from reachable_inv [OF script_framed s(1) this] show ?thesis using s(1) by blast
qed

text \<open>
  C12. While the controller sleeps nothing disturbs the hardware: in every state reached after start
  in which it is asleep both interrupt handlers return at once without any effect, and every
  request is answered as failed without a single port access.
\<close>

theorem asleep_quiet:
  assumes "power_framed e" and "start e k (init_service h cl) = Some (True, s)"
    and "reachable e (ctl_of s) c" and "asleep c"
  shows "interruptHandlerMouse e c = Some c \<and> interruptHandlerKeyboard e c = Some c \<and>
    (\<exists>c'. processRequest e r c = Some (disposal_of r, r\<lparr>commandsCount := 0\<rparr>, c') \<and> hw c' = hw c)"
proof -
  have "ctl_inv c" using assms(3)
    by (induction rule: reachable.induct) (auto intro: start_inv [OF assms(2)] ctl_step_inv [OF _ assms(1)])
  then have "ignoreInterrupts c \<noteq> 0" "hardwareOffline c" using assms(4) by (auto simp: ctl_inv_def)
  moreover obtain cl where "disposeRequest e (r\<lparr>commandsCount := 0\<rparr>) c = (disposal_of r, c\<lparr>clients := cl\<rparr>)"
    using disposeRequest_shape [of e "r\<lparr>commandsCount := 0\<rparr>" c] by auto
  ultimately show ?thesis
    by (simp add: interruptHandlerMouse_def interruptHandlerKeyboard_def processRequest_def Let_def)
qed

definition script_asleep_hw :: script where
  "script_asleep_hw = \<lparr>statuses = [0, 1, 0, 0, 0, 1, 0, 0], bytes = [0x47, 0x44], written = []\<rparr>"

definition script_started :: "(script, (nat \<times> u8) list) ctl" where
  "script_started = snd (createNubs script_kernel 0 1 ((init_ctl script_asleep_hw [])\<lparr>kbdOnly := True,
     resetControllerFlag := 0, muxPresent := False, nubsCount := 1\<rparr>))"

theorem asleep_quiet_witness:
  "\<exists>s c. start script_env script_kernel (init_service script_asleep_hw []) = Some (True, s) \<and>
     setPowerStateGated script_env kPS2PowerStateSleep (ctl_of s) = Some c \<and>
     written (hw c) = [(0x64, 0x20), (0x64, 0x60), (0x60, 0x44), (0x64, 0x20), (0x64, 0x60), (0x60, 0x74)] \<and>
     interruptHandlerMouse script_env c = Some c"
proof -
  obtain s where s: "start script_env script_kernel (init_service script_asleep_hw []) = Some (True, s)"
    "ctl_of s = script_started"
    using start_cases [OF _ script_hardware] unfolding script_started_def
    by (auto simp: script_kernel_def alloc_ok_def)
  have "map_option (\<lambda>c. (currentPowerState c, written (hw c)))
      (setPowerStateGated script_env kPS2PowerStateSleep script_started) =
    Some (0, [(0x64, 0x20), (0x64, 0x60), (0x60, 0x44), (0x64, 0x20), (0x64, 0x60), (0x60, 0x74)])" by code_simp
  then obtain c where c: "setPowerStateGated script_env kPS2PowerStateSleep (ctl_of s) = Some c" "asleep c"
    "written (hw c) = [(0x64, 0x20), (0x64, 0x60), (0x60, 0x44), (0x64, 0x20), (0x64, 0x60), (0x60, 0x74)]" by (auto simp: s(2) asleep_def)
  then have "reachable script_env (ctl_of s) c"
    by (intro reachable.step [OF reachable.start] ctl_step.power) auto
  then show ?thesis using asleep_quiet [OF script_framed s(1) _ c(2)] s(1) c by blast
qed

text \<open>
  C11. Sleep and wake are inverse on the controller: going to sleep from a working state takes the
  hardware offline and blocks interrupts, and the following wake restores every member of the
  controller except the request queue (which the drivers' own requests may have drained).
\<close>

theorem sleep_wake_restores:
  assumes "power_framed e" and "\<not> asleep c" and "\<not> hardwareOffline c" and "\<not> suppressTimeout c"
    and "w \<in> {kPS2PowerStateDoze, kPS2PowerStateNormal}"
    and "setPowerStateGated e kPS2PowerStateSleep c = Some c1" and "setPowerStateGated e w c1 = Some c2"
  shows "asleep c1 \<and> hardwareOffline c1 \<and> ignoreInterrupts c1 = ignoreInterrupts c + 1 \<and>
    core c2 = (core c)\<lparr>requestQueue := requestQueue c2, currentPowerState := w\<rparr>"
proof -
  obtain d1 where d1: "goToSleep e c = Some d1" "c1 = d1\<lparr>currentPowerState := kPS2PowerStateSleep\<rparr>"
    using assms(2,6) by (auto simp: setPowerStateGated_def asleep_def elim!: bind_eq_SomeE)
  note s1 = goToSleep_state [OF assms(1) d1(1)]
  have f1: "hardwareOffline c1" "ignoreInterrupts c1 = ignoreInterrupts c + 1" "asleep c1"
    using s1 by (auto simp: d1(2) core_def asleep_def)
  have core1: "core c1 = (core c)\<lparr>requestQueue := requestQueue c1, ignoreInterrupts := ignoreInterrupts c + 1,
    hardwareOffline := True, currentPowerState := kPS2PowerStateSleep\<rparr>"
    using s1 by (simp add: d1(2))
  obtain d2 where d2: "wakeUp e c1 = Some d2" "c2 = d2\<lparr>currentPowerState := w\<rparr>"
    using assms(5,7) f1(3) by (auto simp: setPowerStateGated_def asleep_def elim!: bind_eq_SomeE)
  have "\<not> suppressTimeout c1" using core1 assms(4) by (simp add: core_def)
  then have "core c2 = (core c1)\<lparr>requestQueue := requestQueue c2, ignoreInterrupts := ignoreInterrupts c1 - 1,
    hardwareOffline := False, currentPowerState := w, suppressTimeout := False\<rparr>"
    using wakeUp_state [OF assms(1) d2(1)] by (auto simp: d2(2))
  then have "core c2 = (core c)\<lparr>requestQueue := requestQueue c2, currentPowerState := w\<rparr>"
    unfolding core1 f1(2) using assms(3,4) by (simp add: core_def)
  then show ?thesis using f1 by blast
qed

definition script_sleeper :: "(script, (nat \<times> u8) list) ctl" where
  "script_sleeper = (script_ctl False [0, 1, 0, 0, 0, 1, 0, 0, 0, 1, 0, 0, 0, 1, 0, 0] [0x47, 0x44, 0x74, 0x44])
     \<lparr>resetControllerFlag := RESET_CONTROLLER_ON_BOOT\<rparr>"

theorem sleep_wake_restores_witness:
  "\<exists>c1 c2. setPowerStateGated script_env kPS2PowerStateSleep script_sleeper = Some c1 \<and>
     setPowerStateGated script_env kPS2PowerStateNormal c1 = Some c2 \<and> hardwareOffline c1 \<and>
     core c2 = (core script_sleeper)\<lparr>requestQueue := requestQueue c2, currentPowerState := kPS2PowerStateNormal\<rparr>"
proof -
  have "Option.bind (setPowerStateGated script_env kPS2PowerStateSleep script_sleeper)
    (setPowerStateGated script_env kPS2PowerStateNormal) \<noteq> None" by code_simp
  then obtain c1 c2 where c: "setPowerStateGated script_env kPS2PowerStateSleep script_sleeper = Some c1"
    "setPowerStateGated script_env kPS2PowerStateNormal c1 = Some c2"
    by (auto simp: bind_eq_None_conv)
  then show ?thesis
    using sleep_wake_restores [OF script_framed _ _ _ _ c] by (auto simp: script_sleeper_def script_ctl_def asleep_def)
qed

text \<open>
  C27. A start that fails after the hardware phase does not fail cleanly. If any of the kernel
  objects or nubs cannot be allocated, \<^verbatim>\<open>start\<close> goes to its failure label and calls \<^verbatim>\<open>stop\<close>, which
  removes notifiers that were never registered: a null pointer is dereferenced, so the call never
  returns false.
\<close>

theorem start_failure_faults:
  assumes "super_start k" and "startHardware e k (init_ctl h cl) = Some c" and "\<not> alloc_ok k (nubsCount c)"
  shows "start e k (init_service h cl) = None"
  using start_cases [OF assms(1,2)] assms(3) by simp

theorem start_failure_faults_witness:
  "start script_env (script_kernel\<lparr>workLoop_ok := False\<rparr>) (init_service \<lparr>statuses = [], bytes = [], written = []\<rparr> []) = None"
proof -
  let ?h = "\<lparr>statuses = [], bytes = [], written = []\<rparr> :: script"
  have "startHardware script_env (script_kernel\<lparr>workLoop_ok := False\<rparr>) (init_ctl ?h []) =
    Some ((init_ctl ?h [])\<lparr>kbdOnly := True, resetControllerFlag := 0, muxPresent := False, nubsCount := 1\<rparr>)"
    by (simp add: startHardware_def script_kernel_def)
  from start_failure_faults [OF _ this] show ?thesis by (simp add: script_kernel_def alloc_ok_def)
qed

text \<open>
  A pressed key is announced to every registered service, then its time stamp is, unless the
  key is a modifier; so a service that only watches key times (palm rejection) sees exactly the
  non-modifier keys, each once.
\<close>

theorem dispatchMessage_key_times:
  "filter (\<lambda>(_, m). case m of kPS2M_notifyKeyTime _ \<Rightarrow> True | _ \<Rightarrow> False)
     (concat (map (\<lambda>i. dispatchMessageGated services (kPS2M_notifyKeyPressed i)) keys)) =
   concat (map (\<lambda>i. map (\<lambda>s. (s, kPS2M_notifyKeyTime (key_time i))) services)
     (filter (\<lambda>i. \<not> is_modifier_key (adbKeyCode i)) keys))"
  by (induction keys) (auto simp: filter_map o_def)

end
