(* ===== verification/Ring_Buffer.thy ===== *)
theory Ring_Buffer
  imports PS2_Prelude
begin

text \<open>
  The \<^verbatim>\<open>RingBuffer<T, N>\<close> template of \<^verbatim>\<open>ApplePS2Device.h\<close>: an array with a head and a tail index.
  Every driver uses it the same way: the interrupt routine writes one packet of a fixed
  length through \<^verbatim>\<open>head()\<close> and commits it with \<^verbatim>\<open>advanceHead\<close>; the work loop reads packets through
  \<^verbatim>\<open>tail()\<close> and drops them with \<^verbatim>\<open>advanceTail\<close>. \<open>N\<close> is the length of \<open>m_buffer\<close>. The indices stay
  below \<open>2 * N\<close>, far from the range of \<^verbatim>\<open>unsigned\<close>, so they are natural numbers. A read or write
  through a pointer that leaves the array is \<open>None\<close>.

  The contract the drivers rely on is the locale \<open>packet_queue\<close>; \<open>packet_ring\<close> shows that the
  array implements it whenever the packet length divides the array length.
\<close>

section \<open>The template class\<close>

record 'a ring =
  m_buffer :: "'a list"
  m_head :: nat
  m_tail :: nat

definition count_between :: "nat \<Rightarrow> nat \<Rightarrow> nat \<Rightarrow> nat" where
  "count_between N head tail = (if head \<ge> tail then head - tail else N - tail + head)"

definition ring_reset :: "'a ring \<Rightarrow> 'a ring" where
  "ring_reset r = r\<lparr>m_head := 0, m_tail := 0\<rparr>"

definition ring_count :: "'a ring \<Rightarrow> nat" where
  "ring_count r = count_between (length (m_buffer r)) (m_head r) (m_tail r)"

definition ring_push :: "'a \<Rightarrow> 'a ring \<Rightarrow> 'a ring" where
  "ring_push data r =
     (let new_head = m_head r + 1;
          new_head = (if new_head \<ge> length (m_buffer r) then 0 else new_head)
      in if new_head \<noteq> m_tail r
         then r\<lparr>m_buffer := (m_buffer r)[m_head r := data], m_head := new_head\<rparr>
         else r)"

definition ring_fetch :: "'a ring \<Rightarrow> ('a \<times> 'a ring) option" where
  "ring_fetch r =
     (if m_tail r < length (m_buffer r)
      then let result = m_buffer r ! m_tail r; tail = m_tail r + 1
           in Some (result,
                r\<lparr>m_tail := (if tail \<ge> length (m_buffer r) then 0 else tail)\<rparr>)
      else None)"

text \<open>\<open>poke i v\<close> is the assignment \<^verbatim>\<open>head()[i] = v\<close>; \<open>peek n\<close> reads the \<open>n\<close> elements at \<^verbatim>\<open>tail()\<close>.\<close>

definition ring_poke :: "nat \<Rightarrow> 'a \<Rightarrow> 'a ring \<Rightarrow> 'a ring option" where
  "ring_poke i v r =
     (if m_head r + i < length (m_buffer r)
      then Some (r\<lparr>m_buffer := (m_buffer r)[m_head r + i := v]\<rparr>)
      else None)"

definition ring_peek :: "nat \<Rightarrow> 'a ring \<Rightarrow> 'a list option" where
  "ring_peek n r =
     (if m_tail r + n \<le> length (m_buffer r)
      then Some (take n (drop (m_tail r) (m_buffer r)))
      else None)"

definition advanceHead :: "nat \<Rightarrow> 'a ring \<Rightarrow> 'a ring" where
  "advanceHead move r =
     (let new_head = m_head r + move;
          new_head = (if new_head \<ge> length (m_buffer r)
                      then new_head - length (m_buffer r) else new_head)
      in if count_between (length (m_buffer r)) new_head (m_tail r) \<ge> ring_count r
         then r\<lparr>m_head := new_head\<rparr> else r)"

definition advanceTail :: "nat \<Rightarrow> 'a ring \<Rightarrow> 'a ring" where
  "advanceTail move r =
     (let tail = m_tail r + move
      in r\<lparr>m_tail := (if tail \<ge> length (m_buffer r) then tail - length (m_buffer r) else tail)\<rparr>)"

definition new_ring :: "nat \<Rightarrow> 'a \<Rightarrow> 'a ring" where
  "new_ring N v = \<lparr>m_buffer = replicate N v, m_head = 0, m_tail = 0\<rparr>"

section \<open>Element level: a bounded FIFO\<close>

definition ring_wf :: "'a ring \<Rightarrow> bool" where
  "ring_wf r \<longleftrightarrow> m_head r < length (m_buffer r) \<and> m_tail r < length (m_buffer r)"

definition ring_contents :: "'a ring \<Rightarrow> 'a list" where
  "ring_contents r =
     map (\<lambda>k. m_buffer r ! ((m_tail r + k) mod length (m_buffer r))) [0..<ring_count r]"

lemma length_ring_contents [simp]: "length (ring_contents r) = ring_count r"
  by (simp add: ring_contents_def)

lemma nth_ring_contents [simp]:
  "k < ring_count r \<Longrightarrow>
   ring_contents r ! k = m_buffer r ! ((m_tail r + k) mod length (m_buffer r))"
  by (simp add: ring_contents_def)

lemma ring_count_less: "ring_wf r \<Longrightarrow> ring_count r < length (m_buffer r)"
  by (auto simp: ring_wf_def ring_count_def count_between_def)

lemma ring_push_wf: "ring_wf r \<Longrightarrow> ring_wf (ring_push x r)"
  by (auto simp: ring_push_def ring_wf_def Let_def)

lemma ring_push_full:
  assumes "ring_wf r" "ring_count r + 1 = length (m_buffer r)"
  shows "ring_push x r = r"
  using assms by (auto simp: ring_push_def ring_wf_def ring_count_def count_between_def Let_def
      split: if_splits)

lemma ring_push_contents:
  assumes wf: "ring_wf r" and room: "ring_count r + 1 < length (m_buffer r)"
  shows "ring_contents (ring_push x r) = ring_contents r @ [x]"
proof -
  define N where "N = length (m_buffer r)"
  have h: "m_head r < N" "m_tail r < N" using wf by (auto simp: ring_wf_def N_def)
  have cnt: "ring_count (ring_push x r) = ring_count r + 1"
    and buf: "m_buffer (ring_push x r) = (m_buffer r)[m_head r := x]"
    and tl: "m_tail (ring_push x r) = m_tail r"
    using h room by (auto simp: ring_push_def ring_count_def count_between_def Let_def N_def)
  show ?thesis
  proof (rule nth_equalityI)
    fix k assume "k < length (ring_contents (ring_push x r))"
    then have k: "k \<le> ring_count r" by (simp add: cnt)
    then have "k < N" using room by (simp add: N_def)
    have head: "(m_tail r + k) mod N = m_head r \<longleftrightarrow> k = ring_count r"
      using h k \<open>k < N\<close> by (auto simp: mod_add_window ring_count_def count_between_def N_def)
    have "ring_contents (ring_push x r) ! k = (m_buffer r)[m_head r := x] ! ((m_tail r + k) mod N)"
      using k by (simp add: cnt buf tl N_def)
    also have "\<dots> = (ring_contents r @ [x]) ! k"
    proof (cases "k = ring_count r")
      case True
      then show ?thesis using head h by (simp add: nth_append N_def)
    next
      case False
      then have "k < ring_count r" using k by simp
      moreover have "(m_tail r + k) mod N \<noteq> m_head r" using head False by simp
      ultimately show ?thesis by (simp add: nth_append N_def)
    qed
    finally show "ring_contents (ring_push x r) ! k = (ring_contents r @ [x]) ! k" .
  qed (simp add: cnt)
qed

lemma ring_fetch_contents:
  assumes wf: "ring_wf r" and ne: "ring_contents r \<noteq> []"
  shows "\<exists>r'. ring_fetch r = Some (hd (ring_contents r), r') \<and>
    ring_contents r' = tl (ring_contents r) \<and> ring_wf r'"
proof -
  define N where "N = length (m_buffer r)"
  have h: "m_head r < N" "m_tail r < N" using wf by (auto simp: ring_wf_def N_def)
  define r' where "r' = r\<lparr>m_tail := (if m_tail r + 1 \<ge> N then 0 else m_tail r + 1)\<rparr>"
  have pos: "0 < ring_count r" using ne by (simp add: ring_contents_def)
  have hd: "hd (ring_contents r) = m_buffer r ! m_tail r"
    using pos h by (simp add: ring_contents_def hd_map N_def)
  have cnt: "ring_count r = Suc (ring_count r')"
    using pos h by (auto simp: r'_def ring_count_def count_between_def N_def split: if_splits)
  have "ring_contents r' = tl (ring_contents r)"
  proof (rule nth_equalityI)
    fix k assume "k < length (ring_contents r')"
    then have k: "k < ring_count r'" by simp
    then have kN: "Suc k < N" using ring_count_less [OF wf] cnt by (simp add: N_def)
    have "(m_tail r' + k) mod N = (m_tail r + Suc k) mod N"
      unfolding mod_add_window [OF h(2) kN] using h kN by (auto simp: r'_def mod_add_window)
    then show "ring_contents r' ! k = tl (ring_contents r) ! k"
      using k cnt by (simp add: nth_tl) (simp add: r'_def N_def)
  qed (simp add: cnt)
  moreover have "ring_wf r'" using h by (auto simp: r'_def ring_wf_def N_def)
  moreover have "ring_fetch r = Some (hd (ring_contents r), r')"
    using h by (simp add: ring_fetch_def hd r'_def N_def Let_def)
  ultimately show ?thesis by blast
qed

section \<open>Packet level: the contract the drivers rely on\<close>

text \<open>
  A packet queue: \<open>write i v\<close> stores into the packet under construction (the slot), \<open>commit\<close>
  makes the slot the last packet unless the queue is full, \<open>front\<close> and \<open>discard\<close> read and drop
  the first packet, \<open>fill\<close> counts elements.
\<close>

locale packet_queue =
  fixes "write" :: "nat \<Rightarrow> 'a \<Rightarrow> 'q \<Rightarrow> 'q option"
    and commit :: "'q \<Rightarrow> 'q"
    and front :: "'q \<Rightarrow> 'a list option"
    and discard :: "'q \<Rightarrow> 'q"
    and fill :: "'q \<Rightarrow> nat"
    and invar :: "'q \<Rightarrow> bool"
    and packets :: "'q \<Rightarrow> 'a list list"
    and slot :: "'q \<Rightarrow> 'a list"
    and len :: nat
    and cap :: nat
  assumes write_ok: "\<lbrakk>invar q; i < len\<rbrakk> \<Longrightarrow>
      \<exists>q'. write i v q = Some q' \<and> invar q' \<and> packets q' = packets q \<and> slot q' = (slot q)[i := v]"
    and length_slot: "invar q \<Longrightarrow> length (slot q) = len"
    and packets_bound: "invar q \<Longrightarrow> length (packets q) \<le> cap"
    and commit_room: "\<lbrakk>invar q; length (packets q) < cap\<rbrakk> \<Longrightarrow> packets (commit q) = packets q @ [slot q]"
    and commit_full: "\<lbrakk>invar q; length (packets q) = cap\<rbrakk> \<Longrightarrow> commit q = q"
    and commit_invar: "invar q \<Longrightarrow> invar (commit q)"
    and front_ok: "\<lbrakk>invar q; packets q \<noteq> []\<rbrakk> \<Longrightarrow> front q = Some (hd (packets q))"
    and discard_ok: "\<lbrakk>invar q; packets q \<noteq> []\<rbrakk> \<Longrightarrow> packets (discard q) = tl (packets q) \<and> invar (discard q)"
    and fill_ok: "invar q \<Longrightarrow> (len \<le> fill q) = (packets q \<noteq> [])"
begin

primrec write_all :: "nat \<Rightarrow> 'a list \<Rightarrow> 'q \<Rightarrow> 'q option" where
  "write_all i [] q = Some q"
| "write_all i (b # bs) q = Option.bind (write i b q) (write_all (Suc i) bs)"

lemma write_all_ok:
  "\<lbrakk>invar q; i + length bs \<le> len\<rbrakk> \<Longrightarrow>
   \<exists>q'. write_all i bs q = Some q' \<and> invar q' \<and> packets q' = packets q \<and>
     slot q' = take i (slot q) @ bs @ drop (i + length bs) (slot q)"
proof (induction bs arbitrary: i q)
  case Nil
  then show ?case by simp
next
  case (Cons b bs)
  then obtain q1 where q1: "write i b q = Some q1" "invar q1" "packets q1 = packets q"
    "slot q1 = (slot q)[i := b]" using write_ok [of q i b] by auto
  obtain q' where q': "write_all (Suc i) bs q1 = Some q'" "invar q'" "packets q' = packets q1"
    "slot q' = take (Suc i) (slot q1) @ bs @ drop (Suc i + length bs) (slot q1)"
    using Cons.IH [OF q1(2), of "Suc i"] Cons.prems by auto
  have "take (Suc i) (slot q1) = take i (slot q) @ [b]"
    using Cons.prems length_slot [OF Cons.prems(1)] by (simp add: q1(4) take_Suc_conv_app_nth)
  then show ?case using q1 q' by simp
qed

lemma packet_appended:
  assumes "invar q" "length bs = len" "length (packets q) < cap"
  shows "\<exists>q'. write_all 0 bs q = Some q' \<and> invar (commit q') \<and> packets (commit q') = packets q @ [bs]"
proof -
  obtain q' where q': "write_all 0 bs q = Some q'" "invar q'" "packets q' = packets q"
    "slot q' = take 0 (slot q) @ bs @ drop (0 + length bs) (slot q)"
    using write_all_ok [of q 0 bs] assms by auto
  then have "slot q' = bs" using assms length_slot [OF assms(1)] by simp
  with q' assms show ?thesis by (simp add: commit_room commit_invar)
qed

lemma packet_dropped_when_full:
  assumes "invar q" "length bs = len" "length (packets q) = cap"
  shows "\<exists>q'. write_all 0 bs q = Some q' \<and> invar (commit q') \<and> packets (commit q') = packets q"
proof -
  obtain q' where "write_all 0 bs q = Some q'" "invar q'" "packets q' = packets q"
    using write_all_ok [of q 0 bs] assms by auto
  with assms show ?thesis by (simp add: commit_full)
qed

end

text \<open>
  A consumer drains the queue from its work loop: as long as a whole packet is there it handles
  the packet at the front and drops it. \<open>run\<close> is the loop with fuel, \<open>step\<close> one iteration, which
  succeeds in the states \<open>good\<close>.
\<close>

locale packet_consumer = packet_queue "write" commit front discard fill invar packets slot len cap
  for "write" :: "nat \<Rightarrow> 'a \<Rightarrow> 'q \<Rightarrow> 'q option"
    and commit front discard fill invar packets slot len cap +
  fixes queue :: "'s \<Rightarrow> 'q"
    and good :: "'s \<Rightarrow> bool"
    and step :: "'a list \<Rightarrow> 's \<Rightarrow> 's option"
    and run :: "nat \<Rightarrow> 's \<Rightarrow> 's option"
  assumes run_Suc: "run (Suc n) s =
      (if len \<le> fill (queue s)
       then Option.bind (front (queue s)) (\<lambda>p. Option.bind (step p s) (run n)) else Some s)"
    and step_good: "\<lbrakk>good s; invar (queue s); length p = len\<rbrakk> \<Longrightarrow>
      \<exists>s'. step p s = Some s' \<and> good s' \<and> queue s' = discard (queue s)"
    and packets_len: "\<lbrakk>invar q; p \<in> set (packets q)\<rbrakk> \<Longrightarrow> length p = len"
begin

lemma run_drains:
  "\<lbrakk>invar (queue s); good s; length (packets (queue s)) < n\<rbrakk> \<Longrightarrow>
   \<exists>s'. run n s = Some s' \<and> fold_opt step (packets (queue s)) s = Some s' \<and> good s' \<and>
     packets (queue s') = [] \<and> invar (queue s')"
proof (induction n arbitrary: s)
  case 0
  then show ?case by simp
next
  case (Suc n)
  show ?case
  proof (cases "packets (queue s)")
    case Nil
    then show ?thesis using Suc.prems fill_ok by (simp add: run_Suc)
  next
    case (Cons p ps)
    then have "length p = len" using packets_len [of "queue s" p] Suc.prems by simp
    then obtain s1 where s1: "step p s = Some s1" "good s1" "queue s1 = discard (queue s)"
      using step_good Suc.prems by blast
    have next_queue: "front (queue s) = Some p" "packets (queue s1) = ps" "invar (queue s1)"
      using Suc.prems front_ok discard_ok Cons s1(3) by auto
    then have "run (Suc n) s = run n s1"
      using Suc.prems Cons fill_ok s1 by (simp add: run_Suc)
    moreover obtain s' where "run n s1 = Some s'" "fold_opt step ps s1 = Some s'" "good s'"
      "packets (queue s') = []" "invar (queue s')"
      using Suc.IH [of s1] Suc.prems Cons next_queue s1 by auto
    ultimately show ?thesis using Cons s1 by simp
  qed
qed

end

text \<open>
  A producer assembles packets of the fixed length from single bytes in its interrupt routine. Its
  specification \<open>frame_step\<close> works on the bytes of the packet under construction and the list of
  buffered packets: a completed packet is appended, or dropped as a whole when the buffer is full.
\<close>

definition frame_step :: "nat \<Rightarrow> nat \<Rightarrow> 'a \<Rightarrow> 'a list \<times> 'a list list \<Rightarrow> 'a list \<times> 'a list list" where
  "frame_step len cap b = (\<lambda>(part, ps).
     if Suc (length part) = len then ([], if length ps < cap then ps @ [part @ [b]] else ps)
     else (part @ [b], ps))"

definition packets_of :: "nat \<Rightarrow> 'a list \<Rightarrow> 'a list list" where
  "packets_of len bs = map (\<lambda>k. take len (drop (k * len) bs)) [0..<length bs div len]"

text \<open>Starting empty, the buffered packets are the first complete packets of the byte stream.\<close>

lemma frame_steps:
  assumes len: "0 < len"
  shows "fold (frame_step len cap) bs ([], []) =
    (drop (length bs div len * len) bs, take cap (packets_of len bs))"
proof (induction bs rule: rev_induct)
  case Nil
  show ?case by (simp add: packets_of_def)
next
  case (snoc b bs)
  define q where "q = length bs div len"
  define part where "part = drop (q * len) bs"
  have lp: "length part = length bs mod len" by (simp add: part_def q_def modulo_nat_def)
  have old: "take len (drop (k * len) (bs @ [b])) = take len (drop (k * len) bs)" if "k < q" for k
  proof -
    have "Suc k * len \<le> q * len" using that by (intro mult_le_mono1) simp
    also have "\<dots> \<le> length bs" by (simp add: q_def)
    finally show ?thesis by simp
  qed
  have qle: "q * len \<le> length bs" by (simp add: q_def)
  have step: "fold (frame_step len cap) (bs @ [b]) ([], []) = frame_step len cap b (part, take cap (packets_of len bs))"
    using snoc by (simp add: part_def q_def)
  show ?case
  proof (cases "Suc (length bs mod len) = len")
    case True
    have d: "length (bs @ [b]) div len = Suc q" using True by (simp add: q_def div_Suc mod_Suc)
    have "length bs = q * len + length bs mod len" by (simp add: q_def)
    then have full: "length bs + 1 = Suc q * len" using True by simp
    have chunk: "take len (drop (q * len) (bs @ [b])) = part @ [b]" using True lp qle by (simp add: part_def)
    have "packets_of len (bs @ [b]) = packets_of len bs @ [part @ [b]]"
      unfolding packets_of_def d using old chunk by (simp add: q_def [symmetric])
    moreover have "take cap (P @ [x]) = (if length (take cap P) < cap then take cap P @ [x] else take cap P)"
      for P :: "'a list list" and x by auto
    moreover have "drop (Suc q * len) (bs @ [b]) = []" using full by simp
    ultimately show ?thesis unfolding step d using True lp by (simp add: frame_step_def)
  next
    case False
    have d: "length (bs @ [b]) div len = q" using False by (simp add: q_def div_Suc mod_Suc)
    have "packets_of len (bs @ [b]) = packets_of len bs"
      unfolding packets_of_def d using old by (simp add: q_def [symmetric])
    then show ?thesis unfolding step d using False lp qle by (simp add: frame_step_def part_def)
  qed
qed

locale packet_producer = packet_queue "write" commit front discard fill invar packets slot len cap
  for "write" :: "nat \<Rightarrow> 'a \<Rightarrow> 'q \<Rightarrow> 'q option"
    and commit front discard fill invar packets slot len cap +
  fixes queue :: "'s \<Rightarrow> 'q"
    and received :: "'s \<Rightarrow> nat"
    and recv :: "'a \<Rightarrow> 's \<Rightarrow> (bool \<times> 's) option"
  assumes recv_more: "\<lbrakk>write (received s) b (queue s) = Some q; Suc (received s) < len\<rbrakk> \<Longrightarrow>
      \<exists>s'. recv b s = Some (False, s') \<and> queue s' = q \<and> received s' = Suc (received s)"
    and recv_last: "\<lbrakk>write (received s) b (queue s) = Some q; Suc (received s) = len\<rbrakk> \<Longrightarrow>
      \<exists>s'. recv b s = Some (True, s') \<and> queue s' = commit q \<and> received s' = 0"
begin

definition producer_inv :: "'s \<Rightarrow> bool" where
  "producer_inv s \<longleftrightarrow> invar (queue s) \<and> received s < len"

definition view :: "'s \<Rightarrow> 'a list \<times> 'a list list" where
  "view s = (take (received s) (slot (queue s)), packets (queue s))"

lemma recv_refines:
  assumes "producer_inv s"
  shows "\<exists>s'. recv b s = Some (Suc (received s) = len, s') \<and> producer_inv s' \<and>
    view s' = frame_step len cap b (view s)"
proof -
  have inv: "invar (queue s)" "received s < len" using assms by (auto simp: producer_inv_def)
  obtain q where q: "write (received s) b (queue s) = Some q" "invar q" "packets q = packets (queue s)"
    "slot q = (slot (queue s))[received s := b]"
    using write_ok [OF inv, of b] by blast
  have part: "take (Suc (received s)) (slot q) = take (received s) (slot (queue s)) @ [b]"
    using q(4) inv length_slot [OF inv(1)] by (simp add: take_Suc_conv_app_nth)
  have len: "length (take (received s) (slot (queue s))) = received s"
    using inv length_slot [OF inv(1)] by simp
  show ?thesis
  proof (cases "Suc (received s) = len")
    case True
    then obtain s' where s': "recv b s = Some (True, s')" "queue s' = commit q" "received s' = 0"
      using recv_last [OF q(1)] by blast
    have "slot q = take (received s) (slot (queue s)) @ [b]"
      using part True length_slot [OF q(2)] by simp
    then have "packets (commit q) =
      (if length (packets (queue s)) < cap then packets (queue s) @ [take (received s) (slot (queue s)) @ [b]]
       else packets (queue s))"
      using commit_room [OF q(2)] commit_full [OF q(2)] packets_bound [OF q(2)] q(3) by auto
    moreover have "0 < len" using inv(2) by simp
    ultimately show ?thesis using s' True len commit_invar [OF q(2)]
      by (simp add: producer_inv_def view_def frame_step_def)
  next
    case False
    then obtain s' where s': "recv b s = Some (False, s')" "queue s' = q" "received s' = Suc (received s)"
      using recv_more [OF q(1)] inv(2) by fastforce
    then show ?thesis using False inv part len q
      by (simp add: producer_inv_def view_def frame_step_def)
  qed
qed

end

section \<open>The array implements the contract\<close>

definition ring_slot :: "nat \<Rightarrow> 'a ring \<Rightarrow> nat \<Rightarrow> 'a list" where
  "ring_slot len r j = take len (drop (j * len) (m_buffer r))"

definition ring_packets :: "nat \<Rightarrow> 'a ring \<Rightarrow> 'a list list" where
  "ring_packets len r =
     map (\<lambda>k. ring_slot len r ((m_tail r div len + k) mod (length (m_buffer r) div len)))
       [0..<ring_count r div len]"

definition packet_inv :: "nat \<Rightarrow> nat \<Rightarrow> 'a ring \<Rightarrow> bool" where
  "packet_inv len N r \<longleftrightarrow> length (m_buffer r) = N \<and> ring_wf r \<and>
     len dvd m_head r \<and> len dvd m_tail r"

definition head_slot :: "nat \<Rightarrow> 'a ring \<Rightarrow> 'a list" where
  "head_slot len r = ring_slot len r (m_head r div len)"

lemma count_between_mult:
  "t \<le> S \<Longrightarrow> 0 < n \<Longrightarrow> count_between (S * n) (h * n) (t * n) = count_between S h t * n"
  by (simp add: count_between_def diff_mult_distrib add_mult_distrib)

definition next_slot :: "nat \<Rightarrow> nat \<Rightarrow> nat" where
  "next_slot S h = (if Suc h < S then Suc h else 0)"

lemma next_slot_less: "0 < S \<Longrightarrow> next_slot S h < S"
  by (simp add: next_slot_def)

lemma next_slot_mult:
  assumes "h < S" "0 < n"
  shows "(if h * n + n \<ge> S * n then h * n + n - S * n else h * n + n) = next_slot S h * n"
proof -
  have "(S * n \<le> h * n + n) = (S \<le> Suc h)"
    using mult_le_cancel2 [of S n "Suc h"] assms(2) by (simp add: add.commute)
  then show ?thesis using assms(1)
    by (auto simp: next_slot_def add.commute not_less dest: le_antisym)
qed

lemma count_between_next_head:
  "\<lbrakk>h < S; t < S; Suc (count_between S h t) < S\<rbrakk> \<Longrightarrow>
   count_between S (next_slot S h) t = Suc (count_between S h t)"
  by (auto simp: count_between_def next_slot_def split: if_splits)

lemma count_between_next_full:
  "\<lbrakk>h < S; t < S; Suc (count_between S h t) = S\<rbrakk> \<Longrightarrow> next_slot S h = t"
  by (auto simp: count_between_def next_slot_def split: if_splits)

lemma count_between_next_tail:
  "\<lbrakk>h < S; t < S; 0 < count_between S h t\<rbrakk> \<Longrightarrow>
   Suc (count_between S h (next_slot S t)) = count_between S h t"
  by (auto simp: count_between_def next_slot_def split: if_splits)

lemma count_between_less: "\<lbrakk>h < S; t < S\<rbrakk> \<Longrightarrow> count_between S h t < S"
  by (auto simp: count_between_def)

lemma count_between_pos: "\<lbrakk>h < S; t < S\<rbrakk> \<Longrightarrow> (t + count_between S h t) mod S = h"
  by (subst mod_add_window) (auto simp: count_between_def)

lemma next_slot_mod:
  assumes "t < S" shows "(next_slot S t + k) mod S = (t + Suc k) mod S"
proof (cases "Suc t < S")
  case False
  then have "t + Suc k = k + S" using assms by simp
  then show ?thesis using False by (simp only: next_slot_def if_False add_0_left mod_add_self2)
qed (simp add: next_slot_def)

locale packet_ring =
  fixes len N :: nat
  assumes len_pos: "0 < len" and len_dvd: "len dvd N" and two_slots: "2 * len \<le> N"
begin

lemma slots:
  assumes "packet_inv len N r"
  obtains h t S where "m_head r = h * len" "m_tail r = t * len" "N = S * len"
    "h < S" "t < S" "length (m_buffer r) = S * len" "1 < S"
    "ring_count r = count_between S h t * len"
proof -
  obtain S where S: "N = S * len" using len_dvd by (auto simp: dvd_def mult.commute)
  obtain h t where ht: "m_head r = h * len" "m_tail r = t * len"
    using assms by (auto simp: packet_inv_def dvd_def mult.commute)
  have lt: "h < S" "t < S" using assms ht S by (auto simp: packet_inv_def ring_wf_def)
  have "1 < S" using two_slots S len_pos by (metis One_nat_def Suc_1 less_eq_Suc_le mult_le_cancel2)
  have "ring_count r = count_between S h t * len"
    using assms ht S lt len_pos by (simp add: packet_inv_def ring_count_def count_between_mult)
  with that S ht lt \<open>1 < S\<close> assms show ?thesis by (auto simp: packet_inv_def)
qed

lemma packets_length [simp]: "length (ring_packets len r) = ring_count r div len"
  by (simp add: ring_packets_def)

lemma packets_nth:
  "k < ring_count r div len \<Longrightarrow>
   ring_packets len r ! k =
     ring_slot len r ((m_tail r div len + k) mod (length (m_buffer r) div len))"
  by (simp add: ring_packets_def)

lemma reset_ok: "packet_inv len N r \<Longrightarrow> packet_inv len N (ring_reset r) \<and> ring_packets len (ring_reset r) = []"
  using two_slots len_pos
  by (auto simp: packet_inv_def ring_reset_def ring_wf_def ring_packets_def ring_count_def count_between_def)

lemma new_ring_ok: "packet_inv len N (new_ring N v) \<and> ring_packets len (new_ring N v) = []"
  using two_slots len_pos
  by (auto simp: packet_inv_def new_ring_def ring_wf_def ring_packets_def ring_count_def count_between_def)

lemma slot_room:
  assumes "h < S" "N = S * len" shows "h * len + len \<le> N"
proof -
  have "Suc h * len \<le> S * len" using assms(1) by (intro mult_le_mono1) simp
  then show ?thesis using assms(2) by simp
qed

lemma poke_ok:
  assumes inv: "packet_inv len N r" and i: "i < len"
  shows "\<exists>r'. ring_poke i v r = Some r' \<and> packet_inv len N r' \<and>
    ring_packets len r' = ring_packets len r \<and> head_slot len r' = (head_slot len r)[i := v]"
proof -
  obtain h t S where s: "m_head r = h * len" "m_tail r = t * len" "N = S * len" "h < S" "t < S"
    "length (m_buffer r) = S * len" "1 < S" "ring_count r = count_between S h t * len"
    by (rule slots [OF inv])
  have room: "h * len + i < N" using slot_room [OF s(4) s(3)] i by simp
  define r' where "r' = r\<lparr>m_buffer := (m_buffer r)[h * len + i := v]\<rparr>"
  have poke: "ring_poke i v r = Some r'" using room s by (simp add: ring_poke_def r'_def)
  have inv': "packet_inv len N r'" using inv by (simp add: packet_inv_def ring_wf_def r'_def)
  have cnt: "ring_count r' = ring_count r" by (simp add: ring_count_def r'_def)
  have other: "ring_slot len r' j = ring_slot len r j" if "j \<noteq> h" for j
  proof -
    have "j < h \<or> h < j" using that by auto
    then have "j * len + len \<le> h * len \<or> h * len + len \<le> j * len"
      by (metis Suc_leI add.commute mult_Suc mult_le_mono1)
    then show ?thesis unfolding ring_slot_def r'_def using i
      by (auto intro!: take_drop_update_outside)
  qed
  have "ring_packets len r' = ring_packets len r"
  proof (rule nth_equalityI)
    fix k assume "k < length (ring_packets len r')"
    then have k: "k < ring_count r div len" by (simp add: cnt)
    then have k': "k < count_between S h t" using s(8) len_pos by simp
    then have "k < S" using count_between_less [OF s(4,5)] by simp
    then have "(t + k) mod S \<noteq> h" using k' s(4,5)
      by (subst mod_add_window) (auto simp: count_between_def split: if_splits)
    then have "(m_tail r div len + k) mod (length (m_buffer r) div len) \<noteq> h"
      using s len_pos by simp
    then show "ring_packets len r' ! k = ring_packets len r ! k"
      using k by (simp add: packets_nth cnt) (simp add: r'_def other [unfolded r'_def])
  qed (simp add: cnt)
  moreover have "head_slot len r' = (head_slot len r)[i := v]"
    using i room s len_pos
    by (simp add: head_slot_def ring_slot_def r'_def take_drop_update_inside)
  ultimately show ?thesis using poke inv' by blast
qed

lemma head_slot_length:
  assumes "packet_inv len N r" shows "length (head_slot len r) = len"
proof -
  obtain h S where "m_head r = h * len" "h < S" "length (m_buffer r) = S * len" "N = S * len"
    using slots [OF assms] by metis
  then show ?thesis using slot_room [of h S] len_pos by (simp add: head_slot_def ring_slot_def)
qed

lemma packets_le:
  assumes "packet_inv len N r" shows "length (ring_packets len r) \<le> N div len - 1"
proof -
  obtain h t S where "h < S" "t < S" "ring_count r = count_between S h t * len" "N = S * len"
    using slots [OF assms] by metis
  then show ?thesis using count_between_less [of h S t] len_pos by simp
qed

lemma advance_room:
  assumes inv: "packet_inv len N r" and room: "length (ring_packets len r) < N div len - 1"
  shows "ring_packets len (advanceHead len r) = ring_packets len r @ [head_slot len r]"
    and "packet_inv len N (advanceHead len r)"
proof -
  obtain h t S where s: "m_head r = h * len" "m_tail r = t * len" "N = S * len" "h < S" "t < S"
    "length (m_buffer r) = S * len" "1 < S" "ring_count r = count_between S h t * len"
    by (rule slots [OF inv])
  have c: "Suc (count_between S h t) < S" using s(3,8) room len_pos by simp
  note c' = count_between_next_head [OF s(4,5) c]
  have grown: "count_between (S * len) (next_slot S h * len) (t * len) = Suc (count_between S h t) * len"
    using s(5) len_pos by (simp add: count_between_mult c')
  have adv: "advanceHead len r = r\<lparr>m_head := next_slot S h * len\<rparr>"
    unfolding advanceHead_def Let_def s(1,2,6,8) next_slot_mult [OF s(4) len_pos] grown by simp
  have cnt: "ring_count (advanceHead len r) = Suc (count_between S h t) * len"
    unfolding adv ring_count_def using grown s(2,6) by simp
  show "packet_inv len N (advanceHead len r)"
    using inv s(3,6,7) len_pos next_slot_less [of S h] by (simp add: adv packet_inv_def ring_wf_def)
  have "ring_packets len (advanceHead len r) =
    map (\<lambda>k. ring_slot len r ((t + k) mod S)) [0..<Suc (count_between S h t)]"
    unfolding ring_packets_def cnt using len_pos s(2,6) by (simp add: adv ring_slot_def)
  moreover have "ring_packets len r = map (\<lambda>k. ring_slot len r ((t + k) mod S)) [0..<count_between S h t]"
    unfolding ring_packets_def using len_pos s(2,6,8) by simp
  moreover have "head_slot len r = ring_slot len r ((t + count_between S h t) mod S)"
    using s(1) len_pos by (simp add: head_slot_def count_between_pos [OF s(4,5)])
  ultimately show "ring_packets len (advanceHead len r) = ring_packets len r @ [head_slot len r]"
    by simp
qed

lemma advance_full:
  assumes inv: "packet_inv len N r" and full: "length (ring_packets len r) = N div len - 1"
  shows "advanceHead len r = r"
proof -
  obtain h t S where s: "m_head r = h * len" "m_tail r = t * len" "N = S * len" "h < S" "t < S"
    "length (m_buffer r) = S * len" "1 < S" "ring_count r = count_between S h t * len"
    by (rule slots [OF inv])
  have c: "Suc (count_between S h t) = S" using s(3,7,8) full len_pos by simp
  have "count_between (S * len) (next_slot S h * len) (t * len) = 0"
    by (simp add: count_between_next_full [OF s(4,5) c] count_between_def)
  moreover have "0 < ring_count r" using c s(7,8) len_pos by (cases "count_between S h t") auto
  ultimately show ?thesis
    unfolding advanceHead_def Let_def s(1,2,6) next_slot_mult [OF s(4) len_pos] by simp
qed

lemma advance_inv: "packet_inv len N r \<Longrightarrow> packet_inv len N (advanceHead len r)"
  using advance_room(2) [of r] advance_full [of r] packets_le [of r]
  by (cases "length (ring_packets len r) < N div len - 1") auto

lemma packets_member_length:
  assumes inv: "packet_inv len N r" and mem: "p \<in> set (ring_packets len r)"
  shows "length p = len"
proof -
  obtain h t S where s: "m_tail r = t * len" "N = S * len" "length (m_buffer r) = S * len" "1 < S"
    using slots [OF inv] by metis
  obtain k where p: "p = ring_slot len r ((t + k) mod S)"
    using mem s len_pos by (auto simp: ring_packets_def)
  have "(t + k) mod S < S" using s(4) by simp
  from slot_room [OF this s(2)] show ?thesis using s(2,3) by (simp add: p ring_slot_def)
qed

lemma count_packets:
  assumes "packet_inv len N r" shows "(len \<le> ring_count r) = (ring_packets len r \<noteq> [])"
proof -
  obtain c where "ring_count r = c * len" using slots [OF assms] by metis
  then show ?thesis using len_pos packets_length [of r] by (cases c) (auto simp flip: length_0_conv)
qed

lemma front_discard:
  assumes inv: "packet_inv len N r" and ne: "ring_packets len r \<noteq> []"
  shows "ring_peek len r = Some (hd (ring_packets len r))"
    and "ring_packets len (advanceTail len r) = tl (ring_packets len r)"
    and "packet_inv len N (advanceTail len r)"
proof -
  obtain h t S where s: "m_head r = h * len" "m_tail r = t * len" "N = S * len" "h < S" "t < S"
    "length (m_buffer r) = S * len" "1 < S" "ring_count r = count_between S h t * len"
    by (rule slots [OF inv])
  have pos: "0 < count_between S h t" using ne s(8) by (cases "count_between S h t") (auto simp: ring_packets_def)
  define c where "c = count_between S h (next_slot S t)"
  have c: "count_between S h t = Suc c" using count_between_next_tail [OF s(4,5) pos] by (simp add: c_def)
  have upt: "[0..<Suc c] = 0 # map Suc [0..<c]" by (simp add: map_Suc_upt upt_conv_Cons)
  have shape: "ring_packets len r = map (\<lambda>k. ring_slot len r ((t + k) mod S)) (0 # map Suc [0..<c])"
    unfolding ring_packets_def s(8) c upt [symmetric] using s(2,6) len_pos by simp
  show "ring_peek len r = Some (hd (ring_packets len r))"
    using slot_room [OF s(5) s(3)] s(2,3,5,6) by (simp add: shape ring_peek_def ring_slot_def)
  have adv: "advanceTail len r = r\<lparr>m_tail := next_slot S t * len\<rparr>"
    unfolding advanceTail_def Let_def s(2,6) next_slot_mult [OF s(5) len_pos] by simp
  have cnt: "ring_count (advanceTail len r) = c * len"
    using s(1,6,7) next_slot_less [of S t] len_pos
    by (simp add: adv ring_count_def count_between_mult c_def)
  have "ring_packets len (advanceTail len r) = map (\<lambda>k. ring_slot len r ((next_slot S t + k) mod S)) [0..<c]"
    unfolding ring_packets_def cnt using s(6) len_pos by (simp add: adv ring_slot_def)
  then show "ring_packets len (advanceTail len r) = tl (ring_packets len r)"
    by (simp add: shape next_slot_mod [OF s(5)])
  show "packet_inv len N (advanceTail len r)"
    using inv s(3,6,7) len_pos next_slot_less [of S t] by (simp add: adv packet_inv_def ring_wf_def)
qed

lemma poke_list:
  assumes "packet_inv len N r" "i + length bs \<le> len"
  shows "\<exists>r'. fold_opt (\<lambda>(i, b). ring_poke i b) (List.enumerate i bs) r = Some r' \<and> packet_inv len N r' \<and>
    ring_packets len r' = ring_packets len r \<and>
    head_slot len r' = take i (head_slot len r) @ bs @ drop (i + length bs) (head_slot len r)"
  using assms
proof (induction bs arbitrary: i r)
  case (Cons b bs)
  obtain r1 where r1: "ring_poke i b r = Some r1" "packet_inv len N r1" "ring_packets len r1 = ring_packets len r"
    "head_slot len r1 = (head_slot len r)[i := b]"
    using poke_ok [OF Cons.prems(1), of i b] Cons.prems(2) by auto
  obtain r' where "fold_opt (\<lambda>(i, b). ring_poke i b) (List.enumerate (Suc i) bs) r1 = Some r'" "packet_inv len N r'"
    "ring_packets len r' = ring_packets len r1"
    "head_slot len r' = take (Suc i) (head_slot len r1) @ bs @ drop (Suc i + length bs) (head_slot len r1)"
    using Cons.IH [OF r1(2), of "Suc i"] Cons.prems(2) by auto
  then show ?case using r1 Cons.prems(2) head_slot_length [OF Cons.prems(1)]
    by (simp add: take_Suc_conv_app_nth drop_update_cancel)
qed simp

lemma advance_take:
  assumes "packet_inv len N r"
  shows "ring_packets len (advanceHead len r) = take (N div len - 1) (ring_packets len r @ [head_slot len r])"
  using advance_room(1) [OF assms] advance_full [OF assms] packets_le [OF assms]
  by (cases "length (ring_packets len r) < N div len - 1") auto

end

text \<open>The capacity in packets is one less than the number of slots.\<close>

sublocale packet_ring \<subseteq> packet_queue
  ring_poke "advanceHead len" "ring_peek len" "advanceTail len" ring_count
  "packet_inv len N" "ring_packets len" "head_slot len" len "N div len - 1"
proof unfold_locales
  show "packet_inv len N q \<Longrightarrow> i < len \<Longrightarrow> \<exists>q'. ring_poke i v q = Some q' \<and> packet_inv len N q' \<and>
    ring_packets len q' = ring_packets len q \<and> head_slot len q' = (head_slot len q)[i := v]" for q i v
    by (rule poke_ok)
  show "packet_inv len N q \<Longrightarrow> ring_packets len q \<noteq> [] \<Longrightarrow>
    ring_packets len (advanceTail len q) = tl (ring_packets len q) \<and>
    packet_inv len N (advanceTail len q)" for q
    using front_discard(2,3) by blast
qed (fact head_slot_length packets_le advance_room(1) advance_full advance_inv front_discard(1) count_packets)+

end
