(* ===== verification/FocalTech_Packet.thy ===== *)
theory FocalTech_Packet
  imports Ring_Buffer PS2_Defs
begin

text \<open>
  The input path of the FocalTech touchpad driver (\<^verbatim>\<open>ApplePS2FocalTech\<close>, the fragments
  \<^verbatim>\<open>part03\<close> to \<^verbatim>\<open>part05\<close>): bytes become packets at interrupt time, the work loop decodes them into
  finger positions, and each packet is turned into one multitouch event and, on change, one
  button report. A hold of two seconds becomes a force click.

  Raw coordinates are \<^verbatim>\<open>SInt32\<close> and modelled as integers; each packet moves them by less than
  \<open>2 ^ 16\<close>. What the driver sends to \<^verbatim>\<open>VoodooInput\<close> is recorded in \<open>sent\<close>, time stamps excepted. The
  number of transducers of a \<^verbatim>\<open>VoodooInputEvent\<close> is the length of the list \<open>transducers\<close>.
\<close>

section \<open>State\<close>

definition FOC_PACKET_LENGTH :: nat where [simp]: "FOC_PACKET_LENGTH = 6"
definition FOC_MAX_FINGERS :: nat where [simp]: "FOC_MAX_FINGERS = 5"
definition FOC_TOUCH :: u8 where [simp]: "FOC_TOUCH = 0x3"
definition FOC_ABS :: u8 where [simp]: "FOC_ABS = 0x6"
definition FOC_REL :: u8 where [simp]: "FOC_REL = 0x9"
definition kForceMoveCancel :: int where [simp]: "kForceMoveCancel = 100"

record FocalTechFingerState =
  f_active :: bool
  f_valid :: bool
  f_x :: int
  f_y :: int

record TouchCoordinates =
  tc_x :: nat
  tc_y :: nat
  tc_pressure :: nat
  tc_width :: nat

record FocalTechVirtualFinger =
  v_previous :: TouchCoordinates
  v_current :: TouchCoordinates
  v_touching :: bool

datatype MT2FingerType =
    kMT2FingerTypeIndexFinger | kMT2FingerTypeMiddleFinger | kMT2FingerTypeRingFinger
  | kMT2FingerTypeThumb | kMT2FingerTypeLittleFinger

record VoodooInputTransducer =
  currentCoordinates :: TouchCoordinates
  previousCoordinates :: TouchCoordinates
  isValid :: bool
  isPhysicalButtonDown :: bool
  isTransducerActive :: bool
  supportsPressure :: bool
  secondaryId :: nat
  fingerType :: MT2FingerType

record VoodooInputEvent =
  transducers :: "VoodooInputTransducer list"
  contact_count :: nat

datatype message = VoodooInputMessage VoodooInputEvent | TrackpointMessage u32

record focaltech =
  ringBuffer :: "u8 ring"
  packetByteCount :: nat
  irqByteCount :: u64
  packetCount :: u64
  validPacketCount :: u64
  invalidPacketCount :: u64
  xMax :: nat
  yMax :: nat
  fingers :: "FocalTechFingerState list"
  hw_width :: nat
  pressed :: bool
  finger :: "FocalTechVirtualFinger list"
  inputEvent :: VoodooInputEvent
  leftButton :: u32
  rightButton :: u32
  lastButtons :: u32
  clickWasPressed :: bool
  clickRight :: bool
  forceEligible :: bool
  forceActive :: bool
  forceFinger :: int
  forceStartX :: int
  forceStartY :: int
  forceTimer :: bool
  timerArmed :: bool
  voodooInput :: bool
  sent :: "message list"

section \<open>Receiving bytes\<close>

definition foc_interruptOccurred :: "u8 \<Rightarrow> focaltech \<Rightarrow> (PS2InterruptResult \<times> focaltech) option" where
  "foc_interruptOccurred data s = do {
     let s = s\<lparr>irqByteCount := irqByteCount s + 1\<rparr>;
     r \<leftarrow> ring_poke (packetByteCount s) data (ringBuffer s);
     let s = s\<lparr>ringBuffer := r, packetByteCount := packetByteCount s + 1\<rparr>;
     if packetByteCount s = FOC_PACKET_LENGTH
     then Some (kPS2IR_packetReady,
       s\<lparr>ringBuffer := advanceHead FOC_PACKET_LENGTH (ringBuffer s), packetByteCount := 0\<rparr>)
     else Some (kPS2IR_packetBuffering, s)
   }"

section \<open>Decoding packets\<close>

definition processTouchPacket :: "u8 list \<Rightarrow> focaltech \<Rightarrow> focaltech" where
  "processTouchPacket packet s =
     s\<lparr>pressed := (drop_bit 4 (packet ! 0) AND 1 \<noteq> 0),
       fingers := map (\<lambda>(i, f). let active = (packet ! 1 AND push_bit i 1 \<noteq> 0)
           in f\<lparr>f_active := active, f_valid := (if \<not> active then False else f_valid f)\<rparr>)
         (enumerate 0 (fingers s))\<rparr>"

definition processAbsolutePacket :: "u8 list \<Rightarrow> focaltech \<Rightarrow> focaltech" where
  "processAbsolutePacket packet s =
     (let ident = int (unat (drop_bit 4 (packet ! 1))) - 1
      in if ident < 0 \<or> ident \<ge> int FOC_MAX_FINGERS then s
         else let i = nat ident; f = fingers s ! i in
           s\<lparr>pressed := (drop_bit 4 (packet ! 0) AND 1 \<noteq> 0),
             fingers := (fingers s)[i := f\<lparr>
               f_x := int (unat (packet ! 1 AND 0x0f) * 256 + unat (packet ! 2)),
               f_y := int (unat (packet ! 3) * 256 + unat (packet ! 4)),
               f_valid := True\<rparr>],
             hw_width := unat (drop_bit 4 (packet ! 5))\<rparr>)"

definition moveFinger :: "int \<Rightarrow> u8 \<Rightarrow> u8 \<Rightarrow> FocalTechFingerState list \<Rightarrow> FocalTechFingerState list" where
  "moveFinger ident dx dy fs =
     (if ident \<ge> 0 \<and> ident < int FOC_MAX_FINGERS
      then let i = nat ident; f = fs ! i in fs[i := f\<lparr>f_x := f_x f + sint dx, f_y := f_y f + sint dy\<rparr>]
      else fs)"

definition processRelativePacket :: "u8 list \<Rightarrow> focaltech \<Rightarrow> focaltech" where
  "processRelativePacket packet s =
     (let first = int (unat (drop_bit 4 (packet ! 0) AND 0x7)) - 1;
          second = int (unat (drop_bit 4 (packet ! 3) AND 0x7)) - 1
      in s\<lparr>pressed := (drop_bit 7 (packet ! 0) \<noteq> 0),
           fingers := moveFinger second (packet ! 4) (packet ! 5)
             (moveFinger first (packet ! 1) (packet ! 2) (fingers s))\<rparr>)"

section \<open>Reporting\<close>

definition clampCoord :: "int \<Rightarrow> nat \<Rightarrow> nat" where
  "clampCoord x m = (let x = (if x < 0 then 0 else x); x = (if x > int m then int m else x) in nat x)"

text \<open>The click search: (found, clickX, clickY, clickFinger) after the fingers from index \<open>i\<close> on.\<close>

fun clickSearch ::
  "nat \<Rightarrow> nat \<Rightarrow> nat \<Rightarrow> FocalTechFingerState list \<Rightarrow> bool \<times> nat \<times> nat \<times> int \<Rightarrow> bool \<times> nat \<times> nat \<times> int" where
  "clickSearch xm ym i [] acc = acc"
| "clickSearch xm ym i (raw # rest) (found, clickX, clickY, clickFinger) =
     (if \<not> f_active raw \<or> \<not> f_valid raw then clickSearch xm ym (Suc i) rest (found, clickX, clickY, clickFinger)
      else let vx = clampCoord (f_x raw) xm; vy = ym - clampCoord (f_y raw) ym
        in if \<not> found \<or> vy > clickY then clickSearch xm ym (Suc i) rest (True, vx, vy, int i)
           else clickSearch xm ym (Suc i) rest (found, clickX, clickY, clickFinger))"

definition cancelTimeout :: "focaltech \<Rightarrow> focaltech" where
  "cancelTimeout s = (if forceTimer s then s\<lparr>timerArmed := False\<rparr> else s)"

definition clickStep :: "focaltech \<Rightarrow> focaltech" where
  "clickStep s =
     (if pressed s \<and> \<not> clickWasPressed s
      then let (found, clickX, clickY, clickFinger) =
                 clickSearch (xMax s) (yMax s) 0 (fingers s) (False, 0, 0, -1);
               s = s\<lparr>clickRight := (found \<and> clickY \<ge> yMax s * 70 div 100 \<and> clickX \<ge> xMax s div 2),
                     forceEligible := False, forceActive := False, forceFinger := -1\<rparr>;
               s = cancelTimeout s;
               s = (if \<not> clickRight s \<and> clickFinger \<ge> 0 \<and> forceTimer s
                    then let raw = fingers s ! nat clickFinger
                      in s\<lparr>forceFinger := clickFinger, forceStartX := f_x raw, forceStartY := f_y raw,
                           forceEligible := True, timerArmed := True\<rparr>
                    else s)
           in s\<lparr>clickWasPressed := True\<rparr>
      else if \<not> pressed s
      then (cancelTimeout s)\<lparr>forceEligible := False, forceActive := False, forceFinger := -1,
             clickWasPressed := False, clickRight := False\<rparr>
      else s)"

definition movedTooFar :: "FocalTechFingerState \<Rightarrow> focaltech \<Rightarrow> bool" where
  "movedTooFar raw s \<longleftrightarrow>
     \<bar>f_x raw - forceStartX s\<bar> > kForceMoveCancel \<or> \<bar>f_y raw - forceStartY s\<bar> > kForceMoveCancel"

definition forceCheck :: "focaltech \<Rightarrow> focaltech" where
  "forceCheck s =
     (if forceEligible s \<and> \<not> forceActive s \<and> pressed s \<and> forceFinger s \<ge> 0 \<and>
         forceFinger s < int FOC_MAX_FINGERS
      then let raw = fingers s ! nat (forceFinger s)
        in if \<not> f_active raw \<or> \<not> f_valid raw then cancelTimeout (s\<lparr>forceEligible := False\<rparr>)
           else if movedTooFar raw s then cancelTimeout (s\<lparr>forceEligible := False\<rparr>)
           else s
      else s)"

definition trackFinger ::
  "nat \<Rightarrow> nat \<Rightarrow> nat \<Rightarrow> FocalTechFingerState \<Rightarrow> FocalTechVirtualFinger \<Rightarrow> FocalTechVirtualFinger" where
  "trackFinger xm ym w raw v =
     (if \<not> f_active raw \<or> \<not> f_valid raw then v\<lparr>v_touching := False\<rparr>
      else let current = \<lparr>tc_x = clampCoord (f_x raw) xm, tc_y = ym - clampCoord (f_y raw) ym,
                 tc_pressure = 0, tc_width = w mod 256\<rparr>
        in v\<lparr>v_previous := (if v_touching v then v_current v else current),
             v_current := current, v_touching := True\<rparr>)"

fun fingerTypeForIndex :: "nat \<Rightarrow> MT2FingerType" where
  "fingerTypeForIndex 0 = kMT2FingerTypeIndexFinger"
| "fingerTypeForIndex (Suc 0) = kMT2FingerTypeMiddleFinger"
| "fingerTypeForIndex (Suc (Suc 0)) = kMT2FingerTypeRingFinger"
| "fingerTypeForIndex (Suc (Suc (Suc 0))) = kMT2FingerTypeThumb"
| "fingerTypeForIndex (Suc (Suc (Suc (Suc 0)))) = kMT2FingerTypeLittleFinger"
| "fingerTypeForIndex _ = kMT2FingerTypeIndexFinger"

definition sendButtons :: "u32 \<Rightarrow> focaltech \<Rightarrow> focaltech" where
  "sendButtons buttons s = (if voodooInput s then s\<lparr>sent := sent s @ [TrackpointMessage buttons]\<rparr> else s)"

text \<open>
  Filling the transducers: \<open>i\<close> is the finger, \<open>count\<close> the next transducer. Writing behind the last
  transducer of the event is \<open>None\<close>.
\<close>

fun fillTransducers ::
  "bool \<Rightarrow> int \<Rightarrow> nat \<Rightarrow> nat \<Rightarrow> FocalTechVirtualFinger list \<Rightarrow> VoodooInputTransducer list \<Rightarrow>
   (nat \<times> VoodooInputTransducer list) option" where
  "fillTransducers force ff i count [] ts = Some (count, ts)"
| "fillTransducers force ff i count (v # vs) ts =
     (if \<not> v_touching v then fillTransducers force ff (Suc i) count vs ts
      else if count < length ts
      then let t = (ts ! count)\<lparr>currentCoordinates := v_current v, previousCoordinates := v_previous v,
                 isValid := True, isPhysicalButtonDown := False, isTransducerActive := True,
                 supportsPressure := False, secondaryId := i, fingerType := fingerTypeForIndex count\<rparr>;
               t = (if force \<and> int i = ff
                    then t\<lparr>supportsPressure := True,
                           currentCoordinates := (v_current v)\<lparr>tc_pressure := 255, tc_width := 10\<rparr>\<rparr>
                    else t)
        in fillTransducers force ff (Suc i) (Suc count) vs (ts[count := t])
      else None)"

text \<open>The thumb search: (maxY, newThumb, oldThumb) after the transducers from index \<open>i\<close> on.\<close>

fun thumbSearch :: "nat \<Rightarrow> VoodooInputTransducer list \<Rightarrow> nat \<times> nat \<times> nat \<Rightarrow> nat \<times> nat \<times> nat" where
  "thumbSearch i [] acc = acc"
| "thumbSearch i (t # ts) (maxY, newThumb, oldThumb) =
     thumbSearch (Suc i) ts
       (if tc_y (currentCoordinates t) > maxY then tc_y (currentCoordinates t) else maxY,
        if tc_y (currentCoordinates t) > maxY then i else newThumb,
        if fingerType t = kMT2FingerTypeThumb then i else oldThumb)"

definition assignThumb :: "nat \<Rightarrow> VoodooInputTransducer list \<Rightarrow> VoodooInputTransducer list" where
  "assignThumb count ts =
     (if count \<ge> 4
      then let (_, newThumb, oldThumb) = thumbSearch 0 (take count ts) (0, 0, 0);
               ts = ts[oldThumb := (ts ! oldThumb)\<lparr>fingerType := fingerType (ts ! newThumb)\<rparr>]
        in ts[newThumb := (ts ! newThumb)\<lparr>fingerType := kMT2FingerTypeThumb\<rparr>]
      else ts)"

definition clearTransducers :: "nat \<Rightarrow> VoodooInputTransducer list \<Rightarrow> VoodooInputTransducer list" where
  "clearTransducers count ts =
     take count ts @ map (\<lambda>t. t\<lparr>isValid := False, isPhysicalButtonDown := False,
       isTransducerActive := False, supportsPressure := False\<rparr>) (drop count ts)"

definition sendTouchData :: "focaltech \<Rightarrow> focaltech option" where
  "sendTouchData s = do {
     (count, ts) \<leftarrow> fillTransducers (forceActive s) (forceFinger s) 0 0 (finger s) (transducers (inputEvent s));
     let ts = clearTransducers count (assignThumb count ts);
     let ev = \<lparr>transducers = ts, contact_count = count mod 256\<rparr>;
     let s = s\<lparr>inputEvent := ev\<rparr>;
     let s = (if voodooInput s then s\<lparr>sent := sent s @ [VoodooInputMessage ev]\<rparr> else s);
     let currentButtons = (if forceActive s then rightButton s else leftButton s OR rightButton s);
     Some (if currentButtons \<noteq> lastButtons s
           then (sendButtons currentButtons s)\<lparr>lastButtons := currentButtons\<rparr> else s)
   }"

definition reportState :: "focaltech \<Rightarrow> focaltech option" where
  "reportState s =
     (let s = clickStep s;
          s = forceCheck s;
          buttonMask = (if pressed s then (if clickRight s then 0x02 else 0x01) else 0) :: u32;
          s = s\<lparr>finger := map2 (trackFinger (xMax s) (yMax s) (hw_width s)) (fingers s) (finger s),
                leftButton := buttonMask AND 0x01, rightButton := buttonMask AND 0x02\<rparr>
      in sendTouchData s)"

definition processPacket :: "u8 list \<Rightarrow> focaltech \<Rightarrow> (bool \<times> focaltech) option" where
  "processPacket packet s =
     (let kind = packet ! 0 AND 0x0f in
      if kind = FOC_TOUCH then map_option (Pair True) (reportState (processTouchPacket packet s))
      else if kind = FOC_ABS then map_option (Pair True) (reportState (processAbsolutePacket packet s))
      else if kind = FOC_REL then map_option (Pair True) (reportState (processRelativePacket packet s))
      else Some (False, s))"

text \<open>One iteration of the work loop, then the loop.\<close>

definition packetStep :: "u8 list \<Rightarrow> focaltech \<Rightarrow> focaltech option" where
  "packetStep packet s = do {
     let s = s\<lparr>packetCount := packetCount s + 1\<rparr>;
     (valid, s) \<leftarrow> processPacket packet s;
     let s = (if valid then s\<lparr>validPacketCount := validPacketCount s + 1\<rparr>
              else s\<lparr>invalidPacketCount := invalidPacketCount s + 1\<rparr>);
     Some (s\<lparr>ringBuffer := advanceTail FOC_PACKET_LENGTH (ringBuffer s)\<rparr>)
   }"

fun foc_packetReady :: "nat \<Rightarrow> focaltech \<Rightarrow> focaltech option" where
  "foc_packetReady 0 s = None"
| "foc_packetReady (Suc n) s =
     (if ring_count (ringBuffer s) \<ge> FOC_PACKET_LENGTH then do {
        packet \<leftarrow> ring_peek FOC_PACKET_LENGTH (ringBuffer s);
        s \<leftarrow> packetStep packet s;
        foc_packetReady n s
      } else Some s)"

definition forceTimerFired :: "focaltech \<Rightarrow> focaltech option" where
  "forceTimerFired s =
     (let s = s\<lparr>timerArmed := False\<rparr> in
      if \<not> forceEligible s \<or> forceActive s \<or> \<not> pressed s \<or> clickRight s \<or> forceFinger s < 0 \<or>
         forceFinger s \<ge> int FOC_MAX_FINGERS then Some s
      else let raw = fingers s ! nat (forceFinger s) in
        if \<not> f_active raw \<or> \<not> f_valid raw then Some (s\<lparr>forceEligible := False\<rparr>)
        else if movedTooFar raw s then Some (s\<lparr>forceEligible := False\<rparr>)
        else let s = s\<lparr>forceEligible := False, forceActive := True\<rparr>;
                 s = (if lastButtons s AND 0x01 \<noteq> 0 then (sendButtons 0 s)\<lparr>lastButtons := 0\<rparr> else s)
          in sendTouchData s)"

section \<open>Initial state\<close>

definition no_coords :: TouchCoordinates where
  "no_coords = \<lparr>tc_x = 0, tc_y = 0, tc_pressure = 0, tc_width = 0\<rparr>"

definition no_transducer :: VoodooInputTransducer where
  "no_transducer = \<lparr>currentCoordinates = no_coords, previousCoordinates = no_coords, isValid = False,
     isPhysicalButtonDown = False, isTransducerActive = False, supportsPressure = False,
     secondaryId = 0, fingerType = kMT2FingerTypeIndexFinger\<rparr>"

text \<open>What \<^verbatim>\<open>setupHardware\<close> clears before it talks to the device.\<close>

definition clearState :: "focaltech \<Rightarrow> focaltech" where
  "clearState s = cancelTimeout (s\<lparr>
     fingers := replicate FOC_MAX_FINGERS \<lparr>f_active = False, f_valid = False, f_x = 0, f_y = 0\<rparr>,
     hw_width := 0, pressed := False,
     finger := replicate FOC_MAX_FINGERS \<lparr>v_previous = no_coords, v_current = no_coords, v_touching = False\<rparr>,
     packetByteCount := 0, ringBuffer := ring_reset (ringBuffer s),
     irqByteCount := 0, packetCount := 0, validPacketCount := 0, invalidPacketCount := 0,
     leftButton := 0, rightButton := 0, lastButtons := 0, clickWasPressed := False, clickRight := False,
     forceEligible := False, forceActive := False, forceFinger := -1\<rparr>)"

definition new_focaltech :: "nat \<Rightarrow> focaltech" where
  "new_focaltech n = \<lparr>ringBuffer = new_ring (FOC_PACKET_LENGTH * 32) 0, packetByteCount = 0,
     irqByteCount = 0, packetCount = 0, validPacketCount = 0, invalidPacketCount = 0,
     xMax = 0, yMax = 0,
     fingers = replicate FOC_MAX_FINGERS \<lparr>f_active = False, f_valid = False, f_x = 0, f_y = 0\<rparr>,
     hw_width = 0, pressed = False,
     finger = replicate FOC_MAX_FINGERS \<lparr>v_previous = no_coords, v_current = no_coords, v_touching = False\<rparr>,
     inputEvent = \<lparr>transducers = replicate n no_transducer, contact_count = 0\<rparr>,
     leftButton = 0, rightButton = 0, lastButtons = 0, clickWasPressed = False, clickRight = False,
     forceEligible = False, forceActive = False, forceFinger = -1, forceStartX = 0, forceStartY = 0,
     forceTimer = False, timerArmed = False, voodooInput = False, sent = []\<rparr>"

section \<open>Framing\<close>

interpretation foc_ring: packet_ring 6 192
  by unfold_locales auto

definition is_ready :: "PS2InterruptResult \<times> 'a \<Rightarrow> bool \<times> 'a" where
  "is_ready = (\<lambda>(r, s). (r = kPS2IR_packetReady, s))"

interpretation foc_rx: packet_producer ring_poke "advanceHead 6" "ring_peek 6" "advanceTail 6" ring_count
  "packet_inv 6 192" "ring_packets 6" "head_slot 6" 6 "192 div 6 - 1"
  ringBuffer packetByteCount "\<lambda>b s. map_option is_ready (foc_interruptOccurred b s)"
  by unfold_locales (auto simp: foc_interruptOccurred_def Let_def is_ready_def)

section \<open>Invariant\<close>

definition coords_ok :: "nat \<Rightarrow> nat \<Rightarrow> TouchCoordinates \<Rightarrow> bool" where
  "coords_ok xm ym c \<longleftrightarrow> tc_x c \<le> xm \<and> tc_y c \<le> ym"

text \<open>A well-formed event: the contacts come first, valid and within the pad; the rest is off.\<close>

definition event_ok :: "nat \<Rightarrow> nat \<Rightarrow> VoodooInputEvent \<Rightarrow> bool" where
  "event_ok xm ym ev \<longleftrightarrow> contact_count ev \<le> FOC_MAX_FINGERS \<and> contact_count ev \<le> length (transducers ev) \<and>
     (\<forall>t \<in> set (take (contact_count ev) (transducers ev)). isValid t \<and> isTransducerActive t \<and>
        coords_ok xm ym (currentCoordinates t) \<and> coords_ok xm ym (previousCoordinates t)) \<and>
     (\<forall>t \<in> set (drop (contact_count ev) (transducers ev)). \<not> isValid t \<and> \<not> isTransducerActive t)"

definition messages_ok :: "nat \<Rightarrow> nat \<Rightarrow> message list \<Rightarrow> bool" where
  "messages_ok xm ym ms \<longleftrightarrow> (\<forall>ev. VoodooInputMessage ev \<in> set ms \<longrightarrow> event_ok xm ym ev)"

definition button_log :: "message list \<Rightarrow> u32 list" where
  "button_log ms = concat (map (\<lambda>m. case m of TrackpointMessage b \<Rightarrow> [b] | VoodooInputMessage _ \<Rightarrow> []) ms)"

lemma button_log_append [simp]: "button_log (xs @ ys) = button_log xs @ button_log ys"
  by (simp add: button_log_def)

lemma button_log_simps [simp]:
  "button_log [] = []" "button_log [TrackpointMessage b] = [b]" "button_log [VoodooInputMessage ev] = []"
  by (simp_all add: button_log_def)

text \<open>The reports alternate: no button state is reported twice in a row, starting from none.\<close>

definition buttons_ok :: "focaltech \<Rightarrow> bool" where
  "buttons_ok s \<longleftrightarrow> voodooInput s \<longrightarrow>
     distinct_adj (0 # button_log (sent s)) \<and> last (0 # button_log (sent s)) = lastButtons s"

text \<open>The arrays, the fingers and the messages sent.\<close>

definition foc_data_inv :: "focaltech \<Rightarrow> bool" where
  "foc_data_inv s \<longleftrightarrow> length (fingers s) = FOC_MAX_FINGERS \<and> length (finger s) = FOC_MAX_FINGERS \<and>
     FOC_MAX_FINGERS \<le> length (transducers (inputEvent s)) \<and>
     (\<forall>v \<in> set (finger s). v_touching v \<longrightarrow>
        coords_ok (xMax s) (yMax s) (v_current v) \<and> coords_ok (xMax s) (yMax s) (v_previous v)) \<and>
     messages_ok (xMax s) (yMax s) (sent s) \<and> buttons_ok s"

text \<open>The force click: eligible or active only during a left click by a known finger, never both.\<close>

definition force_pending :: "focaltech \<Rightarrow> bool" where
  "force_pending s \<longleftrightarrow> clickWasPressed s \<and> \<not> clickRight s \<and> 0 \<le> forceFinger s \<and> forceFinger s < int FOC_MAX_FINGERS"

definition force_weak :: "focaltech \<Rightarrow> bool" where
  "force_weak s \<longleftrightarrow> (forceEligible s \<or> forceActive s \<longrightarrow> force_pending s) \<and> \<not> (forceEligible s \<and> forceActive s)"

definition force_inv :: "focaltech \<Rightarrow> bool" where
  "force_inv s \<longleftrightarrow> force_weak s \<and> (clickWasPressed s = pressed s) \<and>
     (forceActive s \<longrightarrow> lastButtons s AND 1 = 0) \<and>
     (\<not> clickRight s \<longrightarrow> rightButton s = 0)"

definition foc_inv :: "focaltech \<Rightarrow> bool" where
  "foc_inv s \<longleftrightarrow> foc_data_inv s \<and> force_inv s \<and> packet_inv 6 192 (ringBuffer s) \<and> packetByteCount s < 6"

section \<open>The event that is sent\<close>

lemma clampCoord_le: "clampCoord x m \<le> m"
  by (simp add: clampCoord_def Let_def nat_le_iff)

lemma trackFinger_ok:
  assumes "v_touching v \<longrightarrow> coords_ok xm ym (v_current v) \<and> coords_ok xm ym (v_previous v)"
  shows "v_touching (trackFinger xm ym w raw v) \<longrightarrow>
    coords_ok xm ym (v_current (trackFinger xm ym w raw v)) \<and> coords_ok xm ym (v_previous (trackFinger xm ym w raw v))"
  using assms clampCoord_le by (auto simp: trackFinger_def Let_def coords_ok_def)

definition touching :: "FocalTechVirtualFinger list \<Rightarrow> nat" where
  "touching vs = length (filter v_touching vs)"

definition contact_ok :: "nat \<Rightarrow> nat \<Rightarrow> VoodooInputTransducer \<Rightarrow> bool" where
  "contact_ok xm ym t \<longleftrightarrow> isValid t \<and> isTransducerActive t \<and>
     coords_ok xm ym (currentCoordinates t) \<and> coords_ok xm ym (previousCoordinates t)"

lemma fillTransducers_ok:
  assumes "\<forall>v \<in> set vs. v_touching v \<longrightarrow> coords_ok xm ym (v_current v) \<and> coords_ok xm ym (v_previous v)"
    and "count + touching vs \<le> length ts" and "\<forall>t \<in> set (take count ts). contact_ok xm ym t"
    and "\<forall>k < count. fingerType (ts ! k) = fingerTypeForIndex k"
  shows "\<exists>ts'. fillTransducers force ff i count vs ts = Some (count + touching vs, ts') \<and>
    length ts' = length ts \<and> (\<forall>t \<in> set (take (count + touching vs) ts'). contact_ok xm ym t) \<and>
    (\<forall>k < count + touching vs. fingerType (ts' ! k) = fingerTypeForIndex k)"
  using assms
proof (induction vs arbitrary: i count ts)
  case (Cons v vs)
  show ?case
  proof (cases "v_touching v")
    case False
    then show ?thesis using Cons by (simp add: touching_def)
  next
    case True
    define t where "t = (let t = (ts ! count)\<lparr>currentCoordinates := v_current v, previousCoordinates := v_previous v,
                 isValid := True, isPhysicalButtonDown := False, isTransducerActive := True,
                 supportsPressure := False, secondaryId := i, fingerType := fingerTypeForIndex count\<rparr>
      in if force \<and> int i = ff
                    then t\<lparr>supportsPressure := True,
                           currentCoordinates := (v_current v)\<lparr>tc_pressure := 255, tc_width := 10\<rparr>\<rparr>
                    else t)"
    have c: "count < length ts" using Cons.prems(2) True by (simp add: touching_def)
    have t: "contact_ok xm ym t" "fingerType t = fingerTypeForIndex count"
      using Cons.prems(1) True by (auto simp: t_def Let_def contact_ok_def coords_ok_def)
    have "\<forall>t \<in> set (take (Suc count) (ts[count := t])). contact_ok xm ym t"
      using Cons.prems(3) t(1) c by (auto simp: take_Suc_conv_app_nth)
    moreover have "\<forall>k < Suc count. fingerType (ts[count := t] ! k) = fingerTypeForIndex k"
      using Cons.prems(4) t(2) c by (auto simp: less_Suc_eq nth_list_update)
    ultimately have "\<exists>ts'. fillTransducers force ff (Suc i) (Suc count) vs (ts[count := t]) =
        Some (Suc count + touching vs, ts') \<and> length ts' = length (ts[count := t]) \<and>
        (\<forall>t \<in> set (take (Suc count + touching vs) ts'). contact_ok xm ym t) \<and>
        (\<forall>k < Suc count + touching vs. fingerType (ts' ! k) = fingerTypeForIndex k)"
      using Cons.prems(1,2) True by (intro Cons.IH) (auto simp: touching_def)
    then show ?thesis using True c by (simp add: touching_def t_def Let_def)
  qed
qed (auto simp: touching_def)

lemma thumbSearch_range:
  "\<lbrakk>thumbSearch i ts (m, a, b) = (m', a', b'); a < i \<or> a = 0; b < i \<or> b = 0\<rbrakk> \<Longrightarrow>
   (a' < i + length ts \<or> a' = 0) \<and> (b' < i + length ts \<or> b' = 0)"
  by (induction i ts "(m, a, b)" arbitrary: m a b rule: thumbSearch.induct) (fastforce split: if_splits)+

lemma assignThumb_length [simp]: "length (assignThumb count ts) = length ts"
  by (simp add: assignThumb_def Let_def split: prod.splits)

lemma assignThumb_contacts:
  assumes "\<forall>t \<in> set (take count ts). contact_ok xm ym t" "count \<le> length ts"
  shows "\<forall>t \<in> set (take count (assignThumb count ts)). contact_ok xm ym t"
proof (cases "4 \<le> count")
  case True
  obtain m a b where th: "thumbSearch 0 (take count ts) (0, 0, 0) = (m, a, b)" by (metis prod_cases3)
  have ab: "a < count" "b < count" using thumbSearch_range [OF th] assms(2) True by auto
  have ok: "contact_ok xm ym (ts ! k)" if "k < count" for k
    using assms that by (metis in_set_conv_nth length_take min.absorb2 nth_take)
  have "contact_ok xm ym (assignThumb count ts ! k)" if "k < count" for k
    using True th ab ok that assms(2) ok [OF ab(1)] ok [OF ab(2)]
    by (auto simp: assignThumb_def nth_list_update contact_ok_def)
  then show ?thesis using assms(2) by (auto simp: in_set_conv_nth)
qed (use assms in \<open>simp add: assignThumb_def\<close>)

lemma touching_le: "touching vs \<le> length vs"
  by (simp add: touching_def)

lemma sendTouchData_event:
  assumes "foc_data_inv s"
  shows "\<exists>ts. fillTransducers (forceActive s) (forceFinger s) 0 0 (finger s) (transducers (inputEvent s)) =
      Some (touching (finger s), ts) \<and> length ts = length (transducers (inputEvent s)) \<and>
    (\<forall>k < touching (finger s). fingerType (ts ! k) = fingerTypeForIndex k) \<and>
    event_ok (xMax s) (yMax s) \<lparr>transducers = clearTransducers (touching (finger s)) (assignThumb (touching (finger s)) ts),
      contact_count = touching (finger s) mod 256\<rparr>"
proof -
  have n: "touching (finger s) \<le> 5" using assms touching_le [of "finger s"] by (simp add: foc_data_inv_def)
  obtain ts where ts: "fillTransducers (forceActive s) (forceFinger s) 0 0 (finger s) (transducers (inputEvent s)) =
      Some (touching (finger s), ts)" "length ts = length (transducers (inputEvent s))"
    "\<forall>t \<in> set (take (touching (finger s)) ts). contact_ok (xMax s) (yMax s) t"
    "\<forall>k < touching (finger s). fingerType (ts ! k) = fingerTypeForIndex k"
    using fillTransducers_ok [of "finger s" "xMax s" "yMax s" 0 "transducers (inputEvent s)" "forceActive s" "forceFinger s" 0]
      assms n by (auto simp: foc_data_inv_def)
  let ?n = "touching (finger s)" and ?ts = "assignThumb (touching (finger s)) ts"
  have len: "?n \<le> length ts" using n assms ts(2) by (simp add: foc_data_inv_def)
  have "\<forall>t \<in> set (take ?n ?ts). contact_ok (xMax s) (yMax s) t"
    using assignThumb_contacts [OF ts(3) len] .
  moreover have "take ?n (clearTransducers ?n ?ts) = take ?n ?ts"
    "drop ?n (clearTransducers ?n ?ts) = map (\<lambda>t. t\<lparr>isValid := False, isPhysicalButtonDown := False,
       isTransducerActive := False, supportsPressure := False\<rparr>) (drop ?n ?ts)"
    "length (clearTransducers ?n ?ts) = length ts"
    using len by (auto simp: clearTransducers_def)
  ultimately show ?thesis using ts n len
    by (auto simp: event_ok_def contact_ok_def)
qed

text \<open>What \<open>sendTouchData\<close> changes: the event, the messages and the last button state.\<close>

lemma sendTouchData_ok:
  assumes "foc_data_inv s"
  shows "\<exists>s'. sendTouchData s = Some s' \<and> foc_data_inv s' \<and>
    s' = s\<lparr>inputEvent := inputEvent s', sent := sent s', lastButtons := lastButtons s'\<rparr> \<and>
    lastButtons s' = (if forceActive s then rightButton s else leftButton s OR rightButton s)"
proof -
  let ?n = "touching (finger s)"
  obtain ts where fill: "fillTransducers (forceActive s) (forceFinger s) 0 0 (finger s) (transducers (inputEvent s)) =
      Some (?n, ts)" and len: "length ts = length (transducers (inputEvent s))"
    and ok: "event_ok (xMax s) (yMax s) \<lparr>transducers = clearTransducers ?n (assignThumb ?n ts), contact_count = ?n mod 256\<rparr>"
    using sendTouchData_event [OF assms] by blast
  define ev where "ev = \<lparr>transducers = clearTransducers ?n (assignThumb ?n ts), contact_count = ?n mod 256\<rparr>"
  define b where "b = (if forceActive s then rightButton s else leftButton s OR rightButton s)"
  define ms where "ms = (if voodooInput s then [VoodooInputMessage ev] @ (if b \<noteq> lastButtons s then [TrackpointMessage b] else []) else [])"
  define s' where "s' = s\<lparr>inputEvent := ev, sent := sent s @ ms, lastButtons := b\<rparr>"
  have run: "sendTouchData s = Some s'"
    by (auto simp: sendTouchData_def fill Let_def ev_def [symmetric] s'_def ms_def sendButtons_def b_def)
  have "length (clearTransducers ?n (assignThumb ?n ts)) = length ts" by (simp add: clearTransducers_def)
  then have "foc_data_inv s'" using assms ok len
    by (auto simp: foc_data_inv_def s'_def messages_ok_def ms_def buttons_ok_def ev_def distinct_adj_append_iff
        simp flip: append_Cons split: if_splits)
  then show ?thesis using run by (simp add: s'_def b_def)
qed

lemma cancelTimeout_same [simp]:
  "fingers (cancelTimeout s) = fingers s" "finger (cancelTimeout s) = finger s"
  "xMax (cancelTimeout s) = xMax s" "yMax (cancelTimeout s) = yMax s" "sent (cancelTimeout s) = sent s"
  "inputEvent (cancelTimeout s) = inputEvent s" "voodooInput (cancelTimeout s) = voodooInput s"
  "lastButtons (cancelTimeout s) = lastButtons s" "pressed (cancelTimeout s) = pressed s"
  "clickRight (cancelTimeout s) = clickRight s" "clickWasPressed (cancelTimeout s) = clickWasPressed s"
  "forceEligible (cancelTimeout s) = forceEligible s" "forceActive (cancelTimeout s) = forceActive s"
  "forceFinger (cancelTimeout s) = forceFinger s" "ringBuffer (cancelTimeout s) = ringBuffer s"
  "packetByteCount (cancelTimeout s) = packetByteCount s" "forceTimer (cancelTimeout s) = forceTimer s"
  "hw_width (cancelTimeout s) = hw_width s" "rightButton (cancelTimeout s) = rightButton s"
  "forceStartX (cancelTimeout s) = forceStartX s" "forceStartY (cancelTimeout s) = forceStartY s"
  by (simp_all add: cancelTimeout_def)

lemma clickSearch_finger:
  "clickSearch xm ym i fs (fd, x, y, f) = (fd', x', y', f') \<Longrightarrow> f < int i \<Longrightarrow> f' < int (i + length fs)"
proof (induction fs arbitrary: i fd x y f)
  case (Cons raw fs)
  show ?case
  proof (cases "\<not> f_active raw \<or> \<not> f_valid raw \<or> fd \<and> ym - clampCoord (f_y raw) ym \<le> y")
    case True
    then have "clickSearch xm ym (Suc i) fs (fd, x, y, f) = (fd', x', y', f')"
      using Cons.prems(1) by (auto simp: Let_def split: if_splits)
    from Cons.IH [OF this] show ?thesis using Cons.prems(2) by simp
  next
    case False
    then have "clickSearch xm ym (Suc i) fs (True, clampCoord (f_x raw) xm, ym - clampCoord (f_y raw) ym, int i) =
      (fd', x', y', f')" using Cons.prems(1) by (auto simp: Let_def)
    from Cons.IH [OF this] show ?thesis by simp
  qed
qed simp

text \<open>The frame of the two click steps, and what they establish.\<close>

definition same_data :: "focaltech \<Rightarrow> focaltech \<Rightarrow> bool" where
  "same_data s s' \<longleftrightarrow> fingers s' = fingers s \<and> finger s' = finger s \<and> xMax s' = xMax s \<and> yMax s' = yMax s \<and>
     sent s' = sent s \<and> inputEvent s' = inputEvent s \<and> voodooInput s' = voodooInput s \<and>
     lastButtons s' = lastButtons s \<and> pressed s' = pressed s \<and> ringBuffer s' = ringBuffer s \<and>
     packetByteCount s' = packetByteCount s \<and> hw_width s' = hw_width s"

lemma clickStep_ok:
  assumes "force_weak s" "length (fingers s) = FOC_MAX_FINGERS"
  shows "same_data s (clickStep s) \<and> force_weak (clickStep s) \<and> clickWasPressed (clickStep s) = pressed s"
proof (cases "pressed s \<and> \<not> clickWasPressed s")
  case True
  obtain fd x y f where cs: "clickSearch (xMax s) (yMax s) 0 (fingers s) (False, 0, 0, -1) = (fd, x, y, f)"
    by (metis prod_cases4)
  have f: "f < int FOC_MAX_FINGERS" using clickSearch_finger [OF cs] assms(2) by simp
  define s1 where "s1 = cancelTimeout (s\<lparr>clickRight := (fd \<and> y \<ge> yMax s * 70 div 100 \<and> x \<ge> xMax s div 2),
    forceEligible := False, forceActive := False, forceFinger := -1\<rparr>)"
  define s2 where "s2 = (if \<not> clickRight s1 \<and> f \<ge> 0 \<and> forceTimer s1
    then s1\<lparr>forceFinger := f, forceStartX := f_x (fingers s1 ! nat f), forceStartY := f_y (fingers s1 ! nat f),
      forceEligible := True, timerArmed := True\<rparr> else s1)"
  have run: "clickStep s = s2\<lparr>clickWasPressed := True\<rparr>"
    using True unfolding clickStep_def cs s2_def s1_def Let_def by simp
  have s1: "same_data s s1" "\<not> forceEligible s1" "\<not> forceActive s1" by (simp_all add: s1_def same_data_def)
  show ?thesis
  proof (cases "\<not> clickRight s1 \<and> f \<ge> 0 \<and> forceTimer s1")
    case True
    then show ?thesis using s1 f \<open>pressed s \<and> \<not> clickWasPressed s\<close>
      by (simp add: run s2_def same_data_def force_weak_def force_pending_def)
  next
    case False
    then have "s2 = s1" unfolding s2_def by (rule if_not_P)
    then show ?thesis using s1 \<open>pressed s \<and> \<not> clickWasPressed s\<close>
      by (simp add: run same_data_def force_weak_def)
  qed
next
  case False
  then show ?thesis using assms
    by (auto simp: clickStep_def Let_def same_data_def force_weak_def force_pending_def)
qed

lemma forceCheck_ok:
  assumes "force_weak s"
  shows "same_data s (forceCheck s) \<and> force_weak (forceCheck s) \<and>
    clickWasPressed (forceCheck s) = clickWasPressed s \<and> clickRight (forceCheck s) = clickRight s \<and>
    forceActive (forceCheck s) = forceActive s"
proof -
  have "forceCheck s = s \<or> forceCheck s = cancelTimeout (s\<lparr>forceEligible := False\<rparr>)"
    by (simp add: forceCheck_def Let_def)
  then show ?thesis
    using assms by (elim disjE) (simp_all add: same_data_def force_weak_def force_pending_def)
qed

lemma same_data_trans: "\<lbrakk>same_data a b; same_data b c\<rbrakk> \<Longrightarrow> same_data a c"
  by (simp add: same_data_def)

text \<open>Every packet kind only sets the press flag, the raw fingers and the width.\<close>

definition raw_change :: "focaltech \<Rightarrow> focaltech \<Rightarrow> bool" where
  "raw_change s s' \<longleftrightarrow> s' = s\<lparr>pressed := pressed s', fingers := fingers s', hw_width := hw_width s'\<rparr> \<and>
     length (fingers s') = length (fingers s)"

lemma process_raw_change:
  "raw_change s (processTouchPacket p s)" "raw_change s (processAbsolutePacket p s)"
  "raw_change s (processRelativePacket p s)"
  by (simp_all add: raw_change_def processTouchPacket_def processAbsolutePacket_def processRelativePacket_def
      moveFinger_def Let_def)

lemma raw_change_inv:
  assumes ch: "raw_change s s'" and inv: "foc_data_inv s" "force_inv s"
  shows "foc_data_inv s'" "force_weak s'" "ringBuffer s' = ringBuffer s" "packetByteCount s' = packetByteCount s"
    "lastButtons s' = lastButtons s" "forceActive s' = forceActive s"
proof -
  have s': "s' = s\<lparr>pressed := pressed s', fingers := fingers s', hw_width := hw_width s'\<rparr>"
    and len: "length (fingers s') = length (fingers s)" using ch by (auto simp: raw_change_def)
  show "foc_data_inv s'" using inv(1) len by (subst s') (simp add: foc_data_inv_def buttons_ok_def)
  show "force_weak s'" using inv(2) by (subst s') (auto simp: force_inv_def force_weak_def force_pending_def)
  show "ringBuffer s' = ringBuffer s" "packetByteCount s' = packetByteCount s"
    "lastButtons s' = lastButtons s" "forceActive s' = forceActive s" by (subst s'; simp)+
qed

lemma clickStep_active: "forceActive (clickStep s) \<Longrightarrow> forceActive s"
  by (auto simp: clickStep_def Let_def split: if_splits prod.splits)

lemma reportState_ok:
  assumes data: "foc_data_inv s" and weak: "force_weak s"
  shows "\<exists>s'. reportState s = Some s' \<and> foc_data_inv s' \<and> force_inv s' \<and>
    ringBuffer s' = ringBuffer s \<and> packetByteCount s' = packetByteCount s"
proof -
  define s2 where "s2 = forceCheck (clickStep s)"
  define m where "m = (if pressed s2 then (if clickRight s2 then 0x02 else 0x01) else 0 :: u32)"
  define s3 where "s3 = s2\<lparr>finger := map2 (trackFinger (xMax s2) (yMax s2) (hw_width s2)) (fingers s2) (finger s2),
    leftButton := m AND 0x01, rightButton := m AND 0x02\<rparr>"
  have c: "same_data s (clickStep s)" "force_weak (clickStep s)" "clickWasPressed (clickStep s) = pressed s"
    using clickStep_ok [OF weak] data by (auto simp: foc_data_inv_def)
  note f = forceCheck_ok [OF c(2)]
  have sd: "same_data s s2" unfolding s2_def using c(1) f same_data_trans by blast
  have w2: "force_weak s2" "clickWasPressed s2 = pressed s2"
    using f c sd by (auto simp: s2_def same_data_def)
  have touch: "\<forall>v \<in> set (finger s3). v_touching v \<longrightarrow>
      coords_ok (xMax s3) (yMax s3) (v_current v) \<and> coords_ok (xMax s3) (yMax s3) (v_previous v)"
  proof
    fix v assume "v \<in> set (finger s3)"
    then obtain raw v0 where v: "v = trackFinger (xMax s2) (yMax s2) (hw_width s2) raw v0" "v0 \<in> set (finger s2)"
      by (auto simp: s3_def dest: set_zip_rightD)
    then have "v_touching v0 \<longrightarrow> coords_ok (xMax s2) (yMax s2) (v_current v0) \<and> coords_ok (xMax s2) (yMax s2) (v_previous v0)"
      using data sd by (simp add: foc_data_inv_def same_data_def)
    from trackFinger_ok [OF this] show "v_touching v \<longrightarrow>
      coords_ok (xMax s3) (yMax s3) (v_current v) \<and> coords_ok (xMax s3) (yMax s3) (v_previous v)"
      by (simp add: v(1) s3_def)
  qed
  have d3: "foc_data_inv s3"
    using touch data sd by (simp add: foc_data_inv_def same_data_def s3_def buttons_ok_def)
  obtain s' where s': "sendTouchData s3 = Some s'" "foc_data_inv s'"
    "s' = s3\<lparr>inputEvent := inputEvent s', sent := sent s', lastButtons := lastButtons s'\<rparr>"
    "lastButtons s' = (if forceActive s3 then rightButton s3 else leftButton s3 OR rightButton s3)"
    using sendTouchData_ok [OF d3] by blast
  have run: "reportState s = Some s'"
    unfolding reportState_def Let_def s2_def [symmetric] m_def [symmetric] s3_def [symmetric] by (rule s'(1))
  have right: "\<not> clickRight s2 \<Longrightarrow> m AND 2 = 0" by (simp add: m_def)
  have s'f: "forceEligible s' = forceEligible s2" "forceActive s' = forceActive s2" "clickRight s' = clickRight s2"
    "clickWasPressed s' = clickWasPressed s2" "pressed s' = pressed s2" "forceFinger s' = forceFinger s2"
    "rightButton s' = m AND 2" "ringBuffer s' = ringBuffer s2" "packetByteCount s' = packetByteCount s2"
    by (subst s'(3); simp add: s3_def)+
  have last: "forceActive s2 \<longrightarrow> lastButtons s' AND 1 = 0"
    using s'(4) by (simp add: s3_def m_def)
  have "force_inv s'" using w2 s'f last right
    by (simp add: force_inv_def force_weak_def force_pending_def)
  then show ?thesis using run s'(2) s'f sd by (simp add: same_data_def)
qed

lemma processPacket_ok:
  assumes "foc_data_inv s" "force_inv s"
  shows "\<exists>b s'. processPacket p s = Some (b, s') \<and> foc_data_inv s' \<and> force_inv s' \<and>
    ringBuffer s' = ringBuffer s \<and> packetByteCount s' = packetByteCount s"
proof -
  have rep: "\<exists>s''. reportState s' = Some s'' \<and> foc_data_inv s'' \<and> force_inv s'' \<and>
    ringBuffer s'' = ringBuffer s \<and> packetByteCount s'' = packetByteCount s"
    if "raw_change s s'" for s'
    using reportState_ok [of s'] raw_change_inv [OF that assms] by simp
  show ?thesis
    using rep [OF process_raw_change(1) [of s p]] rep [OF process_raw_change(2) [of s p]]
      rep [OF process_raw_change(3) [of s p]] assms
    by (auto simp: processPacket_def Let_def)
qed

lemma inv_update [simp]:
  "foc_data_inv (s\<lparr>packetCount := x0\<rparr>) = foc_data_inv s" "force_inv (s\<lparr>packetCount := x0\<rparr>) = force_inv s"
  "foc_data_inv (s\<lparr>validPacketCount := x1\<rparr>) = foc_data_inv s" "force_inv (s\<lparr>validPacketCount := x1\<rparr>) = force_inv s"
  "foc_data_inv (s\<lparr>invalidPacketCount := x2\<rparr>) = foc_data_inv s" "force_inv (s\<lparr>invalidPacketCount := x2\<rparr>) = force_inv s"
  "foc_data_inv (s\<lparr>irqByteCount := x3\<rparr>) = foc_data_inv s" "force_inv (s\<lparr>irqByteCount := x3\<rparr>) = force_inv s"
  "foc_data_inv (s\<lparr>ringBuffer := x4\<rparr>) = foc_data_inv s" "force_inv (s\<lparr>ringBuffer := x4\<rparr>) = force_inv s"
  "foc_data_inv (s\<lparr>packetByteCount := x5\<rparr>) = foc_data_inv s" "force_inv (s\<lparr>packetByteCount := x5\<rparr>) = force_inv s"
  "foc_data_inv (s\<lparr>timerArmed := x6\<rparr>) = foc_data_inv s" "force_inv (s\<lparr>timerArmed := x6\<rparr>) = force_inv s"
  by (simp_all add: foc_data_inv_def buttons_ok_def force_inv_def force_weak_def force_pending_def)

lemma packetStep_ok:
  assumes "foc_data_inv s" "force_inv s"
  shows "\<exists>s'. packetStep p s = Some s' \<and> foc_data_inv s' \<and> force_inv s' \<and>
    ringBuffer s' = advanceTail 6 (ringBuffer s) \<and> packetByteCount s' = packetByteCount s"
proof -
  let ?s = "s\<lparr>packetCount := packetCount s + 1\<rparr>"
  have "foc_data_inv ?s" "force_inv ?s" using assms by simp_all
  then obtain b s1 where s1: "processPacket p ?s = Some (b, s1)" "foc_data_inv s1" "force_inv s1"
    "ringBuffer s1 = ringBuffer s" "packetByteCount s1 = packetByteCount s"
    using processPacket_ok [of ?s p] by auto
  define s2 where "s2 = (if b then s1\<lparr>validPacketCount := validPacketCount s1 + 1\<rparr>
    else s1\<lparr>invalidPacketCount := invalidPacketCount s1 + 1\<rparr>)"
  have "packetStep p s = Some (s2\<lparr>ringBuffer := advanceTail 6 (ringBuffer s2)\<rparr>)"
    using s1(1) by (simp add: packetStep_def Let_def s2_def)
  moreover have "foc_data_inv s2" "force_inv s2" "ringBuffer s2 = ringBuffer s" "packetByteCount s2 = packetByteCount s"
    using s1 by (simp_all add: s2_def)
  ultimately show ?thesis by simp
qed

interpretation foc_work: packet_consumer ring_poke "advanceHead 6" "ring_peek 6" "advanceTail 6" ring_count
  "packet_inv 6 192" "ring_packets 6" "head_slot 6" 6 "192 div 6 - 1"
  ringBuffer "\<lambda>s. foc_data_inv s \<and> force_inv s" packetStep foc_packetReady
proof
  fix s :: focaltech and p :: "u8 list" and n q
  show "foc_packetReady (Suc n) s = (if 6 \<le> ring_count (ringBuffer s)
    then Option.bind (ring_peek 6 (ringBuffer s)) (\<lambda>p. Option.bind (packetStep p s) (foc_packetReady n)) else Some s)"
    by simp
  show "\<exists>s'. packetStep p s = Some s' \<and> (foc_data_inv s' \<and> force_inv s') \<and> ringBuffer s' = advanceTail 6 (ringBuffer s)"
    if "foc_data_inv s \<and> force_inv s" using packetStep_ok [of s p] that by blast
  show "length p = 6" if "packet_inv 6 192 q" "p \<in> set (ring_packets 6 q)"
    using foc_ring.packets_member_length [OF that] .
qed

lemma forceTimerFired_ok:
  assumes inv: "foc_data_inv s" "force_inv s"
  shows "\<exists>s'. forceTimerFired s = Some s' \<and> foc_data_inv s' \<and> force_inv s' \<and>
    ringBuffer s' = ringBuffer s \<and> packetByteCount s' = packetByteCount s"
proof (cases "forceTimerFired s = Some (s\<lparr>timerArmed := False\<rparr>) \<or>
    forceTimerFired s = Some (s\<lparr>timerArmed := False, forceEligible := False\<rparr>)")
  case True
  moreover have "foc_data_inv (s\<lparr>timerArmed := False, forceEligible := False\<rparr>)"
    "force_inv (s\<lparr>timerArmed := False, forceEligible := False\<rparr>)"
    using inv by (auto simp: foc_data_inv_def buttons_ok_def force_inv_def force_weak_def force_pending_def)
  ultimately show ?thesis using inv by auto
next
  case False
  define s1 where "s1 = s\<lparr>timerArmed := False, forceEligible := False, forceActive := True\<rparr>"
  define s2 where "s2 = (if lastButtons s1 AND 0x01 \<noteq> 0 then (sendButtons 0 s1)\<lparr>lastButtons := 0\<rparr> else s1)"
  have el: "forceEligible s" and run: "forceTimerFired s = sendTouchData s2"
    using False by (simp_all add: forceTimerFired_def Let_def s1_def s2_def split: if_splits)
  have d2: "foc_data_inv s2"
    using inv(1) by (auto simp: s2_def s1_def foc_data_inv_def buttons_ok_def sendButtons_def messages_ok_def
        distinct_adj_append_iff simp flip: append_Cons)
  obtain s' where s': "sendTouchData s2 = Some s'" "foc_data_inv s'"
    "s' = s2\<lparr>inputEvent := inputEvent s', sent := sent s', lastButtons := lastButtons s'\<rparr>"
    "lastButtons s' = (if forceActive s2 then rightButton s2 else leftButton s2 OR rightButton s2)"
    using sendTouchData_ok [OF d2] by blast
  have f2: "forceEligible s2 = False" "forceActive s2" "clickRight s2 = clickRight s" "rightButton s2 = rightButton s"
    "clickWasPressed s2 = clickWasPressed s" "pressed s2 = pressed s" "forceFinger s2 = forceFinger s"
    "ringBuffer s2 = ringBuffer s" "packetByteCount s2 = packetByteCount s"
    by (simp_all add: s2_def s1_def sendButtons_def)
  have f': "forceEligible s' = False" "forceActive s'" "clickRight s' = clickRight s" "rightButton s' = rightButton s"
    "clickWasPressed s' = clickWasPressed s" "pressed s' = pressed s" "forceFinger s' = forceFinger s"
    "ringBuffer s' = ringBuffer s" "packetByteCount s' = packetByteCount s"
    by (subst s'(3); simp add: f2)+
  have "\<not> clickRight s" "force_pending s" "rightButton s = 0"
    using inv(2) el by (auto simp: force_inv_def force_weak_def force_pending_def)
  then have "force_inv s'" using f' s'(4) f2 inv(2)
    by (auto simp: force_inv_def force_weak_def force_pending_def)
  then show ?thesis using run s'(1,2) f' by auto
qed

section \<open>Any sequence of events\<close>

datatype foc_event = RxByte u8 | WorkLoop | TimerFires

text \<open>At most 31 packets are buffered, so 32 rounds of the work loop suffice.\<close>

definition foc_exec :: "foc_event \<Rightarrow> focaltech \<Rightarrow> focaltech option" where
  "foc_exec ev s = (case ev of
     RxByte b \<Rightarrow> map_option snd (foc_interruptOccurred b s)
   | WorkLoop \<Rightarrow> foc_packetReady 32 s
   | TimerFires \<Rightarrow> if timerArmed s then forceTimerFired s else Some s)"

lemma foc_rx_ok:
  assumes "foc_inv s"
  shows "\<exists>r s'. foc_interruptOccurred b s = Some (r, s') \<and> foc_inv s' \<and>
    (r = kPS2IR_packetReady) = (packetByteCount s = 5) \<and>
    foc_rx.view s' = frame_step 6 31 b (foc_rx.view s)"
proof -
  have "foc_rx.producer_inv s" using assms by (simp add: foc_inv_def foc_rx.producer_inv_def)
  then obtain s' where s': "map_option is_ready (foc_interruptOccurred b s) = Some (Suc (packetByteCount s) = 6, s')"
    "foc_rx.producer_inv s'" "foc_rx.view s' = frame_step 6 31 b (foc_rx.view s)"
    using foc_rx.recv_refines [of s b] by auto
  then obtain r where run: "foc_interruptOccurred b s = Some (r, s')"
    and r: "(r = kPS2IR_packetReady) = (packetByteCount s = 5)"
    by (auto simp: is_ready_def)
  have "foc_data_inv s'" "force_inv s'"
    using run assms by (auto simp: foc_interruptOccurred_def Let_def foc_inv_def split: if_splits elim!: bind_eq_SomeE)
  then have "foc_inv s'" using s'(2) by (simp add: foc_inv_def foc_rx.producer_inv_def)
  then show ?thesis using run r s'(3) by blast
qed

lemma packetReady_same_count:
  "\<lbrakk>foc_data_inv s; force_inv s; foc_packetReady n s = Some s'\<rbrakk> \<Longrightarrow> packetByteCount s' = packetByteCount s"
proof (induction n arbitrary: s)
  case (Suc n)
  show ?case
  proof (cases "6 \<le> ring_count (ringBuffer s)")
    case True
    then obtain p s1 where "packetStep p s = Some s1" "foc_packetReady n s1 = Some s'"
      using Suc.prems by (auto elim!: bind_eq_SomeE)
    then show ?thesis using Suc.IH [of s1] packetStep_ok [OF Suc.prems(1,2), of p] by auto
  qed (use Suc.prems in simp)
qed simp

lemma foc_work_ok:
  assumes "foc_inv s"
  shows "\<exists>s'. foc_packetReady 32 s = Some s' \<and> foc_inv s' \<and> ring_packets 6 (ringBuffer s') = [] \<and>
    fold_opt packetStep (ring_packets 6 (ringBuffer s)) s = Some s'"
proof -
  have inv: "packet_inv 6 192 (ringBuffer s)" "foc_data_inv s" "force_inv s" "packetByteCount s < 6"
    using assms by (auto simp: foc_inv_def)
  have "length (ring_packets 6 (ringBuffer s)) < 32" using foc_ring.packets_le [OF inv(1)] by simp
  then obtain s' where s': "foc_packetReady 32 s = Some s'"
    "fold_opt packetStep (ring_packets 6 (ringBuffer s)) s = Some s'" "foc_data_inv s' \<and> force_inv s'"
    "ring_packets 6 (ringBuffer s') = []" "packet_inv 6 192 (ringBuffer s')"
    using foc_work.run_drains [of s 32] inv by auto
  then show ?thesis using packetReady_same_count [OF inv(2,3) s'(1)] inv(4) by (simp add: foc_inv_def)
qed

lemma foc_exec_ok: "foc_inv s \<Longrightarrow> \<exists>s'. foc_exec ev s = Some s' \<and> foc_inv s'"
proof (cases ev)
  case (RxByte b)
  assume "foc_inv s"
  then show ?thesis using foc_rx_ok [of s b] RxByte by (auto simp: foc_exec_def)
next
  case WorkLoop
  assume "foc_inv s"
  then show ?thesis using foc_work_ok [of s] WorkLoop by (auto simp: foc_exec_def)
next
  case TimerFires
  assume inv: "foc_inv s"
  then have "foc_data_inv s" "force_inv s" by (auto simp: foc_inv_def)
  from forceTimerFired_ok [OF this] show ?thesis using inv TimerFires
    by (auto simp: foc_exec_def foc_inv_def)
qed

lemma foc_run_ok: "foc_inv s \<Longrightarrow> \<exists>s'. fold_opt foc_exec evs s = Some s' \<and> foc_inv s'"
proof (induction evs arbitrary: s)
  case (Cons ev evs)
  obtain s1 where "foc_exec ev s = Some s1" "foc_inv s1" using foc_exec_ok [OF Cons.prems] by blast
  then show ?case using Cons.IH [of s1] by simp
qed simp

lemma clearState_inv:
  assumes "FOC_MAX_FINGERS \<le> length (transducers (inputEvent s))" "packet_inv 6 192 (ringBuffer s)" "sent s = []"
  shows "foc_inv (clearState s)"
  using assms foc_ring.reset_ok [OF assms(2)]
  by (simp add: foc_inv_def foc_data_inv_def force_inv_def force_weak_def clearState_def messages_ok_def
      buttons_ok_def distinct_adj_def)

section \<open>What stays fixed\<close>

definition dims :: "focaltech \<Rightarrow> nat \<times> nat \<times> bool" where
  "dims s = (xMax s, yMax s, voodooInput s)"

lemma dims_update [simp]:
  "dims (cancelTimeout s) = dims s" "dims (sendButtons b s) = dims s" "dims (clickStep s) = dims s"
  "dims (forceCheck s) = dims s"
  by (auto simp: dims_def sendButtons_def clickStep_def forceCheck_def Let_def split: prod.splits)

lemma sendTouchData_dims: "sendTouchData s = Some s' \<Longrightarrow> dims s' = dims s"
  by (auto simp: sendTouchData_def Let_def dims_def sendButtons_def split: if_splits elim!: bind_eq_SomeE)

lemma reportState_dims:
  assumes "reportState s = Some s'" shows "dims s' = dims s"
proof -
  define s2 where "s2 = forceCheck (clickStep s)"
  obtain m :: u32 where "sendTouchData (s2\<lparr>finger := map2 (trackFinger (xMax s2) (yMax s2) (hw_width s2)) (fingers s2) (finger s2),
    leftButton := m AND 0x01, rightButton := m AND 0x02\<rparr>) = Some s'"
    using assms unfolding reportState_def Let_def s2_def [symmetric] by blast
  then have "dims s' = dims s2" by (drule_tac sendTouchData_dims) (simp add: dims_def)
  then show ?thesis by (simp add: s2_def)
qed

lemma raw_change_dims: "raw_change s s' \<Longrightarrow> dims s' = dims s"
  unfolding raw_change_def by (elim conjE ssubst) (simp add: dims_def)

lemma processPacket_dims: "processPacket p s = Some (b, s') \<Longrightarrow> dims s' = dims s"
  using process_raw_change [of s p]
  by (auto simp: processPacket_def Let_def dest!: reportState_dims raw_change_dims split: if_splits)

lemma packetStep_dims: "packetStep p s = Some s' \<Longrightarrow> dims s' = dims s"
  by (auto simp: packetStep_def Let_def elim!: bind_eq_SomeE dest!: processPacket_dims)
    (simp_all add: dims_def)

lemma packetReady_dims: "foc_packetReady n s = Some s' \<Longrightarrow> dims s' = dims s"
  by (induction n arbitrary: s) (auto dest!: packetStep_dims split: if_splits elim!: bind_eq_SomeE)

lemma foc_exec_dims: "foc_exec ev s = Some s' \<Longrightarrow> dims s' = dims s"
proof (cases ev)
  case (RxByte b)
  assume "foc_exec ev s = Some s'"
  then show ?thesis using RxByte
    by (auto simp: foc_exec_def foc_interruptOccurred_def Let_def dims_def split: if_splits elim!: bind_eq_SomeE)
next
  case WorkLoop
  assume "foc_exec ev s = Some s'"
  then show ?thesis using WorkLoop packetReady_dims by (simp add: foc_exec_def)
next
  case TimerFires
  assume "foc_exec ev s = Some s'"
  then show ?thesis using TimerFires
    by (auto simp: foc_exec_def forceTimerFired_def Let_def dest!: sendTouchData_dims split: if_splits)
      (simp_all add: dims_def sendButtons_def)
qed

lemma foc_run_dims: "fold_opt foc_exec evs s = Some s' \<Longrightarrow> dims s' = dims s"
  by (induction evs arbitrary: s) (auto dest!: foc_exec_dims elim!: bind_eq_SomeE)

section \<open>The click and the thumb\<close>

definition usable :: "FocalTechFingerState \<Rightarrow> bool" where
  "usable f \<longleftrightarrow> f_active f \<and> f_valid f"

definition pad_y :: "nat \<Rightarrow> FocalTechFingerState \<Rightarrow> nat" where
  "pad_y ym f = ym - clampCoord (f_y f) ym"

definition is_lowest :: "nat \<Rightarrow> FocalTechFingerState list \<Rightarrow> nat \<Rightarrow> bool" where
  "is_lowest ym fs j \<longleftrightarrow> j < length fs \<and> usable (fs ! j) \<and>
     (\<forall>k < length fs. usable (fs ! k) \<longrightarrow> pad_y ym (fs ! k) \<le> pad_y ym (fs ! j)) \<and>
     (\<forall>k < j. usable (fs ! k) \<longrightarrow> pad_y ym (fs ! k) < pad_y ym (fs ! j))"

lemma clickSearch_scan:
  "clickSearch xm ym i fs (fd, x, y, f) = (fd', x', y', f') \<Longrightarrow>
   (\<forall>k < length fs. usable (fs ! k) \<longrightarrow> fd \<and> pad_y ym (fs ! k) \<le> y) \<and> (fd', x', y', f') = (fd, x, y, f) \<or>
   (\<exists>j. is_lowest ym fs j \<and> (fd \<longrightarrow> y < pad_y ym (fs ! j)) \<and> fd' \<and> f' = int (i + j) \<and>
      x' = clampCoord (f_x (fs ! j)) xm \<and> y' = pad_y ym (fs ! j))"
proof (induction fs arbitrary: i fd x y f)
  case (Cons raw fs)
  have all_Suc: "(\<forall>k < length (raw # fs). P k) = (P 0 \<and> (\<forall>k < length fs. P (Suc k)))" for P
    by (simp add: All_less_Suc2)
  show ?case
  proof (cases "usable raw \<and> (\<not> fd \<or> pad_y ym raw > y)")
    case False
    then have "clickSearch xm ym (Suc i) fs (fd, x, y, f) = (fd', x', y', f')"
      using Cons.prems by (auto simp: Let_def usable_def pad_y_def split: if_splits)
    from Cons.IH [OF this] show ?thesis
    proof
      assume "\<exists>j. is_lowest ym fs j \<and> (fd \<longrightarrow> y < pad_y ym (fs ! j)) \<and> fd' \<and> f' = int (Suc i + j) \<and>
        x' = clampCoord (f_x (fs ! j)) xm \<and> y' = pad_y ym (fs ! j)"
      then obtain j where j: "is_lowest ym fs j" "fd \<longrightarrow> y < pad_y ym (fs ! j)" "fd'" "f' = int (Suc i + j)"
        "x' = clampCoord (f_x (fs ! j)) xm" "y' = pad_y ym (fs ! j)" by blast
      have "is_lowest ym (raw # fs) (Suc j)"
        using j(1,2) False unfolding is_lowest_def all_Suc by (auto simp: All_less_Suc2)
      then show ?thesis using j by (intro disjI2 exI [of _ "Suc j"]) simp
    qed (use False in \<open>auto simp: All_less_Suc2\<close>)
  next
    case True
    then have "clickSearch xm ym (Suc i) fs (True, clampCoord (f_x raw) xm, pad_y ym raw, int i) = (fd', x', y', f')"
      using Cons.prems by (auto simp: Let_def usable_def pad_y_def split: if_splits)
    from Cons.IH [OF this] show ?thesis
    proof
      assume "\<exists>j. is_lowest ym fs j \<and> (True \<longrightarrow> pad_y ym raw < pad_y ym (fs ! j)) \<and> fd' \<and> f' = int (Suc i + j) \<and>
        x' = clampCoord (f_x (fs ! j)) xm \<and> y' = pad_y ym (fs ! j)"
      then obtain j where j: "is_lowest ym fs j" "pad_y ym raw < pad_y ym (fs ! j)" "fd'" "f' = int (Suc i + j)"
        "x' = clampCoord (f_x (fs ! j)) xm" "y' = pad_y ym (fs ! j)" by blast
      have "is_lowest ym (raw # fs) (Suc j)"
        using j(1,2) unfolding is_lowest_def all_Suc by (auto simp: All_less_Suc2)
      then show ?thesis using j True by (intro disjI2 exI [of _ "Suc j"]) auto
    next
      assume no: "(\<forall>k < length fs. usable (fs ! k) \<longrightarrow> True \<and> pad_y ym (fs ! k) \<le> pad_y ym raw) \<and>
        (fd', x', y', f') = (True, clampCoord (f_x raw) xm, pad_y ym raw, int i)"
      then have "is_lowest ym (raw # fs) 0" using True unfolding is_lowest_def all_Suc by simp
      then show ?thesis using no True by (intro disjI2 exI [of _ 0]) auto
    qed
  qed
qed simp

lemma thumbSearch_new:
  "thumbSearch i ts (m, a, b) = (m', a', b') \<Longrightarrow>
   m \<le> m' \<and> (\<forall>t \<in> set ts. tc_y (currentCoordinates t) \<le> m') \<and>
   (a' = a \<and> m' = m \<or> (\<exists>k < length ts. a' = i + k \<and> m' = tc_y (currentCoordinates (ts ! k))))"
proof (induction ts arbitrary: i m a b)
  case (Cons t ts)
  define y where "y = tc_y (currentCoordinates t)"
  have "thumbSearch (Suc i) ts (if y > m then y else m, if y > m then i else a,
    if fingerType t = kMT2FingerTypeThumb then i else b) = (m', a', b')"
    unfolding y_def using Cons.prems by (simp only: thumbSearch.simps)
  from Cons.IH [OF this] have IH: "(if y > m then y else m) \<le> m'" "\<forall>t \<in> set ts. tc_y (currentCoordinates t) \<le> m'"
    "a' = (if y > m then i else a) \<and> m' = (if y > m then y else m) \<or>
     (\<exists>k < length ts. a' = Suc i + k \<and> m' = tc_y (currentCoordinates (ts ! k)))" by auto
  have "a' = a \<and> m' = m \<or> (\<exists>k < length (t # ts). a' = i + k \<and> m' = tc_y (currentCoordinates ((t # ts) ! k)))"
    using IH(3)
  proof
    assume "\<exists>k < length ts. a' = Suc i + k \<and> m' = tc_y (currentCoordinates (ts ! k))"
    then obtain k where "k < length ts" "a' = Suc i + k" "m' = tc_y (currentCoordinates (ts ! k))" by blast
    then show ?thesis by (intro disjI2 exI [of _ "Suc k"]) simp
  qed (auto simp: y_def split: if_splits intro!: exI [of _ 0])
  then show ?case using IH(1,2) by (auto simp: y_def split: if_splits)
qed simp

lemma thumbSearch_none:
  "\<lbrakk>thumbSearch i ts (m, a, b) = (m', a', b'); \<forall>t \<in> set ts. fingerType t \<noteq> kMT2FingerTypeThumb\<rbrakk> \<Longrightarrow> b' = b"
  by (induction ts arbitrary: i m a b) auto

lemma thumbSearch_old:
  "\<lbrakk>thumbSearch i ts (m, a, b) = (m', a', b'); j < length ts; fingerType (ts ! j) = kMT2FingerTypeThumb;
    \<forall>l < length ts. fingerType (ts ! l) = kMT2FingerTypeThumb \<longrightarrow> l = j\<rbrakk> \<Longrightarrow> b' = i + j"
proof (induction ts arbitrary: i m a b j)
  case (Cons t ts)
  have rest: "\<forall>l < length ts. fingerType (ts ! l) = kMT2FingerTypeThumb \<longrightarrow> Suc l = j"
    using Cons.prems(4) by (auto simp: All_less_Suc2)
  note here = Cons.prems(1) [unfolded thumbSearch.simps]
  show ?case
  proof (cases j)
    case 0
    then have "\<forall>t \<in> set ts. fingerType t \<noteq> kMT2FingerTypeThumb" using rest by (auto simp: in_set_conv_nth)
    from thumbSearch_none [OF here this] show ?thesis using Cons.prems(3) 0 by simp
  next
    case (Suc l)
    have "l < length ts" "fingerType (ts ! l) = kMT2FingerTypeThumb" using Cons.prems(2,3) Suc by simp_all
    moreover have "\<forall>k < length ts. fingerType (ts ! k) = kMT2FingerTypeThumb \<longrightarrow> k = l" using rest Suc by simp
    ultimately have "b' = Suc i + l" by (rule Cons.IH [OF here])
    then show ?thesis using Suc by simp
  qed
qed simp

lemma fingerType_thumb: "k < 5 \<Longrightarrow> (fingerTypeForIndex k = kMT2FingerTypeThumb) = (k = 3)"
  by (auto simp: less_Suc_eq numeral_eq_Suc)

lemma assignThumb_unique:
  assumes cnt: "4 \<le> count" "count \<le> 5" "count \<le> length ts"
    and types: "\<forall>k < count. fingerType (ts ! k) = fingerTypeForIndex k"
  shows "\<exists>n < count. (\<forall>k < count. (fingerType (assignThumb count ts ! k) = kMT2FingerTypeThumb) = (k = n)) \<and>
    (\<forall>k < count. tc_y (currentCoordinates (ts ! k)) \<le> tc_y (currentCoordinates (ts ! n)))"
proof -
  obtain m a b where th: "thumbSearch 0 (take count ts) (0, 0, 0) = (m, a, b)" by (metis prod_cases3)
  have b: "b = 3" using thumbSearch_old [OF th, of 3] types cnt fingerType_thumb by simp
  have a: "a < count" using thumbSearch_range [OF th] cnt by auto
  have top: "m \<le> tc_y (currentCoordinates (ts ! a))" using thumbSearch_new [OF th] cnt by auto
  have all: "tc_y (currentCoordinates (ts ! k)) \<le> m" if "k < count" for k
    using thumbSearch_new [OF th] cnt that by (metis in_set_conv_nth length_take min.absorb2 nth_take)
  have "(fingerType (assignThumb count ts ! k) = kMT2FingerTypeThumb) = (k = a)" if "k < count" for k
    using th a b cnt types that fingerType_thumb
    by (auto simp: assignThumb_def nth_list_update)
  moreover have "tc_y (currentCoordinates (ts ! k)) \<le> tc_y (currentCoordinates (ts ! a))" if "k < count" for k
    using all [OF that] top by simp
  ultimately show ?thesis using a by blast
qed

lemma fingerType_update_coords:
  "currentCoordinates (ts[i := (ts ! i)\<lparr>fingerType := t\<rparr>] ! k) = currentCoordinates (ts ! k)"
  by (cases "i < length ts"; cases "i = k") (auto simp: list_update_beyond)

lemma assignThumb_coords: "currentCoordinates (assignThumb count ts ! k) = currentCoordinates (ts ! k)"
  by (simp add: assignThumb_def Let_def fingerType_update_coords split: prod.splits)

lemma sendTouchData_sends:
  assumes "fillTransducers (forceActive s) (forceFinger s) 0 0 (finger s) (transducers (inputEvent s)) = Some (n, ts)"
    and "voodooInput s"
  shows "\<exists>s' ms. sendTouchData s = Some s' \<and> sent s' = sent s @ VoodooInputMessage
    \<lparr>transducers = clearTransducers n (assignThumb n ts), contact_count = n mod 256\<rparr> # ms"
  using assms by (simp add: sendTouchData_def Let_def sendButtons_def)

section \<open>Properties\<close>

text \<open>The driver as \<^verbatim>\<open>setupHardware\<close> finds it: its arrays allocated and nothing reported yet.\<close>

definition foc_fresh :: "focaltech \<Rightarrow> bool" where
  "foc_fresh s \<longleftrightarrow> FOC_MAX_FINGERS \<le> length (transducers (inputEvent s)) \<and>
     packet_inv 6 192 (ringBuffer s) \<and> sent s = []"

lemma fresh_inv: "foc_fresh s \<Longrightarrow> foc_inv (clearState s)"
  using clearState_inv by (simp add: foc_fresh_def)

lemma dims_clear: "dims (clearState s) = dims s"
  by (simp add: clearState_def) (simp add: dims_def)

definition sample_foc :: focaltech where
  "sample_foc = (new_focaltech 10)\<lparr>xMax := 20, yMax := 10, voodooInput := True, forceTimer := True\<rparr>"

text \<open>On a tiny pad a finger touches at (12, 5) and the pad is pressed; the work loop runs, then the timer.\<close>

definition sample_events :: "foc_event list" where
  "sample_events = map RxByte [0x03, 0x01, 0, 0, 0, 0] @ map RxByte [0x16, 0x10, 12, 0, 5, 0x20] @ [WorkLoop, TimerFires]"

lemma sample_fresh: "foc_fresh sample_foc"
  using foc_ring.new_ring_ok [of "0 :: u8"] by (simp add: foc_fresh_def sample_foc_def new_focaltech_def)

text \<open>
  C13. Whatever bytes arrive, however they interleave with the work loop and the force timer, the
  driver never writes outside its arrays, its work loop always returns, and every multitouch event
  it sends is well formed: at most five contacts, all of them first, valid and with current and
  previous coordinates inside the pad, and all other transducers switched off.
\<close>

theorem foc_events_well_formed:
  assumes "foc_fresh s"
  shows "\<exists>s'. fold_opt foc_exec evs (clearState s) = Some s' \<and> messages_ok (xMax s) (yMax s) (sent s')"
proof -
  obtain s' where s': "fold_opt foc_exec evs (clearState s) = Some s'" "foc_inv s'"
    using foc_run_ok [OF fresh_inv [OF assms]] by blast
  then show ?thesis using foc_run_dims [OF s'(1)] dims_clear [of s]
    by (simp add: foc_inv_def foc_data_inv_def dims_def)
qed

theorem foc_events_well_formed_witness:
  "\<exists>s'. fold_opt foc_exec sample_events (clearState sample_foc) = Some s' \<and> messages_ok 20 10 (sent s')"
  using foc_events_well_formed [OF sample_fresh, of sample_events] by (simp add: sample_foc_def)

text \<open>
  Button reports are sent on change only: along any run, no two successive reports carry the
  same buttons (the first one is not ``no button''), and the driver's memory of the last report is
  the last one sent.
\<close>

theorem foc_button_reports:
  assumes "foc_fresh s" and "voodooInput s" and "fold_opt foc_exec evs (clearState s) = Some s'"
  shows "distinct_adj (0 # button_log (sent s')) \<and> last (0 # button_log (sent s')) = lastButtons s'"
proof -
  have "foc_inv s'" using foc_run_ok [OF fresh_inv [OF assms(1)], of evs] assms(3) by simp
  moreover have "voodooInput s'" using foc_run_dims [OF assms(3)] dims_clear [of s] assms(2) by (simp add: dims_def)
  ultimately show ?thesis by (simp add: foc_inv_def foc_data_inv_def buttons_ok_def)
qed

lemma sample_run:
  obtains s' where "fold_opt foc_exec sample_events (clearState sample_foc) = Some s'"
    "button_log (sent s') = [1, 0]" "forceActive s'"
proof -
  have "map_option (\<lambda>s'. (button_log (sent s'), forceActive s'))
    (fold_opt foc_exec sample_events (clearState sample_foc)) = Some ([1, 0], True)" by code_simp
  then show ?thesis using that by auto
qed

theorem foc_button_reports_witness:
  "\<exists>s'. fold_opt foc_exec sample_events (clearState sample_foc) = Some s' \<and> button_log (sent s') = [1, 0] \<and>
     lastButtons s' = 0"
proof -
  obtain s' where run: "fold_opt foc_exec sample_events (clearState sample_foc) = Some s'"
    "button_log (sent s') = [1, 0]" by (rule sample_run)
  then show ?thesis using foc_button_reports [OF sample_fresh _ run(1)] by (simp add: sample_foc_def)
qed

text \<open>
  A force click replaces the left click, it never adds to it: whenever force is active the pad
  is pressed, the click was not a right click, it belongs to one of the five fingers, the hold
  timer is no longer pending a decision, and the left button has been reported released.
\<close>

theorem foc_force_exclusive:
  assumes "foc_fresh s" and "fold_opt foc_exec evs (clearState s) = Some s'" and "forceActive s'"
  shows "pressed s' \<and> \<not> clickRight s' \<and> \<not> forceEligible s' \<and> 0 \<le> forceFinger s' \<and>
    forceFinger s' < int FOC_MAX_FINGERS \<and> lastButtons s' AND 1 = 0"
proof -
  have "force_inv s'" using foc_run_ok [OF fresh_inv [OF assms(1)], of evs] assms(2) by (simp add: foc_inv_def)
  then show ?thesis using assms(3) by (auto simp: force_inv_def force_weak_def force_pending_def)
qed

theorem foc_force_exclusive_witness:
  "\<exists>s'. fold_opt foc_exec sample_events (clearState sample_foc) = Some s' \<and> forceActive s' \<and> pressed s' \<and>
     lastButtons s' AND 1 = 0"
proof -
  obtain s' where run: "fold_opt foc_exec sample_events (clearState sample_foc) = Some s'" "forceActive s'"
    by (rule sample_run)
  then show ?thesis using foc_force_exclusive [OF sample_fresh run] by blast
qed

lemma foc_receive_view:
  "foc_inv s \<Longrightarrow> \<exists>s'. fold_opt (\<lambda>b s. map_option snd (foc_interruptOccurred b s)) bs s = Some s' \<and> foc_inv s' \<and>
     foc_rx.view s' = fold (frame_step 6 31) bs (foc_rx.view s)"
proof (induction bs arbitrary: s)
  case (Cons b bs)
  obtain r s1 where "foc_interruptOccurred b s = Some (r, s1)" "foc_inv s1"
    "foc_rx.view s1 = frame_step 6 31 b (foc_rx.view s)"
    using foc_rx_ok [OF Cons.prems, of b] by blast
  then show ?case using Cons.IH [of s1] by simp
qed simp

text \<open>
  C14. Framing: after setup, the interrupt routine cuts any stream of bytes into packets of six; the
  buffer holds the first 31 of them unchanged and in order, later ones are dropped whole until the
  work loop makes room, and the bytes of the incomplete packet are kept for the next one.
\<close>

theorem foc_framing:
  assumes "foc_fresh s"
  shows "\<exists>s'. fold_opt (\<lambda>b s. map_option snd (foc_interruptOccurred b s)) bs (clearState s) = Some s' \<and>
    ring_packets 6 (ringBuffer s') = take 31 (packets_of 6 bs) \<and>
    take (packetByteCount s') (head_slot 6 (ringBuffer s')) = drop (length bs div 6 * 6) bs"
proof -
  have inv: "packet_inv 6 192 (ringBuffer s)" using assms by (simp add: foc_fresh_def)
  have start: "foc_rx.view (clearState s) = ([], [])"
    using foc_ring.reset_ok [OF inv] by (simp add: foc_rx.view_def clearState_def)
  obtain s' where run: "fold_opt (\<lambda>b s. map_option snd (foc_interruptOccurred b s)) bs (clearState s) = Some s'"
    and view: "foc_rx.view s' = fold (frame_step 6 31) bs (foc_rx.view (clearState s))"
    using foc_receive_view [OF fresh_inv [OF assms]] by blast
  have "foc_rx.view s' = (drop (length bs div 6 * 6) bs, take 31 (packets_of 6 bs))"
    unfolding view start by (rule frame_steps) simp
  then show ?thesis using run by (simp add: foc_rx.view_def)
qed

theorem foc_framing_witness:
  "\<exists>s'. fold_opt (\<lambda>b s. map_option snd (foc_interruptOccurred b s)) [3, 1, 0, 0, 0, 0, 0x16, 0x16] (clearState sample_foc) = Some s' \<and>
     ring_packets 6 (ringBuffer s') = [[3, 1, 0, 0, 0, 0]]"
proof -
  have "packets_of 6 [3, 1, 0, 0, 0, 0, 0x16, 0x16 :: u8] = [[3, 1, 0, 0, 0, 0]]" by code_simp
  then show ?thesis using foc_framing [OF sample_fresh, of "[3, 1, 0, 0, 0, 0, 0x16, 0x16]"] by auto
qed

text \<open>
  The work loop always terminates: it processes every buffered packet once, in the order of
  arrival, and leaves the buffer empty.
\<close>

theorem foc_packetReady_drains:
  assumes "foc_inv s"
  shows "\<exists>s'. foc_packetReady 32 s = Some s' \<and>
    fold_opt packetStep (ring_packets 6 (ringBuffer s)) s = Some s' \<and> ring_packets 6 (ringBuffer s') = []"
  using foc_work_ok [OF assms] by blast

theorem foc_packetReady_drains_witness:
  "\<exists>s'. foc_packetReady 32 (clearState sample_foc) = Some s' \<and> ring_packets 6 (ringBuffer s') = []"
  using foc_packetReady_drains [OF fresh_inv [OF sample_fresh]] by blast

text \<open>
  A new press clicks with the lowest finger on the pad (the first one among equals), and it is a
  right click exactly when that finger is in the lower 30 percent and in the right half.
\<close>

theorem foc_click_lowest:
  assumes "pressed s" and "\<not> clickWasPressed s" and "is_lowest (yMax s) (fingers s) j"
  shows "(clickRight (clickStep s) \<longleftrightarrow>
      yMax s * 70 div 100 \<le> pad_y (yMax s) (fingers s ! j) \<and> xMax s div 2 \<le> clampCoord (f_x (fingers s ! j)) (xMax s)) \<and>
    forceFinger (clickStep s) = (if forceTimer s \<and> \<not> clickRight (clickStep s) then int j else - 1)"
proof -
  obtain fd x y f where cs: "clickSearch (xMax s) (yMax s) 0 (fingers s) (False, 0, 0, -1) = (fd, x, y, f)"
    by (metis prod_cases4)
  have "\<not> (\<forall>k < length (fingers s). usable (fingers s ! k) \<longrightarrow> False)"
    using assms(3) by (auto simp: is_lowest_def)
  then obtain i where i: "is_lowest (yMax s) (fingers s) i" "fd" "f = int i"
    "x = clampCoord (f_x (fingers s ! i)) (xMax s)" "y = pad_y (yMax s) (fingers s ! i)"
    using clickSearch_scan [OF cs] by auto
  have "i = j" using i(1) assms(3) by (metis is_lowest_def linorder_neq_iff not_le)
  then show ?thesis using assms(1,2) cs i by (auto simp: clickStep_def Let_def)
qed

definition sample_press :: focaltech where
  "sample_press = sample_foc\<lparr>pressed := True, fingers := [
     \<lparr>f_active = True, f_valid = True, f_x = 3, f_y = 8\<rparr>, \<lparr>f_active = True, f_valid = True, f_x = 15, f_y = 1\<rparr>]\<rparr>"

theorem foc_click_lowest_witness: "clickRight (clickStep sample_press) \<and> forceFinger (clickStep sample_press) = - 1"
proof -
  have hyps: "pressed sample_press" "\<not> clickWasPressed sample_press"
    "is_lowest (yMax sample_press) (fingers sample_press) 1"
    by (auto simp: sample_press_def sample_foc_def new_focaltech_def is_lowest_def usable_def pad_y_def clampCoord_def
        less_Suc_eq numeral_eq_Suc)
  have "clickRight (clickStep sample_press)" by code_simp
  then show ?thesis using foc_click_lowest [OF hyps] by simp
qed

text \<open>
  With four or five fingers down the event names exactly one of them the thumb, and it is a
  lowest one.
\<close>

theorem foc_one_thumb:
  assumes "foc_data_inv s" and "voodooInput s" and "4 \<le> touching (finger s)"
  shows "\<exists>s' ev ms n. sendTouchData s = Some s' \<and> sent s' = sent s @ VoodooInputMessage ev # ms \<and>
    contact_count ev = touching (finger s) \<and> n < contact_count ev \<and>
    (\<forall>k < contact_count ev. (fingerType (transducers ev ! k) = kMT2FingerTypeThumb) = (k = n) \<and>
       tc_y (currentCoordinates (transducers ev ! k)) \<le> tc_y (currentCoordinates (transducers ev ! n)))"
proof -
  let ?n = "touching (finger s)"
  have n5: "?n \<le> 5" using assms(1) touching_le [of "finger s"] by (simp add: foc_data_inv_def)
  obtain ts where fill: "fillTransducers (forceActive s) (forceFinger s) 0 0 (finger s) (transducers (inputEvent s)) = Some (?n, ts)"
    and len: "length ts = length (transducers (inputEvent s))"
    and types: "\<forall>k < ?n. fingerType (ts ! k) = fingerTypeForIndex k"
    using sendTouchData_event [OF assms(1)] by blast
  have le: "?n \<le> length ts" using n5 len assms(1) by (simp add: foc_data_inv_def)
  define ev where "ev = \<lparr>transducers = clearTransducers ?n (assignThumb ?n ts), contact_count = ?n mod 256\<rparr>"
  have nth: "transducers ev ! k = assignThumb ?n ts ! k" if "k < ?n" for k
    using that le by (simp add: ev_def clearTransducers_def nth_append)
  obtain m where m: "m < ?n" "\<forall>k < ?n. (fingerType (assignThumb ?n ts ! k) = kMT2FingerTypeThumb) = (k = m)"
    "\<forall>k < ?n. tc_y (currentCoordinates (ts ! k)) \<le> tc_y (currentCoordinates (ts ! m))"
    using assignThumb_unique [OF assms(3) n5 le types] by blast
  obtain s' ms where "sendTouchData s = Some s'" "sent s' = sent s @ VoodooInputMessage ev # ms"
    using sendTouchData_sends [OF fill assms(2)] by (auto simp: ev_def)
  moreover have "contact_count ev = ?n" using n5 by (simp add: ev_def)
  ultimately show ?thesis using m nth assignThumb_coords
    by (intro exI [of _ s'] exI [of _ ev] exI [of _ ms] exI [of _ m]) simp
qed

definition sample_hand :: focaltech where
  "sample_hand = sample_foc\<lparr>finger := map (\<lambda>y. \<lparr>v_previous = no_coords,
     v_current = \<lparr>tc_x = y, tc_y = y, tc_pressure = 0, tc_width = 0\<rparr>, v_touching = y < 9\<rparr>) [2, 7, 3, 4, 9]\<rparr>"

theorem foc_one_thumb_witness:
  "\<exists>s' ev ms. sendTouchData sample_hand = Some s' \<and> sent s' = VoodooInputMessage ev # ms \<and> contact_count ev = 4"
proof -
  have "foc_data_inv sample_hand" "voodooInput sample_hand" "touching (finger sample_hand) = 4"
    by (simp_all add: sample_hand_def sample_foc_def new_focaltech_def foc_data_inv_def coords_ok_def no_coords_def
        messages_ok_def buttons_ok_def button_log_def touching_def)
  then show ?thesis using foc_one_thumb [of sample_hand] by (auto simp: sample_hand_def sample_foc_def new_focaltech_def)
qed

end
