(* ===== verification/PS2_Driver.thy ===== *)
theory PS2_Driver
  imports PS2_Transport PS2_Script
begin

text \<open>
  What the device drivers share: the kernel clock they read, and the interface \<open>driver_port\<close> their
  command protocols are verified against. It extends the contract of blocking requests by sleeping
  and by what a request that failed has done; the nub of a port implements it.
\<close>

section \<open>The clock\<close>

text \<open>
  \<^verbatim>\<open>clock_get_uptime\<close> returns \<open>uptime clk n\<close> at the \<open>n\<close>-th reading; \<open>to_ns\<close> is
  \<^verbatim>\<open>absolutetime_to_nanoseconds\<close>. Both belong to the kernel.
\<close>

record kclock =
  uptime :: "nat \<Rightarrow> u64"
  to_ns :: "u64 \<Rightarrow> u64"

text \<open>A clock for concrete runs, stopped at nine.\<close>

definition sample_clock :: kclock where
  "sample_clock = \<lparr>uptime = (\<lambda>n. 9), to_ns = (\<lambda>t. t)\<rparr>"

section \<open>The port of a driver\<close>

locale driver_port = transport submit wire online writes
  for submit :: "PS2Request \<Rightarrow> 's \<Rightarrow> (PS2Request \<times> 's) option"
    and wire :: "'s \<Rightarrow> (u16 \<times> u8) list"
    and online :: "'s \<Rightarrow> bool"
    and writes :: "'s \<Rightarrow> PS2Command \<Rightarrow> (u16 \<times> u8) list" +
  fixes sleep :: "u32 \<Rightarrow> 's \<Rightarrow> 's"
  assumes submit_failed: "\<lbrakk>submit r s = Some (r', s'); online s; commandsCount r' < commandsCount r\<rbrakk> \<Longrightarrow>
      executed True (commands r ! unat (commandsCount r')) (commands r' ! unat (commandsCount r'))"
    and reads_silent: "command cmd \<in> {kPS2C_ReadDataPort, kPS2C_ReadDataPortAndCompare} \<Longrightarrow> writes s cmd = []"
    and sleep_quiet: "online s \<Longrightarrow> online (sleep n s) \<and> writes (sleep n s) = writes s \<and> wire (sleep n s) = wire s"
begin

text \<open>Talking to a device only ever adds to the trace; the port stays online.\<close>

definition extends :: "'s \<Rightarrow> 's \<Rightarrow> bool" where
  "extends s s' \<longleftrightarrow> (online s \<longrightarrow> online s' \<and> writes s' = writes s \<and> (\<exists>ws. wire s' = wire s @ ws))"

lemma extends_refl [simp]: "extends s s"
  by (simp add: extends_def)

lemma extends_trans [trans]: "\<lbrakk>extends a b; extends b c\<rbrakk> \<Longrightarrow> extends a c"
  by (auto simp: extends_def)

lemma submit_extends: "submit r s = Some (r', s') \<Longrightarrow> extends s s'"
  using submit_online submit_wire by (auto simp: extends_def)

lemma sleep_extends [simp]: "extends s (sleep n s)"
  using sleep_quiet by (simp add: extends_def)

text \<open>A plain write cannot fail, so the first byte of such a request always reaches the wire.\<close>

lemma first_executed:
  assumes run: "submit (TPS2Request (cmd_byte kPS2C_WriteDataPort b # cs)) s = Some (r', s')"
    and on: "online s" and len: "length cs < 255"
  obtains cs' where "commands r' = cmd_byte kPS2C_WriteDataPort b # cs'" "0 < unat (commandsCount r')"
    "length cs' = length cs"
proof -
  let ?r = "TPS2Request (cmd_byte kPS2C_WriteDataPort b # cs)"
  have n: "unat (commandsCount ?r) = Suc (length cs)"
    using len by (simp add: unsigned_of_nat take_bit_nat_eq_self_iff del: of_nat_Suc)
  have "commandsCount r' \<noteq> 0"
  proof
    assume 0: "commandsCount r' = 0"
    moreover have "(0 :: u8) < commandsCount ?r" using n by (metis word_less_nat_alt unat_0 zero_less_Suc)
    ultimately show False using submit_failed [OF run on] by (simp add: executed_def)
  qed
  then have pos: "0 < unat (commandsCount r')" by (simp add: unat_gt_0)
  then have first: "commands r' ! 0 = cmd_byte kPS2C_WriteDataPort b"
    using submit_executed [OF run on pos] by (simp add: executed_def)
  with pos that show ?thesis using submit_length [OF run on] by (cases "commands r'") auto
qed

lemma first_written:
  assumes run: "submit (TPS2Request (cmd_byte kPS2C_WriteDataPort b # cs)) s = Some (r', s')"
    and on: "online s" and len: "length cs < 255"
  shows "\<exists>ws. wire s' = wire s @ writes s (cmd_byte kPS2C_WriteDataPort b) @ ws"
proof -
  obtain cs' where "commands r' = cmd_byte kPS2C_WriteDataPort b # cs'" "0 < unat (commandsCount r')"
    using first_executed [OF assms] .
  then show ?thesis using submit_wire [OF run on] by (auto simp: executedCommands_def take_Cons' split: if_splits)
qed

text \<open>A byte written with a read after it puts exactly that byte on the wire, whatever is read.\<close>

lemma read_after_write:
  assumes run: "submit (TPS2Request [cmd_byte kPS2C_WriteDataPort b, rd]) s = Some (r', s')"
    and on: "online s" and rd: "command rd \<in> {kPS2C_ReadDataPort, kPS2C_ReadDataPortAndCompare}"
  shows "wire s' = wire s @ writes s (cmd_byte kPS2C_WriteDataPort b)"
proof -
  obtain cmd where cs: "commands r' = [cmd_byte kPS2C_WriteDataPort b, cmd]" and pos: "0 < unat (commandsCount r')"
    using first_executed [OF run on] by (auto simp: length_Suc_conv)
  have "command cmd = command rd" if "1 < unat (commandsCount r') \<or> commandsCount r' < 2"
  proof (cases "1 < unat (commandsCount r')")
    case True
    then show ?thesis using submit_executed [OF run on True] cs by (simp add: executed_def)
  next
    case False
    then have "unat (commandsCount r') = 1" "commandsCount r' < 2" using pos that by auto
    then show ?thesis using submit_failed [OF run on] cs by (simp add: executed_def)
  qed
  then have "writes s cmd = []" if "1 < unat (commandsCount r') \<or> commandsCount r' < 2" using that rd reads_silent by metis
  then show ?thesis using submit_wire [OF run on] pos cs by (auto simp: executedCommands_def take_Cons' split: if_splits)
qed

text \<open>So does a command byte with its acknowledgement.\<close>

lemma command_written:
  assumes "submit (TPS2Request [cmd_byte kPS2C_WriteDataPort b, cmd_byte kPS2C_ReadDataPortAndCompare a]) s = Some (r', s')"
    and "online s"
  shows "wire s' = wire s @ writes s (cmd_byte kPS2C_WriteDataPort b)"
  using read_after_write [OF assms] by simp

end

lemma processRequest_failed:
  assumes "processRequest e r c = Some (d, r', c')" "\<not> hardwareOffline c" "commandsCount r' < commandsCount r"
  shows "executed True (commands r ! unat (commandsCount r')) (commands r' ! unat (commandsCount r'))"
proof -
  obtain f i c1 where
    run: "runCommands e (req_port r) 0 (unat (commandsCount r)) (commands r)
      (c\<lparr>ignoreInterrupts := ignoreInterrupts c + 1\<rparr>) = Some (f, i, commands r', c1)"
    and i: "unat (commandsCount r') = i" "f = (i < unat (commandsCount r))"
    using processRequest_count [OF assms(1,2)] by metis
  then show ?thesis using runCommands_outcome [OF run] assms(3) by (simp add: word_less_nat_alt)
qed

text \<open>The nub of port \<open>p\<close>; sleeping passes time in the hardware.\<close>

definition nub_sleep :: "('h, 'c) env \<Rightarrow> u32 \<Rightarrow> ('h, 'c) ctl \<Rightarrow> ('h, 'c) ctl" where
  "nub_sleep e n c = c\<lparr>hw := IOSleep e n (hw c)\<rparr>"

interpretation nub_port: driver_port "nub_submitRequestAndBlock e p" "\<lambda>c. wr (hw c)"
  "nub_online e wr" "\<lambda>c. command_writes (muxPresent c) p" "nub_sleep e"
proof
  fix r r' :: PS2Request and c c' :: "('a, 'b) ctl" and n
  show "command_writes (muxPresent c) p cmd = []" if "command cmd \<in> {kPS2C_ReadDataPort, kPS2C_ReadDataPortAndCompare}" for cmd
    using that by (auto simp: command_writes_def)
  assume on: "nub_online e wr c"
  show "nub_online e wr (nub_sleep e n c) \<and>
    command_writes (muxPresent (nub_sleep e n c)) p = command_writes (muxPresent c) p \<and>
    wr (hw (nub_sleep e n c)) = wr (hw c)"
    using on by (simp add: nub_online_def nub_sleep_def logs_def)
  assume run: "nub_submitRequestAndBlock e p r c = Some (r', c')" and "commandsCount r' < commandsCount r"
  have "c\<lparr>requestQueue := []\<rparr> = c" using on by (cases c) (simp add: nub_online_def)
  then obtain d where "processRequest e (r\<lparr>req_port := p\<rparr>) c = Some (d, r', c')"
    using run on by (auto simp: nub_submitRequestAndBlock_def submitRequestAndBlock_def nub_online_def
        processRequestQueue_def elim!: bind_eq_SomeE)
  from processRequest_failed [OF this] show
    "executed True (commands r ! unat (commandsCount r')) (commands r' ! unat (commandsCount r'))"
    using on \<open>commandsCount r' < commandsCount r\<close> by (simp add: nub_online_def)
qed

section \<open>A device that acknowledges everything\<close>

text \<open>
  Hardware for concrete runs: a byte of the first auxiliary port is always there, and it is an
  acknowledgement. The hardware state is the trace of writes.
\<close>

definition ack_env :: "((u16 \<times> u8) list, unit) env" where
  "ack_env = \<lparr>inb = (\<lambda>p h. (if p = kCommandPort then 0x21 else 0xFA, h)), outb = (\<lambda>p b h. h @ [(p, b)]),
     IOSleep = (\<lambda>n h. h), enableInterrupt = (\<lambda>i h. h), disableInterrupt = (\<lambda>i h. h),
     interruptOccurred = (\<lambda>p b c. (kPS2IR_packetBuffering, c)), packetReady = (\<lambda>p c. c),
     setDevicePowerState = (\<lambda>p w c. Some c), complete = (\<lambda>t p c. c), fuel = 3\<rparr>"

definition ack_ctl :: "((u16 \<times> u8) list, unit) ctl" where
  "ack_ctl = \<lparr>hw = [], clients = (), requestQueue = [], interruptInstalledKeyboard = False, interruptInstalledMouse = 1,
     ignoreInterrupts = 0, ignoreOutOfOrder = 0,
     devices = map (\<lambda>p. Some \<lparr>nub_port = p, nub_client = True, nub_interrupt_action = True,
       nub_packet_action = True, nub_power_action = True, nub_signalled = False\<rparr>) [0, 1],
     currentPowerState = kPS2PowerStateNormal, hardwareOffline = False, suppressTimeout = False, wakedelay = 10,
     mouseWakeFirst = False, muxPresent = False, nubsCount = 2, resetControllerFlag = 3, kbdOnly = False\<rparr>"

lemma ack_online: "nub_online ack_env (\<lambda>h. h) ack_ctl"
  by (simp add: nub_online_def logs_def ack_env_def ack_ctl_def)

definition ack_state :: "(u16 \<times> u8) list \<Rightarrow> int \<Rightarrow> ((u16 \<times> u8) list, unit) ctl" where
  "ack_state h n = ack_ctl\<lparr>hw := h, ignoreInterrupts := n\<rparr>"

definition ack_ok :: "PS2Command \<Rightarrow> bool" where
  "ack_ok cmd \<longleftrightarrow> command cmd \<in> {kPS2C_WriteDataPort, kPS2C_ReadDataPort, kPS2C_SendCommandAndCompareAck} \<or>
     command cmd = kPS2C_ReadDataPortAndCompare \<and> inOrOut cmd = 0xFA"

definition ack_answer :: "PS2Command \<Rightarrow> PS2Command" where
  "ack_answer cmd = (if command cmd \<in> {kPS2C_ReadDataPort, kPS2C_ReadDataPortAndCompare} then set_inOrOut 0xFA cmd else cmd)"

lemma ack_sel [simp]:
  "inb ack_env p h = (if p = 0x64 then 0x21 else 0xFA, h)" "outb ack_env p b h = h @ [(p, b)]" "fuel ack_env = Suc (Suc (Suc 0))"
  by (simp_all add: ack_env_def)

lemma ack_wait [simp]: "waitInput ack_env (Suc n) (ack_state h i) = Some (ack_state h i)"
  by (simp add: c_inb_def ack_state_def)

lemma ack_outb [simp]: "c_outb ack_env p b (ack_state h i) = ack_state (h @ [(p, b)]) i"
  by (simp add: c_outb_def ack_state_def)

lemma ack_write [simp]:
  "writeDataPort ack_env b (ack_state h i) = Some (ack_state (h @ [(0x60, b)]) i)"
  "writeCommandPort ack_env b (ack_state h i) = Some (ack_state (h @ [(0x64, b)]) i)"
  by (simp_all add: writeDataPort_def writeCommandPort_def del: waitInput.simps)

lemma ack_output: "0 < n \<Longrightarrow> waitOutput ack_env n st (ack_state h i) = (n, 0x21, ack_state h i)"
  by (cases n) (simp_all add: c_inb_def ack_state_def)

lemma ack_fields [simp]: "suppressTimeout (ack_state h i) = False" "hw (ack_state h i) = h" "muxPresent (ack_state h i) = False"
  "c_inb ack_env 0x60 (ack_state h i) = (0xFA, ack_state h i)"
  by (simp_all add: ack_state_def ack_ctl_def c_inb_def)

lemma ack_state_inject [simp]: "ack_state h i = ack_state h' i' \<longleftrightarrow> h = h' \<and> i = i'"
  by (auto simp: ack_state_def dest: arg_cong [where f = hw] arg_cong [where f = ignoreInterrupts])

lemma ack_port: "getPortFromStatus False 0x21 = Suc 0"
  by (simp add: getPortFromStatus_def)

lemma ack_read [simp]:
  "readDataPort ack_env (Suc 0) (ack_state h i) = Some (0xFA, ack_state h i)"
  "readDataPortExpect ack_env (Suc 0) 0xFA (ack_state h i) = Some (0xFA, ack_state h i)"
  by (simp_all add: readDataPort_def readDataPortExpect_def ack_output ack_port)

lemma ack_runCommand:
  "ack_ok cmd \<Longrightarrow> runCommand ack_env (Suc 0) cmd (ack_state h i) =
     Some (False, ack_answer cmd, ack_state (h @ command_writes False (Suc 0) cmd) i)"
  by (auto simp: ack_ok_def runCommand_def ack_answer_def command_writes_def prefix_writes_def transmitPrefix_def)

lemma ack_runCommands:
  "\<lbrakk>\<forall>k. i \<le> k \<and> k < i + n \<longrightarrow> k < length cmds \<and> ack_ok (cmds ! k)\<rbrakk> \<Longrightarrow>
   runCommands ack_env (Suc 0) i n cmds (ack_state h j) = Some (False, i + n,
     take i cmds @ map ack_answer (take n (drop i cmds)) @ drop (i + n) cmds,
     ack_state (h @ concat (map (command_writes False (Suc 0)) (take n (drop i cmds)))) j)"
proof (induction n arbitrary: i cmds h)
  case (Suc n)
  have i: "i < length cmds" "ack_ok (cmds ! i)" using Suc.prems by auto
  let ?cmds = "cmds[i := ack_answer (cmds ! i)]"
  have "\<forall>k. Suc i \<le> k \<and> k < Suc i + n \<longrightarrow> k < length ?cmds \<and> ack_ok (?cmds ! k)" using Suc.prems by auto
  from Suc.IH [OF this] show ?case using i
    by (simp add: ack_runCommand Let_def drop_update_cancel take_Suc_conv_app_nth Cons_nth_drop_Suc [symmetric])
qed simp

text \<open>So every blocking request to it completes, with acknowledgements as answers.\<close>

lemma ack_submit:
  assumes "list_all ack_ok cmds" "length cmds < 256"
  shows "nub_submitRequestAndBlock ack_env (Suc 0) (TPS2Request cmds) (ack_state h 0) =
    Some ((TPS2Request (map ack_answer cmds))\<lparr>req_port := Suc 0\<rparr>,
      ack_state (h @ concat (map (command_writes False (Suc 0)) cmds)) 0)"
proof -
  have n: "unat (of_nat (length cmds) :: u8) = length cmds"
    using assms(2) by (simp add: unsigned_of_nat take_bit_nat_eq_self_iff)
  have ok: "\<forall>k. 0 \<le> k \<and> k < 0 + length cmds \<longrightarrow> k < length cmds \<and> ack_ok (cmds ! k)"
    using assms(1) by (simp add: list_all_length)
  have st: "hardwareOffline (ack_state h 0) = False" "requestQueue (ack_state h i) = []"
    "(ack_state h i)\<lparr>ignoreInterrupts := j\<rparr> = ack_state h j" "ignoreInterrupts (ack_state h i) = i"
    "(ack_state h i)\<lparr>requestQueue := []\<rparr> = ack_state h i" for h i j
    by (simp_all add: ack_state_def ack_ctl_def)
  have st': "(TPS2Request cmds)\<lparr>req_port := p, commands := cmds'\<rparr> = (TPS2Request cmds')\<lparr>req_port := p\<rparr>"
    if "length cmds' = length cmds" for cmds' p
    using that by (simp add: TPS2Request_def)
  show ?thesis using ack_runCommands [OF ok, of h 1]
    by (simp add: nub_submitRequestAndBlock_def submitRequestAndBlock_def processRequestQueue_def processRequest_def
        st n Let_def disposeRequest_def st' TPS2Request_def)
qed

lemma ack_simps [simp]: "ack_state h 0\<lparr>hw := IOSleep ack_env n (hw (ack_state h 0))\<rparr> = ack_state h 0"
  "nub_sleep ack_env n (ack_state h 0) = ack_state h 0" "ack_ctl = ack_state [] 0"
  by (simp_all add: ack_state_def nub_sleep_def ack_env_def ack_ctl_def)

text \<open>Its interrupts are enabled already, so installing the actions of a driver touches no hardware.\<close>

lemma ack_install:
  "\<exists>c. nub_installInterruptAction ack_env (Suc 0) (ack_state h 0) = Some c \<and> nub_installPowerControlAction (Suc 0) c \<noteq> None"
  by (simp add: nub_installInterruptAction_def nub_installPowerControlAction_def installInterruptAction_def update_nub_def
      device_at_def ack_state_def ack_ctl_def del: ack_simps)

end
