(* ===== verification/PS2_Mouse.thy ===== *)
theory PS2_Mouse
  imports Ring_Buffer PS2_Driver
begin

text \<open>
  The input path of the mouse driver, \<^verbatim>\<open>ApplePS2Mouse\<close> of \<^verbatim>\<open>VoodooPS2Mouse.cpp\<close>: assembling packets
  in the interrupt routine, decoding them on the work loop, and the state machine that simulates a
  middle button. Events handed to the HID system are collected in \<open>posted\<close>. Signed C integers are
  words read by \<open>sint\<close>.
\<close>

section \<open>State\<close>

definition kPacketLengthMax :: nat where [simp]: "kPacketLengthMax = 4"
definition kPacketLengthStandard :: nat where [simp]: "kPacketLengthStandard = 3"
definition kPacketLengthIntellimouse :: nat where [simp]: "kPacketLengthIntellimouse = 4"

datatype PS2MouseId = kMouseTypeStandard | kMouseTypeIntellimouse | kMouseTypeIntellimouseExplorer

datatype mbuttonstate = STATE_NOBUTTONS | STATE_MIDDLE | STATE_WAIT4TWO | STATE_WAIT4NONE | STATE_NOOP

datatype MBComingFrom = fromTimer | fromMouse

datatype pointer_event = RelativePointer u32 u32 u32 u64 | ScrollWheel u16 u64

record mouse =
  cmdGate :: bool
  interruptHandlerInstalled :: bool
  powerControlHandlerInstalled :: bool
  ringBuffer :: "u8 ring"
  packetByteCount :: nat
  lastdata :: u8
  packetLength :: nat
  resolution :: u32
  mouse_type :: PS2MouseId
  buttonCount :: u32
  mouseInfoBytes :: u32
  mouseResetCount :: nat
  defres :: u32
  forceres :: bool
  mouseyinverter :: u32
  scrollyinverter :: u32
  forcesetres :: bool
  resmode :: u32
  scrollres :: u32
  mouse_wakedelay :: u32
  mb_state :: mbuttonstate
  lastbuttons :: u32
  pendingbuttons :: u32
  buttontime :: u64
  buttonTimer :: bool
  timerArmed :: bool
  maxmiddleclicktime :: u64
  fakemiddlebutton :: bool
  clock_reads :: nat
  posted :: "pointer_event list"

definition init_mouse :: mouse where
  "init_mouse = \<lparr>cmdGate = False, interruptHandlerInstalled = False, powerControlHandlerInstalled = False,
     ringBuffer = new_ring (kPacketLengthMax * 32) 0, packetByteCount = 0, lastdata = 0,
     packetLength = kPacketLengthStandard, resolution = 0, mouse_type = kMouseTypeStandard, buttonCount = 3,
     mouseInfoBytes = -1, mouseResetCount = 0, defres = push_bit 16 150, forceres = False, mouseyinverter = 1,
     scrollyinverter = 1, forcesetres = False, resmode = -1, scrollres = 10, mouse_wakedelay = 1000,
     mb_state = STATE_NOBUTTONS, lastbuttons = 0, pendingbuttons = 0, buttontime = 0, buttonTimer = False,
     timerArmed = False, maxmiddleclicktime = 100000000, fakemiddlebutton = False, clock_reads = 0, posted = []\<rparr>"

section \<open>Receiving bytes\<close>

definition mouse_mark :: "u8 \<Rightarrow> mouse \<Rightarrow> mouse option" where
  "mouse_mark why s = do {
     r \<leftarrow> ring_poke 0 0x00 (ringBuffer s);
     r \<leftarrow> ring_poke 1 why r;
     Some (s\<lparr>ringBuffer := advanceHead kPacketLengthMax r\<rparr>)
   }"

definition mouse_interruptOccurred :: "u8 \<Rightarrow> mouse \<Rightarrow> (PS2InterruptResult \<times> mouse) option" where
  "mouse_interruptOccurred data s =
     (if kSC_Reset = lastdata s \<and> 0x00 = data then do {
        s \<leftarrow> mouse_mark kSC_Reset s;
        Some (kPS2IR_packetReady, s\<lparr>packetByteCount := 0\<rparr>)
      }
      else let s = s\<lparr>lastdata := data\<rparr> in
        if packetByteCount s = 0 \<and> (data = kSC_Acknowledge \<or> data AND 0x08 = 0) then
          (if mouseResetCount s < 5
           then map_option (Pair kPS2IR_packetReady)
             (mouse_mark kSC_Acknowledge (s\<lparr>mouseResetCount := mouseResetCount s + 1\<rparr>))
           else Some (kPS2IR_packetBuffering, s))
        else do {
          r \<leftarrow> ring_poke (packetByteCount s) data (ringBuffer s);
          let s = s\<lparr>ringBuffer := r, packetByteCount := packetByteCount s + 1\<rparr>;
          if packetByteCount s = packetLength s
          then Some (kPS2IR_packetReady, s\<lparr>mouseResetCount := 0,
            ringBuffer := advanceHead kPacketLengthMax (ringBuffer s), packetByteCount := 0\<rparr>)
          else Some (kPS2IR_packetBuffering, s)
        })"

section \<open>The middle button\<close>

definition dispatchRelativePointerEventX :: "u32 \<Rightarrow> u32 \<Rightarrow> u32 \<Rightarrow> u64 \<Rightarrow> mouse \<Rightarrow> mouse" where
  "dispatchRelativePointerEventX dx dy buttons now s = s\<lparr>posted := posted s @ [RelativePointer dx dy buttons now]\<rparr>"

definition dispatchScrollWheelEventX :: "u16 \<Rightarrow> u64 \<Rightarrow> mouse \<Rightarrow> mouse" where
  "dispatchScrollWheelEventX deltaAxis1 now s = s\<lparr>posted := posted s @ [ScrollWheel deltaAxis1 now]\<rparr>"

text \<open>The timer may not have been allocated; using it then dereferences a null pointer.\<close>

definition setTimerTimeout :: "mouse \<Rightarrow> mouse option" where
  "setTimerTimeout s = (if buttonTimer s then Some (s\<lparr>timerArmed := True\<rparr>) else None)"

definition cancelTimer :: "mouse \<Rightarrow> mouse option" where
  "cancelTimer s = (if buttonTimer s then Some (s\<lparr>timerArmed := False\<rparr>) else None)"

definition mb_wait :: "u32 \<Rightarrow> u64 \<Rightarrow> mbuttonstate \<Rightarrow> mouse \<Rightarrow> mouse option" where
  "mb_wait buttons now_ns st s = do {
     s \<leftarrow> setTimerTimeout (s\<lparr>pendingbuttons := buttons, buttontime := now_ns\<rparr>);
     Some (s\<lparr>mb_state := st\<rparr>)
   }"

definition mb_settle :: "u32 \<Rightarrow> mouse \<Rightarrow> mouse option" where
  "mb_settle buttons s = do {
     s \<leftarrow> cancelTimer (s\<lparr>pendingbuttons := 0\<rparr>);
     Some (s\<lparr>mb_state := (if buttons = 0 then STATE_NOBUTTONS else STATE_NOOP)\<rparr>)
   }"

definition mb_step :: "u32 \<Rightarrow> u64 \<Rightarrow> u64 \<Rightarrow> MBComingFrom \<Rightarrow> mouse \<Rightarrow> mouse option" where
  "mb_step buttons now_abs now_ns from s =
     (let timeout = (from = fromTimer \<or> now_ns - buttontime s > maxmiddleclicktime s) in
      case mb_state s of
        STATE_NOBUTTONS \<Rightarrow>
          if buttons AND 0x4 \<noteq> 0 then Some (s\<lparr>mb_state := STATE_NOOP\<rparr>)
          else if buttons = 0x3 then Some (s\<lparr>mb_state := STATE_MIDDLE\<rparr>)
          else if buttons \<noteq> 0 then mb_wait buttons now_ns STATE_WAIT4TWO s
          else Some s
      | STATE_WAIT4TWO \<Rightarrow>
          if \<not> timeout \<and> buttons = 0x3
          then do {
            s \<leftarrow> cancelTimer (s\<lparr>pendingbuttons := 0\<rparr>);
            Some (s\<lparr>mb_state := STATE_MIDDLE\<rparr>)
          }
          else if timeout \<or> buttons \<noteq> pendingbuttons s
          then mb_settle buttons
            (if from = fromTimer \<or> buttons AND pendingbuttons s = 0
             then dispatchRelativePointerEventX 0 0 (buttons OR pendingbuttons s) now_abs s else s)
          else Some s
      | STATE_MIDDLE \<Rightarrow>
          if buttons = 0 then Some (s\<lparr>mb_state := STATE_NOBUTTONS\<rparr>)
          else if buttons AND 0x3 \<noteq> 0x3 then mb_wait buttons now_ns STATE_WAIT4NONE s
          else Some s
      | STATE_WAIT4NONE \<Rightarrow>
          if \<not> timeout \<and> buttons = 0
          then do {
            s \<leftarrow> cancelTimer (s\<lparr>pendingbuttons := 0\<rparr>);
            Some (s\<lparr>mb_state := STATE_NOBUTTONS\<rparr>)
          }
          else if timeout \<or> buttons \<noteq> pendingbuttons s
          then mb_settle buttons
            (if from = fromTimer
             then dispatchRelativePointerEventX 0 0 (buttons OR pendingbuttons s) now_abs s else s)
          else Some s
      | STATE_NOOP \<Rightarrow> if buttons = 0 then Some (s\<lparr>mb_state := STATE_NOBUTTONS\<rparr>) else Some s)"

definition mb_output :: "mbuttonstate \<Rightarrow> u32 \<Rightarrow> u32" where
  "mb_output st buttons = (case st of
     STATE_MIDDLE \<Rightarrow> 0x4
   | STATE_WAIT4NONE \<Rightarrow> buttons AND NOT 0x3
   | STATE_WAIT4TWO \<Rightarrow> buttons AND NOT 0x3
   | _ \<Rightarrow> buttons)"

definition middleButton :: "kclock \<Rightarrow> u32 \<Rightarrow> u64 \<Rightarrow> MBComingFrom \<Rightarrow> mouse \<Rightarrow> (u32 \<times> mouse) option" where
  "middleButton clk buttons now_abs from s =
     (if \<not> fakemiddlebutton s \<or> sint (buttonCount s) \<le> 2 then Some (buttons, s)
      else do {
        s \<leftarrow> mb_step buttons now_abs (to_ns clk now_abs) from s;
        Some (mb_output (mb_state s) buttons, s)
      })"

definition read_uptime :: "kclock \<Rightarrow> mouse \<Rightarrow> u64 \<times> mouse" where
  "read_uptime clk s = (uptime clk (clock_reads s), s\<lparr>clock_reads := clock_reads s + 1\<rparr>)"

definition onButtonTimer :: "kclock \<Rightarrow> mouse \<Rightarrow> mouse option" where
  "onButtonTimer clk s =
     (let (now_abs, s) = read_uptime clk s
      in map_option snd (middleButton clk (lastbuttons s) now_abs fromTimer s))"

section \<open>Decoding packets\<close>

definition mouse_dx :: "u8 list \<Rightarrow> u32" where
  "mouse_dx packet = (if packet ! 0 AND 0x10 \<noteq> 0 then 0xffffff00 else 0) OR ucast (packet ! 1)"

definition mouse_dy :: "u8 list \<Rightarrow> u32" where
  "mouse_dy packet = - ((if packet ! 0 AND 0x20 \<noteq> 0 then 0xffffff00 else 0) OR ucast (packet ! 2))"

definition mouse_dz :: "u8 list \<Rightarrow> u16" where
  "mouse_dz packet = scast (signed_drop_bit 4 (push_bit 4 (packet ! 3)))"

definition mouse_buttons :: "PS2MouseId \<Rightarrow> nat \<Rightarrow> u8 list \<Rightarrow> u32" where
  "mouse_buttons ty packetSize packet =
     ucast (packet ! 0 AND 0x7) OR
     (if packetSize > 3 \<and> ty = kMouseTypeIntellimouseExplorer then drop_bit 1 (ucast (packet ! 3 AND 0x30)) else 0)"

definition dispatchRelativePointerEventWithPacket :: "kclock \<Rightarrow> u8 list \<Rightarrow> nat \<Rightarrow> mouse \<Rightarrow> mouse option" where
  "dispatchRelativePointerEventWithPacket clk packet packetSize s =
     (let buttons = mouse_buttons (mouse_type s) packetSize packet;
          dx = mouse_dx packet;
          dy = mouse_dy packet;
          dz = (if packetSize > 3 then mouse_dz packet else 0);
          (now_abs, s) = read_uptime clk s
      in do {
        (buttons, s) \<leftarrow> middleButton clk buttons now_abs fromMouse s;
        let s = dispatchRelativePointerEventX dx (mouseyinverter s * dy) buttons now_abs (s\<lparr>lastbuttons := buttons\<rparr>);
        Some (if dz \<noteq> 0
              then dispatchScrollWheelEventX (ucast (- scrollyinverter s * scast dz)) now_abs s else s)
      })"

definition mouse_packetStep :: "kclock \<Rightarrow> u8 list \<Rightarrow> mouse \<Rightarrow> mouse option" where
  "mouse_packetStep clk packet s = do {
     s \<leftarrow> (if packet ! 0 \<noteq> 0x00
          then dispatchRelativePointerEventWithPacket clk packet (packetLength s) s else Some s);
     Some (s\<lparr>ringBuffer := advanceTail kPacketLengthMax (ringBuffer s)\<rparr>)
   }"

fun mouse_packetReady :: "kclock \<Rightarrow> nat \<Rightarrow> mouse \<Rightarrow> mouse option" where
  "mouse_packetReady clk 0 s = None"
| "mouse_packetReady clk (Suc n) s =
     (if ring_count (ringBuffer s) \<ge> kPacketLengthMax then do {
        packet \<leftarrow> ring_peek kPacketLengthMax (ringBuffer s);
        s \<leftarrow> mouse_packetStep clk packet s;
        mouse_packetReady clk n s
      } else Some s)"

section \<open>Decoding\<close>

lemma sint_word_of_int_small: "\<lbrakk>- (2 ^ 31) \<le> k; k < 2 ^ 31\<rbrakk> \<Longrightarrow> sint (word_of_int k :: u32) = k"
  by (simp add: signed_of_int signed_take_bit_int_eq_self)

lemma uint_u8: "0 \<le> uint (b :: u8)" "uint b < 256"
  using uint_lt2p [of b] by simp_all

lemma extend_byte:
  "(if neg then 0xffffff00 else 0) OR ucast (b :: u8) = (word_of_int (uint b - (if neg then 256 else 0)) :: u32)"
proof -
  have "(0xffffff00 :: u32) = NOT (mask 8)" by (simp add: mask_eq_exp_minus_1)
  moreover have "n < 8" if "bit b n" for n using bit_imp_le_length [OF that] by simp
  then have "NOT (mask 8 :: u32) AND ucast b = 0"
    by (intro bit_word_eqI) (auto simp: bit_and_iff bit_not_iff bit_mask_iff bit_ucast_iff)
  ultimately have "(0xffffff00 :: u32) OR ucast b = 0xffffff00 + ucast b"
    using word_plus_and_or [of "0xffffff00 :: u32" "ucast b"] by simp
  also have "\<dots> = word_of_int (uint b - 256)" by (simp add: unsigned_ucast_eq word_of_int_eq_iff) 
  finally show ?thesis by simp
qed

lemma sint_delta:
  assumes "0 \<le> k" "k < 256"
  shows "sint (word_of_int (k - (if neg then 256 else 0)) :: u32) = k - (if neg then 256 else 0)"
    and "sint (- word_of_int (k - (if neg then 256 else 0)) :: u32) = (if neg then 256 else 0) - k"
proof -
  show "sint (word_of_int (k - (if neg then 256 else 0)) :: u32) = k - (if neg then 256 else 0)"
    using assms by (intro sint_word_of_int_small) auto
  have "sint (word_of_int ((if neg then 256 else 0) - k) :: u32) = (if neg then 256 else 0) - k"
    using assms by (intro sint_word_of_int_small) auto
  then show "sint (- word_of_int (k - (if neg then 256 else 0)) :: u32) = (if neg then 256 else 0) - k"
    by (simp flip: wi_hom_neg)
qed

lemma sint_mouse_dx: "sint (mouse_dx p) = uint (p ! 1) - (if bit (p ! 0) 4 then 256 else 0)"
  using sint_delta(1) [OF uint_u8] and_single_bit [of 4 "p ! 0"] unfolding mouse_dx_def extend_byte by simp

lemma sint_mouse_dy: "sint (mouse_dy p) = (if bit (p ! 0) 5 then 256 else 0) - uint (p ! 2)"
  using sint_delta(2) [OF uint_u8] and_single_bit [of 5 "p ! 0"] unfolding mouse_dy_def extend_byte by simp

lemma sint_mouse_dz: "sint (mouse_dz p) = signed_take_bit 3 (uint (p ! 3))"
proof -
  have three: "n = 3" if "\<not> 4 \<le> n" "3 \<le> n" for n :: nat using that by simp
  have "sint (signed_drop_bit 4 (push_bit 4 (p ! 3))) = signed_take_bit 3 (uint (p ! 3))"
    by (rule bit_eqI) (auto simp: sint_signed_drop_bit_eq bit_drop_bit_eq bit_signed_take_bit_iff min_def
        sint_uint bit_uint_iff bit_push_bit_iff possible_bit_word bit_signed_drop_bit_iff
        split: if_splits dest: three)
  moreover have "signed_take_bit 15 (signed_take_bit 3 k) = signed_take_bit 3 k" for k :: int
    by (simp add: signed_take_bit_signed_take_bit min_def)
  ultimately show ?thesis by (simp add: mouse_dz_def signed_scast_eq)
qed

section \<open>The receiver and its specification\<close>

text \<open>
  A buffered packet is a report of the device, or the mark of a lost or reset device. The
  specification of the interrupt routine works on the last byte, the number of marks since the last
  report, the bytes of the report under construction and the buffered packets.
\<close>

datatype mouse_packet = Mark | Report "u8 list"

definition abs_packet :: "nat \<Rightarrow> u8 list \<Rightarrow> mouse_packet" where
  "abs_packet len p = (if p ! 0 = 0 then Mark else Report (take len p))"

definition push_packet :: "'a \<Rightarrow> 'a list \<Rightarrow> 'a list" where
  "push_packet x ps = (if length ps < 31 then ps @ [x] else ps)"

definition starts_report :: "u8 \<Rightarrow> bool" where
  "starts_report b \<longleftrightarrow> b \<noteq> kSC_Acknowledge \<and> bit b 3"

definition mouse_rx_spec :: "nat \<Rightarrow> u8 \<Rightarrow> u8 \<times> nat \<times> u8 list \<times> mouse_packet list \<Rightarrow> u8 \<times> nat \<times> u8 list \<times> mouse_packet list" where
  "mouse_rx_spec len b = (\<lambda>(prev, marks, part, ps).
     if prev = kSC_Reset \<and> b = 0 then (prev, marks, [], push_packet Mark ps)
     else if part = [] \<and> \<not> starts_report b
     then (if marks < 5 then (b, Suc marks, [], push_packet Mark ps) else (b, marks, [], ps))
     else if Suc (length part) = len then (b, 0, [], push_packet (Report (part @ [b])) ps)
     else (b, marks, part @ [b], ps))"

interpretation mouse_ring: packet_ring 4 128
  by unfold_locales auto

definition mouse_rx_inv :: "mouse \<Rightarrow> bool" where
  "mouse_rx_inv s \<longleftrightarrow> packet_inv 4 128 (ringBuffer s) \<and> packetLength s \<in> {3, 4} \<and>
     packetByteCount s < packetLength s \<and> (0 < packetByteCount s \<longrightarrow> head_slot 4 (ringBuffer s) ! 0 \<noteq> 0)"

definition mouse_view :: "mouse \<Rightarrow> u8 \<times> nat \<times> u8 list \<times> mouse_packet list" where
  "mouse_view s = (lastdata s, mouseResetCount s, take (packetByteCount s) (head_slot 4 (ringBuffer s)),
     map (abs_packet (packetLength s)) (ring_packets 4 (ringBuffer s)))"

lemma bit_and_8: "(b AND 0x08 = 0) = (\<not> bit (b :: u8) 3)"
  using and_single_bit [of 3 b] by auto

lemma advance_push:
  assumes "packet_inv 4 128 r"
  shows "map f (ring_packets 4 (advanceHead 4 r)) = push_packet (f (head_slot 4 r)) (map f (ring_packets 4 r))"
  using mouse_ring.advance_room(1) [OF assms] mouse_ring.advance_full [OF assms] mouse_ring.packets_le [OF assms]
  by (cases "length (ring_packets 4 r) < 31") (auto simp: push_packet_def)

lemma mark_ok:
  assumes inv: "packet_inv 4 128 (ringBuffer s)"
  shows "\<exists>r. mouse_mark why s = Some (s\<lparr>ringBuffer := r\<rparr>) \<and> packet_inv 4 128 r \<and>
    map (abs_packet n) (ring_packets 4 r) = push_packet Mark (map (abs_packet n) (ring_packets 4 (ringBuffer s)))"
proof -
  obtain r1 where r1: "ring_poke 0 0 (ringBuffer s) = Some r1" "packet_inv 4 128 r1"
    "ring_packets 4 r1 = ring_packets 4 (ringBuffer s)" "head_slot 4 r1 = (head_slot 4 (ringBuffer s))[0 := 0]"
    using mouse_ring.poke_ok [OF inv, of 0 0] by auto
  obtain r2 where r2: "ring_poke 1 why r1 = Some r2" "packet_inv 4 128 r2"
    "ring_packets 4 r2 = ring_packets 4 r1" "head_slot 4 r2 = (head_slot 4 r1)[1 := why]"
    using mouse_ring.poke_ok [OF r1(2), of 1 why] by auto
  have "head_slot 4 r2 ! 0 = 0" using r1(4) r2(4) mouse_ring.head_slot_length [OF inv] by simp
  then have "abs_packet n (head_slot 4 r2) = Mark" by (simp add: abs_packet_def)
  then have "map (abs_packet n) (ring_packets 4 (advanceHead 4 r2)) =
    push_packet Mark (map (abs_packet n) (ring_packets 4 (ringBuffer s)))"
    using advance_push [OF r2(2), of "abs_packet n"] r1(3) r2(3) by simp
  then show ?thesis
    using r1(1) r2(1) mouse_ring.advance_inv [OF r2(2)]
    by (intro exI [of _ "advanceHead 4 r2"]) (simp add: mouse_mark_def)
qed

lemma mouse_rx_refines:
  assumes inv: "mouse_rx_inv s"
  shows "\<exists>r s'. mouse_interruptOccurred b s = Some (r, s') \<and> mouse_rx_inv s' \<and>
    mouse_view s' = mouse_rx_spec (packetLength s) b (mouse_view s) \<and> packetLength s' = packetLength s \<and>
    (r = kPS2IR_packetReady \<longrightarrow> packetByteCount s' = 0)"
proof -
  note i = inv [unfolded mouse_rx_inv_def]
  have ring: "packet_inv 4 128 (ringBuffer s)" using i by simp
  have hl: "length (head_slot 4 (ringBuffer s)) = 4" by (rule mouse_ring.head_slot_length [OF ring])
  have part0: "(take (packetByteCount s) (head_slot 4 (ringBuffer s)) = []) = (packetByteCount s = 0)"
    using hl i by auto
  note mark = mark_ok [OF ring]
  consider (reset) "lastdata s = kSC_Reset" "b = 0"
    | (lost) "\<not> (lastdata s = kSC_Reset \<and> b = 0)" "packetByteCount s = 0" "\<not> starts_report b"
    | (byte) "\<not> (lastdata s = kSC_Reset \<and> b = 0)" "packetByteCount s \<noteq> 0 \<or> starts_report b" by blast
  then show ?thesis
  proof cases
    case reset
    obtain r where "mouse_mark kSC_Reset s = Some (s\<lparr>ringBuffer := r\<rparr>)" "packet_inv 4 128 r"
      "map (abs_packet (packetLength s)) (ring_packets 4 r) =
       push_packet Mark (map (abs_packet (packetLength s)) (ring_packets 4 (ringBuffer s)))" using mark by blast
    then show ?thesis using reset i
      by (auto simp: mouse_interruptOccurred_def mouse_rx_inv_def mouse_view_def mouse_rx_spec_def)
  next
    case lost
    show ?thesis
    proof (cases "mouseResetCount s < 5")
      case True
      obtain r where "mouse_mark kSC_Acknowledge (s\<lparr>lastdata := b, mouseResetCount := mouseResetCount s + 1\<rparr>) =
        Some (s\<lparr>lastdata := b, mouseResetCount := mouseResetCount s + 1, ringBuffer := r\<rparr>)" "packet_inv 4 128 r"
        "map (abs_packet (packetLength s)) (ring_packets 4 r) =
         push_packet Mark (map (abs_packet (packetLength s)) (ring_packets 4 (ringBuffer s)))"
        using mark_ok [of "s\<lparr>lastdata := b, mouseResetCount := mouseResetCount s + 1\<rparr>" kSC_Acknowledge "packetLength s"] ring
        by auto
      then show ?thesis using lost i True
        by (auto simp: mouse_interruptOccurred_def Let_def mouse_rx_inv_def mouse_view_def mouse_rx_spec_def
            starts_report_def bit_and_8)
    next
      case False
      then show ?thesis using lost i
        by (auto simp: mouse_interruptOccurred_def Let_def mouse_rx_inv_def mouse_view_def mouse_rx_spec_def
            starts_report_def bit_and_8)
    qed
  next
    case byte
    let ?k = "packetByteCount s"
    obtain r where r: "ring_poke ?k b (ringBuffer s) = Some r" "packet_inv 4 128 r"
      "ring_packets 4 r = ring_packets 4 (ringBuffer s)" "head_slot 4 r = (head_slot 4 (ringBuffer s))[?k := b]"
      using mouse_ring.poke_ok [OF ring, of ?k b] i by auto
    have first: "head_slot 4 r ! 0 \<noteq> 0"
      using byte i r(4) hl by (cases "?k = 0") (auto simp: starts_report_def)
    have "?k < 4" using i by auto
    then have part: "take (Suc ?k) (head_slot 4 r) = take ?k (head_slot 4 (ringBuffer s)) @ [b]"
      using r(4) hl by (simp add: take_Suc_conv_app_nth)
    have len: "length (take ?k (head_slot 4 (ringBuffer s))) = ?k" using \<open>?k < 4\<close> hl by simp
    have spec: "mouse_rx_spec (packetLength s) b (mouse_view s) =
      (if Suc ?k = packetLength s
       then (b, 0, [], push_packet (Report (take ?k (head_slot 4 (ringBuffer s)) @ [b])) (map (abs_packet (packetLength s)) (ring_packets 4 r)))
       else (b, mouseResetCount s, take ?k (head_slot 4 (ringBuffer s)) @ [b], map (abs_packet (packetLength s)) (ring_packets 4 r)))"
      using byte part0 unfolding mouse_rx_spec_def mouse_view_def prod.case len r(3) by auto
    have io: "mouse_interruptOccurred b s = (if Suc ?k = packetLength s
        then Some (kPS2IR_packetReady, s\<lparr>lastdata := b, ringBuffer := advanceHead 4 r, packetByteCount := 0, mouseResetCount := 0\<rparr>)
        else Some (kPS2IR_packetBuffering, s\<lparr>lastdata := b, ringBuffer := r, packetByteCount := Suc ?k\<rparr>))"
      using byte r(1) by (auto simp: mouse_interruptOccurred_def Let_def starts_report_def bit_and_8)
    show ?thesis
    proof (cases "Suc ?k = packetLength s")
      case True
      then have "abs_packet (packetLength s) (head_slot 4 r) = Report (take ?k (head_slot 4 (ringBuffer s)) @ [b])"
        using first by (simp add: abs_packet_def part flip: True)
      then show ?thesis using i True advance_push [OF r(2), of "abs_packet (packetLength s)"] mouse_ring.advance_inv [OF r(2)] unfolding io spec
        by (simp add: mouse_rx_inv_def mouse_view_def)
    next
      case False
      then show ?thesis using i first r(2) part unfolding io spec by (auto simp: mouse_rx_inv_def mouse_view_def)
    qed
  qed
qed

section \<open>Streams of reports\<close>

definition mouse_rx :: "u8 \<Rightarrow> mouse \<Rightarrow> mouse option" where
  "mouse_rx b s = map_option snd (mouse_interruptOccurred b s)"

lemma mouse_rx_run:
  "mouse_rx_inv s \<Longrightarrow> \<exists>s'. fold_opt mouse_rx bs s = Some s' \<and> mouse_rx_inv s' \<and>
     mouse_view s' = fold (mouse_rx_spec (packetLength s)) bs (mouse_view s)"
proof (induction bs arbitrary: s)
  case (Cons b bs)
  obtain r s1 where "mouse_interruptOccurred b s = Some (r, s1)" "mouse_rx_inv s1" "packetLength s1 = packetLength s"
    "mouse_view s1 = mouse_rx_spec (packetLength s) b (mouse_view s)" using mouse_rx_refines [OF Cons.prems] by blast
  then show ?case using Cons.IH [of s1] by (simp add: mouse_rx_def)
qed simp

definition clean_report :: "nat \<Rightarrow> u8 list \<Rightarrow> bool" where
  "clean_report len q \<longleftrightarrow> length q = len \<and> starts_report (hd q)"

text \<open>No two adjacent bytes look like the announcement of a reset.\<close>

fun no_reset :: "u8 list \<Rightarrow> bool" where
  "no_reset (a # b # xs) = (\<not> (a = kSC_Reset \<and> b = 0) \<and> no_reset (b # xs))"
| "no_reset _ = True"

lemma no_reset_append: "no_reset (xs @ ys) \<Longrightarrow> no_reset xs \<and> no_reset ys"
  by (induction xs rule: no_reset.induct) (auto elim: no_reset.elims)

lemma no_reset_last: "\<lbrakk>xs \<noteq> []; no_reset (xs @ ys)\<rbrakk> \<Longrightarrow> no_reset (last xs # ys)"
  using no_reset_append [of "butlast xs" "last xs # ys"] by (metis append.assoc append_Cons append_Nil append_butlast_last_id)

lemma spec_first:
  "\<lbrakk>prev = kSC_Reset \<longrightarrow> b \<noteq> 0; starts_report b; len \<noteq> 1\<rbrakk> \<Longrightarrow>
   mouse_rx_spec len b (prev, n, [], ps) = (b, n, [b], ps)"
  by (auto simp: mouse_rx_spec_def)

lemma spec_next:
  "\<lbrakk>prev = kSC_Reset \<longrightarrow> b \<noteq> 0; part \<noteq> []; Suc (length part) \<noteq> len\<rbrakk> \<Longrightarrow>
   mouse_rx_spec len b (prev, n, part, ps) = (b, n, part @ [b], ps)"
  by (auto simp: mouse_rx_spec_def)

lemma spec_last:
  "\<lbrakk>prev = kSC_Reset \<longrightarrow> b \<noteq> 0; part \<noteq> []; Suc (length part) = len\<rbrakk> \<Longrightarrow>
   mouse_rx_spec len b (prev, n, part, ps) = (b, 0, [], push_packet (Report (part @ [b])) ps)"
  by (auto simp: mouse_rx_spec_def)

lemma spec_report:
  assumes "len \<in> {3, 4}" "clean_report len q" "no_reset (prev # q)"
  shows "fold (mouse_rx_spec len) q (prev, n, [], ps) = (last q, 0, [], push_packet (Report q) ps)"
proof -
  have "length q = 3 \<or> length q = 4" using assms by (auto simp: clean_report_def)
  then consider a b c where "q = [a, b, c]" | a b c d where "q = [a, b, c, d]"
    by (auto simp: numeral_eq_Suc length_Suc_conv)
  then show ?thesis
  proof cases
    case 1
    then show ?thesis using assms by (auto simp: clean_report_def spec_first spec_next spec_last)
  next
    case 2
    then show ?thesis using assms by (auto simp: clean_report_def spec_first spec_next spec_last)
  qed
qed

lemma spec_reports:
  "\<lbrakk>len \<in> {3, 4}; \<forall>q \<in> set qs. clean_report len q; no_reset (prev # concat qs); length ps \<le> 31\<rbrakk> \<Longrightarrow>
   \<exists>l m. fold (mouse_rx_spec len) (concat qs) (prev, n, [], ps) = (l, m, [], take 31 (ps @ map Report qs))"
proof (induction qs arbitrary: prev n ps)
  case (Cons q qs)
  have q: "clean_report len q" "q \<noteq> []" using Cons.prems(1,2) by (auto simp: clean_report_def)
  have nr: "no_reset (prev # q)" "no_reset (last q # concat qs)"
    using Cons.prems(3) no_reset_append [of "prev # q" "concat qs"] no_reset_last [of "prev # q" "concat qs"] q(2) by simp_all
  have "fold (mouse_rx_spec len) (concat (q # qs)) (prev, n, [], ps) =
    fold (mouse_rx_spec len) (concat qs) (last q, 0, [], push_packet (Report q) ps)"
    using spec_report [OF Cons.prems(1) q(1) nr(1)] by simp
  moreover have "length (push_packet (Report q) ps) \<le> 31" using Cons.prems(4) by (simp add: push_packet_def)
  ultimately obtain l m where "fold (mouse_rx_spec len) (concat (q # qs)) (prev, n, [], ps) =
    (l, m, [], take 31 (push_packet (Report q) ps @ map Report qs))"
    using Cons.IH [OF Cons.prems(1) _ nr(2)] Cons.prems(2) by (metis list.set_intros(2))
  moreover have "take 31 (push_packet (Report q) ps @ map Report qs) = take 31 (ps @ map Report (q # qs))"
    using Cons.prems(4) by (cases "length ps < 31") (simp_all add: push_packet_def del: take_append, simp)
  ultimately show ?case by metis
qed simp

text \<open>
  C29. Framing: a stream of well-formed reports (the first byte of each carries the synchronisation
  bit, and no reset announcement occurs) is cut into exactly these reports, of three or four bytes
  as the mouse type asks; the first 31 unread ones are buffered unchanged and in order.
\<close>

theorem mouse_framing:
  assumes "mouse_rx_inv s" and "packetByteCount s = 0" and "ring_packets 4 (ringBuffer s) = []"
    and "\<forall>q \<in> set qs. clean_report (packetLength s) q" and "no_reset (lastdata s # concat qs)"
  shows "\<exists>s'. fold_opt mouse_rx (concat qs) s = Some s' \<and> mouse_rx_inv s' \<and> packetByteCount s' = 0 \<and>
    map (abs_packet (packetLength s')) (ring_packets 4 (ringBuffer s')) = take 31 (map Report qs)"
proof -
  obtain s' where s': "fold_opt mouse_rx (concat qs) s = Some s'" "mouse_rx_inv s'"
    "mouse_view s' = fold (mouse_rx_spec (packetLength s)) (concat qs) (mouse_view s)"
    using mouse_rx_run [OF assms(1)] by blast
  have v: "mouse_view s = (lastdata s, mouseResetCount s, [], [])" using assms(2,3) by (simp add: mouse_view_def)
  have "packetLength s \<in> {3, 4}" using assms(1) by (simp add: mouse_rx_inv_def)
  from spec_reports [OF this assms(4,5), of "[]" "mouseResetCount s"] obtain l m where
    "mouse_view s' = (l, m, [], take 31 (map Report qs))" using s'(3) v by auto
  moreover have "length (head_slot 4 (ringBuffer s')) = 4"
    using s'(2) by (intro mouse_ring.head_slot_length) (simp add: mouse_rx_inv_def)
  ultimately have "packetByteCount s' = 0"
    "map (abs_packet (packetLength s')) (ring_packets 4 (ringBuffer s')) = take 31 (map Report qs)"
    by (auto simp: mouse_view_def)
  then show ?thesis using s' by blast
qed

lemma init_rx_inv: "mouse_rx_inv init_mouse" "ring_packets 4 (ringBuffer init_mouse) = []"
  using mouse_ring.new_ring_ok [of "0 :: u8"] by (simp_all add: mouse_rx_inv_def init_mouse_def)

theorem mouse_framing_witness:
  "\<exists>s'. fold_opt mouse_rx [0x08, 1, 2, 0x19, 0xAA, 5] init_mouse = Some s' \<and>
     map (abs_packet (packetLength s')) (ring_packets 4 (ringBuffer s')) = [Report [0x08, 1, 2], Report [0x19, 0xAA, 5]]"
proof -
  have "\<forall>q \<in> set [[0x08, 1, 2], [0x19, 0xAA, 5 :: u8]]. clean_report (packetLength init_mouse) q"
    "no_reset (lastdata init_mouse # concat [[0x08, 1, 2], [0x19, 0xAA, 5]])" "packetByteCount init_mouse = 0"
    by (simp_all add: clean_report_def starts_report_def init_mouse_def bit_and_8 [symmetric])
  from mouse_framing [OF init_rx_inv(1) this(3) init_rx_inv(2) this(1,2)] show ?thesis by auto
qed

section \<open>The middle button machine\<close>

definition waiting :: "mbuttonstate \<Rightarrow> bool" where
  "waiting st \<longleftrightarrow> st = STATE_WAIT4TWO \<or> st = STATE_WAIT4NONE"

definition mb_active :: "mouse \<Rightarrow> bool" where
  "mb_active s \<longleftrightarrow> fakemiddlebutton s \<and> 2 < sint (buttonCount s)"

text \<open>The timer is armed, and a button is pending, exactly while the machine waits.\<close>

definition mb_inv :: "mouse \<Rightarrow> bool" where
  "mb_inv s \<longleftrightarrow> (mb_active s \<longrightarrow> buttonTimer s) \<and> timerArmed s = waiting (mb_state s) \<and>
     (pendingbuttons s \<noteq> 0) = waiting (mb_state s)"

lemma mb_wait_eq:
  "mb_wait b t st s = Some s' \<Longrightarrow> s' = s\<lparr>pendingbuttons := b, buttontime := t, timerArmed := True, mb_state := st\<rparr>"
  by (auto simp: mb_wait_def setTimerTimeout_def split: if_splits)

lemma mb_settle_eq:
  "mb_settle b s = Some s' \<Longrightarrow> s' = s\<lparr>pendingbuttons := 0, timerArmed := False,
     mb_state := (if b = 0 then STATE_NOBUTTONS else STATE_NOOP)\<rparr>"
  by (auto simp: mb_settle_def cancelTimer_def split: if_splits)

definition mb_framed :: "u64 \<Rightarrow> mouse \<Rightarrow> mouse \<Rightarrow> bool" where
  "mb_framed now s s' \<longleftrightarrow> s' = s\<lparr>mb_state := mb_state s', pendingbuttons := pendingbuttons s',
     buttontime := buttontime s', timerArmed := timerArmed s', posted := posted s'\<rparr> \<and>
     (\<exists>bs. posted s' = posted s @ map (\<lambda>b. RelativePointer 0 0 b now) bs)"

lemma mb_framedI:
  "mb_framed now s (s\<lparr>mb_state := st\<rparr>)"
  "mb_framed now s (s\<lparr>pendingbuttons := p, timerArmed := a, mb_state := st\<rparr>)"
  "mb_framed now s (s\<lparr>pendingbuttons := p, buttontime := t, timerArmed := a, mb_state := st\<rparr>)"
  "mb_framed now s (s\<lparr>posted := posted s @ [RelativePointer 0 0 b now], pendingbuttons := p, timerArmed := a, mb_state := st\<rparr>)"
  by (simp_all add: mb_framed_def) (rule exI [of _ "[b]"], simp)

lemma mb_framed_refl [simp]: "mb_framed now s s"
  by (simp add: mb_framed_def)

lemma mb_step_frame: "mb_step b now t from s = Some s' \<Longrightarrow> mb_framed now s s'"
  by (cases "mb_state s")
    (auto simp: mb_step_def cancelTimer_def Let_def dispatchRelativePointerEventX_def mb_framedI
      split: if_splits dest!: mb_wait_eq mb_settle_eq)

lemma middleButton_frame: "middleButton clk b now from s = Some (b', s') \<Longrightarrow> mb_framed now s s'"
  by (auto simp: middleButton_def dest: mb_step_frame split: if_splits elim!: bind_eq_SomeE)

lemma middleButton_ok:
  assumes "mb_active s \<longrightarrow> buttonTimer s" "(pendingbuttons s \<noteq> 0) = waiting (mb_state s)"
    and "if from = fromTimer then waiting (mb_state s) \<and> \<not> timerArmed s \<and> mb_active s
      else timerArmed s = waiting (mb_state s)"
  shows "\<exists>b' s'. middleButton clk b now from s = Some (b', s') \<and> mb_inv s'"
proof (cases "mb_active s")
  case True
  then have "buttonTimer s" using assms(1) by simp
  then have "\<exists>s'. mb_step b now t from s = Some s' \<and> mb_inv s'" for t
    using assms(2,3) True
    by (cases "mb_state s")
      (auto simp: mb_step_def mb_wait_def mb_settle_def setTimerTimeout_def cancelTimer_def Let_def waiting_def
        dispatchRelativePointerEventX_def mb_inv_def mb_active_def split: if_splits)
  then obtain s' where "mb_step b now (to_ns clk now) from s = Some s'" "mb_inv s'" by blast
  then show ?thesis using True by (simp add: middleButton_def mb_active_def)
next
  case False
  then have "middleButton clk b now from s = Some (b, s)" by (auto simp: middleButton_def mb_active_def)
  moreover have "mb_inv s" using assms False by (cases "from") (auto simp: mb_inv_def)
  ultimately show ?thesis by blast
qed

section \<open>The events the driver posts\<close>

fun posted_ok :: "pointer_event \<Rightarrow> bool" where
  "posted_ok (RelativePointer dx dy b t) \<longleftrightarrow> - 256 \<le> sint dx \<and> sint dx \<le> 255 \<and> - 256 \<le> sint dy \<and> sint dy \<le> 256"
| "posted_ok (ScrollWheel z t) \<longleftrightarrow> - 8 \<le> sint z \<and> sint z \<le> 8"

definition inverters_ok :: "mouse \<Rightarrow> bool" where
  "inverters_ok s \<longleftrightarrow> mouseyinverter s \<in> {1, - 1} \<and> scrollyinverter s \<in> {1, - 1}"

lemma uint_u8_le [simp]: "- 256 \<le> uint (b :: u8)" "- uint b \<le> 256" "uint b \<le> 255"
  using uint_u8 [of b] by linarith+

lemma dx_range: "- 256 \<le> sint (mouse_dx p)" "sint (mouse_dx p) \<le> 255"
  using uint_u8(2) [of "p ! 1"] by (simp_all add: sint_mouse_dx)

lemma sint_minus_dy: "sint (- mouse_dy p) = uint (p ! 2) - (if bit (p ! 0) 5 then 256 else 0)"
  using sint_delta(1) [OF uint_u8] and_single_bit [of 5 "p ! 0"] unfolding mouse_dy_def extend_byte by simp

lemma dy_range:
  assumes "i \<in> {1, - 1}" shows "- 256 \<le> sint (i * mouse_dy p)" "sint (i * mouse_dy p) \<le> 256"
  using assms uint_u8(2) [of "p ! 2"] by (auto simp: sint_mouse_dy sint_minus_dy)

lemma dz_range: "- 8 \<le> sint (mouse_dz p)" "sint (mouse_dz p) < 8"
  using signed_take_bit_int_greater_eq_minus_exp [of 3 "uint (p ! 3)"] signed_take_bit_int_less_exp [of 3 "uint (p ! 3)"]
  by (simp_all add: sint_mouse_dz)

lemma ucast_scast_u16: "ucast (scast (z :: u16) :: u32) = z"
proof (rule bit_word_eqI)
  fix n assume "n < LENGTH(16)"
  then have "n < 16" "min 15 n = n" by auto
  then show "bit (ucast (scast z :: u32) :: u16) n = bit z n" by (simp add: bit_unsigned_iff bit_signed_iff)
qed

lemma ucast_minus_u16: "ucast (- x :: u32) = (- ucast x :: u16)"
proof transfer
  fix x :: int
  have "take_bit 16 (- take_bit 32 x) = take_bit 16 (- take_bit 16 (take_bit 32 x))" by (simp only: take_bit_minus)
  then show "take_bit LENGTH(16) (take_bit LENGTH(32) (- x)) = take_bit LENGTH(16) (- take_bit LENGTH(32) x)"
    by (simp add: take_bit_minus)
qed

lemmas ucast_scast_word = ucast_scast_u16 ucast_minus_u16

lemma sint_minus_dz: "sint (- mouse_dz p) = - sint (mouse_dz p)"
proof -
  have eq: "- mouse_dz p = word_of_int (- sint (mouse_dz p))" by simp
  have small: "sint (word_of_int k :: u16) = k" if "- 8 \<le> k" "k \<le> 8" for k
    using that by (simp add: signed_of_int signed_take_bit_int_eq_self)
  show ?thesis unfolding eq using dz_range [of p] by (intro small) linarith+
qed

lemma scroll_range:
  assumes "i \<in> {1, - 1}"
  shows "- 8 \<le> sint (ucast (- i * scast (mouse_dz p) :: u32) :: u16)" "sint (ucast (- i * scast (mouse_dz p) :: u32) :: u16) \<le> 8"
  using assms dz_range [of p] by (auto simp: ucast_scast_word sint_minus_dz)

text \<open>
  Decoding: without the simulated middle button a packet becomes one pointer event, with the
  9-bit two's complement x displacement, the negated 9-bit y displacement, the three button bits
  (and the fourth and fifth button of an Explorer mouse), followed by a scroll event exactly when
  the low four bits of the fourth byte, read as a signed number, are not zero.
\<close>

theorem mouse_report:
  assumes "\<not> fakemiddlebutton s" and "mouseyinverter s = 1" and "scrollyinverter s = 1"
  shows "\<exists>s' dx dy b z t. dispatchRelativePointerEventWithPacket clk p n s = Some s' \<and>
    posted s' = posted s @ RelativePointer dx dy b t # (if z = 0 then [] else [ScrollWheel z t]) \<and>
    sint dx = uint (p ! 1) - (if bit (p ! 0) 4 then 256 else 0) \<and>
    sint dy = (if bit (p ! 0) 5 then 256 else 0) - uint (p ! 2) \<and>
    sint z = (if 3 < n then - signed_take_bit 3 (uint (p ! 3)) else 0) \<and>
    b = mouse_buttons (mouse_type s) n p \<and> lastbuttons s' = b"
proof -
  define z where "z = (if 3 < n then - mouse_dz p else 0)"
  have "(- mouse_dz p = 0) = (mouse_dz p = 0)" by simp
  then have run: "\<exists>s'. dispatchRelativePointerEventWithPacket clk p n s = Some s' \<and>
    posted s' = posted s @ RelativePointer (mouse_dx p) (mouse_dy p) (mouse_buttons (mouse_type s) n p)
      (uptime clk (clock_reads s)) # (if z = 0 then [] else [ScrollWheel z (uptime clk (clock_reads s))]) \<and>
    lastbuttons s' = mouse_buttons (mouse_type s) n p"
    using assms by (auto simp: dispatchRelativePointerEventWithPacket_def Let_def read_uptime_def middleButton_def
        dispatchRelativePointerEventX_def dispatchScrollWheelEventX_def z_def ucast_scast_word)
  moreover have "sint z = (if 3 < n then - signed_take_bit 3 (uint (p ! 3)) else 0)"
    by (simp add: z_def sint_minus_dz sint_mouse_dz)
  ultimately show ?thesis using sint_mouse_dx [of p] sint_mouse_dy [of p] by blast
qed

theorem mouse_report_witness:
  "\<exists>s' dx dy b t. dispatchRelativePointerEventWithPacket sample_clock [0x19, 0xFF, 2, 0] 3 init_mouse = Some s' \<and>
     posted s' = [RelativePointer dx dy b t] \<and> sint dx = - 1 \<and> sint dy = - 2 \<and> b = 1"
proof -
  have "\<not> fakemiddlebutton init_mouse" "mouseyinverter init_mouse = 1" "scrollyinverter init_mouse = 1"
    "posted init_mouse = []" by (simp_all add: init_mouse_def)
  moreover have "bit (0x19 :: u8) 4" "\<not> bit (0x19 :: u8) 5" by simp_all
  moreover have "mouse_buttons (mouse_type init_mouse) 3 [0x19, 0xFF, 2, 0] = 1" by code_simp
  ultimately show ?thesis using mouse_report [of init_mouse sample_clock "[0x19, 0xFF, 2, 0]" 3]
    by (auto simp: signed_eq_0_iff)
qed

section \<open>Runs of the driver\<close>

datatype mouse_event = MouseByte u8 | MouseWork | MouseTimer

text \<open>At most 31 packets are buffered, so 32 rounds of the work loop suffice. The timer fires once.\<close>

definition mouse_exec :: "kclock \<Rightarrow> mouse_event \<Rightarrow> mouse \<Rightarrow> mouse option" where
  "mouse_exec clk ev s = (case ev of
     MouseByte b \<Rightarrow> mouse_rx b s
   | MouseWork \<Rightarrow> mouse_packetReady clk 32 s
   | MouseTimer \<Rightarrow> if timerArmed s then onButtonTimer clk (s\<lparr>timerArmed := False\<rparr>) else Some s)"

definition mouse_data_ok :: "mouse \<Rightarrow> bool" where
  "mouse_data_ok s \<longleftrightarrow> mb_inv s \<and> (timerArmed s \<longrightarrow> mb_active s) \<and> inverters_ok s \<and> (\<forall>e \<in> set (posted s). posted_ok e)"

definition mouse_inv :: "mouse \<Rightarrow> bool" where
  "mouse_inv s \<longleftrightarrow> mouse_rx_inv s \<and> mouse_data_ok s"

text \<open>What the interrupt routine owns; handling a packet leaves it alone.\<close>

definition rx_part :: "mouse \<Rightarrow> nat \<times> nat \<times> u8 list" where
  "rx_part s = (packetByteCount s, packetLength s, head_slot 4 (ringBuffer s))"

lemma mb_framedD:
  assumes "mb_framed now s s'"
  shows "ringBuffer s' = ringBuffer s" "rx_part s' = rx_part s" "inverters_ok s' = inverters_ok s"
    "mb_active s' = mb_active s" "mouseyinverter s' = mouseyinverter s" "scrollyinverter s' = scrollyinverter s"
    "(\<forall>e \<in> set (posted s). posted_ok e) \<Longrightarrow> (\<forall>e \<in> set (posted s'). posted_ok e)"
proof -
  obtain bs where bs: "posted s' = posted s @ map (\<lambda>b. RelativePointer 0 0 b now) bs" using assms by (auto simp: mb_framed_def)
  show "(\<forall>e \<in> set (posted s). posted_ok e) \<Longrightarrow> (\<forall>e \<in> set (posted s'). posted_ok e)" unfolding bs by auto
  have e: "s' = s\<lparr>mb_state := mb_state s', pendingbuttons := pendingbuttons s',
    buttontime := buttontime s', timerArmed := timerArmed s', posted := posted s'\<rparr>" using assms by (simp add: mb_framed_def)
  show "ringBuffer s' = ringBuffer s" "rx_part s' = rx_part s" "inverters_ok s' = inverters_ok s"
    "mb_active s' = mb_active s" "mouseyinverter s' = mouseyinverter s" "scrollyinverter s' = scrollyinverter s"
    by (subst e, simp add: rx_part_def inverters_ok_def mb_active_def)+
qed

lemma data_ok_update [simp]:
  "mouse_data_ok (s\<lparr>ringBuffer := r\<rparr>) = mouse_data_ok s" "mouse_data_ok (s\<lparr>clock_reads := n\<rparr>) = mouse_data_ok s"
  "mouse_data_ok (s\<lparr>packetByteCount := n\<rparr>) = mouse_data_ok s" "mouse_data_ok (s\<lparr>lastdata := b\<rparr>) = mouse_data_ok s"
  "mouse_data_ok (s\<lparr>mouseResetCount := n\<rparr>) = mouse_data_ok s"
  by (simp_all add: mouse_data_ok_def mb_inv_def mb_active_def inverters_ok_def)

lemma middleButton_data:
  assumes "mouse_data_ok s"
  shows "\<exists>b' s'. middleButton clk b now fromMouse s = Some (b', s') \<and> mb_framed now s s' \<and> mouse_data_ok s'"
proof -
  have inv: "mb_inv s" "timerArmed s \<longrightarrow> mb_active s" "inverters_ok s" "\<forall>e \<in> set (posted s). posted_ok e"
    using assms by (auto simp: mouse_data_ok_def)
  obtain b' s' where run: "middleButton clk b now fromMouse s = Some (b', s')" and inv': "mb_inv s'"
    using middleButton_ok [of s fromMouse clk b now] inv(1) by (auto simp: mb_inv_def)
  note fr = middleButton_frame [OF run]
  have "timerArmed s' \<longrightarrow> mb_active s'"
  proof (cases "mb_active s")
    case False
    then have "s' = s" using run by (auto simp: middleButton_def mb_active_def)
    then show ?thesis using inv(2) by simp
  qed (use mb_framedD(4) [OF fr] in simp)
  then show ?thesis using run fr inv' mb_framedD [OF fr] inv by (auto simp: mouse_data_ok_def)
qed

lemma mouse_dispatch_ok:
  assumes "mouse_data_ok s"
  shows "\<exists>s'. dispatchRelativePointerEventWithPacket clk p n s = Some s' \<and> mouse_data_ok s' \<and>
    ringBuffer s' = ringBuffer s \<and> rx_part s' = rx_part s"
proof -
  let ?now = "uptime clk (clock_reads s)" and ?s = "s\<lparr>clock_reads := clock_reads s + 1\<rparr>"
  have "mouse_data_ok ?s" using assms by simp
  from middleButton_data [OF this] obtain b s1 where
    run: "middleButton clk (mouse_buttons (mouse_type s) n p) ?now fromMouse ?s = Some (b, s1)"
    and fr: "mb_framed ?now ?s s1" and ok: "mouse_data_ok s1" by blast
  have inv: "mouseyinverter s1 \<in> {1, - 1}" "scrollyinverter s1 \<in> {1, - 1}" using ok by (auto simp: mouse_data_ok_def inverters_ok_def)
  define evs where "evs = RelativePointer (mouse_dx p) (mouseyinverter s1 * mouse_dy p) b ?now #
    (if n > 3 \<and> mouse_dz p \<noteq> 0 then [ScrollWheel (ucast (- scrollyinverter s1 * scast (mouse_dz p))) ?now] else [])"
  have "dispatchRelativePointerEventWithPacket clk p n s = Some (s1\<lparr>lastbuttons := b, posted := posted s1 @ evs\<rparr>)"
    using run by (simp add: dispatchRelativePointerEventWithPacket_def Let_def read_uptime_def evs_def
        dispatchRelativePointerEventX_def dispatchScrollWheelEventX_def)
  moreover have "\<forall>e \<in> set evs. posted_ok e"
    using dx_range [of p] dy_range [OF inv(1), of p] scroll_range [OF inv(2), of p] by (simp add: evs_def)
  then have "mouse_data_ok (s1\<lparr>lastbuttons := b, posted := posted s1 @ evs\<rparr>)"
    using ok by (auto simp: mouse_data_ok_def mb_inv_def mb_active_def inverters_ok_def)
  ultimately show ?thesis using mb_framedD(1,2) [OF fr] by (simp add: rx_part_def)
qed

lemma head_slot_advanceTail [simp]: "head_slot len (advanceTail n r) = head_slot len r"
  by (simp add: advanceTail_def Let_def head_slot_def ring_slot_def)

interpretation mouse_work: packet_consumer ring_poke "advanceHead 4" "ring_peek 4" "advanceTail 4" ring_count
  "packet_inv 4 128" "ring_packets 4" "head_slot 4" 4 "128 div 4 - 1"
  ringBuffer "\<lambda>s. mouse_data_ok s \<and> rx_part s = rx" "mouse_packetStep clk" "mouse_packetReady clk"
proof
  fix s :: mouse and p :: "u8 list" and n q
  show "mouse_packetReady clk (Suc n) s = (if 4 \<le> ring_count (ringBuffer s)
    then Option.bind (ring_peek 4 (ringBuffer s)) (\<lambda>p. Option.bind (mouse_packetStep clk p s) (mouse_packetReady clk n)) else Some s)"
    by simp
  show "\<exists>s'. mouse_packetStep clk p s = Some s' \<and> (mouse_data_ok s' \<and> rx_part s' = rx) \<and>
    ringBuffer s' = advanceTail 4 (ringBuffer s)" if "mouse_data_ok s \<and> rx_part s = rx"
    using mouse_dispatch_ok [of s clk p "packetLength s"] that by (auto simp: mouse_packetStep_def rx_part_def)
  show "length p = 4" if "packet_inv 4 128 q" "p \<in> set (ring_packets 4 q)"
    using mouse_ring.packets_member_length [OF that] .
qed

lemma mouse_work_ok:
  assumes "mouse_inv s"
  shows "\<exists>s'. mouse_packetReady clk 32 s = Some s' \<and> mouse_inv s' \<and> ring_packets 4 (ringBuffer s') = [] \<and>
    fold_opt (mouse_packetStep clk) (ring_packets 4 (ringBuffer s)) s = Some s'"
proof -
  have inv: "packet_inv 4 128 (ringBuffer s)" "mouse_data_ok s" using assms by (auto simp: mouse_inv_def mouse_rx_inv_def)
  have "length (ring_packets 4 (ringBuffer s)) < 32" using mouse_ring.packets_le [OF inv(1)] by simp
  then obtain s' where "mouse_packetReady clk 32 s = Some s'"
    "fold_opt (mouse_packetStep clk) (ring_packets 4 (ringBuffer s)) s = Some s'" "mouse_data_ok s'" "rx_part s' = rx_part s"
    "ring_packets 4 (ringBuffer s') = []" "packet_inv 4 128 (ringBuffer s')"
    using mouse_work.run_drains [of s "rx_part s" 32 clk] inv by auto
  then show ?thesis using assms by (auto simp: mouse_inv_def mouse_rx_inv_def rx_part_def)
qed

lemma mouse_exec_ok: "mouse_inv s \<Longrightarrow> \<exists>s'. mouse_exec clk ev s = Some s' \<and> mouse_inv s'"
proof (cases ev)
  case (MouseByte b)
  assume inv: "mouse_inv s"
  then obtain r s' where run: "mouse_interruptOccurred b s = Some (r, s')" "mouse_rx_inv s'"
    using mouse_rx_refines [of s b] by (auto simp: mouse_inv_def)
  have "mouse_data_ok s'" using run(1) inv
    by (auto simp: mouse_interruptOccurred_def mouse_mark_def Let_def mouse_inv_def split: if_splits elim!: bind_eq_SomeE)
  then show ?thesis using run MouseByte by (simp add: mouse_exec_def mouse_rx_def mouse_inv_def)
next
  case MouseWork
  assume "mouse_inv s"
  then show ?thesis using mouse_work_ok [of s clk] MouseWork by (auto simp: mouse_exec_def)
next
  case MouseTimer
  assume inv: "mouse_inv s"
  let ?s = "s\<lparr>timerArmed := False, clock_reads := clock_reads s + 1\<rparr>" and ?now = "uptime clk (clock_reads s)"
  show ?thesis
  proof (cases "timerArmed s")
    case True
    have "mb_inv s" "mb_active s" using inv True by (auto simp: mouse_inv_def mouse_data_ok_def)
    then obtain b s' where run: "middleButton clk (lastbuttons s) ?now fromTimer ?s = Some (b, s')" "mb_inv s'"
      using middleButton_ok [of ?s fromTimer clk "lastbuttons s" ?now] True by (auto simp: mb_inv_def mb_active_def)
    note fr = mb_framedD [OF middleButton_frame [OF run(1)]]
    have "mouse_data_ok s'" using inv run(2) fr \<open>mb_active s\<close>
      by (auto simp: mouse_inv_def mouse_data_ok_def mb_active_def inverters_ok_def)
    moreover have "mouse_rx_inv s'" using inv fr(1,2) by (simp add: mouse_inv_def mouse_rx_inv_def rx_part_def)
    ultimately show ?thesis using run(1) True MouseTimer
      by (simp add: mouse_exec_def onButtonTimer_def read_uptime_def mouse_inv_def)
  qed (use inv MouseTimer in \<open>simp add: mouse_exec_def\<close>)
qed

lemma mouse_run_ok: "mouse_inv s \<Longrightarrow> \<exists>s'. fold_opt (mouse_exec clk) evs s = Some s' \<and> mouse_inv s'"
proof (induction evs arbitrary: s)
  case (Cons ev evs)
  obtain s1 where "mouse_exec clk ev s = Some s1" "mouse_inv s1" using mouse_exec_ok [OF Cons.prems] by blast
  then show ?case using Cons.IH [of s1] by simp
qed simp

section \<open>Properties\<close>

definition mouse_ready :: "mouse \<Rightarrow> bool" where
  "mouse_ready s \<longleftrightarrow> packet_inv 4 128 (ringBuffer s) \<and> packetLength s \<in> {3, 4} \<and> packetByteCount s = 0 \<and>
     mb_state s = STATE_NOBUTTONS \<and> pendingbuttons s = 0 \<and> \<not> timerArmed s \<and> (mb_active s \<longrightarrow> buttonTimer s) \<and>
     inverters_ok s \<and> posted s = []"

lemma ready_inv: "mouse_ready s \<Longrightarrow> mouse_inv s"
  by (auto simp: mouse_ready_def mouse_inv_def mouse_rx_inv_def mouse_data_ok_def mb_inv_def waiting_def)

text \<open>
  C28. Whatever bytes arrive, and however they interleave with the work loop and the button timer, the
  mouse driver writes inside its buffer, uses no missing timer, its work loop returns, the timer is
  armed exactly while the middle button machine waits, and every event it posts is within the
  9-bit range of the device (scrolling within a nibble).
\<close>

theorem mouse_input_safe:
  assumes "mouse_ready s"
  shows "\<exists>s'. fold_opt (mouse_exec clk) evs s = Some s' \<and> mouse_rx_inv s' \<and>
    timerArmed s' = waiting (mb_state s') \<and> (pendingbuttons s' \<noteq> 0) = waiting (mb_state s') \<and>
    (\<forall>e \<in> set (posted s'). posted_ok e)"
proof -
  obtain s' where "fold_opt (mouse_exec clk) evs s = Some s'" "mouse_inv s'"
    using mouse_run_ok [OF ready_inv [OF assms]] by blast
  then show ?thesis by (auto simp: mouse_inv_def mouse_data_ok_def mb_inv_def)
qed

definition sample_mouse :: mouse where
  "sample_mouse = init_mouse\<lparr>buttonTimer := True, fakemiddlebutton := True, maxmiddleclicktime := 7\<rparr>"

lemma sample_ready: "mouse_ready sample_mouse"
  using mouse_ring.new_ring_ok [of "0 :: u8"]
  by (simp add: mouse_ready_def sample_mouse_def init_mouse_def inverters_ok_def mb_active_def)

theorem mouse_input_safe_witness:
  "\<exists>s'. fold_opt (mouse_exec sample_clock) [MouseByte 0x09, MouseByte 0, MouseByte 0, MouseWork, MouseTimer] sample_mouse =
     Some s' \<and> (\<forall>e \<in> set (posted s'). posted_ok e)"
  using mouse_input_safe [OF sample_ready] by blast

text \<open>
  The work loop of the mouse driver always terminates: it handles every buffered packet once, in
  the order of arrival, and leaves the buffer empty.
\<close>

theorem mouse_packetReady_drains:
  assumes "mouse_inv s"
  shows "\<exists>s'. mouse_packetReady clk 32 s = Some s' \<and> ring_packets 4 (ringBuffer s') = [] \<and>
    fold_opt (mouse_packetStep clk) (ring_packets 4 (ringBuffer s)) s = Some s'"
  using mouse_work_ok [OF assms] by blast

theorem mouse_packetReady_drains_witness:
  "\<exists>s'. mouse_packetReady sample_clock 32 sample_mouse = Some s' \<and> ring_packets 4 (ringBuffer s') = []"
  using mouse_packetReady_drains [OF ready_inv [OF sample_ready]] by blast

lemmas mb_defs = middleButton_def mb_active_def mb_step_def mb_wait_def mb_settle_def mb_output_def setTimerTimeout_def
  cancelTimer_def dispatchRelativePointerEventX_def Let_def

lemma single_button:
  assumes "b \<in> {1, 2 :: u32}"
  shows "b AND 4 = 0" "b \<noteq> 3" "b \<noteq> 0" "b AND NOT 3 = 0" "b AND 3 \<noteq> 3" "0 \<noteq> b"
  using assms by auto

lemma mb_press:
  assumes "mb_active s" "buttonTimer s" "mb_state s = STATE_NOBUTTONS" "b \<in> {1, 2}"
  shows "middleButton clk b t fromMouse s =
    Some (0, s\<lparr>pendingbuttons := b, buttontime := to_ns clk t, timerArmed := True, mb_state := STATE_WAIT4TWO\<rparr>)"
  using assms(1-3) single_button [OF assms(4)] by (simp add: mb_defs)

text \<open>
  C30. The simulated middle button: pressing one button and then, in time, the other, and releasing
  them one after the other, in time, is reported as the middle button going down and up again;
  no event with the left or the right button is posted, and the machine is back in its first state.
\<close>

theorem mouse_middle_click:
  assumes "mb_active s" and "buttonTimer s" and "mb_state s = STATE_NOBUTTONS" and "a \<in> {1, 2}" and "b \<in> {1, 2}"
    and "to_ns clk t1 - to_ns clk t0 \<le> maxmiddleclicktime s" and "to_ns clk t3 - to_ns clk t2 \<le> maxmiddleclicktime s"
  shows "\<exists>s1 s2 s3 s4. middleButton clk a t0 fromMouse s = Some (0, s1) \<and> middleButton clk 3 t1 fromMouse s1 = Some (4, s2) \<and>
    middleButton clk b t2 fromMouse s2 = Some (0, s3) \<and> middleButton clk 0 t3 fromMouse s3 = Some (0, s4) \<and>
    posted s4 = posted s \<and> mb_state s4 = STATE_NOBUTTONS \<and> \<not> timerArmed s4"
proof -
  define s1 where "s1 = s\<lparr>pendingbuttons := a, buttontime := to_ns clk t0, timerArmed := True, mb_state := STATE_WAIT4TWO\<rparr>"
  define s2 where "s2 = s1\<lparr>pendingbuttons := 0, timerArmed := False, mb_state := STATE_MIDDLE\<rparr>"
  define s3 where "s3 = s2\<lparr>pendingbuttons := b, buttontime := to_ns clk t2, timerArmed := True, mb_state := STATE_WAIT4NONE\<rparr>"
  define s4 where "s4 = s3\<lparr>pendingbuttons := 0, timerArmed := False, mb_state := STATE_NOBUTTONS\<rparr>"
  have "middleButton clk a t0 fromMouse s = Some (0, s1)" using mb_press [OF assms(1-4)] by (simp add: s1_def)
  moreover have "middleButton clk 3 t1 fromMouse s1 = Some (4, s2)"
    using assms(1,2,6) by (simp add: mb_defs s1_def s2_def not_less)
  moreover have "middleButton clk b t2 fromMouse s2 = Some (0, s3)"
    using assms(1,2) single_button [OF assms(5)] by (simp add: mb_defs s1_def s2_def s3_def)
  moreover have "middleButton clk 0 t3 fromMouse s3 = Some (0, s4)"
    using assms(1,2,7) by (simp add: mb_defs s1_def s2_def s3_def s4_def not_less)
  moreover have "posted s4 = posted s \<and> mb_state s4 = STATE_NOBUTTONS \<and> \<not> timerArmed s4"
    by (simp add: s1_def s2_def s3_def s4_def)
  ultimately show ?thesis by blast
qed

theorem mouse_middle_click_witness:
  "\<exists>s1 s2. middleButton sample_clock 1 3 fromMouse sample_mouse = Some (0, s1) \<and>
     middleButton sample_clock 3 8 fromMouse s1 = Some (4, s2)"
proof -
  have "mb_active sample_mouse" "buttonTimer sample_mouse" "mb_state sample_mouse = STATE_NOBUTTONS"
    "(1 :: u32) \<in> {1, 2}" "to_ns sample_clock 8 - to_ns sample_clock 3 \<le> maxmiddleclicktime sample_mouse"
    by (simp_all add: sample_mouse_def init_mouse_def mb_active_def sample_clock_def)
  from mouse_middle_click [OF this(1-4) this(4) this(5) this(5)] show ?thesis by blast
qed

text \<open>
  The simulation does not swallow clicks: a single button pressed and released again, at any
  speed, is reported going down before it is reported up.
\<close>

theorem mouse_single_click:
  assumes "mb_active s" and "buttonTimer s" and "mb_state s = STATE_NOBUTTONS" and "b \<in> {1, 2}"
  shows "\<exists>s1 s2. middleButton clk b t0 fromMouse s = Some (0, s1) \<and> middleButton clk 0 t1 fromMouse s1 = Some (0, s2) \<and>
    posted s1 = posted s \<and> posted s2 = posted s @ [RelativePointer 0 0 b t1] \<and> mb_state s2 = STATE_NOBUTTONS"
proof -
  define s1 where "s1 = s\<lparr>pendingbuttons := b, buttontime := to_ns clk t0, timerArmed := True, mb_state := STATE_WAIT4TWO\<rparr>"
  have "middleButton clk b t0 fromMouse s = Some (0, s1)" using mb_press [OF assms] by (simp add: s1_def)
  moreover have "middleButton clk 0 t1 fromMouse s1 = Some (0, s1\<lparr>posted := posted s @ [RelativePointer 0 0 b t1],
    pendingbuttons := 0, timerArmed := False, mb_state := STATE_NOBUTTONS\<rparr>)"
    using assms(1,2) single_button [OF assms(4)] by (simp add: mb_defs s1_def)
  ultimately show ?thesis by (simp add: s1_def)
qed

theorem mouse_single_click_witness:
  "\<exists>s1 s2. middleButton sample_clock 2 3 fromMouse sample_mouse = Some (0, s1) \<and>
     middleButton sample_clock 0 8 fromMouse s1 = Some (0, s2) \<and> posted s2 = [RelativePointer 0 0 2 8]"
proof -
  have "mb_active sample_mouse" "buttonTimer sample_mouse" "mb_state sample_mouse = STATE_NOBUTTONS" "posted sample_mouse = []"
    by (simp_all add: sample_mouse_def init_mouse_def mb_active_def)
  with mouse_single_click [of sample_mouse 2 sample_clock 3 8] show ?thesis by auto
qed

definition reported_buttons :: "pointer_event list \<Rightarrow> u32 list" where
  "reported_buttons evs = concat (map (\<lambda>e. case e of RelativePointer _ _ b _ \<Rightarrow> [b] | ScrollWheel _ _ \<Rightarrow> []) evs)"

lemma press_dispatch:
  assumes "mb_active s" "buttonTimer s" "mb_state s = STATE_NOBUTTONS" "b \<in> {1, 2}" "mouse_buttons (mouse_type s) n p = b"
  shows "\<exists>s1. dispatchRelativePointerEventWithPacket clk p n s = Some s1 \<and> mb_active s1 \<and> buttonTimer s1 \<and> timerArmed s1 \<and>
    mb_state s1 = STATE_WAIT4TWO \<and> pendingbuttons s1 = b \<and> lastbuttons s1 = 0 \<and> mouse_type s1 = mouse_type s \<and>
    reported_buttons (posted s1) = reported_buttons (posted s) @ [0]"
proof -
  let ?s = "s\<lparr>clock_reads := clock_reads s + 1\<rparr>" and ?t = "uptime clk (clock_reads s)"
  have act: "mb_active ?s" using assms(1) by (simp add: mb_active_def)
  have "middleButton clk b ?t fromMouse ?s =
    Some (0, ?s\<lparr>pendingbuttons := b, buttontime := to_ns clk ?t, timerArmed := True, mb_state := STATE_WAIT4TWO\<rparr>)"
    using assms(2,3) by (intro mb_press [OF act _ _ assms(4)]) simp_all
  then show ?thesis using assms(1,2,5)
    by (simp add: dispatchRelativePointerEventWithPacket_def read_uptime_def Let_def dispatchRelativePointerEventX_def
        dispatchScrollWheelEventX_def reported_buttons_def mb_active_def)
qed

text \<open>
  Dragging with the simulated middle button does not work: the timer reports the held button, but
  the machine is reset with the masked buttons of the last packet, so the next packet, with the same
  button still held, reports it released.
\<close>

theorem mouse_drag_broken:
  assumes "mb_active s" and "buttonTimer s" and "mb_state s = STATE_NOBUTTONS" and "b \<in> {1, 2}"
    and "mouse_buttons (mouse_type s) n p = b" and "mouse_buttons (mouse_type s) n q = b"
  shows "\<exists>s1 s2 s3. dispatchRelativePointerEventWithPacket clk p n s = Some s1 \<and> timerArmed s1 \<and>
    onButtonTimer clk (s1\<lparr>timerArmed := False\<rparr>) = Some s2 \<and>
    dispatchRelativePointerEventWithPacket clk q n s2 = Some s3 \<and>
    reported_buttons (posted s3) = reported_buttons (posted s) @ [0, b, 0]"
proof -
  note b = single_button [OF assms(4)]
  obtain s1 where s1: "dispatchRelativePointerEventWithPacket clk p n s = Some s1" "mb_active s1" "buttonTimer s1" "timerArmed s1"
    "mb_state s1 = STATE_WAIT4TWO" "pendingbuttons s1 = b" "lastbuttons s1 = 0" "mouse_type s1 = mouse_type s"
    "reported_buttons (posted s1) = reported_buttons (posted s) @ [0]"
    using press_dispatch [OF assms(1-5)] by blast
  obtain s2 where s2: "onButtonTimer clk (s1\<lparr>timerArmed := False\<rparr>) = Some s2" "mb_active s2" "buttonTimer s2"
    "mb_state s2 = STATE_NOBUTTONS" "mouse_type s2 = mouse_type s" "reported_buttons (posted s2) = reported_buttons (posted s1) @ [b]"
    using s1 b by (simp add: onButtonTimer_def read_uptime_def mb_defs reported_buttons_def)
  obtain s3 where "dispatchRelativePointerEventWithPacket clk q n s2 = Some s3"
    "reported_buttons (posted s3) = reported_buttons (posted s2) @ [0]"
    using press_dispatch [OF s2(2-4) assms(4)] assms(6) s2(5) by metis
  then show ?thesis using s1 s2 by auto
qed

theorem mouse_drag_broken_witness:
  "\<exists>s1 s2 s3. dispatchRelativePointerEventWithPacket sample_clock [0x09, 0, 0, 0] 3 sample_mouse = Some s1 \<and>
     onButtonTimer sample_clock (s1\<lparr>timerArmed := False\<rparr>) = Some s2 \<and>
     dispatchRelativePointerEventWithPacket sample_clock [0x09, 5, 0, 0] 3 s2 = Some s3 \<and>
     reported_buttons (posted s3) = [0, 1, 0]"
proof -
  have "mb_active sample_mouse" "buttonTimer sample_mouse" "mb_state sample_mouse = STATE_NOBUTTONS" "posted sample_mouse = []"
    by (simp_all add: sample_mouse_def init_mouse_def mb_active_def)
  moreover have "mouse_buttons (mouse_type sample_mouse) 3 [0x09, 0, 0, 0] = 1"
    "mouse_buttons (mouse_type sample_mouse) 3 [0x09, 5, 0, 0] = 1" by code_simp+
  moreover have "reported_buttons [] = []" by (simp add: reported_buttons_def)
  ultimately show ?thesis using mouse_drag_broken [of sample_mouse 1 3 "[0x09, 0, 0, 0]" "[0x09, 5, 0, 0]" sample_clock] by auto
qed

end
