(* ===== verification/PS2_Config.thy ===== *)
theory PS2_Config
  imports PS2_Controller "HOL-Library.AList"
begin

text \<open>
  The configuration of the drivers, last part of \<^verbatim>\<open>VoodooPS2Controller.cpp\<close>: the platform profile
  in the property list of the kext, selected by manufacturer and product of the machine, merged with
  the override an ACPI method \<^verbatim>\<open>RMCF\<close> returns.

  Objects of the property system are the datatype \<open>OSObject\<close>; a dictionary is an association list
  without duplicate keys. A C string is a list of characters without the terminating zero. What the
  registry and ACPI hold is the record \<open>platform\<close>.
\<close>

section \<open>Objects\<close>

datatype OSObject =
    OSNumber u64
  | OSBoolean bool
  | OSString string
  | OSData string
  | OSArray "OSObject list"
  | OSDictionary "(string \<times> OSObject) list"

type_synonym dict = "(string \<times> OSObject) list"

definition getObject :: "string \<Rightarrow> dict \<Rightarrow> OSObject option" where
  "getObject k d = map_of d k"

definition setObject :: "string \<Rightarrow> OSObject \<Rightarrow> dict \<Rightarrow> dict" where
  "setObject k v d = AList.update k v d"

text \<open>\<^verbatim>\<open>OSDictionary::merge\<close>: every entry of the second dictionary is set in the first.\<close>

definition merge :: "dict \<Rightarrow> dict \<Rightarrow> dict" where
  "merge d other = fold (\<lambda>(k, v) d. setObject k v d) other d"

fun asDictionary :: "OSObject option \<Rightarrow> dict option" where
  "asDictionary (Some (OSDictionary d)) = Some d"
| "asDictionary _ = None"

fun asString :: "OSObject option \<Rightarrow> string option" where
  "asString (Some (OSString s)) = Some s"
| "asString _ = None"

fun asNumber :: "OSObject option \<Rightarrow> u64 option" where
  "asNumber (Some (OSNumber n)) = Some n"
| "asNumber _ = None"

fun asBoolean :: "OSObject option \<Rightarrow> bool option" where
  "asBoolean (Some (OSBoolean b)) = Some b"
| "asBoolean _ = None"

section \<open>Properties of the controller\<close>

definition setPropertiesGated :: "OSObject option \<Rightarrow> ('h, 'c) ctl \<Rightarrow> ('h, 'c) ctl" where
  "setPropertiesGated props c = (case asDictionary props of
     None \<Rightarrow> c
   | Some dict \<Rightarrow>
      (let c = (case asNumber (getObject ''WakeDelay'' dict) of
                  Some num \<Rightarrow> c\<lparr>wakedelay := ucast num\<rparr> | None \<Rightarrow> c)
       in case asBoolean (getObject ''MouseWakeFirst'' dict) of
            Some flag \<Rightarrow> c\<lparr>mouseWakeFirst := flag\<rparr> | None \<Rightarrow> c))"

section \<open>The machine\<close>

text \<open>
  \<open>ancestors\<close>: the properties of the controller's registry entry and of its parents, nearest first;
  \<open>dsdt\<close>: the DSDT table, if the platform expert publishes one; \<open>rmcf\<close>: what the ACPI method
  \<^verbatim>\<open>RMCF\<close> returns, if there is an ACPI parent and the method succeeds.
\<close>

record platform =
  ancestors :: "dict list"
  dsdt :: "OSObject option"
  rmcf :: "OSObject option"

definition DSDT_HEADER_size :: nat where [simp]: "DSDT_HEADER_size = 36"

text \<open>The bytes of the table when it is long enough and carries the signature.\<close>

definition getDSDT :: "platform \<Rightarrow> string option" where
  "getDSDT p = (case dsdt p of
     Some (OSData bs) \<Rightarrow> if length bs < DSDT_HEADER_size \<or> take 4 bs \<noteq> ''DSDT'' then None else Some bs
   | _ \<Rightarrow> None)"

text \<open>A C string ends at its first zero.\<close>

definition c_string :: "string \<Rightarrow> string" where
  "c_string bs = takeWhile (\<lambda>c. c \<noteq> CHR 0x00) bs"

definition stripTrailingSpaces :: "string \<Rightarrow> string" where
  "stripTrailingSpaces str = rev (dropWhile (\<lambda>c. c = CHR '' '') (rev (c_string str)))"

fun getPlatformOverride :: "dict list \<Rightarrow> string \<Rightarrow> string option" where
  "getPlatformOverride [] sz = None"
| "getPlatformOverride (reg # parents) sz = (case asString (getObject sz reg) of
     Some i \<Rightarrow> Some i | None \<Rightarrow> getPlatformOverride parents sz)"

text \<open>Bytes 10 to 15 of the header are the OEM identifier, 16 to 23 the OEM table identifier.\<close>

definition getPlatformManufacturer :: "platform \<Rightarrow> string option" where
  "getPlatformManufacturer p = (case getPlatformOverride (ancestors p) ''RM,oem-id'' of
     Some i \<Rightarrow> Some i
   | None \<Rightarrow> map_option (\<lambda>bs. stripTrailingSpaces (take 6 (drop 10 bs))) (getDSDT p))"

definition getPlatformProduct :: "platform \<Rightarrow> string option" where
  "getPlatformProduct p = (case getPlatformOverride (ancestors p) ''RM,oem-table-id'' of
     Some i \<Rightarrow> Some i
   | None \<Rightarrow> map_option (\<lambda>bs. stripTrailingSpaces (take 8 (drop 16 bs))) (getDSDT p))"

section \<open>Configuration nodes\<close>

text \<open>
  A name leads to a dictionary, or to a string that names another entry (up to a semicolon). The
  recursion follows such links without a bound; \<open>n\<close> is the number of names looked up at most, and
  \<open>None\<close> a search that goes on. The result itself may be null.
\<close>

fun getConfigurationNode0 :: "nat \<Rightarrow> dict \<Rightarrow> string \<Rightarrow> dict option option" where
  "getConfigurationNode0 0 root name = None"
| "getConfigurationNode0 (Suc n) root name = (case getObject name root of
     Some (OSDictionary d) \<Rightarrow> Some (Some d)
   | Some (OSString link) \<Rightarrow> getConfigurationNode0 n root (takeWhile (\<lambda>c. c \<noteq> CHR '';'') link)
   | _ \<Rightarrow> Some None)"

definition getConfigurationNode :: "nat \<Rightarrow> platform \<Rightarrow> dict \<Rightarrow> dict option option" where
  "getConfigurationNode n p list = (case getPlatformManufacturer p of
     None \<Rightarrow> Some None
   | Some manufacturer \<Rightarrow> (case asDictionary (getObject manufacturer list) of
       None \<Rightarrow> Some None
     | Some manufacturerNode \<Rightarrow>
        getConfigurationNode0 n manufacturerNode
          (case getPlatformProduct p of Some product \<Rightarrow> product | None \<Rightarrow> ''Default'')))"

section \<open>Translation of the override\<close>

text \<open>
  ACPI has no booleans and no dictionaries, so they are coded as strings and arrays. An array
  that starts with an empty array is translated in place, which also changes the object the caller
  holds; therefore the translation returns the translated object (if any) and the object afterwards.
\<close>

fun translateEntry :: "OSObject \<Rightarrow> OSObject option \<times> OSObject"
and translateArray :: "OSObject list \<Rightarrow> OSObject option \<times> OSObject list"
and translateEntries :: "OSObject list \<Rightarrow> OSObject list"
and translatePairs :: "OSObject list \<Rightarrow> dict \<Rightarrow> dict option \<times> OSObject list"
where
  "translateEntry (OSArray xs) = (let (r, ys) = translateArray xs in (r, OSArray ys))"
| "translateEntry (OSString sz) =
     ((if sz = ''>y'' then Some (OSBoolean True)
       else if sz = ''>n'' then Some (OSBoolean False)
       else if sz = ''>>y'' \<or> sz = ''>>n'' then Some (OSString (tl sz))
       else None), OSString sz)"
| "translateEntry obj = (None, obj)"
| "translateArray [] = (None, [])"
| "translateArray (test # xs) =
     (if test = OSArray []
      then let ys = translateEntries xs in (Some (OSArray ys), ys)
      else if odd (length (test # xs)) then (None, test # xs)
      else let (d, ys) = translatePairs (test # xs) [] in (map_option OSDictionary d, ys))"
| "translateEntries [] = []"
| "translateEntries (x # xs) =
     (let (t, x') = translateEntry x
      in (case t of Some obj \<Rightarrow> obj | None \<Rightarrow> x') # translateEntries xs)"
| "translatePairs (key # v # xs) dict = (case key of
     OSString k \<Rightarrow>
       (let (t, v') = translateEntry v;
            obj = (case t of Some obj \<Rightarrow> obj | None \<Rightarrow> v');
            (r, ys) = translatePairs xs (setObject k obj dict)
        in (r, key # v' # ys))
   | _ \<Rightarrow> (None, key # v # xs))"
| "translatePairs xs dict = (Some dict, xs)"

definition getConfigurationOverride :: "platform \<Rightarrow> dict option" where
  "getConfigurationOverride p = (case rmcf p of
     Some (OSArray xs) \<Rightarrow> asDictionary (fst (translateArray xs))
   | _ \<Rightarrow> None)"

text \<open>
  The configuration of one driver: default node, platform node, section of the override. The
  override is evaluated once and kept in \<^verbatim>\<open>_rmcfCache\<close>.
\<close>

definition makeConfigurationNode ::
  "nat \<Rightarrow> platform \<Rightarrow> dict option \<Rightarrow> string \<Rightarrow> dict option \<Rightarrow> (dict option \<times> dict option) option" where
  "makeConfigurationNode n p list sect rmcfCache = (case list of
     None \<Rightarrow> Some (None, rmcfCache)
   | Some list \<Rightarrow> do {
       defaultNode \<leftarrow> getConfigurationNode0 n list ''Default'';
       platformNode \<leftarrow> getConfigurationNode n p list;
       let result = (case defaultNode of
           Some d \<Rightarrow> Some (case platformNode of Some pn \<Rightarrow> merge d pn | None \<Rightarrow> d)
         | None \<Rightarrow> platformNode);
       let over = (case rmcfCache of Some d \<Rightarrow> Some d | None \<Rightarrow> getConfigurationOverride p);
       let result = (case Option.bind over (\<lambda>d. asDictionary (getObject sect d)) of
           None \<Rightarrow> result
         | Some s \<Rightarrow> Some (case result of None \<Rightarrow> s | Some r \<Rightarrow> merge r s));
       Some (result, over)
     })"

section \<open>Dictionaries\<close>

lemma map_of_setObject [simp]: "map_of (setObject k v d) = (map_of d)(k \<mapsto> v)"
  by (simp add: setObject_def update_conv')

lemma distinct_setObject: "distinct (map fst d) \<Longrightarrow> distinct (map fst (setObject k v d))"
  by (simp add: setObject_def distinct_update)

lemma setObject_new: "k \<notin> fst ` set d \<Longrightarrow> setObject k v d = d @ [(k, v)]"
  by (induction d) (auto simp: setObject_def)

lemma merge_simps [simp]: "merge d [] = d" "merge d ((k, v) # other) = merge (setObject k v d) other"
  by (simp_all add: merge_def)

lemma map_of_merge:
  "distinct (map fst other) \<Longrightarrow> map_of (merge d other) = map_of d ++ map_of other"
proof (induction other arbitrary: d)
  case (Cons kv other)
  obtain k v where kv: "kv = (k, v)" by (cases kv)
  have "map_of other k = None" using Cons.prems by (simp add: kv map_of_eq_None_iff)
  then show ?case using Cons by (auto simp: kv map_add_def fun_eq_iff split: option.splits)
qed simp

text \<open>Well-formed objects: no dictionary inside has two entries for one key.\<close>

fun wf_object :: "OSObject \<Rightarrow> bool" where
  "wf_object (OSArray xs) = (\<forall>x \<in> set xs. wf_object x)"
| "wf_object (OSDictionary d) = (distinct (map fst d) \<and> (\<forall>kv \<in> set d. wf_object (snd kv)))"
| "wf_object _ = True"

abbreviation wf_dict :: "dict \<Rightarrow> bool" where
  "wf_dict d \<equiv> wf_object (OSDictionary d)"

lemma wf_getObject: "\<lbrakk>wf_dict d; getObject k d = Some x\<rbrakk> \<Longrightarrow> wf_object x"
  unfolding getObject_def by (metis map_of_SomeD snd_conv wf_object.simps(2))

lemma asDictionary_Some: "asDictionary x = Some d \<longleftrightarrow> x = Some (OSDictionary d)"
  by (cases x rule: asDictionary.cases) auto

lemma asString_Some: "asString x = Some s \<longleftrightarrow> x = Some (OSString s)"
  by (cases x rule: asString.cases) auto

lemma wf_asDictionary: "\<lbrakk>wf_dict d; asDictionary (getObject k d) = Some e\<rbrakk> \<Longrightarrow> wf_dict e"
  using wf_getObject by (metis asDictionary_Some)

lemma set_setObject: "kv \<in> set (setObject k v d) \<Longrightarrow> kv = (k, v) \<or> kv \<in> set d"
  by (induction d) (auto simp: setObject_def split: if_splits)

lemma wf_setObject: "\<lbrakk>wf_dict d; wf_object v\<rbrakk> \<Longrightarrow> wf_dict (setObject k v d)"
  by (auto simp: distinct_setObject dest: set_setObject)

lemma wf_merge: "\<lbrakk>wf_dict d; wf_dict e\<rbrakk> \<Longrightarrow> wf_dict (merge d e)"
proof (induction e arbitrary: d)
  case (Cons kv e)
  obtain k v where "kv = (k, v)" by (cases kv)
  moreover from this have "wf_object v" "wf_dict e" using Cons.prems(2) by auto
  ultimately show ?case using Cons.IH wf_setObject [OF Cons.prems(1)] by (simp del: wf_object.simps)
qed simp

section \<open>Translation\<close>

lemma translate_wf:
  "wf_object x \<Longrightarrow> (\<forall>y. fst (translateEntry x) = Some y \<longrightarrow> wf_object y) \<and> wf_object (snd (translateEntry x))"
  "\<forall>x \<in> set xs. wf_object x \<Longrightarrow> (\<forall>y. fst (translateArray xs) = Some y \<longrightarrow> wf_object y) \<and>
     (\<forall>x \<in> set (snd (translateArray xs)). wf_object x)"
  "\<forall>x \<in> set ys. wf_object x \<Longrightarrow> \<forall>y \<in> set (translateEntries ys). wf_object y"
  "\<lbrakk>\<forall>x \<in> set zs. wf_object x; wf_dict d\<rbrakk> \<Longrightarrow>
     (\<forall>e. fst (translatePairs zs d) = Some e \<longrightarrow> wf_dict e) \<and> (\<forall>z \<in> set (snd (translatePairs zs d)). wf_object z)"
proof (induction x and xs and ys and zs d
    rule: translateEntry_translateArray_translateEntries_translatePairs.induct, goal_cases)
  case (8 test xs)
  obtain d ys where tp: "translatePairs (test # xs) [] = (d, ys)" by (metis surj_pair)
  consider "test = OSArray []" | "test \<noteq> OSArray []" "odd (length (test # xs))"
    | "test \<noteq> OSArray []" "\<not> odd (length (test # xs))" by blast
  then show ?case
  proof cases
    case 1
    then show ?thesis using 8(1,3) by (simp add: Let_def)
  next
    case 3
    from 8(2) [OF this 8(3)] show ?thesis using 3 tp by (cases d) (simp_all del: translatePairs.simps)
  qed (use 8(3) in simp)
next
  case (10 x xs)
  obtain t x' where tx: "translateEntry x = (t, x')" by (metis surj_pair)
  have "wf_object (case t of Some obj \<Rightarrow> obj | None \<Rightarrow> x')" using 10(1,3) tx by (cases t) simp_all
  moreover have "\<forall>y \<in> set (translateEntries xs). wf_object y" using 10(3) by (intro 10(2) [OF refl tx [symmetric]]) simp
  ultimately show ?case by (simp add: tx)
next
  case (11 key v xs d)
  show ?case
  proof (cases key)
    case (OSString k)
    obtain t v' where tv: "translateEntry v = (t, v')" by (metis surj_pair)
    define obj where "obj = (case t of Some obj \<Rightarrow> obj | None \<Rightarrow> v')"
    have wv: "wf_object v" "\<forall>x \<in> set xs. wf_object x" using 11(3) by simp_all
    have wf: "wf_object obj" "wf_object v'" using 11(1) [OF OSString wv(1)] unfolding tv obj_def by (cases t; simp)+
    obtain r ys where rs: "translatePairs xs (setObject k obj d) = (r, ys)" by (metis surj_pair)
    have "wf_dict (setObject k obj d)" using 11(4) wf(1) by (rule wf_setObject)
    from 11(2) [OF OSString refl tv [symmetric] obj_def wv(2) this]
    show ?thesis using OSString tv rs wf(2) by (simp add: obj_def [symmetric])
  qed (use 11(3,4) in simp_all)
qed (simp_all split: prod.splits)

text \<open>
  The coding of an object for the override: dictionaries and arrays as arrays, booleans as strings,
  and strings that would read as booleans escaped. Two strings and the empty dictionary have no
  code.
\<close>

fun encode :: "OSObject \<Rightarrow> OSObject" where
  "encode (OSBoolean b) = OSString (if b then ''>y'' else ''>n'')"
| "encode (OSString s) = OSString (if s = ''>y'' \<or> s = ''>n'' then CHR ''>'' # s else s)"
| "encode (OSArray xs) = OSArray (OSArray [] # map encode xs)"
| "encode (OSDictionary d) = OSArray (concat (map (\<lambda>kv. [OSString (fst kv), encode (snd kv)]) d))"
| "encode obj = obj"

fun encodable :: "OSObject \<Rightarrow> bool" where
  "encodable (OSString s) = (s \<notin> {''>>y'', ''>>n''})"
| "encodable (OSArray xs) = (\<forall>x \<in> set xs. encodable x)"
| "encodable (OSDictionary d) = (d \<noteq> [] \<and> distinct (map fst d) \<and> (\<forall>kv \<in> set d. encodable (snd kv)))"
| "encodable _ = True"

definition translated :: "OSObject \<Rightarrow> OSObject" where
  "translated x = (case translateEntry x of (Some y, _) \<Rightarrow> y | (None, x') \<Rightarrow> x')"

lemma translateEntries_eq: "translateEntries xs = map translated xs"
  by (induction xs) (auto simp: translated_def Let_def split: prod.splits option.splits)

lemma translatePairs_encoded:
  "\<lbrakk>\<forall>kv \<in> set d. translated (encode (snd kv)) = snd kv; distinct (map fst (e @ d))\<rbrakk> \<Longrightarrow>
   fst (translatePairs (concat (map (\<lambda>kv. [OSString (fst kv), encode (snd kv)]) d)) e) = Some (e @ d)"
proof (induction d arbitrary: e)
  case (Cons kv d)
  obtain k v where kv: "kv = (k, v)" by (cases kv)
  have "setObject k v e = e @ [(k, v)]"
    using Cons.prems(2) by (intro setObject_new) (simp add: kv)
  then show ?case using Cons.IH [of "e @ [(k, v)]"] Cons.prems
    by (auto simp: kv translated_def Let_def split: prod.splits option.splits)
qed simp

lemma encoded_pairs_hd:
  "d \<noteq> [] \<Longrightarrow> \<exists>k xs. concat (map (\<lambda>kv. [OSString (fst kv), encode (snd kv)]) d) = OSString k # xs \<and> odd (length xs)"
proof (induction d)
  case (Cons kv d)
  have "even (length (concat (map (\<lambda>kv. [OSString (fst kv), encode (snd kv)]) d)))" by (induction d) auto
  then show ?case by simp
qed simp

text \<open>
  C32. The coding of the override loses nothing: an object that has a code is exactly what
  translating its code yields, with booleans, escaped strings, nested arrays and nested
  dictionaries.
\<close>

theorem override_roundtrip:
  assumes "encodable x"
  shows "translated (encode x) = x"
  using assms
proof (induction x rule: encode.induct)
  case (3 xs)
  then have "map translated (map encode xs) = xs" by (simp add: map_idI)
  then show ?case by (simp add: translated_def Let_def translateEntries_eq)
next
  case (4 d)
  let ?xs = "concat (map (\<lambda>kv. [OSString (fst kv), encode (snd kv)]) d)"
  have "fst (translatePairs ?xs []) = Some ([] @ d)" using 4 by (intro translatePairs_encoded) auto
  moreover obtain k ys where xs: "?xs = OSString k # ys" "odd (length ys)" using encoded_pairs_hd [of d] 4 by auto
  ultimately obtain zs where "translatePairs (OSString k # ys) [] = (Some d, zs)" by (metis append_Nil prod.collapse)
  then show ?case using xs by (simp add: translated_def del: translatePairs.simps)
qed (auto simp: translated_def)

theorem override_roundtrip_witness:
  "translated (encode (OSDictionary [(''Keyboard'', OSDictionary [(''A'', OSBoolean True),
     (''B'', OSArray [OSString ''>y'', OSNumber 5])])])) =
   OSDictionary [(''Keyboard'', OSDictionary [(''A'', OSBoolean True),
     (''B'', OSArray [OSString ''>y'', OSNumber 5])])]"
  by (rule override_roundtrip) simp

section \<open>Links\<close>

definition link :: "dict \<Rightarrow> string \<Rightarrow> string option" where
  "link root name = map_option (takeWhile (\<lambda>c. c \<noteq> CHR '';'')) (asString (getObject name root))"

text \<open>The names visited by a search that ends.\<close>

fun link_path :: "dict \<Rightarrow> string \<Rightarrow> string list \<Rightarrow> dict option \<Rightarrow> bool" where
  "link_path root name [] r \<longleftrightarrow> link root name = None \<and> r = asDictionary (getObject name root)"
| "link_path root name (x # xs) r \<longleftrightarrow> x = name \<and> (\<exists>m. link root name = Some m \<and> link_path root m xs r)"

lemma node_Suc:
  "getConfigurationNode0 (Suc n) root name = (case link root name of
     Some m \<Rightarrow> getConfigurationNode0 n root m | None \<Rightarrow> Some (asDictionary (getObject name root)))"
  by (simp add: link_def split: option.splits OSObject.splits)

lemma link_path_run:
  "link_path root name xs r \<Longrightarrow> getConfigurationNode0 (Suc (length xs)) root name = Some r"
proof (induction xs arbitrary: name)
  case Nil
  then show ?case unfolding node_Suc by simp
next
  case (Cons x xs)
  then obtain m where "link root name = Some m" "getConfigurationNode0 (Suc (length xs)) root m = Some r" by auto
  then show ?case unfolding node_Suc [of "length (x # xs)"] by simp
qed

lemma link_path_keys: "link_path root name xs r \<Longrightarrow> set xs \<subseteq> fst ` set root"
proof (induction xs arbitrary: name)
  case (Cons x xs)
  then have "getObject x root \<noteq> None" by (auto simp: link_def asString_Some)
  then have "x \<in> fst ` set root" by (auto simp: getObject_def map_of_eq_None_iff image_iff)
  then show ?case using Cons by auto
qed simp

lemma link_path_suffix:
  "\<lbrakk>link_path root name xs r; x \<in> set xs; distinct xs\<rbrakk> \<Longrightarrow> \<exists>ys. link_path root x ys r \<and> distinct ys"
proof (induction xs arbitrary: name)
  case (Cons y xs)
  show ?case
  proof (cases "x = y")
    case True
    then show ?thesis using Cons.prems by (intro exI [of _ "y # xs"]) auto
  next
    case False
    then show ?thesis using Cons by auto
  qed
qed simp

lemma link_path_exists:
  "getConfigurationNode0 n root name = Some r \<Longrightarrow> \<exists>xs. link_path root name xs r \<and> distinct xs"
proof (induction n arbitrary: name)
  case (Suc n)
  show ?case
  proof (cases "link root name")
    case None
    then show ?thesis using Suc.prems unfolding node_Suc by (intro exI [of _ "[]"]) simp
  next
    case (Some m)
    then obtain xs where xs: "link_path root m xs r" "distinct xs" using Suc unfolding node_Suc by auto
    show ?thesis
    proof (cases "name \<in> set xs")
      case True
      then show ?thesis using link_path_suffix [OF xs(1) _ xs(2)] by blast
    next
      case False
      then show ?thesis using xs Some by (intro exI [of _ "name # xs"]) simp
    qed
  qed
qed simp

lemma node_mono:
  "\<lbrakk>getConfigurationNode0 n root name = Some r; n \<le> k\<rbrakk> \<Longrightarrow> getConfigurationNode0 k root name = Some r"
proof (induction n arbitrary: name k)
  case (Suc n)
  obtain k' where k: "k = Suc k'" "n \<le> k'" using Suc.prems(2) by (cases k) auto
  then show ?case using Suc unfolding k node_Suc by (auto split: option.splits)
qed simp

text \<open>
  What a name means in a profile, as a relation: a dictionary means itself; a string means whatever the
  part of it before the first semicolon means; any other entry, or none, means no dictionary.
\<close>

inductive resolves :: "dict \<Rightarrow> string \<Rightarrow> dict option \<Rightarrow> bool" for root where
  dictionary: "map_of root name = Some (OSDictionary d) \<Longrightarrow> resolves root name (Some d)"
| link_to: "\<lbrakk>map_of root name = Some (OSString (target @ rest)); CHR '';'' \<notin> set target; rest = [] \<or> hd rest = CHR '';'';
    resolves root target r\<rbrakk> \<Longrightarrow> resolves root name r"
| dangling: "\<lbrakk>\<forall>d. map_of root name \<noteq> Some (OSDictionary d); \<forall>l. map_of root name \<noteq> Some (OSString l)\<rbrakk> \<Longrightarrow> resolves root name None"

lemma before_semicolon:
  "takeWhile (\<lambda>c. c \<noteq> CHR '';'') l = m \<longleftrightarrow> (\<exists>rest. l = m @ rest \<and> CHR '';'' \<notin> set m \<and> (rest = [] \<or> hd rest = CHR '';''))"
proof
  assume m: "takeWhile (\<lambda>c. c \<noteq> CHR '';'') l = m"
  let ?rest = "dropWhile (\<lambda>c. c \<noteq> CHR '';'') l"
  have "l = m @ ?rest" using m by (metis takeWhile_dropWhile_id)
  moreover have "CHR '';'' \<notin> set m" using m by (auto dest: set_takeWhileD)
  moreover have "?rest = [] \<or> hd ?rest = CHR '';''" using hd_dropWhile [of "\<lambda>c. c \<noteq> CHR '';''" l] by blast
  ultimately show "\<exists>rest. l = m @ rest \<and> CHR '';'' \<notin> set m \<and> (rest = [] \<or> hd rest = CHR '';'')" by blast
next
  assume "\<exists>rest. l = m @ rest \<and> CHR '';'' \<notin> set m \<and> (rest = [] \<or> hd rest = CHR '';'')"
  then obtain rest where l: "l = m @ rest" "CHR '';'' \<notin> set m" "rest = [] \<or> hd rest = CHR '';''" by blast
  have "takeWhile (\<lambda>c. c \<noteq> CHR '';'') rest = []" using l(3) by (cases rest) auto
  moreover have "\<forall>c \<in> set m. c \<noteq> CHR '';''" using l(2) by auto
  ultimately show "takeWhile (\<lambda>c. c \<noteq> CHR '';'') l = m" by (simp add: l(1) takeWhile_append2)
qed

lemma link_Some: "link root name = Some m \<longleftrightarrow> (\<exists>rest. map_of root name = Some (OSString (m @ rest)) \<and>
    CHR '';'' \<notin> set m \<and> (rest = [] \<or> hd rest = CHR '';''))"
  unfolding link_def getObject_def by (auto simp: asString_Some before_semicolon)

lemma link_None: "link root name = None \<longleftrightarrow> (\<forall>l. map_of root name \<noteq> Some (OSString l))"
  unfolding link_def getObject_def by (metis asString_Some map_option_is_None not_None_eq)

lemma node_resolves: "getConfigurationNode0 n root name = Some r \<Longrightarrow> resolves root name r"
proof (induction n arbitrary: name)
  case (Suc n)
  show ?case
  proof (cases "link root name")
    case None
    then have r: "r = asDictionary (map_of root name)" using Suc.prems unfolding node_Suc by (simp add: getObject_def)
    show ?thesis
    proof (cases "\<exists>d. map_of root name = Some (OSDictionary d)")
      case True
      then show ?thesis using r by (auto intro: resolves.dictionary)
    next
      case False
      then have "r = None" using r asDictionary_Some [of "map_of root name"] by (metis not_None_eq)
      then show ?thesis using False None by (auto simp: link_None intro: resolves.dangling)
    qed
  next
    case (Some m)
    then have "resolves root m r" using Suc unfolding node_Suc by simp
    then show ?thesis using Some by (auto simp: link_Some intro: resolves.link_to)
  qed
qed simp

lemma resolves_node: "resolves root name r \<Longrightarrow> \<exists>n. getConfigurationNode0 n root name = Some r"
proof (induction rule: resolves.induct)
  case (dictionary name d)
  then show ?case by (intro exI [of _ "Suc 0"]) (simp add: getObject_def)
next
  case (link_to name target rest r)
  then obtain n where "getConfigurationNode0 n root target = Some r" by blast
  moreover have "link root name = Some target" using link_to by (auto simp: link_Some)
  ultimately show ?case by (intro exI [of _ "Suc n"]) (simp only: node_Suc option.case)
next
  case (dangling name)
  then have "asDictionary (map_of root name) = None" using asDictionary_Some [of "map_of root name"] by (metis not_None_eq)
  moreover have "link root name = None" using dangling(2) by (simp add: link_None)
  ultimately show ?case by (intro exI [of _ "Suc 0"]) (simp only: node_Suc option.case getObject_def)
qed

lemma node_bounded:
  assumes "getConfigurationNode0 n root name = Some r"
  shows "getConfigurationNode0 (Suc (length root)) root name = Some r"
proof -
  obtain xs where xs: "link_path root name xs r" "distinct xs" using assms link_path_exists by blast
  have "card (set xs) \<le> card (fst ` set root)" using link_path_keys [OF xs(1)] by (simp add: card_mono)
  also have "\<dots> \<le> length root" using card_image_le [of "set root" fst] card_length [of root] by simp
  finally have "length xs \<le> length root" using xs(2) by (simp add: distinct_card)
  then show ?thesis by (intro node_mono [OF link_path_run [OF xs(1)]]) simp
qed

text \<open>
  C34. The search for a configuration node finds exactly what the name means: the dictionary at the end
  of the chain of aliases, where an alias is a string and counts up to its first semicolon, or null when
  the chain ends at anything else. It needs at most one look-up more than the profile has entries; a
  search that has not ended by then follows a cycle and never ends.
\<close>

theorem config_links_resolve:
  "(getConfigurationNode0 (Suc (length root)) root name = Some r \<longleftrightarrow> resolves root name r) \<and>
   ((\<exists>n. getConfigurationNode0 n root name = Some r) \<longleftrightarrow> resolves root name r)"
  using node_resolves resolves_node node_bounded by blast

text \<open>Two aliases in a row, one with a note after a semicolon.\<close>

theorem config_links_resolve_witness:
  "resolves [(''A'', OSString ''B;first''), (''B'', OSString ''C''), (''C'', OSDictionary [(''K'', OSNumber 7)])] ''A''
     (Some [(''K'', OSNumber 7)])"
proof -
  let ?root = "[(''A'', OSString ''B;first''), (''B'', OSString ''C''), (''C'', OSDictionary [(''K'', OSNumber 7)])]"
  have "getConfigurationNode0 (Suc (length ?root)) ?root ''A'' = Some (Some [(''K'', OSNumber 7)])" by code_simp
  then show ?thesis using config_links_resolve by blast
qed

text \<open>
  A profile entry that links to itself hangs the search (in the kernel: recursion until the stack
  is exhausted), no matter what the rest of the profile holds.
\<close>

theorem config_self_link_hangs:
  assumes "asString (getObject name root) = Some l" and "takeWhile (\<lambda>c. c \<noteq> CHR '';'') l = name"
  shows "getConfigurationNode0 n root name = None"
proof (induction n)
  case (Suc n)
  have "link root name = Some name" using assms by (simp add: link_def)
  then show ?case using Suc unfolding node_Suc by simp
qed simp

theorem config_self_link_hangs_witness:
  "getConfigurationNode0 7 [(''T450'', OSString ''T450;Lenovo'')] ''T450'' = None"
  by (rule config_self_link_hangs [where l = "''T450;Lenovo''"]) (simp add: getObject_def, code_simp)

section \<open>Precedence\<close>

lemma node_wf: "\<lbrakk>wf_dict root; getConfigurationNode0 n root name = Some (Some d)\<rbrakk> \<Longrightarrow> wf_dict d"
proof (induction n arbitrary: name)
  case (Suc n)
  then show ?case unfolding node_Suc by (auto split: option.splits simp del: wf_object.simps dest: wf_asDictionary)
qed simp

lemma platform_node_wf: "\<lbrakk>wf_dict list; getConfigurationNode n p list = Some (Some d)\<rbrakk> \<Longrightarrow> wf_dict d"
  by (auto simp: getConfigurationNode_def simp del: wf_object.simps split: option.splits dest: wf_asDictionary node_wf)

lemma override_wf:
  assumes "getConfigurationOverride p = Some d" "\<forall>x. rmcf p = Some x \<longrightarrow> wf_object x"
  shows "wf_dict d"
proof -
  obtain xs where xs: "rmcf p = Some (OSArray xs)" "fst (translateArray xs) = Some (OSDictionary d)"
    using assms(1) by (auto simp: getConfigurationOverride_def asDictionary_Some split: option.splits OSObject.splits)
  then have "\<forall>x \<in> set xs. wf_object x" using assms(2) by simp
  from translate_wf(2) [OF this] xs(2) show ?thesis by blast
qed

definition entry :: "dict option \<Rightarrow> string \<Rightarrow> OSObject option" where
  "entry d k = Option.bind d (\<lambda>d. map_of d k)"

lemma entry_merge: "wf_dict e \<Longrightarrow> entry (Some (merge d e)) k = (case entry (Some e) k of Some v \<Rightarrow> Some v | None \<Rightarrow> entry (Some d) k)"
  by (simp add: entry_def map_of_merge map_add_def split: option.splits)

text \<open>
  C33. The configuration a driver gets: for every key the section of the ACPI override wins over the
  platform node, and the platform node over the default node; the override is read once and kept.
\<close>

theorem config_precedence:
  assumes "makeConfigurationNode n p (Some list) sect cache = Some (r, cache')"
    and "wf_dict list" and "\<forall>d. cache = Some d \<longrightarrow> wf_dict d" and "\<forall>x. rmcf p = Some x \<longrightarrow> wf_object x"
  shows "\<exists>dn pn. getConfigurationNode0 n list ''Default'' = Some dn \<and> getConfigurationNode n p list = Some pn \<and>
    cache' = (if cache = None then getConfigurationOverride p else cache) \<and>
    entry r k = (case entry (Option.bind cache' (\<lambda>d. asDictionary (getObject sect d))) k of Some v \<Rightarrow> Some v
      | None \<Rightarrow> (case entry pn k of Some v \<Rightarrow> Some v | None \<Rightarrow> entry dn k))"
proof -
  obtain dn pn where n: "getConfigurationNode0 n list ''Default'' = Some dn" "getConfigurationNode n p list = Some pn"
    using assms(1) by (auto simp: makeConfigurationNode_def elim!: bind_eq_SomeE)
  have c: "cache' = (if cache = None then getConfigurationOverride p else cache)"
    using assms(1) n by (auto simp: makeConfigurationNode_def Let_def split: option.splits)
  define s where "s = Option.bind cache' (\<lambda>d. asDictionary (getObject sect d))"
  have "\<forall>d. cache' = Some d \<longrightarrow> wf_dict d"
    using c assms(3) override_wf [OF _ assms(4)] by (auto simp del: wf_object.simps)
  then have s: "wf_dict d" if "s = Some d" for d
    using that by (auto simp: s_def simp del: wf_object.simps dest: wf_asDictionary elim!: bind_eq_SomeE)
  have pn: "wf_dict d" if "pn = Some d" for d using platform_node_wf assms(2) n(2) that by blast
  define m where "m = (case dn of Some d \<Rightarrow> Some (case pn of Some q \<Rightarrow> merge d q | None \<Rightarrow> d) | None \<Rightarrow> pn)"
  have m: "entry m k = (case entry pn k of Some v \<Rightarrow> Some v | None \<Rightarrow> entry dn k)"
    using pn by (cases dn; cases pn)
      (simp_all add: m_def entry_merge del: wf_object.simps, simp_all add: entry_def split: option.splits)
  have "r = (case s of None \<Rightarrow> m | Some q \<Rightarrow> Some (case m of None \<Rightarrow> q | Some d \<Rightarrow> merge d q))"
    using assms(1) n by (auto simp: makeConfigurationNode_def Let_def m_def s_def split: option.splits)
  then have "entry r k = (case entry s k of Some v \<Rightarrow> Some v | None \<Rightarrow> entry m k)"
    using s by (cases s; cases m)
      (simp_all add: entry_merge del: wf_object.simps, simp_all add: entry_def split: option.splits)
  then show ?thesis unfolding m s_def using n c by blast
qed

definition sample_profile :: dict where
  "sample_profile = [(''Default'', OSDictionary [(''A'', OSNumber 1), (''B'', OSNumber 1), (''C'', OSNumber 1)]),
     (''DELL'', OSDictionary [(''XPS'', OSString ''Latitude;XPS''),
        (''Latitude'', OSDictionary [(''A'', OSNumber 2), (''B'', OSNumber 2)])])]"

definition sample_platform :: platform where
  "sample_platform = \<lparr>ancestors = [[], [(''RM,oem-id'', OSString ''DELL''), (''RM,oem-table-id'', OSString ''XPS'')]],
     dsdt = None, rmcf = Some (OSArray [OSString ''Mouse'', OSArray [OSString ''A'', OSString ''>y'']])\<rparr>"

theorem config_precedence_witness:
  "\<exists>r c. makeConfigurationNode 3 sample_platform (Some sample_profile) ''Mouse'' None = Some (r, c) \<and>
     entry r ''A'' = Some (OSBoolean True)"
proof -
  have run: "makeConfigurationNode 3 sample_platform (Some sample_profile) ''Mouse'' None =
    Some (Some [(''A'', OSBoolean True), (''B'', OSNumber 2), (''C'', OSNumber 1)],
      Some [(''Mouse'', OSDictionary [(''A'', OSBoolean True)])])" by code_simp
  have "wf_dict sample_profile" by (simp add: sample_profile_def)
  from config_precedence [OF run this, of "''A''"] show ?thesis
    using run by (auto simp: entry_def getObject_def sample_platform_def)
qed

end
