(* ===== verification/PS2_Mouse_Setup.thy ===== *)
theory PS2_Mouse_Setup
  imports PS2_Mouse PS2_Config
begin

text \<open>
  The mouse driver around its input path: configuration, the command sequences that probe, reset and
  identify a mouse, power changes, start and stop (\<^verbatim>\<open>VoodooPS2Mouse.cpp\<close>). The command sequences take
  the transport as the arguments \<open>submit\<close> and \<open>sleep\<close>; start and stop use the nub of the
  controller.
\<close>

section \<open>Configuration\<close>

definition set_number :: "dict \<Rightarrow> string \<Rightarrow> (u64 \<Rightarrow> 's \<Rightarrow> 's) \<Rightarrow> 's \<Rightarrow> 's" where
  "set_number config k f s = (case asNumber (getObject k config) of Some n \<Rightarrow> f n s | None \<Rightarrow> s)"

definition set_boolean :: "dict \<Rightarrow> string \<Rightarrow> (bool \<Rightarrow> 's \<Rightarrow> 's) \<Rightarrow> 's \<Rightarrow> 's" where
  "set_boolean config k f s = (case asBoolean (getObject k config) of Some b \<Rightarrow> f b s | None \<Rightarrow> s)"

definition mouse_setParamPropertiesGated :: "dict option \<Rightarrow> mouse \<Rightarrow> mouse" where
  "mouse_setParamPropertiesGated config s = (case config of None \<Rightarrow> s | Some config \<Rightarrow>
     (let s = set_number config ''MiddleClickTime'' (\<lambda>n s. s\<lparr>maxmiddleclicktime := n\<rparr>) s;
          s = set_boolean config ''ForceDefaultResolution'' (\<lambda>b s. s\<lparr>forceres := b\<rparr>) s;
          s = set_boolean config ''ForceSetResolution'' (\<lambda>b s. s\<lparr>forcesetres := b\<rparr>) s;
          s = set_boolean config ''FakeMiddleButton'' (\<lambda>b s. s\<lparr>fakemiddlebutton := b\<rparr>) s;
          s = set_number config ''DefaultResolution'' (\<lambda>n s. s\<lparr>defres := ucast n\<rparr>) s;
          s = set_number config ''ResolutionMode'' (\<lambda>n s. s\<lparr>resmode := ucast n\<rparr>) s;
          s = set_number config ''ScrollResolution'' (\<lambda>n s. s\<lparr>scrollres := ucast n\<rparr>) s;
          s = set_number config ''MouseYInverter'' (\<lambda>n s. s\<lparr>mouseyinverter := ucast n\<rparr>) s;
          s = set_number config ''ScrollYInverter'' (\<lambda>n s. s\<lparr>scrollyinverter := ucast n\<rparr>) s;
          s = set_number config ''WakeDelay'' (\<lambda>n s. s\<lparr>mouse_wakedelay := ucast n\<rparr>) s;
          s = set_number config ''ButtonCount'' (\<lambda>n s. s\<lparr>buttonCount := ucast n\<rparr>) s
      in s\<lparr>defres := push_bit 16 (defres s)\<rparr>))"

section \<open>Command sequences\<close>

type_synonym 's submit = "PS2Request \<Rightarrow> 's \<Rightarrow> (PS2Request \<times> 's) option"

abbreviation write_byte :: "u8 \<Rightarrow> PS2Command" where
  "write_byte b \<equiv> cmd_byte kPS2C_WriteDataPort b"

abbreviation expect_ack :: PS2Command where
  "expect_ack \<equiv> cmd_byte kPS2C_ReadDataPortAndCompare kSC_Acknowledge"

abbreviation read_byte :: PS2Command where
  "read_byte \<equiv> cmd_byte kPS2C_ReadDataPort 0"

definition setMouseEnable :: "'s submit \<Rightarrow> bool \<Rightarrow> 's \<Rightarrow> 's option" where
  "setMouseEnable submit enable w = map_option snd (submit (TPS2Request
     [write_byte (if enable then kDP_Enable else kDP_SetDefaultsAndDisable), expect_ack]) w)"

definition setMouseSampleRate :: "'s submit \<Rightarrow> u8 \<Rightarrow> 's \<Rightarrow> 's option" where
  "setMouseSampleRate submit sampleRate w = map_option snd (submit (TPS2Request
     [write_byte kDP_SetMouseSampleRate, expect_ack, write_byte sampleRate, expect_ack]) w)"

definition setMouseResolution :: "'s submit \<Rightarrow> u8 \<Rightarrow> 's \<Rightarrow> 's option" where
  "setMouseResolution submit res w = map_option snd (submit (TPS2Request
     [write_byte kDP_SetMouseResolution, expect_ack, write_byte res, expect_ack]) w)"

definition getMouseInformation :: "'s submit \<Rightarrow> 's \<Rightarrow> (u32 \<times> 's) option" where
  "getMouseInformation submit w = do {
     (r, w) \<leftarrow> submit (TPS2Request [write_byte kDP_GetMouseInformation, expect_ack, read_byte, read_byte, read_byte]) w;
     Some (if commandsCount r = 5
           then push_bit 16 (ucast (inOrOut (commands r ! 2))) OR push_bit 8 (ucast (inOrOut (commands r ! 3))) OR
                ucast (inOrOut (commands r ! 4))
           else - 1, w)
   }"

definition getMouseID :: "'s submit \<Rightarrow> 's \<Rightarrow> (u8 \<times> 's) option" where
  "getMouseID submit w = do {
     (r, w) \<leftarrow> submit (TPS2Request [write_byte kDP_GetId, expect_ack, read_byte]) w;
     Some (if commandsCount r = 3 then inOrOut (commands r ! 2) else - 1, w)
   }"

definition knockMouse :: "'s submit \<Rightarrow> (u32 \<Rightarrow> 's \<Rightarrow> 's) \<Rightarrow> u8 \<Rightarrow> 's \<Rightarrow> (u8 \<times> 's) option" where
  "knockMouse submit sleep second w = do {
     w \<leftarrow> setMouseSampleRate submit 200 w;
     w \<leftarrow> setMouseSampleRate submit second w;
     w \<leftarrow> setMouseSampleRate submit 80 w;
     getMouseID submit (sleep 50 w)
   }"

definition setIntellimouseMode ::
  "'s submit \<Rightarrow> (u32 \<Rightarrow> 's \<Rightarrow> 's) \<Rightarrow> u32 \<Rightarrow> 's \<Rightarrow> (PS2MouseId \<times> 's) option" where
  "setIntellimouseMode submit sleep info w = do {
     (mouseIDByte, w) \<leftarrow> knockMouse submit sleep 100 w;
     (mouseID, w) \<leftarrow>
       (if mouseIDByte = 0x04 then Some (kMouseTypeIntellimouseExplorer, w)
        else if mouseIDByte = 0x03
        then do {
          (mouseIDByte, w) \<leftarrow> knockMouse submit sleep 200 w;
          Some (if mouseIDByte = 0x04 then kMouseTypeIntellimouseExplorer else kMouseTypeIntellimouse, w)
        }
        else Some (kMouseTypeStandard, w));
     w \<leftarrow> setMouseSampleRate submit (ucast (info AND 0x0000FF)) w;
     Some (mouseID, w)
   }"

definition resolution_of :: "u32 \<Rightarrow> u32" where
  "resolution_of info =
     (let r = info AND 0x00FF00
      in push_bit 16 (if r = 0x0000 then 25 else if r = 0x0100 then 50 else if r = 0x0200 then 100
                      else if r = 0x0300 then 200 else 150))"

definition queryMouse :: "'s submit \<Rightarrow> mouse \<Rightarrow> 's \<Rightarrow> (mouse \<times> 's) option" where
  "queryMouse submit s w =
     (if mouseInfoBytes s = - 1
      then do {
        w \<leftarrow> (if forcesetres s \<and> resmode s \<noteq> - 1 then setMouseResolution submit (ucast (resmode s)) w else Some w);
        (info, w) \<leftarrow> getMouseInformation submit w;
        Some (s\<lparr>mouseInfoBytes := info, resolution := (if forceres s then defres s else resolution_of info)\<rparr>, w)
      }
      else do {
        w \<leftarrow> setMouseResolution submit (ucast (drop_bit 8 (mouseInfoBytes s) AND 3)) w;
        Some (s, w)
      })"

definition typedMouse :: "PS2MouseId \<Rightarrow> mouse \<Rightarrow> mouse" where
  "typedMouse ty s =
     (let s = s\<lparr>mouse_type := ty\<rparr>;
          s = (if ty \<noteq> kMouseTypeStandard
               then s\<lparr>packetLength := kPacketLengthIntellimouse,
                      buttonCount := (if ty = kMouseTypeIntellimouseExplorer then 5 else 3)\<rparr>
               else s\<lparr>packetLength := kPacketLengthStandard\<rparr>);
          s = (if buttonCount s = 2 \<and> fakemiddlebutton s \<and> buttonTimer s then s\<lparr>buttonCount := 3\<rparr> else s)
      in s\<lparr>packetByteCount := 0, ringBuffer := ring_reset (ringBuffer s)\<rparr>)"

definition resetMouse ::
  "'s submit \<Rightarrow> (u32 \<Rightarrow> 's \<Rightarrow> 's) \<Rightarrow> mouse \<Rightarrow> 's \<Rightarrow> (mouse \<times> 's) option" where
  "resetMouse submit sleep s w = do {
     (_, w) \<leftarrow> submit (TPS2Request [write_byte kDP_SetDefaults, write_byte kDP_GetMouseInformation, expect_ack,
       read_byte, read_byte, read_byte]) w;
     (s, w) \<leftarrow> queryMouse submit s w;
     (ty, w) \<leftarrow> setIntellimouseMode submit sleep (mouseInfoBytes s) w;
     let s = typedMouse ty s;
     w \<leftarrow> setMouseEnable submit True w;
     Some (s, w)
   }"

definition initMouse :: "'s submit \<Rightarrow> (u32 \<Rightarrow> 's \<Rightarrow> 's) \<Rightarrow> mouse \<Rightarrow> 's \<Rightarrow> (mouse \<times> 's) option" where
  "initMouse submit sleep s w = do {
     w \<leftarrow> setMouseEnable submit False w;
     resetMouse submit sleep s w
   }"

definition mouse_setDevicePowerState ::
  "'s submit \<Rightarrow> (u32 \<Rightarrow> 's \<Rightarrow> 's) \<Rightarrow> PS2PowerWhat \<Rightarrow> mouse \<Rightarrow> 's \<Rightarrow> (mouse \<times> 's) option" where
  "mouse_setDevicePowerState submit sleep whatToDo s w = (case whatToDo of
     kPS2C_DisableDevice \<Rightarrow> map_option (Pair s) (setMouseEnable submit False w)
   | kPS2C_EnableDevice \<Rightarrow> resetMouse submit sleep s (sleep (mouse_wakedelay s) w))"

section \<open>Probe, start and stop\<close>

text \<open>\<open>None\<close> as configuration is a null pointer; the result says whether the driver claims the device.\<close>

definition mouse_probe :: "'s submit \<Rightarrow> dict option \<Rightarrow> mouse \<Rightarrow> 's \<Rightarrow> (bool \<times> mouse \<times> 's) option" where
  "mouse_probe submit config s w =
     (if Option.bind config (\<lambda>d. asBoolean (getObject ''DisableDevice'' d)) = Some True then Some (False, s, w)
      else do {
        let s = mouse_setParamPropertiesGated config s;
        (r, w) \<leftarrow> submit (TPS2Request [write_byte kDP_GetMouseInformation, expect_ack, read_byte, read_byte, read_byte]) w;
        Some (commandsCount r = 5, s, w)
      })"

record mouse_kernel =
  mk_start :: bool
  mk_workLoop :: bool
  mk_commandGate :: bool
  mk_timer :: bool

definition mouse_start ::
  "('h, 'c) env \<Rightarrow> nat \<Rightarrow> mouse_kernel \<Rightarrow> mouse \<Rightarrow> ('h, 'c) ctl \<Rightarrow> (bool \<times> mouse \<times> ('h, 'c) ctl) option" where
  "mouse_start e p k s c =
     (if \<not> mk_start k then Some (False, s, c)
      else if \<not> mk_workLoop k \<or> \<not> mk_commandGate k
      then Some (False, s\<lparr>cmdGate := mk_commandGate k\<rparr>, c)
      else do {
        let s = s\<lparr>cmdGate := True\<rparr>;
        (s, c) \<leftarrow> resetMouse (nub_submitRequestAndBlock e p) (nub_sleep e) s c;
        let s = s\<lparr>buttonTimer := mk_timer k\<rparr>;
        c \<leftarrow> nub_installInterruptAction e p c;
        c \<leftarrow> nub_installPowerControlAction p c;
        Some (True, s\<lparr>interruptHandlerInstalled := True, powerControlHandlerInstalled := True\<rparr>, c)
      })"

definition mouse_stop ::
  "('h, 'c) env \<Rightarrow> nat \<Rightarrow> bool \<Rightarrow> mouse \<Rightarrow> ('h, 'c) ctl \<Rightarrow> (mouse \<times> ('h, 'c) ctl) option" where
  "mouse_stop e p workLoop s c = do {
     c \<leftarrow> setMouseEnable (nub_submitRequestAndBlock e p) False c;
     let s = (if workLoop then s\<lparr>cmdGate := False, buttonTimer := False\<rparr> else s);
     c \<leftarrow> (if interruptHandlerInstalled s then nub_uninstallInterruptAction e p c else Some c);
     c \<leftarrow> (if powerControlHandlerInstalled s then nub_uninstallPowerControlAction p c else Some c);
     Some (s\<lparr>interruptHandlerInstalled := False, powerControlHandlerInstalled := False\<rparr>, c)
   }"

section \<open>What the command sequences do to the port\<close>

context driver_port
begin

lemma setMouseEnable_wire:
  assumes "setMouseEnable submit enable w = Some w'" "online w"
  shows "extends w w'" "wire w' = wire w @ writes w (write_byte (if enable then kDP_Enable else kDP_SetDefaultsAndDisable))"
  using assms by (auto simp: setMouseEnable_def dest: submit_extends command_written)

lemma mouse_sequences_extend:
  "setMouseSampleRate submit b w = Some w' \<Longrightarrow> extends w w'"
  "setMouseResolution submit b w = Some w' \<Longrightarrow> extends w w'"
  "getMouseInformation submit w = Some (i, w') \<Longrightarrow> extends w w'"
  "getMouseID submit w = Some (b', w') \<Longrightarrow> extends w w'"
  by (auto simp: setMouseSampleRate_def setMouseResolution_def getMouseInformation_def getMouseID_def
      dest: submit_extends elim!: bind_eq_SomeE)

lemma knock_extends: "knockMouse submit sleep b w = Some (r, w') \<Longrightarrow> extends w w'"
  by (auto simp: knockMouse_def elim!: bind_eq_SomeE dest!: mouse_sequences_extend)
    (meson extends_trans sleep_extends)

lemma intellimouse_extends: "setIntellimouseMode submit sleep i w = Some (ty, w') \<Longrightarrow> extends w w'"
  by (auto simp: setIntellimouseMode_def elim!: bind_eq_SomeE dest!: knock_extends mouse_sequences_extend
      split: if_splits) (meson extends_trans)+

lemma query_extends: "queryMouse submit s w = Some (s', w') \<Longrightarrow> extends w w'"
  by (auto simp: queryMouse_def elim!: bind_eq_SomeE dest!: mouse_sequences_extend split: if_splits)
    (meson extends_trans)+

text \<open>A reset starts by restoring the defaults and always ends by enabling the device.\<close>

lemma resetMouse_wire:
  assumes "resetMouse submit sleep s w = Some (s', w')" "online w"
  shows "online w' \<and> writes w' = writes w \<and>
    (\<exists>ws. wire w' = wire w @ writes w (write_byte kDP_SetDefaults) @ ws @ writes w (write_byte kDP_Enable))"
proof -
  obtain r w1 s1 w2 ty w3 where
    1: "submit (TPS2Request [write_byte kDP_SetDefaults, write_byte kDP_GetMouseInformation, expect_ack,
       read_byte, read_byte, read_byte]) w = Some (r, w1)" and
    2: "queryMouse submit s w1 = Some (s1, w2)" "setIntellimouseMode submit sleep (mouseInfoBytes s1) w2 = Some (ty, w3)" and
    3: "setMouseEnable submit True w3 = Some w'"
    using assms(1) by (auto simp: resetMouse_def Let_def elim!: bind_eq_SomeE)
  obtain ws where "wire w1 = wire w @ writes w (write_byte kDP_SetDefaults) @ ws"
    using first_written [OF 1 assms(2)] by auto
  moreover have e1: "extends w w1" using 1 by (rule submit_extends)
  moreover have e3: "extends w1 w3" using query_extends [OF 2(1)] intellimouse_extends [OF 2(2)] by (rule extends_trans)
  moreover have "online w3" using e1 e3 assms(2) by (auto simp: extends_def)
  ultimately show ?thesis using setMouseEnable_wire [OF 3] assms(2) by (auto simp: extends_def)
qed

end

section \<open>What they do to the driver\<close>

text \<open>The members a reset works on; the rest it leaves alone.\<close>

lemma queryMouse_frame:
  "queryMouse submit s w = Some (s', w') \<Longrightarrow>
   s' = s\<lparr>mouseInfoBytes := mouseInfoBytes s', resolution := resolution s'\<rparr>"
  by (auto simp: queryMouse_def split: if_splits elim!: bind_eq_SomeE)

lemma typedMouse_ok:
  "packetLength (typedMouse ty s) = (if ty = kMouseTypeStandard then 3 else 4)" "mouse_type (typedMouse ty s) = ty"
  "packetByteCount (typedMouse ty s) = 0" "ringBuffer (typedMouse ty s) = ring_reset (ringBuffer s)"
  "mb_state (typedMouse ty s) = mb_state s" "pendingbuttons (typedMouse ty s) = pendingbuttons s"
  "timerArmed (typedMouse ty s) = timerArmed s" "posted (typedMouse ty s) = posted s"
  "mouseyinverter (typedMouse ty s) = mouseyinverter s" "scrollyinverter (typedMouse ty s) = scrollyinverter s"
  "buttonTimer (typedMouse ty s) = buttonTimer s" "fakemiddlebutton (typedMouse ty s) = fakemiddlebutton s"
  by (simp_all add: typedMouse_def Let_def)

lemma resetMouse_state:
  assumes "resetMouse submit sleep s w = Some (s', w')"
  shows "\<exists>ty i r. s' = typedMouse ty (s\<lparr>mouseInfoBytes := i, resolution := r\<rparr>)"
proof -
  obtain w1 s1 w2 ty w3 where "queryMouse submit s w1 = Some (s1, w2)" "s' = typedMouse ty s1"
    using assms by (auto simp: resetMouse_def Let_def elim!: bind_eq_SomeE)
  then show ?thesis using queryMouse_frame by metis
qed

text \<open>A device that acknowledges everything is reset, and the driver starts on it.\<close>

lemma ack_resetMouse:
  "\<exists>s' h'. resetMouse (nub_submitRequestAndBlock ack_env (Suc 0)) (nub_sleep ack_env) s (ack_state h 0) =
     Some (s', ack_state h' 0)"
  by (simp add: resetMouse_def queryMouse_def setIntellimouseMode_def knockMouse_def setMouseEnable_def
      setMouseSampleRate_def getMouseInformation_def getMouseID_def ack_submit ack_ok_def Let_def
      setMouseResolution_def)

text \<open>
  C31. Resetting a mouse, whatever it answers: the first byte sent is \<^verbatim>\<open>SetDefaults\<close> and the last is
  \<^verbatim>\<open>Enable\<close>, each with the prefix of the port; the receive buffer is empty and in step, and packets
  are four bytes long exactly when a wheel mouse was recognised.
\<close>

theorem resetMouse_outcome:
  assumes "resetMouse (nub_submitRequestAndBlock e p) (nub_sleep e) s c = Some (s', c')" and "nub_online e wr c"
    and "packet_inv 4 128 (ringBuffer s)"
  shows "(\<exists>ws. wr (hw c') = wr (hw c) @ command_writes (muxPresent c) p (write_byte kDP_SetDefaults) @ ws @
      command_writes (muxPresent c) p (write_byte kDP_Enable)) \<and> nub_online e wr c' \<and>
    mouse_rx_inv s' \<and> packetByteCount s' = 0 \<and> ring_packets 4 (ringBuffer s') = [] \<and>
    (packetLength s' = 4 \<longleftrightarrow> mouse_type s' \<noteq> kMouseTypeStandard)"
proof -
  obtain ty i r where s': "s' = typedMouse ty (s\<lparr>mouseInfoBytes := i, resolution := r\<rparr>)"
    using resetMouse_state [OF assms(1)] by blast
  have "packet_inv 4 128 (ringBuffer s')" "ring_packets 4 (ringBuffer s') = []"
    using mouse_ring.reset_ok [OF assms(3)] by (simp_all add: s' typedMouse_ok)
  then show ?thesis using nub_port.resetMouse_wire [OF assms(1,2)]
    by (auto simp: s' typedMouse_ok mouse_rx_inv_def)
qed

theorem resetMouse_outcome_witness:
  "\<exists>s' c' ws. resetMouse (nub_submitRequestAndBlock ack_env (Suc 0)) (nub_sleep ack_env) init_mouse ack_ctl = Some (s', c') \<and>
    hw c' = (0x64, 0xD4) # (0x60, 0xF6) # ws @ [(0x64, 0xD4), (0x60, 0xF4)]"
proof -
  obtain s' c' where run: "resetMouse (nub_submitRequestAndBlock ack_env (Suc 0)) (nub_sleep ack_env) init_mouse ack_ctl = Some (s', c')"
    using ack_resetMouse [of init_mouse "[]"] by auto
  show ?thesis using run resetMouse_outcome [OF run ack_online]
    by (auto simp: init_mouse_def command_writes_def prefix_writes_def mouse_ring.new_ring_ok)
qed

text \<open>
  Composition with the input path: a start that succeeds hands over a driver that satisfies the
  precondition of the input path (buffer in step, no pending button, timer present), so everything
  shown about its runs applies.
\<close>

theorem mouse_start_ready:
  assumes "mouse_start e p k s c = Some (True, s', c')" and "mk_timer k"
    and "packet_inv 4 128 (ringBuffer s)" and "mb_state s = STATE_NOBUTTONS" and "pendingbuttons s = 0"
    and "\<not> timerArmed s" and "inverters_ok s" and "posted s = []"
  shows "mouse_ready s' \<and> interruptHandlerInstalled s' \<and> powerControlHandlerInstalled s'"
proof -
  obtain s1 c1 where reset: "resetMouse (nub_submitRequestAndBlock e p) (nub_sleep e) (s\<lparr>cmdGate := True\<rparr>) c = Some (s1, c1)"
    and s': "s' = s1\<lparr>buttonTimer := True, interruptHandlerInstalled := True, powerControlHandlerInstalled := True\<rparr>"
    using assms(1,2) by (auto simp: mouse_start_def Let_def split: if_splits elim!: bind_eq_SomeE)
  obtain ty i r where s1: "s1 = typedMouse ty (s\<lparr>cmdGate := True, mouseInfoBytes := i, resolution := r\<rparr>)"
    using resetMouse_state [OF reset] by blast
  show ?thesis using assms(3-8) mouse_ring.reset_ok [OF assms(3)]
    by (simp add: s' s1 mouse_ready_def inverters_ok_def typedMouse_ok)
qed

theorem mouse_start_ready_witness:
  "\<exists>s' c'. mouse_start ack_env (Suc 0) \<lparr>mk_start = True, mk_workLoop = True, mk_commandGate = True, mk_timer = True\<rparr>
     init_mouse ack_ctl = Some (True, s', c') \<and> mouse_ready s'"
proof -
  let ?k = "\<lparr>mk_start = True, mk_workLoop = True, mk_commandGate = True, mk_timer = True\<rparr>"
  obtain s1 h1 where reset: "resetMouse (nub_submitRequestAndBlock ack_env (Suc 0)) (nub_sleep ack_env)
      (init_mouse\<lparr>cmdGate := True\<rparr>) (ack_state [] 0) = Some (s1, ack_state h1 0)"
    using ack_resetMouse by blast
  obtain c1 c2 where "nub_installInterruptAction ack_env (Suc 0) (ack_state h1 0) = Some c1"
    "nub_installPowerControlAction (Suc 0) c1 = Some c2"
    using ack_install [of h1] by auto
  then obtain s' c' where run: "mouse_start ack_env (Suc 0) ?k init_mouse ack_ctl = Some (True, s', c')"
    by (simp add: mouse_start_def reset)
  show ?thesis using run mouse_start_ready [OF run]
    by (simp add: init_mouse_def mouse_ring.new_ring_ok inverters_ok_def)
qed

text \<open>
  The configured resolution does not survive a property update: a configuration without
  \<^verbatim>\<open>DefaultResolution\<close> shifts the fixed-point value once more and leaves zero.
\<close>

theorem mouse_defres_lost:
  assumes "asNumber (getObject ''DefaultResolution'' config) = None" and "defres s = push_bit 16 r"
  shows "defres (mouse_setParamPropertiesGated (Some config) s) = 0"
proof -
  have number: "defres (set_number config k f t) = defres t" if "\<And>n t. defres (f n t) = defres t" for k f and t :: mouse
    using that by (simp add: set_number_def split: option.split)
  have boolean: "defres (set_boolean config k f t) = defres t" if "\<And>b t. defres (f b t) = defres t" for k f and t :: mouse
    using that by (simp add: set_boolean_def split: option.split)
  have same: "set_number config ''DefaultResolution'' f t = t" for f and t :: mouse
    using assms(1) by (simp add: set_number_def)
  have "push_bit 16 (push_bit 16 r) = 0"
    by (rule bit_word_eqI) (simp add: bit_push_bit_iff)
  then show ?thesis
    using assms(2) by (simp add: mouse_setParamPropertiesGated_def Let_def number boolean same)
qed

theorem mouse_defres_lost_witness:
  "defres (mouse_setParamPropertiesGated (Some [(''ButtonCount'', OSNumber 2)]) init_mouse) = 0"
  by (rule mouse_defres_lost [where r = 150]) (simp_all add: getObject_def init_mouse_def)

end
