(* ===== verification/FocalTech_Setup.thy ===== *)
theory FocalTech_Setup
  imports FocalTech_Packet PS2_Mouse_Setup
begin

text \<open>
  Detection, setup, power and life cycle of the FocalTech touchpad driver (\<^verbatim>\<open>ApplePS2FocalTech\<close>, the
  fragments \<^verbatim>\<open>part00\<close> to \<^verbatim>\<open>part03\<close>). The command sequences take the transport as an argument. The
  compatibility sequence for old devices also talks to the keyboard and to the controller; it is used
  only where the controller has a single auxiliary port.
\<close>

section \<open>State\<close>

text \<open>The members beside the input path; \<open>focaltech\<close> is in \<open>foc_input\<close>.\<close>

record foc_driver =
  foc_input :: focaltech
  foc_device :: bool
  foc_interruptInstalled :: bool
  foc_powerInstalled :: bool
  foc_inputPublished :: bool
  legacyCompatibilityPath :: bool
  auxNubCount :: nat

definition new_foc_driver :: "nat \<Rightarrow> foc_driver" where
  "new_foc_driver n = \<lparr>foc_input = new_focaltech n, foc_device = False, foc_interruptInstalled = False,
     foc_powerInstalled = False, foc_inputPublished = False, legacyCompatibilityPath = False, auxNubCount = 0\<rparr>"

text \<open>The nubs of the controller that are mouse devices: all but the first, which is the keyboard.\<close>

definition countAuxNubs :: "('h, 'c) ctl \<Rightarrow> nat" where
  "countAuxNubs c = length (filter (\<lambda>d. d \<noteq> None) (drop 1 (devices c)))"

definition mayUseLegacyFallback :: "foc_driver \<Rightarrow> bool" where
  "mayUseLegacyFallback s \<longleftrightarrow> auxNubCount s \<le> 1"

section \<open>Command sequences\<close>

abbreviation send_byte :: "u8 \<Rightarrow> PS2Command" where
  "send_byte b \<equiv> cmd_byte kPS2C_SendCommandAndCompareAck b"

definition foc_detect_request :: PS2Request where
  "foc_detect_request = TPS2Request [send_byte kDP_SetMouseScaling1To1, send_byte kDP_SetMouseScaling1To1,
     send_byte kDP_SetMouseScaling1To1, send_byte kDP_GetMouseInformation, read_byte, read_byte, read_byte]"

definition detectFocalTech :: "'s submit \<Rightarrow> 's \<Rightarrow> (bool \<times> 's) option" where
  "detectFocalTech submit w = do {
     (r, w) \<leftarrow> submit (TPS2Request [send_byte kDP_SetDefaultsAndDisable]) w;
     if commandsCount r \<noteq> 1 then Some (False, w)
     else do {
       (r, w) \<leftarrow> submit foc_detect_request w;
       if commandsCount r \<noteq> 7 then Some (False, w)
       else let b0 = inOrOut (commands r ! 4); b1 = inOrOut (commands r ! 5); b2 = inOrOut (commands r ! 6)
         in Some (b0 = 0x3c \<and> b1 = 0xf0 \<and> (b2 = 0xc8 \<or> b2 = 0x00), w)
     }
   }"

definition foc_resetDevice :: "'s submit \<Rightarrow> 's \<Rightarrow> (bool \<times> 's) option" where
  "foc_resetDevice submit w = do {
     (r, w) \<leftarrow> submit (TPS2Request [send_byte kDP_Reset, read_byte, read_byte]) w;
     Some (commandsCount r = 3 \<and> inOrOut (commands r ! 1) = kSC_Reset \<and> inOrOut (commands r ! 2) = kSC_ID, w)
   }"

definition foc_select_request :: "u8 \<Rightarrow> PS2Request" where
  "foc_select_request reg = TPS2Request [send_byte kDP_SetMouseScaling1To1,
     send_byte kDP_SetMouseResolution, send_byte 0, send_byte kDP_SetMouseResolution, send_byte 0,
     send_byte kDP_SetMouseResolution, send_byte 0, send_byte kDP_SetMouseResolution, send_byte reg]"

definition readRegister :: "'s submit \<Rightarrow> u8 \<Rightarrow> 's \<Rightarrow> ((u8 \<times> u8 \<times> u8) option \<times> 's) option" where
  "readRegister submit reg w = do {
     (r, w) \<leftarrow> submit (foc_select_request reg) w;
     if commandsCount r \<noteq> 9 then Some (None, w)
     else do {
       (r, w) \<leftarrow> submit (TPS2Request [send_byte kDP_GetMouseInformation, read_byte, read_byte, read_byte]) w;
       Some (if commandsCount r \<noteq> 4 then None
             else Some (inOrOut (commands r ! 1), inOrOut (commands r ! 2), inOrOut (commands r ! 3)), w)
     }
   }"

definition readDimensions :: "'s submit \<Rightarrow> focaltech \<Rightarrow> 's \<Rightarrow> (bool \<times> focaltech \<times> 's) option" where
  "readDimensions submit s w = do {
     (param, w) \<leftarrow> readRegister submit 2 w;
     case param of None \<Rightarrow> Some (False, s, w)
     | Some (_, p1, p2) \<Rightarrow>
         let s = s\<lparr>xMax := unat p1 * 128, yMax := unat p2 * 128\<rparr>
         in Some (xMax s \<ge> 128 \<and> yMax s \<ge> 128, s, w)
   }"

definition FOC_PS2_CUSTOM_COMMAND :: u8 where [simp]: "FOC_PS2_CUSTOM_COMMAND = 0xF8"

definition foc_native_request :: PS2Request where
  "foc_native_request = TPS2Request [send_byte FOC_PS2_CUSTOM_COMMAND, send_byte 0, send_byte FOC_PS2_CUSTOM_COMMAND,
     send_byte 0, send_byte FOC_PS2_CUSTOM_COMMAND, send_byte 0, send_byte FOC_PS2_CUSTOM_COMMAND, send_byte 1,
     send_byte kDP_SetMouseScaling1To1]"

definition switchToNativeProtocol :: "'s submit \<Rightarrow> 's \<Rightarrow> (bool \<times> 's) option" where
  "switchToNativeProtocol submit w = do {
     (r, w) \<leftarrow> submit foc_native_request w;
     Some (commandsCount r = 9, w)
   }"

definition foc_setupHardware :: "'s submit \<Rightarrow> bool \<Rightarrow> foc_driver \<Rightarrow> 's \<Rightarrow> (bool \<times> foc_driver \<times> 's) option" where
  "foc_setupHardware submit publishInput s w = do {
     let s = s\<lparr>foc_input := clearState (foc_input s)\<rparr>;
     (ok, w) \<leftarrow> (if legacyCompatibilityPath s then Some (True, w) else foc_resetDevice submit w);
     if \<not> ok then Some (False, s, w)
     else do {
       (ok, t, w) \<leftarrow> readDimensions submit (foc_input s) w;
       let s = s\<lparr>foc_input := t\<rparr>;
       if \<not> ok then Some (False, s, w)
       else do {
         (ok, w) \<leftarrow> switchToNativeProtocol submit w;
         if \<not> ok then Some (False, s, w)
         else Some (True, if publishInput \<and> \<not> foc_inputPublished s then s\<lparr>foc_inputPublished := True\<rparr> else s, w)
       }
     }
   }"

definition foc_setTouchPadEnable :: "'s submit \<Rightarrow> bool \<Rightarrow> 's \<Rightarrow> 's option" where
  "foc_setTouchPadEnable submit enable w = map_option snd (submit (TPS2Request
     [send_byte (if enable then kDP_Enable else kDP_SetDefaultsAndDisable)]) w)"

section \<open>The compatibility sequence\<close>

text \<open>One command to the keyboard port; the result says whether it was acknowledged.\<close>

definition keyboard_command :: "('h, 'c) env \<Rightarrow> u8 \<Rightarrow> ('h, 'c) ctl \<Rightarrow> (bool \<times> ('h, 'c) ctl) option" where
  "keyboard_command e b c = do {
     (r, c) \<leftarrow> submitRequestAndBlock e ((TPS2Request [send_byte b])\<lparr>req_port := kPS2KbdIdx\<rparr>) c;
     Some (commandsCount r = 1, c)
   }"

definition foc_flush :: "('h, 'c) env \<Rightarrow> nat \<Rightarrow> ('h, 'c) ctl \<Rightarrow> ('h, 'c) ctl option" where
  "foc_flush e p c = map_option snd (nub_submitRequestAndBlock e p (TPS2Request [cmd_byte kPS2C_FlushDataPort 0]) c)"

definition prepareLegacyControllerState :: "('h, 'c) env \<Rightarrow> nat \<Rightarrow> ('h, 'c) ctl \<Rightarrow> (bool \<times> ('h, 'c) ctl) option" where
  "prepareLegacyControllerState e p c = do {
     (_, c) \<leftarrow> setCommandByte e 0 (kCB_EnableMouseIRQ OR kCB_DisableMouseClock) c;
     (keyboardDisable, c) \<leftarrow> keyboard_command e kDP_SetDefaultsAndDisable c;
     (auxDisable, c) \<leftarrow> nub_submitRequestAndBlock e p (TPS2Request [send_byte kDP_SetDefaultsAndDisable]) c;
     c \<leftarrow> foc_flush e p c;
     (keyboardReset, c) \<leftarrow> keyboard_command e kDP_Reset c;
     c \<leftarrow> foc_flush e p (nub_sleep e 50 c);
     (keyboardEnable, c) \<leftarrow> keyboard_command e kDP_Enable c;
     (_, c) \<leftarrow> setCommandByte e 0 (kCB_EnableMouseIRQ OR kCB_DisableMouseClock) c;
     Some (keyboardDisable \<and> commandsCount auxDisable = 1 \<and> keyboardReset \<and> keyboardEnable, c)
   }"

text \<open>Detection as probe and wake do it: directly, then if allowed after the compatibility sequence.\<close>

definition foc_detect :: "('h, 'c) env \<Rightarrow> nat \<Rightarrow> foc_driver \<Rightarrow> ('h, 'c) ctl \<Rightarrow> (bool \<times> foc_driver \<times> ('h, 'c) ctl) option" where
  "foc_detect e p s c = do {
     let s = s\<lparr>auxNubCount := countAuxNubs c, legacyCompatibilityPath := False\<rparr>;
     (detected, c) \<leftarrow> detectFocalTech (nub_submitRequestAndBlock e p) c;
     if \<not> detected \<and> mayUseLegacyFallback s
     then do {
       (ok, c) \<leftarrow> prepareLegacyControllerState e p c;
       if ok
       then do {
         (detected, c) \<leftarrow> detectFocalTech (nub_submitRequestAndBlock e p) c;
         Some (detected, s\<lparr>legacyCompatibilityPath := True\<rparr>, c)
       }
       else Some (False, s, c)
     }
     else Some (detected, s, c)
   }"

section \<open>Life cycle\<close>

definition foc_probe ::
  "('h, 'c) env \<Rightarrow> nat \<Rightarrow> bool \<Rightarrow> foc_driver \<Rightarrow> ('h, 'c) ctl \<Rightarrow> (bool \<times> foc_driver \<times> ('h, 'c) ctl) option" where
  "foc_probe e p super s c = (if super then foc_detect e p s c else Some (False, s, c))"

definition foc_start ::
  "('h, 'c) env \<Rightarrow> nat \<Rightarrow> bool \<Rightarrow> bool \<Rightarrow> bool \<Rightarrow> foc_driver \<Rightarrow> ('h, 'c) ctl \<Rightarrow>
   (bool \<times> foc_driver \<times> ('h, 'c) ctl) option" where
  "foc_start e p super workLoop timer s c =
     (if \<not> super then Some (False, s, c)
      else let s = s\<lparr>auxNubCount := countAuxNubs c\<rparr> in
        if \<not> workLoop \<or> \<not> timer then Some (False, s\<lparr>foc_device := False\<rparr>, c)
        else do {
          let s = s\<lparr>foc_device := True, foc_input := (foc_input s)\<lparr>forceTimer := True\<rparr>\<rparr>;
          (ok, s, c) \<leftarrow> foc_setupHardware (nub_submitRequestAndBlock e p) True s c;
          if \<not> ok
          then Some (False, s\<lparr>foc_device := False, foc_input := (foc_input s)\<lparr>forceTimer := False\<rparr>\<rparr>, c)
          else do {
            c \<leftarrow> nub_installInterruptAction e p c;
            c \<leftarrow> foc_setTouchPadEnable (nub_submitRequestAndBlock e p) True c;
            c \<leftarrow> nub_installPowerControlAction p c;
            Some (True, s\<lparr>foc_interruptInstalled := True, foc_powerInstalled := True\<rparr>, c)
          }
        })"

definition foc_setDevicePowerState ::
  "('h, 'c) env \<Rightarrow> nat \<Rightarrow> PS2PowerWhat \<Rightarrow> foc_driver \<Rightarrow> ('h, 'c) ctl \<Rightarrow> (foc_driver \<times> ('h, 'c) ctl) option" where
  "foc_setDevicePowerState e p whatToDo s c =
     (if \<not> foc_device s then Some (s, c)
      else case whatToDo of
        kPS2C_DisableDevice \<Rightarrow>
          map_option (Pair (s\<lparr>foc_input := (cancelTimeout (foc_input s))\<lparr>forceEligible := False, forceActive := False\<rparr>\<rparr>))
            (foc_setTouchPadEnable (nub_submitRequestAndBlock e p) False c)
      | kPS2C_EnableDevice \<Rightarrow> do {
          (detected, s, c) \<leftarrow> foc_detect e p s (nub_sleep e 1000 c);
          if \<not> detected then Some (s, c)
          else do {
            (ok, s, c) \<leftarrow> foc_setupHardware (nub_submitRequestAndBlock e p) False s c;
            c \<leftarrow> (if ok then foc_setTouchPadEnable (nub_submitRequestAndBlock e p) True c else Some c);
            Some (s, c)
          }
        })"

definition foc_stop ::
  "('h, 'c) env \<Rightarrow> nat \<Rightarrow> foc_driver \<Rightarrow> ('h, 'c) ctl \<Rightarrow> (foc_driver \<times> ('h, 'c) ctl) option" where
  "foc_stop e p s c = do {
     let s = s\<lparr>foc_input := (cancelTimeout (foc_input s))\<lparr>forceTimer := False\<rparr>\<rparr>;
     c \<leftarrow> (if foc_device s then do {
            c \<leftarrow> foc_setTouchPadEnable (nub_submitRequestAndBlock e p) False c;
            c \<leftarrow> (if foc_interruptInstalled s then nub_uninstallInterruptAction e p c else Some c);
            if foc_powerInstalled s then nub_uninstallPowerControlAction p c else Some c
          } else Some c);
     let s = (if foc_device s then s\<lparr>foc_interruptInstalled := False, foc_powerInstalled := False\<rparr> else s);
     Some (s\<lparr>foc_device := False, foc_input := (foc_input s)\<lparr>voodooInput := False\<rparr>\<rparr>, c)
   }"

text \<open>Connecting and disconnecting the client that receives the events.\<close>

definition foc_handleOpen :: "bool \<Rightarrow> foc_driver \<Rightarrow> bool \<times> foc_driver" where
  "foc_handleOpen isVoodooInput s =
     (if isVoodooInput then (True, s\<lparr>foc_input := (foc_input s)\<lparr>voodooInput := True\<rparr>\<rparr>) else (False, s))"

definition foc_handleClose :: "bool \<Rightarrow> foc_driver \<Rightarrow> foc_driver" where
  "foc_handleClose isClient s = (if isClient then s\<lparr>foc_input := (foc_input s)\<lparr>voodooInput := False\<rparr>\<rparr> else s)"

section \<open>What goes over the wire\<close>

text \<open>Only acknowledged commands and reads: nothing but bytes for the device of this port.\<close>

definition device_kinds :: "PS2CommandEnum set" where
  "device_kinds = {kPS2C_SendCommandAndCompareAck, kPS2C_ReadDataPort}"

context driver_port
begin

definition talks :: "'s \<Rightarrow> 's \<Rightarrow> bool" where
  "talks s s' \<longleftrightarrow> (online s \<longrightarrow> online s' \<and> writes s' = writes s \<and>
     (\<exists>cmds. wire s' = wire s @ concat (map (writes s) cmds) \<and> command ` set cmds \<subseteq> device_kinds))"

lemma talks_refl [simp]: "talks s s"
  unfolding talks_def by (auto intro!: exI [of _ "[]"])

lemma talks_trans [trans]:
  assumes "talks a b" "talks b c" shows "talks a c"
  unfolding talks_def
proof (intro impI)
  assume on: "online a"
  then obtain cs where 1: "online b" "writes b = writes a" "wire b = wire a @ concat (map (writes a) cs)" "command ` set cs \<subseteq> device_kinds"
    using assms(1) by (auto simp: talks_def)
  then obtain ds where "online c" "writes c = writes b" "wire c = wire b @ concat (map (writes b) ds)" "command ` set ds \<subseteq> device_kinds"
    using assms(2) by (auto simp: talks_def)
  then show "online c \<and> writes c = writes a \<and> (\<exists>cmds. wire c = wire a @ concat (map (writes a) cmds) \<and> command ` set cmds \<subseteq> device_kinds)"
    using 1 by (intro conjI exI [of _ "cs @ ds"]) (simp_all add: image_Un)
qed

lemma talks_sleep: "talks s (sleep n s)"
  using sleep_quiet by (auto simp: talks_def intro!: exI [of _ "[]"])

lemma request_kinds:
  assumes run: "submit (TPS2Request cmds) s = Some (r', s')" and on: "online s" and len: "length cmds < 256"
  shows "command ` set (executedCommands (TPS2Request cmds) r') \<subseteq> command ` set cmds"
proof
  fix k assume "k \<in> command ` set (executedCommands (TPS2Request cmds) r')"
  then obtain i where i: "i < length (executedCommands (TPS2Request cmds) r')" "k = command (executedCommands (TPS2Request cmds) r' ! i)"
    by (auto simp: in_set_conv_nth)
  let ?n = "unat (commandsCount r')"
  have lens: "length (commands r') = length cmds" using submit_length [OF run on] by simp
  have n: "unat (commandsCount (TPS2Request cmds)) = length cmds"
    using len by (simp add: unsigned_of_nat take_bit_nat_eq_self_iff)
  have i': "i < length cmds" "executedCommands (TPS2Request cmds) r' ! i = commands r' ! i"
    using i(1) lens by (simp_all add: executedCommands_def)
  have "\<exists>f. executed f (cmds ! i) (commands r' ! i)"
  proof (cases "i < ?n")
    case True
    then show ?thesis using submit_executed [OF run on True] by auto
  next
    case False
    then have "i = ?n" "commandsCount r' < commandsCount (TPS2Request cmds)"
      using i(1) by (auto simp: executedCommands_def split: if_splits)
    then show ?thesis using submit_failed [OF run on] by auto
  qed
  then have "command (commands r' ! i) = command (cmds ! i)" by (auto simp: executed_def)
  then show "k \<in> command ` set cmds" using i(2) i' by simp
qed

lemma talks_request:
  assumes "submit (TPS2Request cmds) s = Some (r', s')" "command ` set cmds \<subseteq> device_kinds" "length cmds < 256"
  shows "talks s s'"
  unfolding talks_def
proof (intro impI)
  assume on: "online s"
  have "command ` set (executedCommands (TPS2Request cmds) r') \<subseteq> device_kinds"
    using request_kinds [OF assms(1) on assms(3)] assms(2) by blast
  then show "online s' \<and> writes s' = writes s \<and> (\<exists>cmds. wire s' = wire s @ concat (map (writes s) cmds) \<and> command ` set cmds \<subseteq> device_kinds)"
    using submit_online [OF assms(1) on] submit_wire [OF assms(1) on] by blast
qed

lemma talks_foc:
  "detectFocalTech submit w = Some (d, w') \<Longrightarrow> talks w w'"
  "foc_setTouchPadEnable submit en w = Some w' \<Longrightarrow> talks w w'"
  "foc_resetDevice submit w = Some (d, w') \<Longrightarrow> talks w w'"
  "readRegister submit reg w = Some (v, w') \<Longrightarrow> talks w w'"
  "switchToNativeProtocol submit w = Some (d, w') \<Longrightarrow> talks w w'"
  by (auto simp: detectFocalTech_def foc_setTouchPadEnable_def foc_resetDevice_def readRegister_def switchToNativeProtocol_def
      foc_detect_request_def foc_select_request_def foc_native_request_def device_kinds_def Let_def
      elim!: bind_eq_SomeE split: if_splits dest!: talks_request) (meson talks_trans)+

lemma talks_setup: "foc_setupHardware submit pub s w = Some (d, s', w') \<Longrightarrow> talks w w'"
  by (auto simp: foc_setupHardware_def readDimensions_def Let_def elim!: bind_eq_SomeE
      split: if_splits option.splits dest!: talks_foc) (meson talks_trans)+

text \<open>A request that completes has sent exactly its command bytes.\<close>

definition sent_bytes :: "'s \<Rightarrow> u8 list \<Rightarrow> (u16 \<times> u8) list" where
  "sent_bytes s bs = concat (map (\<lambda>b. writes s (send_byte b)) bs)"

lemma sent_bytes_simps [simp]: "sent_bytes s [] = []" "sent_bytes s (b # bs) = writes s (send_byte b) @ sent_bytes s bs"
  "sent_bytes s (bs @ bs') = sent_bytes s bs @ sent_bytes s bs'"
  by (simp_all add: sent_bytes_def)

lemma sent_bytes_cong: "writes s' = writes s \<Longrightarrow> sent_bytes s' bs = sent_bytes s bs"
  by (simp add: sent_bytes_def)

lemma completed_bytes:
  assumes run: "submit (TPS2Request (map send_byte bs @ replicate n read_byte)) s = Some (r', s')" and on: "online s"
    and all: "unat (commandsCount r') = length bs + n" and len: "length bs + n < 256"
  shows "online s'" "writes s' = writes s" "wire s' = wire s @ sent_bytes s bs"
proof -
  note fin = completed [OF run on]
  show "online s'" "writes s' = writes s" using fin all len by simp_all
  have "list_all2 (executed False) (map send_byte bs @ replicate n read_byte) (commands r')" using fin all len by simp
  then obtain us vs where cs: "commands r' = us @ vs" "list_all2 (executed False) (map send_byte bs) us"
    "list_all2 (executed False) (replicate n read_byte) vs"
    by (auto simp: list_all2_append1)
  have "us = map send_byte bs" using cs(2) by (induction bs arbitrary: us) (auto simp: list_all2_Cons1 executed_def)
  moreover have "concat (map (writes s) vs) = []"
    using cs(3) by (induction n arbitrary: vs) (auto simp: list_all2_Cons1 executed_def reads_silent)
  ultimately have "concat (map (writes s) (commands r')) = sent_bytes s bs" by (simp add: cs(1) sent_bytes_def o_def)
  then show "wire s' = wire s @ sent_bytes s bs" using fin(3) all len by simp
qed

lemma reset_wire:
  assumes "foc_resetDevice submit w = Some (True, w')" "online w"
  shows "online w'" "writes w' = writes w" "wire w' = wire w @ sent_bytes w [kDP_Reset]"
proof -
  obtain r where "submit (TPS2Request (map send_byte [kDP_Reset] @ replicate 2 read_byte)) w = Some (r, w')" "commandsCount r = 3"
    using assms(1) by (auto simp: foc_resetDevice_def numeral_2_eq_2 elim!: bind_eq_SomeE)
  from completed_bytes [OF this(1) assms(2)] this(2)
  show "online w'" "writes w' = writes w" "wire w' = wire w @ sent_bytes w [kDP_Reset]" by simp_all
qed

lemma register_wire:
  assumes "readRegister submit reg w = Some (Some v, w')" "online w"
  shows "online w'" "writes w' = writes w" "wire w' = wire w @ sent_bytes w [0xE6, 0xE8, 0, 0xE8, 0, 0xE8, 0, 0xE8, reg, 0xE9]"
proof -
  obtain r w1 r2 where
    1: "submit (TPS2Request (map send_byte [0xE6, 0xE8, 0, 0xE8, 0, 0xE8, 0, 0xE8, reg] @ replicate 0 read_byte)) w = Some (r, w1)"
      "commandsCount r = 9" and
    2: "submit (TPS2Request (map send_byte [0xE9] @ replicate 3 read_byte)) w1 = Some (r2, w')" "commandsCount r2 = 4"
    using assms(1) by (auto simp: readRegister_def foc_select_request_def numeral_3_eq_3 elim!: bind_eq_SomeE split: if_splits)
  note a = completed_bytes [OF 1(1) assms(2)]
  have "online w1" "writes w1 = writes w" "wire w1 = wire w @ sent_bytes w [0xE6, 0xE8, 0, 0xE8, 0, 0xE8, 0, 0xE8, reg]"
    using a 1(2) by simp_all
  moreover from completed_bytes [OF 2(1) this(1)] 2(2)
  have "online w'" "writes w' = writes w1" "wire w' = wire w1 @ sent_bytes w1 [0xE9]" by simp_all
  ultimately show "online w'" "writes w' = writes w"
    "wire w' = wire w @ sent_bytes w [0xE6, 0xE8, 0, 0xE8, 0, 0xE8, 0, 0xE8, reg, 0xE9]"
    using sent_bytes_cong [of w1 w] by simp_all
qed

lemma native_wire:
  assumes "switchToNativeProtocol submit w = Some (True, w')" "online w"
  shows "online w'" "writes w' = writes w" "wire w' = wire w @ sent_bytes w [0xF8, 0, 0xF8, 0, 0xF8, 0, 0xF8, 1, 0xE6]"
proof -
  obtain r where "submit (TPS2Request (map send_byte [0xF8, 0, 0xF8, 0, 0xF8, 0, 0xF8, 1, 0xE6] @ replicate 0 read_byte)) w = Some (r, w')"
    "commandsCount r = 9"
    using assms(1) by (auto simp: switchToNativeProtocol_def foc_native_request_def elim!: bind_eq_SomeE)
  from completed_bytes [OF this(1) assms(2)] this(2)
  show "online w'" "writes w' = writes w" "wire w' = wire w @ sent_bytes w [0xF8, 0, 0xF8, 0, 0xF8, 0, 0xF8, 1, 0xE6]" by simp_all
qed

definition setup_bytes :: "bool \<Rightarrow> u8 list" where
  "setup_bytes legacy = (if legacy then [] else [kDP_Reset]) @ [0xE6, 0xE8, 0, 0xE8, 0, 0xE8, 0, 0xE8, 2, 0xE9] @
     [0xF8, 0, 0xF8, 0, 0xF8, 0, 0xF8, 1, 0xE6]"

lemma setup_ok:
  assumes run: "foc_setupHardware submit pub s w = Some (True, s', w')" and on: "online w" and fresh: "foc_fresh (foc_input s)"
  shows "foc_inv (foc_input s')" "ring_packets 6 (focaltech.ringBuffer (foc_input s')) = []"
    "128 \<le> xMax (foc_input s') \<and> xMax (foc_input s') \<le> 32640" "128 \<le> yMax (foc_input s') \<and> yMax (foc_input s') \<le> 32640"
    "wire w' = wire w @ sent_bytes w (setup_bytes (legacyCompatibilityPath s))"
proof -
  obtain w1 v p1 p2 w2 where
    1: "(if legacyCompatibilityPath s then Some (True, w) else foc_resetDevice submit w) = Some (True, w1)" and
    2: "readRegister submit 2 w1 = Some (Some (v, p1, p2), w2)" and
    3: "switchToNativeProtocol submit w2 = Some (True, w')" and
    t: "foc_input s' = (clearState (foc_input s))\<lparr>xMax := unat p1 * 128, yMax := unat p2 * 128\<rparr>" and
    d: "128 \<le> unat p1 * 128" "128 \<le> unat p2 * 128"
    using run by (auto simp: foc_setupHardware_def readDimensions_def Let_def elim!: bind_eq_SomeE split: if_splits option.splits)
  have w1: "online w1" "writes w1 = writes w" "wire w1 = wire w @ sent_bytes w (if legacyCompatibilityPath s then [] else [kDP_Reset])"
    using 1 reset_wire on by (auto split: if_splits)
  note w2 = register_wire [OF 2 w1(1)]
  note w3 = native_wire [OF 3 w2(1)]
  show "wire w' = wire w @ sent_bytes w (setup_bytes (legacyCompatibilityPath s))"
    using w1 w2 w3 sent_bytes_cong [of w1 w] sent_bytes_cong [of w2 w] by (simp add: setup_bytes_def)
  have "unat p1 \<le> 255" "unat p2 \<le> 255" using unat_u8_less [of p1] unat_u8_less [of p2] by linarith+
  then show "128 \<le> xMax (foc_input s') \<and> xMax (foc_input s') \<le> 32640" "128 \<le> yMax (foc_input s') \<and> yMax (foc_input s') \<le> 32640"
    using d by (simp_all add: t)
  let ?f = "(foc_input s)\<lparr>xMax := unat p1 * 128, yMax := unat p2 * 128\<rparr>"
  have same: "foc_input s' = clearState ?f" by (simp add: t clearState_def cancelTimeout_def)
  have "foc_fresh ?f" using fresh by (simp add: foc_fresh_def)
  then show "foc_inv (foc_input s')" using fresh_inv same by simp
  show "ring_packets 6 (focaltech.ringBuffer (foc_input s')) = []"
    using fresh foc_ring.reset_ok [of "focaltech.ringBuffer (foc_input s)"] by (simp add: t foc_fresh_def clearState_def)
qed

end

definition sample_legacy :: foc_driver where
  "sample_legacy = (new_foc_driver 10)\<lparr>legacyCompatibilityPath := True\<rparr>"

lemma sample_legacy_fresh: "foc_fresh (foc_input sample_legacy)"
  using foc_ring.new_ring_ok [of "0 :: u8"] by (simp add: foc_fresh_def sample_legacy_def new_foc_driver_def new_focaltech_def)

lemma ack_sends: "list_all ack_ok (map send_byte bs @ replicate n read_byte)"
  by (auto simp: list_all_iff ack_ok_def)

lemma ack_setup:
  "\<exists>s' c'. foc_setupHardware (nub_submitRequestAndBlock ack_env (Suc 0)) True sample_legacy (ack_state [] 0) = Some (True, s', c')"
  using ack_submit [OF ack_sends, of "[0xE6, 0xE8, 0, 0xE8, 0, 0xE8, 0, 0xE8, 2]" 0 "[]"]
    ack_submit [OF ack_sends, of "[0xE9]" 3]
    ack_submit [OF ack_sends, of "[0xF8, 0, 0xF8, 0, 0xF8, 0, 0xF8, 1, 0xE6]" 0]
  by (simp add: foc_setupHardware_def sample_legacy_def readDimensions_def readRegister_def switchToNativeProtocol_def
      foc_select_request_def foc_native_request_def numeral_3_eq_3 ack_answer_def Let_def)

text \<open>
  C15. Setting up the FocalTech pad: when it succeeds, the device was reset (unless the compatibility
  sequence made it answer), asked for its dimensions and switched to its native protocol, with
  exactly these bytes in this order and no others; the pad is not yet enabled. The driver then is
  in a state its input path can start from, with a pad between 128 and 32640 units wide and high.
\<close>

theorem foc_setup_outcome:
  assumes "foc_setupHardware (nub_submitRequestAndBlock e p) pub s c = Some (True, s', c')" and "nub_online e wr c"
    and "foc_fresh (foc_input s)"
  shows "foc_inv (foc_input s') \<and> ring_packets 6 (focaltech.ringBuffer (foc_input s')) = [] \<and>
    xMax (foc_input s') \<in> {128..32640} \<and> yMax (foc_input s') \<in> {128..32640} \<and>
    wr (hw c') = wr (hw c) @ concat (map (\<lambda>b. command_writes (muxPresent c) p (send_byte b))
      ((if legacyCompatibilityPath s then [] else [kDP_Reset]) @ [0xE6, 0xE8, 0, 0xE8, 0, 0xE8, 0, 0xE8, 2, 0xE9] @
       [0xF8, 0, 0xF8, 0, 0xF8, 0, 0xF8, 1, 0xE6]))"
  using nub_port.setup_ok [OF assms]
  by (simp add: nub_port.sent_bytes_def nub_port.setup_bytes_def)

theorem foc_setup_outcome_witness:
  "\<exists>s' c'. foc_setupHardware (nub_submitRequestAndBlock ack_env (Suc 0)) True sample_legacy (ack_state [] 0) = Some (True, s', c') \<and>
     foc_inv (foc_input s') \<and> xMax (foc_input s') \<in> {128..32640}"
proof -
  obtain s' c' where run: "foc_setupHardware (nub_submitRequestAndBlock ack_env (Suc 0)) True sample_legacy (ack_state [] 0) = Some (True, s', c')"
    using ack_setup by blast
  have "nub_online ack_env (\<lambda>h. h) (ack_state [] 0)" using ack_online by simp
  from foc_setup_outcome [OF run this sample_legacy_fresh] run show ?thesis by blast
qed

text \<open>
  C16. Probing leaves other devices alone: where the controller has more than one auxiliary port,
  neither the probe nor the wake of the FocalTech driver uses the compatibility sequence, whatever
  answers; everything they send goes to the port of the driver, nothing to the keyboard and
  nothing to the command byte of the controller.
\<close>

theorem foc_mux_confined:
  assumes "nub_online e wr c" and "1 < countAuxNubs c"
    and "foc_probe e p super s c = Some (detected, s', c') \<or> foc_setDevicePowerState e p what s c = Some (s', c')"
  shows "\<exists>cmds. wr (hw c') = wr (hw c) @ concat (map (command_writes (muxPresent c) p) cmds) \<and>
    (\<forall>cmd \<in> set cmds. command cmd \<in> {kPS2C_SendCommandAndCompareAck, kPS2C_ReadDataPort})"
proof -
  let ?talks = "nub_port.talks wr e p"
  have detect: "?talks a b" if "foc_detect e p t a = Some (d, t', b)" "1 < countAuxNubs a" for a b t d t'
    using that by (auto simp: foc_detect_def mayUseLegacyFallback_def Let_def dest: nub_port.talks_foc(1) elim!: bind_eq_SomeE)
  have sleep: "1 < countAuxNubs (nub_sleep e n c)" for n using assms(2) by (simp add: countAuxNubs_def nub_sleep_def)
  have trans: "?talks x z" if "?talks x y" "?talks y z" for x y z using that by (rule nub_port.talks_trans)
  have "?talks c c'"
    using assms(3)
  proof
    assume "foc_probe e p super s c = Some (detected, s', c')"
    then show ?thesis using detect assms(2) by (auto simp: foc_probe_def split: if_splits)
  next
    assume "foc_setDevicePowerState e p what s c = Some (s', c')"
    then show ?thesis using nub_port.talks_sleep [of wr e p c 1000]
      by (auto simp: foc_setDevicePowerState_def elim!: bind_eq_SomeE split: if_splits PS2PowerWhat.splits
          dest!: nub_port.talks_foc(2) [where wr = wr] nub_port.talks_setup [where wr = wr] detect [OF _ sleep])
        (blast intro: trans)+
  qed
  then show ?thesis using assms(1) by (auto simp: nub_port.talks_def device_kinds_def)
qed

text \<open>A multiplexed controller whose device refuses the first command.\<close>

definition sample_mux :: "(script, (nat \<times> u8) list) ctl" where
  "sample_mux = script_ctl True [0, 0, 0x21, 0x21] [0xFC, 0xFC]"

theorem foc_mux_confined_witness:
  "\<exists>detected s' c' cmds. foc_probe script_env 1 True (new_foc_driver 10) sample_mux = Some (detected, s', c') \<and>
     written (hw c') = concat (map (command_writes True 1) cmds) \<and>
     (\<forall>cmd \<in> set cmds. command cmd \<in> {kPS2C_SendCommandAndCompareAck, kPS2C_ReadDataPort})"
proof -
  have "map_option fst (detectFocalTech (nub_submitRequestAndBlock script_env 1) sample_mux) = Some False" by code_simp
  moreover have n: "countAuxNubs sample_mux = 4" by (simp add: countAuxNubs_def sample_mux_def script_ctl_def upt_rec)
  ultimately obtain s' c' where run: "foc_probe script_env 1 True (new_foc_driver 10) sample_mux = Some (False, s', c')"
    by (auto simp: foc_probe_def foc_detect_def mayUseLegacyFallback_def Let_def)
  have "nub_online script_env written sample_mux" "1 < countAuxNubs sample_mux"
    using n by (simp_all add: nub_online_def sample_mux_def script_ctl_def script_logs)
  from foc_mux_confined [OF this disjI1 [OF run]] run show ?thesis
    by (auto simp: sample_mux_def script_ctl_def)
qed

end
