(* ===== verification/FTE0001_Pad.thy ===== *)
theory FTE0001_Pad
  imports FocalTech_Setup
begin

text \<open>
  The touchpad driver for the FTE0001 variant (\<^verbatim>\<open>ApplePS2FTE0001\<close>, \<^verbatim>\<open>FTE0001.inc\<close>): packets of eight or
  sixteen bytes, the length depending on the number of fingers in the fifth byte, decoded into at
  most four fingers. It attaches only when a boot argument asks for it, and only to a controller
  with a single auxiliary port.
\<close>

section \<open>State\<close>

definition FTE_PACKET_SHORT_LENGTH :: nat where [simp]: "FTE_PACKET_SHORT_LENGTH = 8"
definition FTE_PACKET_LONG_LENGTH :: nat where [simp]: "FTE_PACKET_LONG_LENGTH = 16"
definition FTE_PACKET_MAX_LENGTH :: nat where [simp]: "FTE_PACKET_MAX_LENGTH = 16"
definition FTE_MAX_FINGERS :: nat where [simp]: "FTE_MAX_FINGERS = 4"
definition FTE_LOGICAL_MAX_X :: nat where [simp]: "FTE_LOGICAL_MAX_X = 0x08E0"
definition FTE_LOGICAL_MAX_Y :: nat where [simp]: "FTE_LOGICAL_MAX_Y = 0x03E0"

record FTE0001FingerState =
  t_active :: bool
  t_x :: int
  t_y :: int

record fte0001 =
  fte_ringBuffer :: "u8 ring"
  fte_packetByteCount :: nat
  fte_packetFingerCount :: u32
  fte_irqByteCount :: u64
  fte_packetCount :: u64
  fte_validPacketCount :: u64
  fte_invalidPacketCount :: u64
  fte_productId :: "u8 list"
  fte_xMax :: nat
  fte_yMax :: nat
  fte_hardware :: "FTE0001FingerState list"
  fte_finger :: "FocalTechVirtualFinger list"
  fte_inputEvent :: VoodooInputEvent
  fte_buttons :: u32
  fte_lastButtons :: u32
  fte_voodooInput :: bool
  fte_sent :: "message list"
  fte_device :: bool
  fte_interruptInstalled :: bool
  fte_powerInstalled :: bool
  fte_inputPublished :: bool
  fte_auxNubCount :: nat

definition no_fte_finger :: FTE0001FingerState where
  "no_fte_finger = \<lparr>t_active = False, t_x = 0, t_y = 0\<rparr>"

definition no_virtual_finger :: FocalTechVirtualFinger where
  "no_virtual_finger = \<lparr>v_previous = no_coords, v_current = no_coords, v_touching = False\<rparr>"

text \<open>\<open>n\<close> is the number of transducers of a \<^verbatim>\<open>VoodooInputEvent\<close>.\<close>

definition new_fte0001 :: "nat \<Rightarrow> fte0001" where
  "new_fte0001 n = \<lparr>fte_ringBuffer = new_ring (FTE_PACKET_MAX_LENGTH * 32) 0, fte_packetByteCount = 0,
     fte_packetFingerCount = 0, fte_irqByteCount = 0, fte_packetCount = 0, fte_validPacketCount = 0,
     fte_invalidPacketCount = 0, fte_productId = [0, 0, 0], fte_xMax = FTE_LOGICAL_MAX_X, fte_yMax = FTE_LOGICAL_MAX_Y,
     fte_hardware = replicate FTE_MAX_FINGERS no_fte_finger, fte_finger = replicate FTE_MAX_FINGERS no_virtual_finger,
     fte_inputEvent = \<lparr>transducers = replicate n no_transducer, contact_count = 0\<rparr>, fte_buttons = 0, fte_lastButtons = 0,
     fte_voodooInput = False, fte_sent = [], fte_device = False, fte_interruptInstalled = False, fte_powerInstalled = False,
     fte_inputPublished = False, fte_auxNubCount = 0\<rparr>"

section \<open>Receiving bytes\<close>

definition fte_header :: "u8 \<Rightarrow> bool" where
  "fte_header b \<longleftrightarrow> b AND 0xC8 = 0x08 \<or> b AND 0xF8 = 0xF8"

definition fte_fingers :: "u8 \<Rightarrow> u32" where
  "fte_fingers b = ucast (b AND 0x03) + ucast (drop_bit 2 (b AND 0x30))"

text \<open>A short packet is filled up to the full length.\<close>

definition fte_pad :: "u8 ring \<Rightarrow> u8 ring option" where
  "fte_pad = fold_opt (\<lambda>i. ring_poke i 0xFF) [FTE_PACKET_SHORT_LENGTH..<FTE_PACKET_MAX_LENGTH]"

definition fte_interruptOccurred :: "u8 \<Rightarrow> fte0001 \<Rightarrow> (PS2InterruptResult \<times> fte0001) option" where
  "fte_interruptOccurred data s =
     (let s = s\<lparr>fte_irqByteCount := fte_irqByteCount s + 1\<rparr> in
      if fte_packetByteCount s = 0 \<and> \<not> fte_header data then Some (kPS2IR_packetBuffering, s)
      else do {
        r \<leftarrow> ring_poke (fte_packetByteCount s) data (fte_ringBuffer s);
        let s = s\<lparr>fte_ringBuffer := r, fte_packetByteCount := fte_packetByteCount s + 1\<rparr>;
        let s = (if fte_packetByteCount s = 5 then s\<lparr>fte_packetFingerCount := fte_fingers data\<rparr> else s);
        if fte_packetByteCount s = FTE_PACKET_SHORT_LENGTH \<and> fte_packetFingerCount s \<le> 2
        then do {
          r \<leftarrow> fte_pad (fte_ringBuffer s);
          Some (kPS2IR_packetReady,
            s\<lparr>fte_ringBuffer := advanceHead FTE_PACKET_MAX_LENGTH r, fte_packetByteCount := 0\<rparr>)
        }
        else if fte_packetByteCount s = FTE_PACKET_LONG_LENGTH
        then Some (kPS2IR_packetReady,
          s\<lparr>fte_ringBuffer := advanceHead FTE_PACKET_MAX_LENGTH (fte_ringBuffer s), fte_packetByteCount := 0\<rparr>)
        else Some (kPS2IR_packetBuffering, s)
      })"

section \<open>Decoding and reporting\<close>

definition fte_trackFinger ::
  "nat \<Rightarrow> nat \<Rightarrow> FTE0001FingerState \<Rightarrow> FocalTechVirtualFinger \<Rightarrow> FocalTechVirtualFinger" where
  "fte_trackFinger xm ym raw v =
     (if \<not> t_active raw then v\<lparr>v_touching := False\<rparr>
      else let current = \<lparr>tc_x = clampCoord (t_x raw) xm, tc_y = ym - clampCoord (t_y raw) ym, tc_pressure = 0, tc_width = 0\<rparr>
        in v\<lparr>v_previous := (if v_touching v then v_current v else current), v_current := current, v_touching := True\<rparr>)"

fun fte_fingerTypeForIndex :: "nat \<Rightarrow> MT2FingerType" where
  "fte_fingerTypeForIndex 0 = kMT2FingerTypeIndexFinger"
| "fte_fingerTypeForIndex (Suc 0) = kMT2FingerTypeMiddleFinger"
| "fte_fingerTypeForIndex (Suc (Suc 0)) = kMT2FingerTypeRingFinger"
| "fte_fingerTypeForIndex (Suc (Suc (Suc 0))) = kMT2FingerTypeThumb"
| "fte_fingerTypeForIndex _ = kMT2FingerTypeIndexFinger"

definition fte_sendButtons :: "u32 \<Rightarrow> fte0001 \<Rightarrow> fte0001" where
  "fte_sendButtons buttons s = (if fte_voodooInput s then s\<lparr>fte_sent := fte_sent s @ [TrackpointMessage buttons]\<rparr> else s)"

text \<open>As for the other pad, writing behind the last transducer of the event is \<open>None\<close>.\<close>

fun fte_fillTransducers ::
  "nat \<Rightarrow> nat \<Rightarrow> FocalTechVirtualFinger list \<Rightarrow> VoodooInputTransducer list \<Rightarrow> (nat \<times> VoodooInputTransducer list) option" where
  "fte_fillTransducers i cnt [] ts = Some (cnt, ts)"
| "fte_fillTransducers i cnt (v # vs) ts =
     (if \<not> v_touching v then fte_fillTransducers (Suc i) cnt vs ts
      else if cnt < length ts
      then let t = (ts ! cnt)\<lparr>currentCoordinates := v_current v, previousCoordinates := v_previous v,
                 isValid := True, isPhysicalButtonDown := False, isTransducerActive := True,
                 supportsPressure := False, secondaryId := i, fingerType := fte_fingerTypeForIndex cnt\<rparr>
        in fte_fillTransducers (Suc i) (Suc cnt) vs (ts[cnt := t])
      else None)"

definition fte_sendTouchData :: "fte0001 \<Rightarrow> fte0001 option" where
  "fte_sendTouchData s = do {
     (cnt, ts) \<leftarrow> fte_fillTransducers 0 0 (fte_finger s) (transducers (fte_inputEvent s));
     let ev = \<lparr>transducers = clearTransducers cnt ts, contact_count = cnt mod 256\<rparr>;
     let s = s\<lparr>fte_inputEvent := ev\<rparr>;
     let s = (if fte_voodooInput s then s\<lparr>fte_sent := fte_sent s @ [VoodooInputMessage ev]\<rparr> else s);
     Some (if fte_buttons s \<noteq> fte_lastButtons s
           then (fte_sendButtons (fte_buttons s) s)\<lparr>fte_lastButtons := fte_buttons s\<rparr> else s)
   }"

definition fte_reportState :: "fte0001 \<Rightarrow> fte0001 option" where
  "fte_reportState s =
     fte_sendTouchData (s\<lparr>fte_finger := map2 (fte_trackFinger (fte_xMax s) (fte_yMax s)) (fte_hardware s) (fte_finger s)\<rparr>)"

definition fte_decode :: "u8 list \<Rightarrow> nat \<Rightarrow> FTE0001FingerState \<Rightarrow> FTE0001FingerState" where
  "fte_decode packet i f =
     (let b1 = packet ! (i * 4 + 1); b2 = packet ! (i * 4 + 2); b3 = packet ! (i * 4 + 3);
          present = (\<not> (b1 = 0xFF \<and> b2 = 0xFF \<and> b3 = 0xFF))
      in if present
         then f\<lparr>t_active := True, t_x := int (unat b1 * 16 + unat (drop_bit 4 b3)), t_y := int (unat b2 * 16 + unat (b3 AND 0x0F))\<rparr>
         else f\<lparr>t_active := False\<rparr>)"

definition fte_processPacket :: "u8 list \<Rightarrow> fte0001 \<Rightarrow> (bool \<times> fte0001) option" where
  "fte_processPacket packet s =
     (if \<not> fte_header (packet ! 0) then Some (False, s)
      else let s = s\<lparr>fte_buttons := ucast (packet ! 0 AND 0x01) OR ucast (packet ! 0 AND 0x02)\<rparr> in
        map_option (Pair True)
          (if packet ! 0 AND 0x30 = 0x10 then fte_reportState s
           else fte_reportState (s\<lparr>fte_hardware := map (\<lambda>(i, f). fte_decode packet i f) (List.enumerate 0 (fte_hardware s))\<rparr>)))"

definition fte_packetStep :: "u8 list \<Rightarrow> fte0001 \<Rightarrow> fte0001 option" where
  "fte_packetStep packet s = do {
     let s = s\<lparr>fte_packetCount := fte_packetCount s + 1\<rparr>;
     (valid, s) \<leftarrow> fte_processPacket packet s;
     let s = (if valid then s\<lparr>fte_validPacketCount := fte_validPacketCount s + 1\<rparr>
              else s\<lparr>fte_invalidPacketCount := fte_invalidPacketCount s + 1\<rparr>);
     Some (s\<lparr>fte_ringBuffer := advanceTail FTE_PACKET_MAX_LENGTH (fte_ringBuffer s)\<rparr>)
   }"

fun fte_packetReady :: "nat \<Rightarrow> fte0001 \<Rightarrow> fte0001 option" where
  "fte_packetReady 0 s = None"
| "fte_packetReady (Suc n) s =
     (if ring_count (fte_ringBuffer s) \<ge> FTE_PACKET_MAX_LENGTH then do {
        packet \<leftarrow> ring_peek FTE_PACKET_MAX_LENGTH (fte_ringBuffer s);
        s \<leftarrow> fte_packetStep packet s;
        fte_packetReady n s
      } else Some s)"

section \<open>Command sequences and life cycle\<close>

definition fte_detect_request :: PS2Request where
  "fte_detect_request = TPS2Request [send_byte kDP_SetMouseSampleRate, send_byte 0xA7, send_byte kDP_SetMouseSampleRate,
     send_byte 0xA7, send_byte kDP_GetMouseInformation, read_byte, read_byte, read_byte]"

definition detectFTE0001 :: "'s submit \<Rightarrow> fte0001 \<Rightarrow> 's \<Rightarrow> (bool \<times> fte0001 \<times> 's) option" where
  "detectFTE0001 submit s w = do {
     (r, w) \<leftarrow> submit (TPS2Request [send_byte kDP_SetDefaultsAndDisable]) w;
     if commandsCount r \<noteq> 1 then Some (False, s, w)
     else do {
       (r, w) \<leftarrow> submit fte_detect_request w;
       if commandsCount r \<noteq> 8 then Some (False, s, w)
       else let ident = [inOrOut (commands r ! 5), inOrOut (commands r ! 6), inOrOut (commands r ! 7)]
         in Some (ident = [0x58, 0x00, 0x05], s\<lparr>fte_productId := ident\<rparr>, w)
     }
   }"

fun fte_resetDevice :: "'s submit \<Rightarrow> nat \<Rightarrow> 's \<Rightarrow> (bool \<times> 's) option" where
  "fte_resetDevice submit 0 w = Some (True, w)"
| "fte_resetDevice submit (Suc passes) w = do {
     (r, w) \<leftarrow> submit (TPS2Request [send_byte kDP_Reset, read_byte, read_byte]) w;
     if commandsCount r \<noteq> 3 \<or> inOrOut (commands r ! 1) \<noteq> kSC_Reset \<or> inOrOut (commands r ! 2) \<noteq> kSC_ID
     then Some (False, w) else fte_resetDevice submit passes w
   }"

definition switchToAdvancedProtocol :: "'s submit \<Rightarrow> 's \<Rightarrow> (bool \<times> 's) option" where
  "switchToAdvancedProtocol submit w = do {
     (r, w) \<leftarrow> submit (TPS2Request [send_byte kDP_SetMouseSampleRate, send_byte 0xEA, send_byte kDP_SetMouseSampleRate,
       send_byte 0xED]) w;
     Some (commandsCount r = 4, w)
   }"

definition fte_clear :: "fte0001 \<Rightarrow> fte0001" where
  "fte_clear s = s\<lparr>fte_hardware := replicate FTE_MAX_FINGERS no_fte_finger,
     fte_finger := replicate FTE_MAX_FINGERS no_virtual_finger, fte_packetByteCount := 0, fte_packetFingerCount := 0,
     fte_ringBuffer := ring_reset (fte_ringBuffer s), fte_buttons := 0, fte_lastButtons := 0\<rparr>"

definition fte_setupHardware :: "'s submit \<Rightarrow> bool \<Rightarrow> fte0001 \<Rightarrow> 's \<Rightarrow> (bool \<times> fte0001 \<times> 's) option" where
  "fte_setupHardware submit publishInput s w = do {
     let s = fte_clear s;
     (ok, w) \<leftarrow> fte_resetDevice submit 2 w;
     if \<not> ok then Some (False, s, w)
     else do {
       (ok, s, w) \<leftarrow> detectFTE0001 submit s w;
       if \<not> ok then Some (False, s, w)
       else do {
         (ok, w) \<leftarrow> switchToAdvancedProtocol submit w;
         if \<not> ok then Some (False, s, w)
         else let s = s\<lparr>fte_xMax := FTE_LOGICAL_MAX_X, fte_yMax := FTE_LOGICAL_MAX_Y\<rparr>
           in Some (True, if publishInput \<and> \<not> fte_inputPublished s then s\<lparr>fte_inputPublished := True\<rparr> else s, w)
       }
     }
   }"

text \<open>\<open>optIn\<close> is the boot argument \<^verbatim>\<open>focfte\<close>.\<close>

definition fte_probe ::
  "('h, 'c) env \<Rightarrow> nat \<Rightarrow> bool \<Rightarrow> int \<Rightarrow> fte0001 \<Rightarrow> ('h, 'c) ctl \<Rightarrow> (bool \<times> fte0001 \<times> ('h, 'c) ctl) option" where
  "fte_probe e p super optIn s c =
     (if \<not> super \<or> optIn = 0 then Some (False, s, c)
      else let s = s\<lparr>fte_auxNubCount := countAuxNubs c\<rparr> in
        if fte_auxNubCount s > 1 then Some (False, s, c)
        else detectFTE0001 (nub_submitRequestAndBlock e p) s c)"

definition fte_start ::
  "('h, 'c) env \<Rightarrow> nat \<Rightarrow> bool \<Rightarrow> fte0001 \<Rightarrow> ('h, 'c) ctl \<Rightarrow> (bool \<times> fte0001 \<times> ('h, 'c) ctl) option" where
  "fte_start e p super s c =
     (if \<not> super then Some (False, s, c)
      else do {
        let s = s\<lparr>fte_device := True, fte_auxNubCount := countAuxNubs c\<rparr>;
        (ok, s, c) \<leftarrow> fte_setupHardware (nub_submitRequestAndBlock e p) True s c;
        if \<not> ok then Some (False, s\<lparr>fte_device := False\<rparr>, c)
        else do {
          c \<leftarrow> nub_installInterruptAction e p c;
          c \<leftarrow> foc_setTouchPadEnable (nub_submitRequestAndBlock e p) True c;
          c \<leftarrow> nub_installPowerControlAction p c;
          Some (True, s\<lparr>fte_interruptInstalled := True, fte_powerInstalled := True\<rparr>, c)
        }
      })"

definition fte_setDevicePowerState ::
  "('h, 'c) env \<Rightarrow> nat \<Rightarrow> PS2PowerWhat \<Rightarrow> fte0001 \<Rightarrow> ('h, 'c) ctl \<Rightarrow> (fte0001 \<times> ('h, 'c) ctl) option" where
  "fte_setDevicePowerState e p whatToDo s c =
     (if \<not> fte_device s then Some (s, c)
      else case whatToDo of
        kPS2C_DisableDevice \<Rightarrow> map_option (Pair s) (foc_setTouchPadEnable (nub_submitRequestAndBlock e p) False c)
      | kPS2C_EnableDevice \<Rightarrow> do {
          (ok, s, c) \<leftarrow> fte_setupHardware (nub_submitRequestAndBlock e p) False s (nub_sleep e 750 c);
          c \<leftarrow> (if ok then foc_setTouchPadEnable (nub_submitRequestAndBlock e p) True c else Some c);
          Some (s, c)
        })"

definition fte_stop :: "('h, 'c) env \<Rightarrow> nat \<Rightarrow> fte0001 \<Rightarrow> ('h, 'c) ctl \<Rightarrow> (fte0001 \<times> ('h, 'c) ctl) option" where
  "fte_stop e p s c = do {
     c \<leftarrow> (if fte_device s then do {
            c \<leftarrow> foc_setTouchPadEnable (nub_submitRequestAndBlock e p) False c;
            c \<leftarrow> (if fte_interruptInstalled s then nub_uninstallInterruptAction e p c else Some c);
            if fte_powerInstalled s then nub_uninstallPowerControlAction p c else Some c
          } else Some c);
     let s = (if fte_device s then s\<lparr>fte_interruptInstalled := False, fte_powerInstalled := False\<rparr> else s);
     Some (s\<lparr>fte_device := False, fte_voodooInput := False\<rparr>, c)
   }"

definition fte_handleOpen :: "bool \<Rightarrow> fte0001 \<Rightarrow> bool \<times> fte0001" where
  "fte_handleOpen isVoodooInput s = (if isVoodooInput then (True, s\<lparr>fte_voodooInput := True\<rparr>) else (False, s))"

definition fte_handleClose :: "bool \<Rightarrow> fte0001 \<Rightarrow> fte0001" where
  "fte_handleClose isClient s = (if isClient then s\<lparr>fte_voodooInput := False\<rparr> else s)"

section \<open>Events\<close>

text \<open>With at most four fingers the two pads fill an event in the same way.\<close>

lemma fte_finger_types: "k < 4 \<Longrightarrow> fte_fingerTypeForIndex k = fingerTypeForIndex k"
  by (cases k rule: fingerTypeForIndex.cases) auto

lemma fte_fill_same:
  "cnt + touching vs \<le> 4 \<Longrightarrow> fte_fillTransducers i cnt vs ts = fillTransducers False 0 i cnt vs ts"
  by (induction vs arbitrary: i cnt ts) (auto simp: touching_def fte_finger_types Let_def)

definition fte_data_inv :: "fte0001 \<Rightarrow> bool" where
  "fte_data_inv s \<longleftrightarrow> length (fte_hardware s) = 4 \<and> length (fte_finger s) = 4 \<and>
     4 \<le> length (transducers (fte_inputEvent s)) \<and>
     (\<forall>v \<in> set (fte_finger s). v_touching v \<longrightarrow>
        coords_ok (fte_xMax s) (fte_yMax s) (v_current v) \<and> coords_ok (fte_xMax s) (fte_yMax s) (v_previous v)) \<and>
     messages_ok (fte_xMax s) (fte_yMax s) (fte_sent s) \<and>
     (fte_voodooInput s \<longrightarrow> distinct_adj (0 # button_log (fte_sent s)) \<and> last (0 # button_log (fte_sent s)) = fte_lastButtons s)"

lemma fte_event:
  assumes "fte_data_inv s"
  shows "\<exists>ts. fte_fillTransducers 0 0 (fte_finger s) (transducers (fte_inputEvent s)) = Some (touching (fte_finger s), ts) \<and>
    length ts = length (transducers (fte_inputEvent s)) \<and>
    event_ok (fte_xMax s) (fte_yMax s) \<lparr>transducers = clearTransducers (touching (fte_finger s)) ts,
      contact_count = touching (fte_finger s) mod 256\<rparr>"
proof -
  let ?n = "touching (fte_finger s)"
  have n: "?n \<le> 4" using assms touching_le [of "fte_finger s"] by (simp add: fte_data_inv_def)
  obtain ts where ts: "fillTransducers False 0 0 0 (fte_finger s) (transducers (fte_inputEvent s)) = Some (?n, ts)"
    "length ts = length (transducers (fte_inputEvent s))" "\<forall>t \<in> set (take ?n ts). contact_ok (fte_xMax s) (fte_yMax s) t"
    using fillTransducers_ok [of "fte_finger s" "fte_xMax s" "fte_yMax s" 0 "transducers (fte_inputEvent s)" False 0 0]
      assms n by (auto simp: fte_data_inv_def)
  have len: "?n \<le> length ts" using n assms ts(2) by (simp add: fte_data_inv_def)
  have "take ?n (clearTransducers ?n ts) = take ?n ts" "drop ?n (clearTransducers ?n ts) =
      map (\<lambda>t. t\<lparr>isValid := False, isPhysicalButtonDown := False, isTransducerActive := False, supportsPressure := False\<rparr>) (drop ?n ts)"
    "length (clearTransducers ?n ts) = length ts"
    using len by (auto simp: clearTransducers_def)
  then show ?thesis using ts n len fte_fill_same [of 0 "fte_finger s" 0] by (auto simp: event_ok_def contact_ok_def)
qed

lemma fte_send_ok:
  assumes "fte_data_inv s"
  shows "\<exists>s'. fte_sendTouchData s = Some s' \<and> fte_data_inv s' \<and>
    s' = s\<lparr>fte_inputEvent := fte_inputEvent s', fte_sent := fte_sent s', fte_lastButtons := fte_buttons s\<rparr>"
proof -
  let ?n = "touching (fte_finger s)" and ?b = "fte_buttons s"
  obtain ts where fill: "fte_fillTransducers 0 0 (fte_finger s) (transducers (fte_inputEvent s)) = Some (?n, ts)"
    and len: "length ts = length (transducers (fte_inputEvent s))"
    and ok: "event_ok (fte_xMax s) (fte_yMax s) \<lparr>transducers = clearTransducers ?n ts, contact_count = ?n mod 256\<rparr>"
    using fte_event [OF assms] by blast
  define ev where "ev = \<lparr>transducers = clearTransducers ?n ts, contact_count = ?n mod 256\<rparr>"
  define ms where "ms = (if fte_voodooInput s then [VoodooInputMessage ev] @ (if ?b \<noteq> fte_lastButtons s then [TrackpointMessage ?b] else []) else [])"
  define s' where "s' = s\<lparr>fte_inputEvent := ev, fte_sent := fte_sent s @ ms, fte_lastButtons := ?b\<rparr>"
  have run: "fte_sendTouchData s = Some s'"
    by (auto simp: fte_sendTouchData_def fill Let_def ev_def [symmetric] s'_def ms_def fte_sendButtons_def)
  have "length (clearTransducers ?n ts) = length ts" by (simp add: clearTransducers_def)
  then have "fte_data_inv s'" using assms ok len
    by (auto simp: fte_data_inv_def s'_def messages_ok_def ms_def ev_def distinct_adj_append_iff simp flip: append_Cons split: if_splits)
  then show ?thesis using run by (simp add: s'_def)
qed

lemma fte_track_ok:
  "v_touching v \<longrightarrow> coords_ok xm ym (v_current v) \<and> coords_ok xm ym (v_previous v) \<Longrightarrow>
   v_touching (fte_trackFinger xm ym raw v) \<longrightarrow> coords_ok xm ym (v_current (fte_trackFinger xm ym raw v)) \<and>
     coords_ok xm ym (v_previous (fte_trackFinger xm ym raw v))"
  using clampCoord_le by (auto simp: fte_trackFinger_def coords_ok_def Let_def)

lemma fte_report_ok:
  assumes "fte_data_inv s"
  shows "\<exists>s'. fte_reportState s = Some s' \<and> fte_data_inv s' \<and> fte_ringBuffer s' = fte_ringBuffer s \<and>
    fte_packetByteCount s' = fte_packetByteCount s \<and> fte_xMax s' = fte_xMax s \<and> fte_yMax s' = fte_yMax s"
proof -
  let ?s = "s\<lparr>fte_finger := map2 (fte_trackFinger (fte_xMax s) (fte_yMax s)) (fte_hardware s) (fte_finger s)\<rparr>"
  have "fte_data_inv ?s" using assms fte_track_ok by (auto simp: fte_data_inv_def dest!: set_zip_rightD)
  then obtain s' where "fte_sendTouchData ?s = Some s'" "fte_data_inv s'"
    and eq: "s' = ?s\<lparr>fte_inputEvent := fte_inputEvent s', fte_sent := fte_sent s', fte_lastButtons := fte_buttons ?s\<rparr>"
    using fte_send_ok by blast
  moreover have "fte_ringBuffer s' = fte_ringBuffer s" "fte_packetByteCount s' = fte_packetByteCount s"
    "fte_xMax s' = fte_xMax s" "fte_yMax s' = fte_yMax s"
    by (subst eq; simp)+
  ultimately show ?thesis by (simp add: fte_reportState_def)
qed

lemma fte_process_ok:
  assumes "fte_data_inv s"
  shows "\<exists>b s'. fte_processPacket p s = Some (b, s') \<and> fte_data_inv s' \<and> fte_ringBuffer s' = fte_ringBuffer s \<and>
    fte_packetByteCount s' = fte_packetByteCount s \<and> fte_xMax s' = fte_xMax s \<and> fte_yMax s' = fte_yMax s"
proof (cases "fte_header (p ! 0)")
  case True
  let ?s = "s\<lparr>fte_buttons := ucast (p ! 0 AND 0x01) OR ucast (p ! 0 AND 0x02)\<rparr>"
  let ?t = "?s\<lparr>fte_hardware := map (\<lambda>(i, f). fte_decode p i f) (List.enumerate 0 (fte_hardware s))\<rparr>"
  have "fte_data_inv ?s" "fte_data_inv ?t" using assms by (simp_all add: fte_data_inv_def)
  from fte_report_ok [OF this(1)] fte_report_ok [OF this(2)] show ?thesis
    using True by (auto simp: fte_processPacket_def Let_def)
next
  case False
  then show ?thesis using assms by (auto simp: fte_processPacket_def)
qed

section \<open>The driver as a whole\<close>

interpretation fte_ring: packet_ring 16 512
  by unfold_locales auto

definition fte_inv :: "fte0001 \<Rightarrow> bool" where
  "fte_inv s \<longleftrightarrow> fte_data_inv s \<and> packet_inv 16 512 (fte_ringBuffer s) \<and> fte_packetByteCount s < 16"

lemma fte_data_updates [simp]:
  "fte_data_inv (s\<lparr>fte_ringBuffer := r\<rparr>) = fte_data_inv s" "fte_data_inv (s\<lparr>fte_packetByteCount := n\<rparr>) = fte_data_inv s"
  "fte_data_inv (s\<lparr>fte_packetFingerCount := f\<rparr>) = fte_data_inv s" "fte_data_inv (s\<lparr>fte_irqByteCount := i\<rparr>) = fte_data_inv s"
  "fte_data_inv (s\<lparr>fte_packetCount := i\<rparr>) = fte_data_inv s" "fte_data_inv (s\<lparr>fte_validPacketCount := i\<rparr>) = fte_data_inv s"
  "fte_data_inv (s\<lparr>fte_invalidPacketCount := i\<rparr>) = fte_data_inv s"
  by (simp_all add: fte_data_inv_def)

interpretation fte_work: packet_consumer ring_poke "advanceHead 16" "ring_peek 16" "advanceTail 16" ring_count
  "packet_inv 16 512" "ring_packets 16" "head_slot 16" 16 "512 div 16 - 1"
  fte_ringBuffer "\<lambda>s. fte_data_inv s \<and> fte_packetByteCount s = n \<and> fte_xMax s = x \<and> fte_yMax s = y" fte_packetStep fte_packetReady
proof
  fix s :: fte0001 and p :: "u8 list" and k q
  show "fte_packetReady (Suc k) s = (if 16 \<le> ring_count (fte_ringBuffer s)
    then Option.bind (ring_peek 16 (fte_ringBuffer s)) (\<lambda>p. Option.bind (fte_packetStep p s) (fte_packetReady k)) else Some s)"
    by simp
  show "\<exists>s'. fte_packetStep p s = Some s' \<and> (fte_data_inv s' \<and> fte_packetByteCount s' = n \<and> fte_xMax s' = x \<and> fte_yMax s' = y) \<and>
    fte_ringBuffer s' = advanceTail 16 (fte_ringBuffer s)"
    if "fte_data_inv s \<and> fte_packetByteCount s = n \<and> fte_xMax s = x \<and> fte_yMax s = y"
  proof -
    note hyp = that
    obtain b s' where "fte_processPacket p (s\<lparr>fte_packetCount := fte_packetCount s + 1\<rparr>) = Some (b, s')" "fte_data_inv s'"
      "fte_ringBuffer s' = fte_ringBuffer s" "fte_packetByteCount s' = n" "fte_xMax s' = x" "fte_yMax s' = y"
      using fte_process_ok [of "s\<lparr>fte_packetCount := fte_packetCount s + 1\<rparr>" p] hyp by auto
    then show ?thesis by (auto simp: fte_packetStep_def Let_def)
  qed
  show "length p = 16" if "packet_inv 16 512 q" "p \<in> set (ring_packets 16 q)"
    using fte_ring.packets_member_length [OF that] .
qed

lemma fte_work_ok:
  assumes "fte_inv s"
  shows "\<exists>s'. fte_packetReady 32 s = Some s' \<and> fte_inv s' \<and> fte_xMax s' = fte_xMax s \<and> fte_yMax s' = fte_yMax s"
  using fte_work.run_drains [of s "fte_packetByteCount s" "fte_xMax s" "fte_yMax s" 32] fte_ring.packets_le [of "fte_ringBuffer s"] assms
  by (auto simp: fte_inv_def)

text \<open>Receiving: the byte goes into the slot at the head, padding fills it up.\<close>

lemma fte_pad_ok:
  assumes "packet_inv 16 512 (r :: u8 ring)"
  shows "\<exists>r'. fte_pad r = Some r' \<and> packet_inv 16 512 r' \<and>
    ring_packets 16 r' = ring_packets 16 r \<and> head_slot 16 r' = take 8 (head_slot 16 r) @ replicate 8 0xFF"
proof -
  have "List.enumerate 8 (replicate 8 (0xFF :: u8)) = map (\<lambda>i. (i, 0xFF)) [8..<16]"
    by (simp add: upt_rec enumerate_eq_zip numeral_eq_Suc)
  moreover have "fold_opt (\<lambda>(i, b). ring_poke i b) (map (\<lambda>i. (i, 0xFF)) xs) q = fold_opt (\<lambda>i. ring_poke i 0xFF) xs q" for xs and q :: "u8 ring"
    by (induction xs arbitrary: q) (auto intro!: Option.bind_cong)
  ultimately have eq: "fte_pad r = fold_opt (\<lambda>(i, b). ring_poke i b) (List.enumerate 8 (replicate 8 0xFF)) r"
    unfolding fte_pad_def FTE_PACKET_SHORT_LENGTH_def FTE_PACKET_MAX_LENGTH_def by metis
  show ?thesis unfolding eq using fte_ring.poke_list [OF assms, of 8 "replicate 8 0xFF"] fte_ring.head_slot_length [OF assms] by simp
qed

lemma fte_byte_ok:
  assumes inv: "fte_inv s"
  shows "\<exists>res s'. fte_interruptOccurred b s = Some (res, s') \<and> fte_inv s' \<and> fte_xMax s' = fte_xMax s \<and> fte_yMax s' = fte_yMax s"
proof (cases "fte_packetByteCount s = 0 \<and> \<not> fte_header b")
  case True
  then show ?thesis using inv by (auto simp: fte_interruptOccurred_def fte_inv_def Let_def)
next
  case False
  let ?n = "fte_packetByteCount s"
  obtain r where r: "ring_poke ?n b (fte_ringBuffer s) = Some r" "packet_inv 16 512 r"
    using fte_ring.poke_ok [of "fte_ringBuffer s" ?n b] inv by (auto simp: fte_inv_def)
  obtain r' where r': "fte_pad r = Some r'" "packet_inv 16 512 r'"
    using fte_pad_ok [OF r(2)] by blast
  note adv = fte_ring.advance_inv
  define s1 where "s1 = s\<lparr>fte_irqByteCount := fte_irqByteCount s + 1, fte_ringBuffer := r, fte_packetByteCount := Suc ?n,
    fte_packetFingerCount := (if Suc ?n = 5 then fte_fingers b else fte_packetFingerCount s)\<rparr>"
  have run: "fte_interruptOccurred b s =
      (if Suc ?n = 8 \<and> fte_packetFingerCount s1 \<le> 2
       then Some (kPS2IR_packetReady, s1\<lparr>fte_ringBuffer := advanceHead 16 r', fte_packetByteCount := 0\<rparr>)
       else if Suc ?n = 16 then Some (kPS2IR_packetReady, s1\<lparr>fte_ringBuffer := advanceHead 16 r, fte_packetByteCount := 0\<rparr>)
       else Some (kPS2IR_packetBuffering, s1))"
    using False r(1) r'(1) by (auto simp: fte_interruptOccurred_def s1_def Let_def)
  have s1: "fte_data_inv s1" "fte_xMax s1 = fte_xMax s" "fte_yMax s1 = fte_yMax s" "fte_packetByteCount s1 = Suc ?n" "fte_ringBuffer s1 = r"
    using inv by (simp_all add: s1_def fte_inv_def)
  then show ?thesis using run adv [OF r(2)] adv [OF r'(2)] r(2) inv
    by (cases "Suc ?n = 16") (auto simp: fte_inv_def)
qed

datatype fte_event = FteByte u8 | FteWork

fun fte_exec :: "fte_event \<Rightarrow> fte0001 \<Rightarrow> fte0001 option" where
  "fte_exec (FteByte b) s = map_option snd (fte_interruptOccurred b s)"
| "fte_exec FteWork s = fte_packetReady 32 s"

lemma fte_run_ok:
  "fte_inv s \<Longrightarrow> \<exists>s'. fold_opt fte_exec evs s = Some s' \<and> fte_inv s' \<and> fte_xMax s' = fte_xMax s \<and> fte_yMax s' = fte_yMax s"
proof (induction evs arbitrary: s)
  case (Cons ev evs)
  obtain s1 where "fte_exec ev s = Some s1" "fte_inv s1" "fte_xMax s1 = fte_xMax s" "fte_yMax s1 = fte_yMax s"
    using fte_byte_ok [OF Cons.prems] fte_work_ok [OF Cons.prems] by (cases ev) fastforce+
  then show ?case using Cons.IH [of s1] by simp
qed simp

definition fte_fresh :: "fte0001 \<Rightarrow> bool" where
  "fte_fresh s \<longleftrightarrow> 4 \<le> length (transducers (fte_inputEvent s)) \<and> packet_inv 16 512 (fte_ringBuffer s) \<and> fte_sent s = []"

lemma fte_clear_inv: "fte_fresh s \<Longrightarrow> fte_inv (fte_clear s)"
  using fte_ring.reset_ok [of "fte_ringBuffer s"]
  by (simp add: fte_fresh_def fte_inv_def fte_data_inv_def fte_clear_def messages_ok_def no_virtual_finger_def distinct_adj_def)

text \<open>
  C17. The FTE0001 pad: whatever bytes arrive and however they interleave with the work loop, the
  driver writes only inside its buffers, its work loop returns, every multitouch event it sends is
  well formed, with its contacts first and inside the pad, and button reports are sent on change only.
\<close>

theorem fte_events_well_formed:
  assumes "fte_fresh s"
  shows "\<exists>s'. fold_opt fte_exec evs (fte_clear s) = Some s' \<and> messages_ok (fte_xMax s) (fte_yMax s) (fte_sent s') \<and>
    (fte_voodooInput s' \<longrightarrow> distinct_adj (0 # button_log (fte_sent s')))"
proof -
  obtain s' where "fold_opt fte_exec evs (fte_clear s) = Some s'" "fte_inv s'" "fte_xMax s' = fte_xMax s" "fte_yMax s' = fte_yMax s"
    using fte_run_ok [OF fte_clear_inv [OF assms]] by (auto simp: fte_clear_def)
  then show ?thesis by (auto simp: fte_inv_def fte_data_inv_def)
qed

definition sample_fte :: fte0001 where
  "sample_fte = (new_fte0001 10)\<lparr>fte_voodooInput := True\<rparr>"

theorem fte_events_well_formed_witness:
  "\<exists>s'. fold_opt fte_exec (map FteByte [0x09, 0x20, 0x10, 0x00, 0x01, 0xFF, 0xFF, 0xFF] @ [FteWork]) (fte_clear sample_fte) = Some s' \<and>
     messages_ok 0x08E0 0x03E0 (fte_sent s')"
proof -
  have "fte_fresh sample_fte" using fte_ring.new_ring_ok [of "0 :: u8"] by (simp add: fte_fresh_def sample_fte_def new_fte0001_def)
  moreover have "fte_xMax sample_fte = 0x08E0" "fte_yMax sample_fte = 0x03E0" by (simp_all add: sample_fte_def new_fte0001_def)
  ultimately show ?thesis using fte_events_well_formed [of sample_fte] by metis
qed

end
