(* ===== verification/Sentelic_FSP.thy ===== *)
theory Sentelic_FSP
  imports FocalTech_Setup
begin

text \<open>
  The driver for Sentelic touchpads, \<^verbatim>\<open>ApplePS2SentelicFSP\<close> of \<^verbatim>\<open>VoodooPS2SentelicFSP.cpp\<close>: registers
  read and written through mouse commands, with values that would collide with commands or sample
  rates encoded differently; packets of three or four bytes decoded into pointer and scroll events.
\<close>

section \<open>State\<close>

definition kModeByteValueGesturesEnabled :: u8 where [simp]: "kModeByteValueGesturesEnabled = 0x00"
definition kModeByteValueGesturesDisabled :: u8 where [simp]: "kModeByteValueGesturesDisabled = 0x04"
definition FSP_REG_DEVICE_ID :: u32 where [simp]: "FSP_REG_DEVICE_ID = 0x00"
definition FSP_REG_VERSION :: u32 where [simp]: "FSP_REG_VERSION = 0x01"
definition FSP_REG_REVISION :: u32 where [simp]: "FSP_REG_REVISION = 0x04"
definition FSP_REG_OPC_QDOWN :: u32 where [simp]: "FSP_REG_OPC_QDOWN = 0x31"
definition FSP_REG_SYSCTL1 :: u32 where [simp]: "FSP_REG_SYSCTL1 = 0x10"
definition FSP_DEVICE_MAGIC :: u32 where [simp]: "FSP_DEVICE_MAGIC = 0x01"
definition FSP_BIT_EN_REG_CLK :: u32 where [simp]: "FSP_BIT_EN_REG_CLK = 0x20"
definition FSP_BIT_EN_OPC_TAG :: u32 where [simp]: "FSP_BIT_EN_OPC_TAG = 0x80"
definition FSP_PKT_TYPE_NORMAL_OPC :: u8 where [simp]: "FSP_PKT_TYPE_NORMAL_OPC = 0x03"
definition FSP_PKT_TYPE_SHIFT :: nat where [simp]: "FSP_PKT_TYPE_SHIFT = 6"

record fsp =
  fsp_interruptHandlerInstalled :: bool
  fsp_powerControlHandlerInstalled :: bool
  fsp_ringBuffer :: "u8 ring"
  fsp_packetByteCount :: nat
  fsp_packetSize :: nat
  fsp_resolution :: u32
  fsp_touchPadVersion :: u16
  fsp_touchPadModeByte :: u8
  fsp_clock_reads :: nat
  fsp_posted :: "pointer_event list"

definition init_fsp :: fsp where
  "init_fsp = \<lparr>fsp_interruptHandlerInstalled = False, fsp_powerControlHandlerInstalled = False,
     fsp_ringBuffer = new_ring (4 * 32) 0, fsp_packetByteCount = 0, fsp_packetSize = 0, fsp_resolution = push_bit 16 100,
     fsp_touchPadVersion = 0, fsp_touchPadModeByte = kModeByteValueGesturesDisabled, fsp_clock_reads = 0, fsp_posted = []\<rparr>"

section \<open>Registers\<close>

definition fsp_ps2_command :: "'s submit \<Rightarrow> u32 \<Rightarrow> 's \<Rightarrow> 's option" where
  "fsp_ps2_command submit cmd w = map_option snd (submit (TPS2Request [write_byte (ucast cmd), read_byte]) w)"

definition fsp_swapped :: "u32 \<Rightarrow> bool" where
  "fsp_swapped v \<longleftrightarrow> v \<in> {10, 20, 40, 60, 80, 100, 200}"

definition fsp_inverted :: "u32 \<Rightarrow> bool" where
  "fsp_inverted v \<longleftrightarrow> v \<in> {0xe9, 0xee, 0xf2, 0xff}"

text \<open>Selector and value for a number, given the selectors for the plain, swapped and inverted forms.\<close>

definition fsp_mangle :: "u32 \<Rightarrow> u32 \<Rightarrow> u32 \<Rightarrow> u32 \<Rightarrow> u32 \<times> u32" where
  "fsp_mangle plain swapped inverted v =
     (if fsp_swapped v then (swapped, drop_bit 4 v OR push_bit 4 v)
      else if fsp_inverted v then (inverted, NOT v)
      else (plain, v))"

definition fsp_commands :: "'s submit \<Rightarrow> u32 list \<Rightarrow> 's \<Rightarrow> 's option" where
  "fsp_commands submit = fold_opt (fsp_ps2_command submit)"

definition fsp_reg_read :: "'s submit \<Rightarrow> u32 \<Rightarrow> 's \<Rightarrow> (u32 \<times> 's) option" where
  "fsp_reg_read submit reg w = do {
     let (register_select, register_value) = fsp_mangle 0x66 0xCC 0x68 reg;
     w \<leftarrow> fsp_commands submit [0xf3, 0x66, 0x88, 0xf3, register_select, register_value] w;
     (r, w) \<leftarrow> submit (TPS2Request [send_byte kDP_GetMouseInformation, read_byte, read_byte, read_byte]) w;
     Some (if commandsCount r = 4 then ucast (inOrOut (commands r ! 3)) else - 1, w)
   }"

definition fsp_reg_write :: "'s submit \<Rightarrow> u32 \<Rightarrow> u32 \<Rightarrow> 's \<Rightarrow> 's option" where
  "fsp_reg_write submit reg val w = do {
     let (register_select, register_value) = fsp_mangle 0x55 0x77 0x74 reg;
     w \<leftarrow> fsp_commands submit [0xf3, register_select, register_value] w;
     let (register_select, register_value) = fsp_mangle 0x33 0x44 0x47 val;
     fsp_commands submit [0xf3, register_select, register_value] w
   }"

definition fsp_write_enable :: "'s submit \<Rightarrow> bool \<Rightarrow> 's \<Rightarrow> 's option" where
  "fsp_write_enable submit enable w = do {
     (wen, w) \<leftarrow> fsp_reg_read submit FSP_REG_SYSCTL1 w;
     fsp_reg_write submit FSP_REG_SYSCTL1
       (if enable then wen OR FSP_BIT_EN_REG_CLK else wen AND NOT FSP_BIT_EN_REG_CLK) w
   }"

definition fsp_opctag_enable :: "'s submit \<Rightarrow> bool \<Rightarrow> 's \<Rightarrow> 's option" where
  "fsp_opctag_enable submit enable w = do {
     w \<leftarrow> fsp_write_enable submit True w;
     (opc, w) \<leftarrow> fsp_reg_read submit FSP_REG_OPC_QDOWN w;
     w \<leftarrow> fsp_reg_write submit FSP_REG_OPC_QDOWN
       (if enable then opc OR FSP_BIT_EN_OPC_TAG else opc AND NOT FSP_BIT_EN_OPC_TAG) w;
     fsp_write_enable submit False w
   }"

definition fsp_intellimouse_mode :: "'s submit \<Rightarrow> 's \<Rightarrow> (u8 \<times> 's) option" where
  "fsp_intellimouse_mode submit w = do {
     (r, w) \<leftarrow> submit (TPS2Request [send_byte kDP_SetMouseSampleRate, send_byte 200, send_byte kDP_SetMouseSampleRate,
       send_byte 200, send_byte kDP_SetMouseSampleRate, send_byte 80, send_byte kDP_GetId, read_byte]) w;
     Some (inOrOut (commands r ! 7), w)
   }"

definition fsp_setTouchPadEnable :: "'s submit \<Rightarrow> bool \<Rightarrow> fsp \<Rightarrow> 's \<Rightarrow> (fsp \<times> 's) option" where
  "fsp_setTouchPadEnable submit enable s w = do {
     (_, w) \<leftarrow> submit (TPS2Request [send_byte (if enable then kDP_Enable else kDP_SetDefaultsAndDisable)]) w;
     w \<leftarrow> fsp_opctag_enable submit True w;
     (ident, w) \<leftarrow> fsp_intellimouse_mode submit w;
     Some (if ident = 4 then s\<lparr>fsp_packetSize := 4\<rparr> else s, w)
   }"

text \<open>Two bits of a byte per resolution command.\<close>

definition fsp_encoded :: "u8 \<Rightarrow> PS2Command list" where
  "fsp_encoded b = concat (map (\<lambda>n. [send_byte kDP_SetMouseResolution, send_byte (drop_bit n b AND 0x3)]) [6, 4, 2, 0])"

definition fsp_getTouchPadData :: "'s submit \<Rightarrow> u8 \<Rightarrow> 's \<Rightarrow> (u32 \<times> 's) option" where
  "fsp_getTouchPadData submit dataSelector w = do {
     (r, w) \<leftarrow> submit (TPS2Request ([send_byte kDP_SetDefaultsAndDisable] @ fsp_encoded dataSelector @
       [send_byte kDP_GetMouseInformation, read_byte, read_byte, read_byte])) w;
     Some (if commandsCount r = 13
           then push_bit 16 (ucast (inOrOut (commands r ! 10))) OR push_bit 8 (ucast (inOrOut (commands r ! 11))) OR
                ucast (inOrOut (commands r ! 12))
           else - 1, w)
   }"

definition fsp_setTouchPadModeByte :: "'s submit \<Rightarrow> u8 \<Rightarrow> bool \<Rightarrow> 's \<Rightarrow> (bool \<times> 's) option" where
  "fsp_setTouchPadModeByte submit modeByteValue enableStreamMode w = do {
     (r, w) \<leftarrow> submit (TPS2Request ([send_byte kDP_SetDefaultsAndDisable] @ fsp_encoded modeByteValue @
       [send_byte kDP_SetMouseSampleRate, send_byte 20,
        send_byte (if enableStreamMode then kDP_Enable else kDP_SetMouseScaling1To1)])) w;
     Some (commandsCount r = 12, w)
   }"

section \<open>Input\<close>

definition fsp_interruptOccurred :: "u8 \<Rightarrow> fsp \<Rightarrow> (PS2InterruptResult \<times> fsp) option" where
  "fsp_interruptOccurred data s =
     (if fsp_packetByteCount s = 0 \<and> (data = kSC_Acknowledge \<or> data AND 0x08 = 0) then Some (kPS2IR_packetBuffering, s)
      else do {
        r \<leftarrow> ring_poke (fsp_packetByteCount s) data (fsp_ringBuffer s);
        let s = s\<lparr>fsp_ringBuffer := r, fsp_packetByteCount := fsp_packetByteCount s + 1\<rparr>;
        if fsp_packetByteCount s = fsp_packetSize s
        then Some (kPS2IR_packetReady, s\<lparr>fsp_ringBuffer := advanceHead 4 (fsp_ringBuffer s), fsp_packetByteCount := 0\<rparr>)
        else Some (kPS2IR_packetBuffering, s)
      })"

definition fsp_buttons :: "u8 \<Rightarrow> u8 list \<Rightarrow> u32" where
  "fsp_buttons mode packet =
     (if mode = kModeByteValueGesturesEnabled \<or> drop_bit FSP_PKT_TYPE_SHIFT (packet ! 0) \<noteq> FSP_PKT_TYPE_NORMAL_OPC
      then ucast (packet ! 0 AND 0x1) OR ucast (packet ! 0 AND 0x2) OR ucast (packet ! 0 AND 0x4) else 0)"

definition fsp_dispatch :: "kclock \<Rightarrow> u8 list \<Rightarrow> nat \<Rightarrow> fsp \<Rightarrow> fsp" where
  "fsp_dispatch clk packet packetSize s =
     (let buttons = fsp_buttons (fsp_touchPadModeByte s) packet;
          dx = mouse_dx packet;
          dy = mouse_dy packet;
          now_abs = uptime clk (fsp_clock_reads s);
          s = s\<lparr>fsp_clock_reads := fsp_clock_reads s + 1, fsp_posted := fsp_posted s @ [RelativePointer dx dy buttons now_abs]\<rparr>
      in if packetSize = 4
         then let dz = ucast (packet ! 3 AND 8) - ucast (packet ! 3 AND 7) :: u16
              in s\<lparr>fsp_posted := fsp_posted s @ [ScrollWheel dz now_abs]\<rparr>
         else s)"

definition fsp_packetStep :: "kclock \<Rightarrow> u8 list \<Rightarrow> fsp \<Rightarrow> fsp option" where
  "fsp_packetStep clk packet s =
     (let s = fsp_dispatch clk packet (fsp_packetSize s) s in Some (s\<lparr>fsp_ringBuffer := advanceTail 4 (fsp_ringBuffer s)\<rparr>))"

fun fsp_packetReady :: "kclock \<Rightarrow> nat \<Rightarrow> fsp \<Rightarrow> fsp option" where
  "fsp_packetReady clk 0 s = None"
| "fsp_packetReady clk (Suc n) s =
     (if ring_count (fsp_ringBuffer s) \<ge> 4 then do {
        packet \<leftarrow> ring_peek 4 (fsp_ringBuffer s);
        s \<leftarrow> fsp_packetStep clk packet s;
        fsp_packetReady clk n s
      } else Some s)"

section \<open>Life cycle\<close>

definition fsp_probe :: "'s submit \<Rightarrow> bool \<Rightarrow> dict option \<Rightarrow> fsp \<Rightarrow> 's \<Rightarrow> (bool \<times> fsp \<times> 's) option" where
  "fsp_probe submit super config s w =
     (if \<not> super \<or> Option.bind config (\<lambda>d. asBoolean (getObject ''DisableDevice'' d)) = Some True then Some (False, s, w)
      else do {
        (ident, w) \<leftarrow> fsp_reg_read submit FSP_REG_DEVICE_ID w;
        if ident = FSP_DEVICE_MAGIC
        then do {
          (version, w) \<leftarrow> fsp_reg_read submit FSP_REG_VERSION w;
          (revision, w) \<leftarrow> fsp_reg_read submit FSP_REG_REVISION w;
          Some (True, s\<lparr>fsp_touchPadVersion := ucast (push_bit 8 version OR revision)\<rparr>, w)
        }
        else Some (False, s, w)
      })"

definition fsp_start :: "('h, 'c) env \<Rightarrow> nat \<Rightarrow> bool \<Rightarrow> fsp \<Rightarrow> ('h, 'c) ctl \<Rightarrow> (bool \<times> fsp \<times> ('h, 'c) ctl) option" where
  "fsp_start e p super s c =
     (if \<not> super then Some (False, s, c)
      else do {
        (s, c) \<leftarrow> fsp_setTouchPadEnable (nub_submitRequestAndBlock e p) True (s\<lparr>fsp_packetSize := 3\<rparr>) c;
        c \<leftarrow> nub_installInterruptAction e p c;
        c \<leftarrow> nub_installPowerControlAction p c;
        Some (True, s\<lparr>fsp_interruptHandlerInstalled := True, fsp_powerControlHandlerInstalled := True\<rparr>, c)
      })"

definition fsp_stop :: "('h, 'c) env \<Rightarrow> nat \<Rightarrow> fsp \<Rightarrow> ('h, 'c) ctl \<Rightarrow> (fsp \<times> ('h, 'c) ctl) option" where
  "fsp_stop e p s c = do {
     (s, c) \<leftarrow> fsp_setTouchPadEnable (nub_submitRequestAndBlock e p) False s c;
     c \<leftarrow> (if fsp_interruptHandlerInstalled s then nub_uninstallInterruptAction e p c else Some c);
     c \<leftarrow> (if fsp_powerControlHandlerInstalled s then nub_uninstallPowerControlAction p c else Some c);
     Some (s\<lparr>fsp_interruptHandlerInstalled := False, fsp_powerControlHandlerInstalled := False\<rparr>, c)
   }"

definition fsp_setParamProperties :: "dict \<Rightarrow> fsp \<Rightarrow> fsp" where
  "fsp_setParamProperties d = set_number d ''Clicking'' (\<lambda>n s.
     s\<lparr>fsp_touchPadModeByte := (if n AND 1 \<noteq> 0 then kModeByteValueGesturesEnabled else kModeByteValueGesturesDisabled)\<rparr>)"

definition fsp_setDevicePowerState ::
  "'s submit \<Rightarrow> (u32 \<Rightarrow> 's \<Rightarrow> 's) \<Rightarrow> PS2PowerWhat \<Rightarrow> fsp \<Rightarrow> 's \<Rightarrow> (fsp \<times> 's) option" where
  "fsp_setDevicePowerState submit sleep whatToDo s w = (case whatToDo of
     kPS2C_DisableDevice \<Rightarrow> fsp_setTouchPadEnable submit False s w
   | kPS2C_EnableDevice \<Rightarrow>
       fsp_setTouchPadEnable submit True
         (s\<lparr>fsp_packetByteCount := 0, fsp_ringBuffer := ring_reset (fsp_ringBuffer s)\<rparr>) (sleep 1000 w))"


section \<open>The encoding of registers and values\<close>

text \<open>The sample rates and commands that may not appear as data.\<close>

definition fsp_reserved :: "u8 set" where
  "fsp_reserved = {10, 20, 40, 60, 80, 100, 200, 0xe9, 0xee, 0xf2, 0xff}"

text \<open>How the pad reads a selector and the byte after it.\<close>

definition fsp_decode :: "u8 \<Rightarrow> u8 \<Rightarrow> u8 \<Rightarrow> u8 \<Rightarrow> u8 \<Rightarrow> u8 option" where
  "fsp_decode plain swapped inverted sel v =
     (if sel = plain then Some v
      else if sel = swapped then Some (drop_bit 4 v OR push_bit 4 v)
      else if sel = inverted then Some (NOT v)
      else None)"

lemma u8_u32_u8 [simp]: "(ucast (ucast (a :: u8) :: u32) :: u8) = a"
  by (rule bit_word_eqI) (simp add: bit_ucast_iff)

lemma u8_u32_inj: "(ucast (a :: u8) :: u32) = ucast b \<longleftrightarrow> a = b"
proof
  assume "(ucast a :: u32) = ucast b"
  then have "(ucast (ucast a :: u32) :: u8) = ucast (ucast b :: u32)" by (rule arg_cong)
  then show "a = b" by simp
qed simp

lemma fsp_swapped_byte: "fsp_swapped (ucast r) \<longleftrightarrow> r \<in> {10, 20, 40, 60, 80, 100, 200}" for r :: u8
  using u8_u32_inj [of r 10] u8_u32_inj [of r 20] u8_u32_inj [of r 40] u8_u32_inj [of r 60] u8_u32_inj [of r 80]
    u8_u32_inj [of r 100] u8_u32_inj [of r 200]
  by (simp add: fsp_swapped_def)

lemma fsp_inverted_byte: "fsp_inverted (ucast r) \<longleftrightarrow> r \<in> {0xe9, 0xee, 0xf2, 0xff}" for r :: u8
  using u8_u32_inj [of r "0xe9"] u8_u32_inj [of r "0xee"] u8_u32_inj [of r "0xf2"] u8_u32_inj [of r "0xff"]
  by (simp add: fsp_inverted_def)

lemma fsp_mangle_byte:
  fixes r :: u8
  assumes "fsp_mangle (ucast p) (ucast s) (ucast i) (ucast r) = (sel, v)" "p \<noteq> s" "p \<noteq> i" "s \<noteq> (i :: u8)"
  shows "fsp_decode p s i (ucast sel) (ucast v) = Some r \<and> (ucast v :: u8) \<notin> fsp_reserved"
proof -
  consider (swapped) "r \<in> {10, 20, 40, 60, 80, 100, 200}"
    | (inverted) "r \<notin> {10, 20, 40, 60, 80, 100, 200}" "r \<in> {0xe9, 0xee, 0xf2, 0xff}"
    | (plain) "r \<notin> {10, 20, 40, 60, 80, 100, 200}" "r \<notin> {0xe9, 0xee, 0xf2, 0xff}" by blast
  then show ?thesis
  proof cases
    case swapped
    then have m: "sel = ucast s" "v = drop_bit 4 (ucast r) OR push_bit 4 (ucast r)"
      using assms(1) by (simp_all add: fsp_mangle_def fsp_swapped_byte)
    show ?thesis using swapped assms(2-4) unfolding m by (elim insertE) (simp_all add: fsp_decode_def fsp_reserved_def)
  next
    case inverted
    then have m: "sel = ucast i" "v = NOT (ucast r)"
      using assms(1) by (simp_all add: fsp_mangle_def fsp_swapped_byte fsp_inverted_byte)
    show ?thesis using inverted(2) assms(2-4) unfolding m by (elim insertE) (simp_all add: fsp_decode_def fsp_reserved_def)
  next
    case plain
    then have m: "sel = ucast p" "v = ucast r" using assms(1) by (auto simp: fsp_mangle_def fsp_swapped_byte fsp_inverted_byte)
    show ?thesis using plain unfolding m by (simp add: fsp_decode_def fsp_reserved_def)
  qed
qed

text \<open>A number is either a byte or, like \<open>-1\<close> after a failed read, at least 256; then it is sent plainly.\<close>

lemma fsp_mangle_ok:
  assumes run: "fsp_mangle (ucast p) (ucast s) (ucast i) r = (sel, v)" and distinct: "p \<noteq> s" "p \<noteq> i" "s \<noteq> (i :: u8)"
  shows "fsp_decode p s i (ucast sel) (ucast v) = Some (ucast r) \<and>
    ((ucast v :: u8) \<in> fsp_reserved \<longleftrightarrow> 256 \<le> unat r \<and> (ucast r :: u8) \<in> fsp_reserved)"
proof (cases "unat r < 256")
  case True
  then have "r = ucast (ucast r :: u8)" unfolding word_unat_eq_iff by (simp add: unsigned_ucast_eq unsigned_take_bit_eq take_bit_nat_eq_self)
  then have "fsp_mangle (ucast p) (ucast s) (ucast i) (ucast (ucast r :: u8)) = (sel, v)" using run by simp
  from fsp_mangle_byte [OF this distinct] True show ?thesis by simp
next
  case False
  have low: "unat (of_nat n :: u32) \<le> n" for n by (simp add: unsigned_of_nat take_bit_nat_less_eq_self)
  have "r \<noteq> numeral k" if "(numeral k :: nat) < 256" for k
  proof
    assume "r = numeral k"
    then have "unat r \<le> numeral k" using low [of "numeral k"] unfolding of_nat_numeral by simp
    then show False using that False by linarith
  qed
  then have "\<not> fsp_swapped r" "\<not> fsp_inverted r" by (simp_all add: fsp_swapped_def fsp_inverted_def)
  then have "sel = ucast p" "v = r" using run by (simp_all add: fsp_mangle_def)
  then show ?thesis using False by (simp add: fsp_decode_def)
qed

context driver_port
begin

text \<open>A byte written with a read after it puts exactly that byte on the wire.\<close>

lemma fsp_command_wire:
  assumes "fsp_ps2_command submit cmd s = Some s'" and on: "online s"
  shows "online s' \<and> writes s' = writes s \<and> wire s' = wire s @ writes s (write_byte (ucast cmd))"
proof -
  obtain r' where run: "submit (TPS2Request [cmd_byte kPS2C_WriteDataPort (ucast cmd), cmd_byte kPS2C_ReadDataPort 0]) s = Some (r', s')"
    using assms(1) by (auto simp: fsp_ps2_command_def)
  show ?thesis using read_after_write [OF run on] submit_online [OF run on] by simp
qed

lemma fsp_commands_wire:
  "\<lbrakk>fsp_commands submit cmds s = Some s'; online s\<rbrakk> \<Longrightarrow>
   online s' \<and> writes s' = writes s \<and> wire s' = wire s @ concat (map (\<lambda>cmd. writes s (write_byte (ucast cmd))) cmds)"
proof (induction cmds arbitrary: s)
  case (Cons cmd cmds)
  then obtain t where t: "fsp_ps2_command submit cmd s = Some t" "fsp_commands submit cmds t = Some s'"
    by (auto simp: fsp_commands_def elim!: bind_eq_SomeE)
  then show ?case using fsp_command_wire [OF t(1)] Cons by auto
qed (simp add: fsp_commands_def)

definition fsp_bytes :: "'s \<Rightarrow> u8 list \<Rightarrow> (u16 \<times> u8) list" where
  "fsp_bytes s bs = concat (map (\<lambda>b. writes s (write_byte b)) bs)"

lemma fsp_write_wire:
  assumes run: "fsp_reg_write submit r v s = Some s'" and on: "online s"
  shows "\<exists>sel1 v1 sel2 v2. wire s' = wire s @ fsp_bytes s [0xf3, sel1, v1, 0xf3, sel2, v2] \<and>
    fsp_decode 0x55 0x77 0x74 sel1 v1 = Some (ucast r) \<and> fsp_decode 0x33 0x44 0x47 sel2 v2 = Some (ucast v) \<and>
    (v1 \<in> fsp_reserved \<longleftrightarrow> 256 \<le> unat r \<and> (ucast r :: u8) \<in> fsp_reserved) \<and>
    (v2 \<in> fsp_reserved \<longleftrightarrow> 256 \<le> unat v \<and> (ucast v :: u8) \<in> fsp_reserved)"
proof -
  obtain sel1 v1 sel2 v2 t where
    m: "fsp_mangle (ucast (0x55 :: u8)) (ucast (0x77 :: u8)) (ucast (0x74 :: u8)) r = (sel1, v1)"
      "fsp_mangle (ucast (0x33 :: u8)) (ucast (0x44 :: u8)) (ucast (0x47 :: u8)) v = (sel2, v2)" and
    t: "fsp_commands submit [0xf3, sel1, v1] s = Some t" "fsp_commands submit [0xf3, sel2, v2] t = Some s'"
    using run by (auto simp: fsp_reg_write_def split: prod.splits elim!: bind_eq_SomeE)
  have "wire s' = wire s @ fsp_bytes s [0xf3, ucast sel1, ucast v1, 0xf3, ucast sel2, ucast v2]"
    using fsp_commands_wire [OF t(1) on] fsp_commands_wire [OF t(2)] by (simp add: fsp_bytes_def)
  then show ?thesis using fsp_mangle_ok [OF m(1)] fsp_mangle_ok [OF m(2)]
    by (intro exI [of _ "ucast sel1"] exI [of _ "ucast v1"] exI [of _ "ucast sel2"] exI [of _ "ucast v2"]) simp
qed

end

section \<open>The input path against its specification\<close>

text \<open>The displacements as numbers, and the state the specification keeps: received bytes of the
  next packet, packets waiting, events posted, readings of the clock.\<close>

definition fsp_delta :: "u8 \<Rightarrow> bool \<Rightarrow> int" where
  "fsp_delta b neg = uint b - (if neg then 256 else 0)"

definition fsp_wheel :: "u8 \<Rightarrow> int" where
  "fsp_wheel b = (let z = uint b mod 16 in if z < 8 then - z else 16 - z)"

definition fsp_report :: "u8 \<Rightarrow> nat \<Rightarrow> u8 list \<Rightarrow> u64 \<Rightarrow> pointer_event list" where
  "fsp_report mode n p t =
     RelativePointer (word_of_int (fsp_delta (p ! 1) (bit (p ! 0) 4))) (word_of_int (- fsp_delta (p ! 2) (bit (p ! 0) 5)))
       (if mode \<noteq> 0 \<and> uint (p ! 0) \<ge> 0xC0 then 0 else word_of_int (uint (p ! 0) mod 8)) t #
     (if n = 4 then [ScrollWheel (word_of_int (fsp_wheel (p ! 3))) t] else [])"

type_synonym fsp_view = "u8 list \<times> u8 list list \<times> pointer_event list \<times> nat"

datatype fsp_event = FspByte u8 | FspWork

fun fsp_exec :: "kclock \<Rightarrow> fsp_event \<Rightarrow> fsp \<Rightarrow> fsp option" where
  "fsp_exec clk (FspByte b) s = map_option snd (fsp_interruptOccurred b s)"
| "fsp_exec clk FspWork s = fsp_packetReady clk 32 s"

fun fsp_spec :: "kclock \<Rightarrow> u8 \<Rightarrow> nat \<Rightarrow> fsp_event \<Rightarrow> fsp_view \<Rightarrow> fsp_view" where
  "fsp_spec clk mode n (FspByte b) (part, ps, evs, k) =
     (if part = [] \<and> (b = 0xFA \<or> \<not> bit b 3) then (part, ps, evs, k)
      else if Suc (length part) = n then ([], if length ps < 31 then ps @ [part @ [b]] else ps, evs, k)
      else (part @ [b], ps, evs, k))"
| "fsp_spec clk mode n FspWork (part, ps, evs, k) =
     (part, [], evs @ concat (map (\<lambda>i. fsp_report mode n (ps ! i) (uptime clk (k + i))) [0..<length ps]), k + length ps)"

definition fsp_view :: "fsp \<Rightarrow> fsp_view" where
  "fsp_view s = (take (fsp_packetByteCount s) (head_slot 4 (fsp_ringBuffer s)),
     map (take (fsp_packetSize s)) (ring_packets 4 (fsp_ringBuffer s)), fsp_posted s, fsp_clock_reads s)"

definition fsp_inv :: "fsp \<Rightarrow> bool" where
  "fsp_inv s \<longleftrightarrow> packet_inv 4 128 (fsp_ringBuffer s) \<and> fsp_packetSize s \<in> {3, 4} \<and> fsp_packetByteCount s < fsp_packetSize s"

lemma and_exp: "x AND 2 ^ n = (if bit x n then 2 ^ n else 0)" for x :: "'a::len word"
  by (rule bit_word_eqI) (auto simp: bit_and_iff bit_exp_iff)

lemma byte_and_8: "b AND 8 = (if bit b 3 then 8 else 0)" for b :: u8
  using and_exp [of b 3] by simp

lemma byte_and_7: "uint (b AND 7) = uint b mod 8" for b :: u8
proof -
  have "b AND 7 = take_bit 3 b" by (simp add: take_bit_eq_mask mask_eq_exp_minus_1)
  then show ?thesis by (simp add: take_bit_eq_mod uint_mod_distrib)
qed

lemma fsp_dz: "(ucast (b AND 8) - ucast (b AND 7) :: u16) = word_of_int (fsp_wheel b)" for b :: u8
proof -
  have "uint b mod 16 = uint b mod 8 + (if bit b 3 then 8 else 0)"
    using take_bit_Suc_from_most [of 3 "uint b"] by (simp add: take_bit_eq_mod bit_uint_iff)
  moreover have "uint b mod 8 < 8" "0 \<le> uint b mod 8" by simp_all
  moreover have "(ucast (b AND 7) :: u16) = word_of_int (uint b mod 8)" by (simp add: byte_and_7 [symmetric])
  ultimately show ?thesis by (cases "bit b 3") (simp_all add: byte_and_8 fsp_wheel_def wi_hom_sub Let_def)
qed

lemma fsp_buttons_ok: "fsp_buttons mode p = (if mode \<noteq> 0 \<and> uint (p ! 0) \<ge> 0xC0 then 0 else word_of_int (uint (p ! 0) mod 8))"
proof -
  let ?b = "p ! 0"
  have "?b AND 1 OR ?b AND 2 OR ?b AND 4 = ?b AND 7" by (simp add: bit.conj_disj_distrib [symmetric])
  then have "(ucast (?b AND 1) OR ucast (?b AND 2) OR ucast (?b AND 4) :: u32) = ucast (?b AND 7)"
    by (simp add: unsigned_or_eq [symmetric])
  also have "\<dots> = word_of_int (uint ?b mod 8)" by (simp add: byte_and_7 [symmetric])
  finally have low: "(ucast (?b AND 1) OR ucast (?b AND 2) OR ucast (?b AND 4) :: u32) = word_of_int (uint ?b mod 8)" .
  have "uint (drop_bit 6 ?b) = uint ?b div 64" by (simp add: drop_bit_eq_div uint_div_distrib)
  then have "(drop_bit 6 ?b = 3) = (uint ?b div 64 = 3)" by (simp add: word_uint_eq_iff)
  also have "\<dots> = (uint ?b \<ge> 0xC0)" using uint_u8 [of ?b] by presburger
  finally show ?thesis using low by (simp add: fsp_buttons_def)
qed

lemma fsp_report_ok:
  "fsp_dispatch clk p n s = s\<lparr>fsp_clock_reads := fsp_clock_reads s + 1,
     fsp_posted := fsp_posted s @ fsp_report (fsp_touchPadModeByte s) n p (uptime clk (fsp_clock_reads s))\<rparr>"
proof -
  have "mouse_dx p = word_of_int (fsp_delta (p ! 1) (bit (p ! 0) 4))"
    "mouse_dy p = word_of_int (- fsp_delta (p ! 2) (bit (p ! 0) 5))"
    using and_single_bit [of 4 "p ! 0"] and_single_bit [of 5 "p ! 0"]
    unfolding mouse_dx_def mouse_dy_def extend_byte by (simp_all add: fsp_delta_def wi_hom_neg)
  then show ?thesis by (simp add: fsp_dispatch_def fsp_report_def fsp_buttons_ok fsp_dz Let_def)
qed


text \<open>The work loop reports every waiting packet, each with its own reading of the clock.\<close>

definition fsp_same :: "fsp \<Rightarrow> fsp \<Rightarrow> bool" where
  "fsp_same s s' \<longleftrightarrow> fsp_packetSize s' = fsp_packetSize s \<and> fsp_touchPadModeByte s' = fsp_touchPadModeByte s \<and>
     fsp_packetByteCount s' = fsp_packetByteCount s"

interpretation fsp_work: packet_consumer ring_poke "advanceHead 4" "ring_peek 4" "advanceTail 4" ring_count
  "packet_inv 4 128" "ring_packets 4" "head_slot 4" 4 "128 div 4 - 1"
  fsp_ringBuffer "fsp_same s0" "fsp_packetStep clk" "fsp_packetReady clk"
proof
  fix s :: fsp and p :: "u8 list" and k q
  show "fsp_packetReady clk (Suc k) s = (if 4 \<le> ring_count (fsp_ringBuffer s)
    then Option.bind (ring_peek 4 (fsp_ringBuffer s)) (\<lambda>p. Option.bind (fsp_packetStep clk p s) (fsp_packetReady clk k)) else Some s)"
    by simp
  show "\<exists>s'. fsp_packetStep clk p s = Some s' \<and> fsp_same s0 s' \<and> fsp_ringBuffer s' = advanceTail 4 (fsp_ringBuffer s)" if "fsp_same s0 s"
    using that by (simp add: fsp_packetStep_def fsp_report_ok fsp_same_def Let_def)
  show "length p = 4" if "packet_inv 4 128 q" "p \<in> set (ring_packets 4 q)"
    using mouse_ring.packets_member_length [OF that] .
qed

lemma fsp_report_take: "\<lbrakk>n \<in> {3, 4}; length p = 4\<rbrakk> \<Longrightarrow> fsp_report mode n (take n p) t = fsp_report mode n p t"
  by (auto simp: fsp_report_def)

lemma slot_advanceTail: "head_slot n (advanceTail n r) = head_slot n r"
  by (simp add: head_slot_def advanceTail_def ring_slot_def Let_def)

lemma fsp_steps:
  "fold_opt (fsp_packetStep clk) ps s = Some s' \<Longrightarrow>
   fsp_posted s' = fsp_posted s @ concat (map (\<lambda>i. fsp_report (fsp_touchPadModeByte s) (fsp_packetSize s) (ps ! i)
     (uptime clk (fsp_clock_reads s + i))) [0..<length ps]) \<and> fsp_clock_reads s' = fsp_clock_reads s + length ps \<and>
   head_slot 4 (fsp_ringBuffer s') = head_slot 4 (fsp_ringBuffer s)"
proof (induction ps arbitrary: s)
  case (Cons p ps)
  then obtain s1 where s1: "fsp_packetStep clk p s = Some s1" "fold_opt (fsp_packetStep clk) ps s1 = Some s'" by (auto elim!: bind_eq_SomeE)
  have "s1 = s\<lparr>fsp_clock_reads := fsp_clock_reads s + 1, fsp_posted := fsp_posted s @
    fsp_report (fsp_touchPadModeByte s) (fsp_packetSize s) p (uptime clk (fsp_clock_reads s)), fsp_ringBuffer := advanceTail 4 (fsp_ringBuffer s)\<rparr>"
    using s1(1) by (simp add: fsp_packetStep_def fsp_report_ok Let_def)
  then show ?case using Cons.IH [OF s1(2)]
    by (simp add: slot_advanceTail upt_conv_Cons map_Suc_upt [symmetric] o_def del: upt_Suc)
qed simp

lemma fsp_work_refines:
  assumes inv: "fsp_inv s"
  shows "\<exists>s'. fsp_packetReady clk 32 s = Some s' \<and> fsp_inv s' \<and> fsp_same s s' \<and>
    fsp_view s' = fsp_spec clk (fsp_touchPadModeByte s) (fsp_packetSize s) FspWork (fsp_view s)"
proof -
  let ?ps = "ring_packets 4 (fsp_ringBuffer s)"
  have ring: "packet_inv 4 128 (fsp_ringBuffer s)" and n: "fsp_packetSize s \<in> {3, 4}" using inv by (auto simp: fsp_inv_def)
  obtain s' where s': "fsp_packetReady clk 32 s = Some s'" "fold_opt (fsp_packetStep clk) ?ps s = Some s'" "fsp_same s s'"
    "ring_packets 4 (fsp_ringBuffer s') = []" "packet_inv 4 128 (fsp_ringBuffer s')"
    using fsp_work.run_drains [OF ring, of s 32] mouse_ring.packets_le [OF ring] by (auto simp: fsp_same_def)
  have "length (?ps ! i) = 4" if "i < length ?ps" for i using mouse_ring.packets_member_length [OF ring] that by simp
  then have rep: "map (\<lambda>i. fsp_report (fsp_touchPadModeByte s) (fsp_packetSize s) (map (take (fsp_packetSize s)) ?ps ! i) (uptime clk (fsp_clock_reads s + i))) [0..<length ?ps] =
    map (\<lambda>i. fsp_report (fsp_touchPadModeByte s) (fsp_packetSize s) (?ps ! i) (uptime clk (fsp_clock_reads s + i))) [0..<length ?ps]"
    using fsp_report_take [OF n] by (intro map_cong) simp_all
  have same: "fsp_packetSize s' = fsp_packetSize s" "fsp_packetByteCount s' = fsp_packetByteCount s" using s'(3) by (simp_all add: fsp_same_def)
  have "fsp_view s' = fsp_spec clk (fsp_touchPadModeByte s) (fsp_packetSize s) FspWork (fsp_view s)"
    using fsp_steps [OF s'(2)] s'(4) arg_cong [OF rep, where f = concat] by (simp add: fsp_view_def same)
  then show ?thesis using s' inv by (auto simp: fsp_inv_def fsp_same_def)
qed

lemma fsp_byte_refines:
  assumes inv: "fsp_inv s"
  shows "\<exists>r s'. fsp_interruptOccurred b s = Some (r, s') \<and> fsp_inv s' \<and>
    fsp_packetSize s' = fsp_packetSize s \<and> fsp_touchPadModeByte s' = fsp_touchPadModeByte s \<and>
    fsp_view s' = fsp_spec clk (fsp_touchPadModeByte s) (fsp_packetSize s) (FspByte b) (fsp_view s)"
proof -
  let ?k = "fsp_packetByteCount s" and ?q = "fsp_ringBuffer s" and ?n = "fsp_packetSize s"
  have ring: "packet_inv 4 128 ?q" and n: "?n \<in> {3, 4}" "?k < ?n" "?k < 4" using inv by (auto simp: fsp_inv_def)
  have slot: "length (head_slot 4 ?q) = 4" by (rule mouse_ring.head_slot_length [OF ring])
  have part: "length (take ?k (head_slot 4 ?q)) = ?k" using slot n by simp
  have hdr: "(b = kSC_Acknowledge \<or> b AND 8 = 0) = (b = 0xFA \<or> \<not> bit b 3)" using byte_and_8 [of b] by simp
  show ?thesis
  proof (cases "?k = 0 \<and> (b = 0xFA \<or> \<not> bit b 3)")
    case True
    then show ?thesis using inv hdr by (auto simp: fsp_interruptOccurred_def fsp_view_def)
  next
    case False
    obtain q where q: "ring_poke ?k b ?q = Some q" "packet_inv 4 128 q" "ring_packets 4 q = ring_packets 4 ?q"
      "head_slot 4 q = (head_slot 4 ?q)[?k := b]" using mouse_ring.poke_ok [OF ring, of ?k b] n by auto
    have new: "take (Suc ?k) (head_slot 4 q) = take ?k (head_slot 4 ?q) @ [b]"
      using q(4) slot n by (simp add: take_Suc_conv_app_nth)
    have nempty: "\<not> (take ?k (head_slot 4 ?q) = [] \<and> (b = 0xFA \<or> \<not> bit b 3))" using False slot by auto
    show ?thesis
    proof (cases "Suc ?k = ?n")
      case True
      have adv: "packet_inv 4 128 (advanceHead 4 q)" by (rule mouse_ring.advance_inv [OF q(2)])
      have pk: "ring_packets 4 (advanceHead 4 q) =
        (if length (ring_packets 4 ?q) < 31 then ring_packets 4 ?q @ [head_slot 4 q] else ring_packets 4 ?q)"
        using mouse_ring.advance_room [OF q(2)] mouse_ring.advance_full [OF q(2)] mouse_ring.packets_le [OF q(2)] q(3) by auto
      have run: "fsp_interruptOccurred b s = Some (kPS2IR_packetReady, s\<lparr>fsp_ringBuffer := advanceHead 4 q, fsp_packetByteCount := 0\<rparr>)"
        using False True q(1) hdr by (auto simp: fsp_interruptOccurred_def Let_def)
      show ?thesis unfolding run using nempty True adv pk new n part by (auto simp: fsp_inv_def fsp_view_def)
    next
      case more: False
      have run: "fsp_interruptOccurred b s = Some (kPS2IR_packetBuffering, s\<lparr>fsp_ringBuffer := q, fsp_packetByteCount := Suc ?k\<rparr>)"
        using False more q(1) hdr by (auto simp: fsp_interruptOccurred_def Let_def)
      show ?thesis unfolding run using nempty more q new n part by (auto simp: fsp_inv_def fsp_view_def)
    qed
  qed
qed

lemma fsp_run_refines:
  "fsp_inv s \<Longrightarrow> \<exists>s'. fold_opt (fsp_exec clk) evs s = Some s' \<and> fsp_inv s' \<and>
     fsp_view s' = fold (fsp_spec clk (fsp_touchPadModeByte s) (fsp_packetSize s)) evs (fsp_view s)"
proof (induction evs arbitrary: s)
  case (Cons ev evs)
  obtain s1 where s1: "fsp_exec clk ev s = Some s1" "fsp_inv s1" "fsp_packetSize s1 = fsp_packetSize s"
    "fsp_touchPadModeByte s1 = fsp_touchPadModeByte s"
    "fsp_view s1 = fsp_spec clk (fsp_touchPadModeByte s) (fsp_packetSize s) ev (fsp_view s)"
  proof (cases ev)
    case (FspByte b)
    then show ?thesis using fsp_byte_refines [OF Cons.prems, of b clk] that by auto
  next
    case FspWork
    then show ?thesis using fsp_work_refines [OF Cons.prems, of clk] that by (auto simp: fsp_same_def)
  qed
  then show ?case using Cons.IH [OF s1(2)] by simp
qed simp

section \<open>Properties\<close>

text \<open>Against the device that acknowledges everything, every exchange completes.\<close>

lemma ack_fsp_commands: "\<exists>h'. fsp_commands (nub_submitRequestAndBlock ack_env (Suc 0)) cmds (ack_state h 0) = Some (ack_state h' 0)"
proof (induction cmds arbitrary: h)
  case (Cons cmd cmds)
  have "\<exists>h'. fsp_ps2_command (nub_submitRequestAndBlock ack_env (Suc 0)) cmd (ack_state h 0) = Some (ack_state h' 0)"
    using ack_submit [of "[write_byte (ucast cmd), read_byte]" h] by (simp add: fsp_ps2_command_def ack_ok_def)
  then show ?case using Cons.IH by (fastforce simp: fsp_commands_def)
qed (simp add: fsp_commands_def)

lemma ack_fsp_write: "\<exists>h'. fsp_reg_write (nub_submitRequestAndBlock ack_env (Suc 0)) r v (ack_state h 0) = Some (ack_state h' 0)"
proof -
  obtain s1 v1 s2 v2 where m: "fsp_mangle 0x55 0x77 0x74 r = (s1, v1)" "fsp_mangle 0x33 0x44 0x47 v = (s2, v2)" by fastforce
  obtain h1 where "fsp_commands (nub_submitRequestAndBlock ack_env (Suc 0)) [0xf3, s1, v1] (ack_state h 0) = Some (ack_state h1 0)"
    using ack_fsp_commands by blast
  moreover obtain h2 where "fsp_commands (nub_submitRequestAndBlock ack_env (Suc 0)) [0xf3, s2, v2] (ack_state h1 0) = Some (ack_state h2 0)"
    using ack_fsp_commands by blast
  ultimately show ?thesis by (simp add: fsp_reg_write_def m)
qed

lemma ack_fsp_read: "\<exists>v h'. fsp_reg_read (nub_submitRequestAndBlock ack_env (Suc 0)) r (ack_state h 0) = Some (v, ack_state h' 0)"
proof -
  obtain s1 v1 where m: "fsp_mangle 0x66 0xCC 0x68 r = (s1, v1)" by fastforce
  obtain h1 where "fsp_commands (nub_submitRequestAndBlock ack_env (Suc 0)) [0xf3, 0x66, 0x88, 0xf3, s1, v1] (ack_state h 0) = Some (ack_state h1 0)"
    using ack_fsp_commands by blast
  then show ?thesis using ack_submit [of "[send_byte kDP_GetMouseInformation, read_byte, read_byte, read_byte]" h1]
    by (simp add: fsp_reg_read_def m ack_ok_def)
qed

lemma ack_fsp_enable:
  "\<exists>h'. fsp_write_enable (nub_submitRequestAndBlock ack_env (Suc 0)) en (ack_state h 0) = Some (ack_state h' 0)"
  "\<exists>h'. fsp_opctag_enable (nub_submitRequestAndBlock ack_env (Suc 0)) en (ack_state h 0) = Some (ack_state h' 0)"
proof -
  show 1: "\<exists>h'. fsp_write_enable (nub_submitRequestAndBlock ack_env (Suc 0)) en (ack_state h 0) = Some (ack_state h' 0)" for en h
    using ack_fsp_read [of FSP_REG_SYSCTL1 h] ack_fsp_write by (fastforce simp: fsp_write_enable_def)
  obtain h1 where h1: "fsp_write_enable (nub_submitRequestAndBlock ack_env (Suc 0)) True (ack_state h 0) = Some (ack_state h1 0)" using 1 by blast
  obtain v h2 where h2: "fsp_reg_read (nub_submitRequestAndBlock ack_env (Suc 0)) FSP_REG_OPC_QDOWN (ack_state h1 0) = Some (v, ack_state h2 0)"
    using ack_fsp_read by blast
  obtain h3 where h3: "fsp_reg_write (nub_submitRequestAndBlock ack_env (Suc 0)) FSP_REG_OPC_QDOWN
    (if en then v OR FSP_BIT_EN_OPC_TAG else v AND NOT FSP_BIT_EN_OPC_TAG) (ack_state h2 0) = Some (ack_state h3 0)"
    using ack_fsp_write by blast
  obtain h4 where "fsp_write_enable (nub_submitRequestAndBlock ack_env (Suc 0)) False (ack_state h3 0) = Some (ack_state h4 0)" using 1 by blast
  then show "\<exists>h'. fsp_opctag_enable (nub_submitRequestAndBlock ack_env (Suc 0)) en (ack_state h 0) = Some (ack_state h' 0)"
    using h1 h2 h3 unfolding fsp_opctag_enable_def by simp
qed

lemma ack_fsp_start: "\<exists>c. fsp_start ack_env (Suc 0) True init_fsp (ack_state h 0) =
  Some (True, init_fsp\<lparr>fsp_packetSize := 3, fsp_interruptHandlerInstalled := True, fsp_powerControlHandlerInstalled := True\<rparr>, c)"
proof -
  obtain h1 where h1: "nub_submitRequestAndBlock ack_env (Suc 0) (TPS2Request [send_byte kDP_Enable]) (ack_state h 0) =
    Some ((TPS2Request (map ack_answer [send_byte kDP_Enable]))\<lparr>req_port := Suc 0\<rparr>, ack_state h1 0)"
    using ack_submit [of "[send_byte kDP_Enable]" h] by (simp add: ack_ok_def)
  obtain h2 where h2: "fsp_opctag_enable (nub_submitRequestAndBlock ack_env (Suc 0)) True (ack_state h1 0) = Some (ack_state h2 0)"
    using ack_fsp_enable by blast
  obtain h3 where h3: "fsp_intellimouse_mode (nub_submitRequestAndBlock ack_env (Suc 0)) (ack_state h2 0) = Some (0xFA, ack_state h3 0)"
    using ack_submit [of "[send_byte kDP_SetMouseSampleRate, send_byte 200, send_byte kDP_SetMouseSampleRate,
      send_byte 200, send_byte kDP_SetMouseSampleRate, send_byte 80, send_byte kDP_GetId, read_byte]" h2]
    by (simp add: fsp_intellimouse_mode_def ack_ok_def ack_answer_def)
  have "fsp_setTouchPadEnable (nub_submitRequestAndBlock ack_env (Suc 0)) True s (ack_state h 0) = Some (s, ack_state h3 0)" for s
    using h1 h2 h3 by (simp add: fsp_setTouchPadEnable_def)
  then show ?thesis using ack_install [of h3] by (auto simp: fsp_start_def)
qed

text \<open>
  C26. Writing a register of the Sentelic pad, for every 32-bit register and value the code can pass: six
  bytes go to the port of the driver, two sample-rate commands with a selector and a data byte each, and
  a pad that undoes the selectors gets back the low bytes of register and value. For numbers that fit a
  byte no data byte is one of the values reserved for commands and sample rates; a larger number is sent
  without mangling, so its data byte is reserved exactly if its low byte is. (The callers pass \<open>-1\<close> on
  when a register could not be read, and the reserved byte \<^verbatim>\<open>0xff\<close> is then sent as data.)
\<close>

theorem fsp_write_encodes:
  fixes r v :: u32
  assumes "fsp_reg_write (nub_submitRequestAndBlock e p) r v c = Some c'" and "nub_online e wr c"
  shows "\<exists>sel1 v1 sel2 v2. wr (hw c') = wr (hw c) @
      concat (map (\<lambda>b. command_writes (muxPresent c) p (write_byte b)) [0xf3, sel1, v1, 0xf3, sel2, v2]) \<and>
    fsp_decode 0x55 0x77 0x74 sel1 v1 = Some (ucast r) \<and> fsp_decode 0x33 0x44 0x47 sel2 v2 = Some (ucast v) \<and>
    (v1 \<in> fsp_reserved \<longleftrightarrow> 256 \<le> unat r \<and> (ucast r :: u8) \<in> fsp_reserved) \<and>
    (v2 \<in> fsp_reserved \<longleftrightarrow> 256 \<le> unat v \<and> (ucast v :: u8) \<in> fsp_reserved)"
  using nub_port.fsp_write_wire [OF assms] by (simp add: nub_port.fsp_bytes_def)

text \<open>The byte \<open>0xff\<close> is written inverted; \<open>-1\<close> is not.\<close>

theorem fsp_write_encodes_witness:
  "(\<exists>c' sel1 v1 sel2 v2. fsp_reg_write (nub_submitRequestAndBlock ack_env (Suc 0)) 10 0xff (ack_state [] 0) = Some c' \<and>
     fsp_decode 0x55 0x77 0x74 sel1 v1 = Some 10 \<and> fsp_decode 0x33 0x44 0x47 sel2 v2 = Some 0xff \<and> v2 \<notin> fsp_reserved) \<and>
   (\<exists>c' sel2 v2. fsp_reg_write (nub_submitRequestAndBlock ack_env (Suc 0)) 10 (- 1) (ack_state [] 0) = Some c' \<and>
     fsp_decode 0x33 0x44 0x47 sel2 v2 = Some 0xff \<and> v2 \<in> fsp_reserved)"
proof
  obtain h1 where 1: "fsp_reg_write (nub_submitRequestAndBlock ack_env (Suc 0)) 10 0xff (ack_state [] 0) = Some (ack_state h1 0)"
    using ack_fsp_write by blast
  from fsp_write_encodes [OF 1, of "\<lambda>h. h"] 1 ack_online
  show "\<exists>c' sel1 v1 sel2 v2. fsp_reg_write (nub_submitRequestAndBlock ack_env (Suc 0)) 10 0xff (ack_state [] 0) = Some c' \<and>
     fsp_decode 0x55 0x77 0x74 sel1 v1 = Some 10 \<and> fsp_decode 0x33 0x44 0x47 sel2 v2 = Some 0xff \<and> v2 \<notin> fsp_reserved" by auto
  obtain h2 where 2: "fsp_reg_write (nub_submitRequestAndBlock ack_env (Suc 0)) 10 (- 1) (ack_state [] 0) = Some (ack_state h2 0)"
    using ack_fsp_write by blast
  have m: "(ucast (- 1 :: u32) :: u8) = 0xff" "256 \<le> unat (- 1 :: u32)" by code_simp (simp add: unsigned_minus_1_eq_mask mask_eq_exp_minus_1)
  from fsp_write_encodes [OF 2, of "\<lambda>h. h"] 2 ack_online m
  show "\<exists>c' sel2 v2. fsp_reg_write (nub_submitRequestAndBlock ack_env (Suc 0)) 10 (- 1) (ack_state [] 0) = Some c' \<and>
     fsp_decode 0x33 0x44 0x47 sel2 v2 = Some 0xff \<and> v2 \<in> fsp_reserved" by (auto simp: fsp_reserved_def)
qed

text \<open>
  C25. The Sentelic pad's input end to end: once the driver has started, and whatever preferences it
  is given, any interleaving of bytes and runs of the work loop does what the specification says.
  A packet starts with a byte that has bit 3 set and is no acknowledgement; packets that find the
  buffer full are dropped whole; each packet becomes one pointer event with its signed displacement
  (clicks by tapping left out unless gestures are on) and, on a pad with a wheel, one scroll event.
\<close>

theorem fsp_input_refines:
  assumes "fsp_start e p super init_fsp c = Some (True, s, c')"
  shows "\<exists>s'. fold_opt (fsp_exec clk) evs (fsp_setParamProperties d s) = Some s' \<and>
    fsp_view s' = fold (fsp_spec clk (fsp_touchPadModeByte (fsp_setParamProperties d s)) (fsp_packetSize s)) evs ([], [], [], 0)"
proof -
  let ?s = "fsp_setParamProperties d s"
  have ring: "packet_inv 4 128 (new_ring 128 (0 :: u8))" "ring_packets 4 (new_ring 128 (0 :: u8)) = []"
    using mouse_ring.new_ring_ok [of "0 :: u8"] by simp_all
  have s: "fsp_ringBuffer s = new_ring 128 0" "fsp_packetByteCount s = 0" "fsp_packetSize s \<in> {3, 4}" "fsp_posted s = []" "fsp_clock_reads s = 0"
    using assms by (auto simp: fsp_start_def fsp_setTouchPadEnable_def init_fsp_def elim!: bind_eq_SomeE split: if_splits)
  have same: "fsp_ringBuffer ?s = fsp_ringBuffer s" "fsp_packetByteCount ?s = fsp_packetByteCount s" "fsp_packetSize ?s = fsp_packetSize s"
    "fsp_posted ?s = fsp_posted s" "fsp_clock_reads ?s = fsp_clock_reads s"
    by (simp_all add: fsp_setParamProperties_def set_number_def split: option.splits)
  have "fsp_inv ?s" using s ring by (auto simp: fsp_inv_def same)
  moreover have "fsp_view ?s = ([], [], [], 0)" using s ring by (simp add: fsp_view_def same)
  ultimately show ?thesis using fsp_run_refines [of ?s clk evs] same(3) by auto
qed

theorem fsp_input_refines_witness:
  "\<exists>s c' s'. fsp_start ack_env (Suc 0) True init_fsp (ack_state [] 0) = Some (True, s, c') \<and>
     fold_opt (fsp_exec sample_clock) (map FspByte [0xFA, 0, 0x19, 250, 5] @ [FspWork]) (fsp_setParamProperties [] s) = Some s' \<and>
     fsp_posted s' = [RelativePointer (- 6) (- 5) 1 9]"
proof -
  obtain c where run: "fsp_start ack_env (Suc 0) True init_fsp (ack_state [] 0) =
    Some (True, init_fsp\<lparr>fsp_packetSize := 3, fsp_interruptHandlerInstalled := True, fsp_powerControlHandlerInstalled := True\<rparr>, c)"
    using ack_fsp_start by blast
  have spec: "fold (fsp_spec sample_clock 4 3) (map FspByte [0xFA, 0, 0x19, 250, 5] @ [FspWork]) ([], [], [], 0) =
    ([], [], [RelativePointer (- 6) (- 5) 1 9], 1)"
    by (simp add: sample_clock_def fsp_report_def fsp_delta_def)
  let ?s = "init_fsp\<lparr>fsp_packetSize := 3, fsp_interruptHandlerInstalled := True, fsp_powerControlHandlerInstalled := True\<rparr>"
  have d: "fsp_setParamProperties [] ?s = ?s" "fsp_touchPadModeByte ?s = 4" "fsp_packetSize ?s = 3"
    by (simp_all add: fsp_setParamProperties_def set_number_def getObject_def init_fsp_def)
  obtain s' where "fold_opt (fsp_exec sample_clock) (map FspByte [0xFA, 0, 0x19, 250, 5] @ [FspWork]) ?s = Some s'"
    "fsp_view s' = ([], [], [RelativePointer (- 6) (- 5) 1 9], 1)"
    using fsp_input_refines [OF run, of sample_clock "map FspByte [0xFA, 0, 0x19, 250, 5] @ [FspWork]" "[]"] unfolding d spec by blast
  then have "fold_opt (fsp_exec sample_clock) (map FspByte [0xFA, 0, 0x19, 250, 5] @ [FspWork]) (fsp_setParamProperties [] ?s) = Some s'"
    "fsp_posted s' = [RelativePointer (- 6) (- 5) 1 9]" unfolding d by (simp_all only: fsp_view_def prod.inject)
  with run show ?thesis by blast
qed

end
