(* ===== verification/Elan_Packet.thy ===== *)
theory Elan_Packet
  imports FocalTech_Packet PS2_Driver
begin

text \<open>
  The input path of the Elan touchpad driver, \<^verbatim>\<open>ApplePS2Elan\<close> of \<^verbatim>\<open>VoodooPS2Elan.cpp\<close>. Four hardware
  versions have their own packets: the first uses four bytes with parity bits, the others six. The
  fourth version tracks five fingers over status, head and motion packets; versions three and four
  may carry a trackpoint.

  Coordinates are 32-bit words that wrap around, kept as natural numbers below \<open>2 ^ 32\<close> in the
  record \<open>TouchCoordinates\<close>; the counter of head packets, an \<^verbatim>\<open>int\<close> of the code that is only compared
  with the number of fingers, is an unbounded integer. What the driver sends to \<^verbatim>\<open>VoodooInput\<close> is recorded in \<open>el_sent\<close>, the time
  stamps of the contacts excepted; a message without a receiver is not recorded. The constants of
  the code in floating point are \<open>(int)(0.5 * 100) = 50\<close> and \<open>(int)(0.866 * 100) = 86\<close>.
\<close>

section \<open>State\<close>

definition ETP_MAX_FINGERS :: nat where [simp]: "ETP_MAX_FINGERS = 5"
definition ETP_WEIGHT_VALUE :: u32 where [simp]: "ETP_WEIGHT_VALUE = 5"
definition FORCE_TOUCH_BUTTON :: u32 where [simp]: "FORCE_TOUCH_BUTTON = 1"
definition ELAN_BUFFER_LENGTH :: nat where [simp]: "ELAN_BUFFER_LENGTH = 6 * 32"

datatype elan_packet_type =
    PACKET_UNKNOWN | PACKET_DEBOUNCE | PACKET_V3_HEAD | PACKET_V3_TAIL
  | PACKET_V4_HEAD | PACKET_V4_MOTION | PACKET_V4_STATUS | PACKET_TRACKPOINT

record elantech_device_info =
  ei_capabilities :: "u8 list"
  ei_samples :: "u8 list"
  ei_hw_version :: nat
  ei_fw_version :: u32
  ei_x_min :: u32
  ei_y_min :: u32
  ei_x_max :: u32
  ei_y_max :: u32
  ei_x_res :: u32
  ei_y_res :: u32
  ei_x_traces :: u32
  ei_y_traces :: u32
  ei_width :: u32
  ei_bus :: u32
  ei_paritycheck :: bool
  ei_jumpy_cursor :: bool
  ei_reports_pressure :: bool
  ei_crc_enabled :: bool
  ei_set_hw_resolution :: bool
  ei_is_buttonpad :: bool
  ei_has_trackpoint :: bool
  ei_has_middle_button :: bool

record elantech_data =
  ed_reg_07 :: u8
  ed_reg_10 :: u8
  ed_reg_11 :: u8
  ed_reg_21 :: u8
  ed_single_finger_reports :: nat
  ed_mt0 :: "u32 \<times> u32"
  ed_parity :: "u8 list"

record elan_virtual_finger_state =
  ef_prev :: TouchCoordinates
  ef_now :: TouchCoordinates
  ef_pressure :: u8
  ef_width :: u8
  ef_touch :: bool
  ef_button :: bool

datatype elan_message =
    ElanInput VoodooInputEvent
  | ElanTrackpoint int int u32
  | ElanDimensions u32 u32 u32 u32

record elan =
  el_voodooInput :: bool
  el_packetByteCount :: nat
  el_packetLength :: nat
  el_ringBuffer :: "u8 ring"
  el_inputEvent :: VoodooInputEvent
  el_leftButton :: u32
  el_rightButton :: u32
  el_lastLeftButton :: u32
  el_lastRightButton :: u32
  el_lastFingers :: nat
  el_heldFingers :: int
  el_headPacketsCount :: int
  el_virtualFinger :: "elan_virtual_finger_state list"
  el_forceTouchMode :: u32
  el_ignoreall :: bool
  el_keytime :: u64
  el_maxaftertyping :: u64
  el_etd :: elantech_data
  el_info :: elantech_device_info
  el_dimensions :: "u32 \<times> u32 \<times> u32 \<times> u32"
  el_clock_reads :: nat
  el_sent :: "elan_message list"

text \<open>The driver as it is created; \<open>n\<close> is the number of transducers of a \<^verbatim>\<open>VoodooInputEvent\<close>.\<close>

definition no_elan_info :: elantech_device_info where
  "no_elan_info = \<lparr>ei_capabilities = [0, 0, 0], ei_samples = [0, 0, 0], ei_hw_version = 0, ei_fw_version = 0,
     ei_x_min = 0, ei_y_min = 0, ei_x_max = 0, ei_y_max = 0, ei_x_res = 0, ei_y_res = 0, ei_x_traces = 0, ei_y_traces = 0,
     ei_width = 0, ei_bus = 0, ei_paritycheck = False, ei_jumpy_cursor = False, ei_reports_pressure = False,
     ei_crc_enabled = False, ei_set_hw_resolution = False, ei_is_buttonpad = False, ei_has_trackpoint = False,
     ei_has_middle_button = False\<rparr>"

definition no_elan_data :: elantech_data where
  "no_elan_data = \<lparr>ed_reg_07 = 0, ed_reg_10 = 0, ed_reg_11 = 0, ed_reg_21 = 0, ed_single_finger_reports = 0,
     ed_mt0 = (0, 0), ed_parity = replicate 256 0\<rparr>"

definition new_elan :: "nat \<Rightarrow> elan" where
  "new_elan n = \<lparr>el_voodooInput = False, el_packetByteCount = 0, el_packetLength = 0,
     el_ringBuffer = new_ring ELAN_BUFFER_LENGTH 0,
     el_inputEvent = \<lparr>transducers = replicate n no_transducer, contact_count = 0\<rparr>,
     el_leftButton = 0, el_rightButton = 0, el_lastLeftButton = 0, el_lastRightButton = 0, el_lastFingers = 0,
     el_heldFingers = 0, el_headPacketsCount = 0,
     el_virtualFinger = replicate ETP_MAX_FINGERS \<lparr>ef_prev = no_coords, ef_now = no_coords, ef_pressure = 0, ef_width = 0,
       ef_touch = False, ef_button = False\<rparr>,
     el_forceTouchMode = FORCE_TOUCH_BUTTON, el_ignoreall = False, el_keytime = 0, el_maxaftertyping = 500000000,
     el_etd = no_elan_data, el_info = no_elan_info, el_dimensions = (0, 0, 0, 0), el_clock_reads = 0, el_sent = []\<rparr>"

section \<open>Packet checks\<close>

definition elantechDebounceCheckV2 :: "u8 list \<Rightarrow> bool" where
  "elantechDebounceCheckV2 packet \<longleftrightarrow> packet = [0x84, 0xff, 0xff, 0x02, 0xff, 0xff]"

definition elantechPacketCheckV1 :: "elan \<Rightarrow> u8 list \<Rightarrow> bool" where
  "elantechPacketCheckV1 s packet =
     (let (p1, p2) = (if ei_fw_version (el_info s) < 0x020000
                      then (drop_bit 5 (packet ! 0 AND 0x20), drop_bit 4 (packet ! 0 AND 0x10))
                      else (drop_bit 4 (packet ! 0 AND 0x10), drop_bit 5 (packet ! 0 AND 0x20)));
          p3 = drop_bit 2 (packet ! 0 AND 0x04);
          parity = ed_parity (el_etd s)
      in parity ! unat (packet ! 1) = p1 \<and> parity ! unat (packet ! 2) = p2 \<and> parity ! unat (packet ! 3) = p3)"

definition elantechPacketCheckV2 :: "elan \<Rightarrow> u8 list \<Rightarrow> bool" where
  "elantechPacketCheckV2 s packet =
     (if ei_reports_pressure (el_info s) then packet ! 0 AND 0x0c = 0x04 \<and> packet ! 3 AND 0x0f = 0x02
      else if packet ! 0 AND 0xc0 = 0x80 then packet ! 0 AND 0x0c = 0x0c \<and> packet ! 3 AND 0x0e = 0x08
      else packet ! 0 AND 0x3c = 0x3c \<and> packet ! 1 AND 0xf0 = 0x00 \<and> packet ! 3 AND 0x3e = 0x38 \<and> packet ! 4 AND 0xf0 = 0x00)"

definition elantechPacketCheckV3 :: "elan \<Rightarrow> u8 list \<Rightarrow> elan_packet_type" where
  "elantechPacketCheckV3 s packet =
     (if packet = [0xc4, 0xff, 0xff, 0x02, 0xff, 0xff] then PACKET_DEBOUNCE
      else if ei_crc_enabled (el_info s)
      then (if packet ! 3 AND 0x09 = 0x08 then PACKET_V3_HEAD
            else if packet ! 3 AND 0x09 = 0x09 then PACKET_V3_TAIL
            else PACKET_UNKNOWN)
      else if packet ! 0 AND 0x0c = 0x04 \<and> packet ! 3 AND 0xcf = 0x02 then PACKET_V3_HEAD
      else if packet ! 0 AND 0x0c = 0x0c \<and> packet ! 3 AND 0xce = 0x0c then PACKET_V3_TAIL
      else if packet ! 3 AND 0x0f = 0x06 then PACKET_TRACKPOINT
      else PACKET_UNKNOWN)"

definition elantechPacketCheckV4 :: "elan \<Rightarrow> u8 list \<Rightarrow> elan_packet_type" where
  "elantechPacketCheckV4 s packet =
     (let info = el_info s;
          packet_type = packet ! 3 AND 0x03;
          ic_version = drop_bit 16 (ei_fw_version info AND 0x0f0000);
          sanity_check = (if ei_crc_enabled info then packet ! 3 AND 0x08 = 0x00
                          else if ic_version = 7 \<and> ei_samples info ! 1 = 0x2A then packet ! 3 AND 0x1c = 0x10
                          else packet ! 0 AND 0x08 = 0x00 \<and> packet ! 3 AND 0x1c = 0x10)
      in if ei_has_trackpoint info \<and> packet ! 3 AND 0x0f = 0x06 then PACKET_TRACKPOINT
         else if \<not> sanity_check then PACKET_UNKNOWN
         else if packet_type = 0 then PACKET_V4_STATUS
         else if packet_type = 1 then PACKET_V4_HEAD
         else if packet_type = 2 then PACKET_V4_MOTION
         else PACKET_UNKNOWN)"

section \<open>Reports\<close>

definition elan_post :: "elan_message \<Rightarrow> elan \<Rightarrow> elan" where
  "elan_post m s = (if el_voodooInput s then s\<lparr>el_sent := el_sent s @ [m]\<rparr> else s)"

text \<open>The size of the pad as published: logical and physical. A resolution of zero is a division by zero.\<close>

definition elan_publish :: "elan \<Rightarrow> elan option" where
  "elan_publish s =
     (let i = el_info s in
      if ei_x_res i = 0 \<or> ei_y_res i = 0 then None
      else Some (s\<lparr>el_dimensions := (ei_x_max i - ei_x_min i, ei_y_max i - ei_y_min i,
        (ei_x_max i - ei_x_min i + 1) * 100 div ei_x_res i, (ei_y_max i - ei_y_min i + 1) * 100 div ei_y_res i)\<rparr>))"

definition elantechRescale :: "u32 \<Rightarrow> u32 \<Rightarrow> elan \<Rightarrow> elan option" where
  "elantechRescale x y s =
     (let i = el_info s;
          needs_update = (x > ei_x_max i \<or> y > ei_y_max i);
          i = (if x > ei_x_max i then i\<lparr>ei_x_max := x\<rparr> else i);
          i = (if y > ei_y_max i then i\<lparr>ei_y_max := y\<rparr> else i);
          s = s\<lparr>el_info := i\<rparr>
      in if needs_update
         then map_option (elan_post (ElanDimensions (ei_x_min i) (ei_x_max i) (ei_y_min i) (ei_y_max i))) (elan_publish s)
         else Some s)"

fun GetBestFingerType :: "nat \<Rightarrow> MT2FingerType" where
  "GetBestFingerType i =
     (if i = 0 then kMT2FingerTypeIndexFinger else if i = 1 then kMT2FingerTypeMiddleFinger
      else if i = 2 then kMT2FingerTypeRingFinger else if i = 3 then kMT2FingerTypeThumb
      else if i = 4 then kMT2FingerTypeLittleFinger else kMT2FingerTypeIndexFinger)"

definition elan_transducer ::
  "bool \<Rightarrow> bool \<Rightarrow> nat \<Rightarrow> nat \<Rightarrow> elan_virtual_finger_state \<Rightarrow> VoodooInputTransducer \<Rightarrow> VoodooInputTransducer" where
  "elan_transducer buttonpad force i n v t =
     (let t = t\<lparr>currentCoordinates := ef_now v, previousCoordinates := ef_prev v, isValid := True,
                isPhysicalButtonDown := (buttonpad \<and> ef_button v), isTransducerActive := True, secondaryId := i,
                fingerType := GetBestFingerType n, supportsPressure := False\<rparr>
      in if force \<and> isPhysicalButtonDown t
         then t\<lparr>supportsPressure := True, isPhysicalButtonDown := False,
                currentCoordinates := (ef_now v)\<lparr>tc_pressure := 255, tc_width := 10\<rparr>\<rparr>
         else t)"

fun elan_fill ::
  "bool \<Rightarrow> bool \<Rightarrow> nat \<Rightarrow> nat \<Rightarrow> elan_virtual_finger_state list \<Rightarrow> VoodooInputTransducer list \<Rightarrow>
   (nat \<times> VoodooInputTransducer list) option" where
  "elan_fill bp force i n [] ts = Some (n, ts)"
| "elan_fill bp force i n (v # vs) ts =
     (if \<not> ef_touch v then elan_fill bp force (Suc i) n vs ts
      else if n < length ts then elan_fill bp force (Suc i) (Suc n) vs (ts[n := elan_transducer bp force i n v (ts ! n)])
      else None)"

definition elan_clear :: "nat \<Rightarrow> VoodooInputTransducer list \<Rightarrow> VoodooInputTransducer list" where
  "elan_clear n ts = take n ts @
     map (\<lambda>t. t\<lparr>isValid := False, isPhysicalButtonDown := False, isTransducerActive := False\<rparr>) (drop n ts)"

text \<open>Pads with separate buttons report them as a trackpoint that does not move.\<close>

definition elan_buttons :: "nat \<Rightarrow> elan \<Rightarrow> elan" where
  "elan_buttons n s =
     (let left = el_leftButton s; right = el_rightButton s;
          s = (if n = 0 then elan_post (ElanTrackpoint 0 0 (left OR right)) s
               else if el_lastLeftButton s \<noteq> left \<or> el_lastRightButton s \<noteq> right
               then elan_post (ElanTrackpoint 0 0 ((if el_lastLeftButton s \<noteq> left then left else 0) OR
                      (if el_lastRightButton s \<noteq> right then right else 0))) s
               else s)
      in s\<lparr>el_lastLeftButton := left, el_lastRightButton := right\<rparr>)"

definition elan_sendTouchData :: "kclock \<Rightarrow> elan \<Rightarrow> elan option" where
  "elan_sendTouchData clk s =
     (let timestamp_ns = to_ns clk (uptime clk (el_clock_reads s));
          s = s\<lparr>el_clock_reads := el_clock_reads s + 1\<rparr>
      in if timestamp_ns - el_keytime s < el_maxaftertyping s then Some s
         else do {
           (n, ts) \<leftarrow> elan_fill (ei_is_buttonpad (el_info s)) (el_forceTouchMode s = FORCE_TOUCH_BUTTON) 0 0 (el_virtualFinger s)
             (transducers (el_inputEvent s));
           let ev = \<lparr>transducers = elan_clear n (assignThumb n ts), contact_count = n mod 256\<rparr>;
           let s = elan_post (ElanInput ev) (s\<lparr>el_inputEvent := ev\<rparr>);
           Some (if ei_is_buttonpad (el_info s) then s else elan_buttons n s)
         })"

section \<open>Decoding packets\<close>

definition elan_set_buttons :: "u8 list \<Rightarrow> elan \<Rightarrow> elan" where
  "elan_set_buttons packet s = s\<lparr>el_leftButton := ucast (packet ! 0 AND 0x01), el_rightButton := ucast (packet ! 0 AND 0x02)\<rparr>"

text \<open>A finger of versions one to three; \<open>fresh\<close> if it has just come down.\<close>

definition elan_touch ::
  "nat \<Rightarrow> u32 \<Rightarrow> u32 \<Rightarrow> bool \<Rightarrow> bool \<Rightarrow> elan_virtual_finger_state list \<Rightarrow> elan_virtual_finger_state list" where
  "elan_touch i x y button fresh fs =
     (let f = fs ! i; pos = (ef_now f)\<lparr>tc_x := unat x, tc_y := unat y\<rparr>
      in fs[i := f\<lparr>ef_touch := True, ef_button := button, ef_prev := (if fresh then pos else ef_now f), ef_now := pos\<rparr>])"

definition elan_lift :: "elan_virtual_finger_state list \<Rightarrow> elan_virtual_finger_state list" where
  "elan_lift fs = fold (\<lambda>i fs. fs[i := (fs ! i)\<lparr>ef_touch := False\<rparr>]) [0, 1, 2] fs"

definition elan_three ::
  "u32 \<Rightarrow> u32 \<Rightarrow> bool \<Rightarrow> bool \<Rightarrow> elan_virtual_finger_state list \<Rightarrow> elan_virtual_finger_state list" where
  "elan_three x y button fresh fs =
     elan_touch 2 (x + 86) (y + 50) button fresh (elan_touch 1 (x - 86) (y + 50) button fresh (elan_touch 0 x (y - 100) button fresh fs))"

definition elan_fingersV1 :: "elan \<Rightarrow> u8 list \<Rightarrow> nat" where
  "elan_fingersV1 s packet =
     (if ei_fw_version (el_info s) < 0x020000
      then unat (drop_bit 7 (packet ! 1 AND 0x80)) + unat (drop_bit 4 (packet ! 1 AND 0x30))
      else unat (drop_bit 6 (packet ! 0 AND 0xc0)))"

definition elantechReportAbsoluteV1 :: "kclock \<Rightarrow> u8 list \<Rightarrow> elan \<Rightarrow> elan option" where
  "elantechReportAbsoluteV1 clk packet s =
     (let nf = elan_fingersV1 s packet;
          jumpy = ei_jumpy_cursor (el_info s);
          reports = ed_single_finger_reports (el_etd s)
      in if jumpy \<and> nf = 1 \<and> reports < 2
         then Some (s\<lparr>el_etd := (el_etd s)\<lparr>ed_single_finger_reports := reports + 1\<rparr>\<rparr>)
         else let s = (if jumpy \<and> nf \<noteq> 1 then s\<lparr>el_etd := (el_etd s)\<lparr>ed_single_finger_reports := 0\<rparr>\<rparr> else s);
                  x = push_bit 6 (ucast (packet ! 1 AND 0x0c)) OR ucast (packet ! 2) :: u32;
                  y = ei_y_max (el_info s) - (push_bit 8 (ucast (packet ! 1 AND 0x03)) OR ucast (packet ! 3));
                  button = (packet ! 0 AND 0x03 \<noteq> 0);
                  fresh = (el_lastFingers s \<noteq> nf);
                  fs = elan_lift (el_virtualFinger s);
                  fs = (if nf = 1 then elan_touch 0 x y button fresh fs
                        else if nf = 2
                        then elan_touch 1 (x + 86) (y + 50) button fresh (elan_touch 0 x (y - 100) button fresh fs)
                        else if nf = 3 then elan_three x y button fresh fs
                        else fs)
              in elan_sendTouchData clk (elan_set_buttons packet (s\<lparr>el_virtualFinger := fs, el_lastFingers := nf\<rparr>)))"

text \<open>Twelve bit coordinates of the later versions, and the fingers of versions two and three.\<close>

definition elan_x12 :: "u8 list \<Rightarrow> u32" where
  "elan_x12 packet = push_bit 8 (ucast (packet ! 1 AND 0x0f)) OR ucast (packet ! 2)"

definition elan_y12 :: "u8 list \<Rightarrow> u32" where
  "elan_y12 packet = push_bit 8 (ucast (packet ! 4 AND 0x0f)) OR ucast (packet ! 5)"

definition elan_place ::
  "kclock \<Rightarrow> u8 list \<Rightarrow> nat \<Rightarrow> u32 \<times> u32 \<Rightarrow> u32 \<times> u32 \<Rightarrow> elan \<Rightarrow> elan option" where
  "elan_place clk packet nf = (\<lambda>(x1, y1) (x2, y2) s.
     let button = (packet ! 0 AND 0x03 \<noteq> 0);
         prev = el_lastFingers s;
         fs = elan_lift (el_virtualFinger s);
         fs = (if nf = 1 \<or> nf = 2 then elan_touch 0 x1 y1 button (prev \<noteq> 1 \<and> prev \<noteq> 2) fs else fs);
         fs = (if nf = 2 then elan_touch 1 x2 y2 button (prev \<noteq> 2) fs else fs);
         fs = (if nf = 3 then elan_three x1 y1 button (prev \<noteq> 3) fs else fs)
     in elan_sendTouchData clk (elan_set_buttons packet (s\<lparr>el_virtualFinger := fs, el_lastFingers := nf\<rparr>)))"

definition elantechReportAbsoluteV2 :: "kclock \<Rightarrow> u8 list \<Rightarrow> elan \<Rightarrow> elan option" where
  "elantechReportAbsoluteV2 clk packet s =
     (let nf = unat (drop_bit 6 (packet ! 0 AND 0xc0));
          y_max = ei_y_max (el_info s);
          ((x1, y1), (x2, y2)) =
            (if nf = 3 \<or> nf = 1 then ((elan_x12 packet, y_max - elan_y12 packet), (0, 0))
             else if nf = 2
             then ((push_bit 2 (push_bit 4 (ucast (packet ! 0 AND 0x10)) OR ucast (packet ! 1)),
                    y_max - push_bit 2 (push_bit 3 (ucast (packet ! 0 AND 0x20)) OR ucast (packet ! 2))),
                   (push_bit 2 (push_bit 4 (ucast (packet ! 3 AND 0x10)) OR ucast (packet ! 4)),
                    y_max - push_bit 2 (push_bit 3 (ucast (packet ! 3 AND 0x20)) OR ucast (packet ! 5))))
             else ((0, 0), (0, 0)))
      in elan_place clk packet nf (x1, y1) (x2, y2) s)"

definition elantechReportAbsoluteV3 :: "kclock \<Rightarrow> elan_packet_type \<Rightarrow> u8 list \<Rightarrow> elan \<Rightarrow> elan option" where
  "elantechReportAbsoluteV3 clk packetType packet s =
     (let nf = unat (drop_bit 6 (packet ! 0 AND 0xc0)) in
      if nf = 3 \<or> nf = 1
      then do {
        s \<leftarrow> elantechRescale (elan_x12 packet) (elan_y12 packet) s;
        elan_place clk packet nf (elan_x12 packet, ei_y_max (el_info s) - elan_y12 packet) (0, 0) s
      }
      else if nf = 2
      then if packetType = PACKET_V3_HEAD
           then Some (s\<lparr>el_etd := (el_etd s)\<lparr>ed_mt0 := (elan_x12 packet, ei_y_max (el_info s) - elan_y12 packet)\<rparr>\<rparr>)
           else do {
             let first = ed_mt0 (el_etd s);
             s \<leftarrow> elantechRescale (elan_x12 packet) (elan_y12 packet) s;
             elan_place clk packet nf first (elan_x12 packet, ei_y_max (el_info s) - elan_y12 packet) s
           }
      else elan_place clk packet nf (0, 0) (0, 0) s)"

definition elantechReportTrackpoint :: "kclock \<Rightarrow> u8 list \<Rightarrow> elan \<Rightarrow> elan" where
  "elantechReportTrackpoint clk packet s =
     (let t = ucast (packet ! 0) OR push_bit 8 (ucast (packet ! 1)) OR push_bit 16 (ucast (packet ! 2)) OR
              push_bit 24 (ucast (packet ! 3)) :: u32;
          signature = t AND NOT 7
      in if signature \<noteq> 0x06000030 \<and> signature \<noteq> 0x16008020 \<and> signature \<noteq> 0x26800010 \<and> signature \<noteq> 0x36808000
         then s
         else let dx = uint (packet ! 4) - 2 * uint (packet ! 1 XOR 0x80);
                  dy = 2 * uint (packet ! 2 XOR 0x80) - uint (packet ! 5);
                  buttons = ucast (packet ! 0 AND 0x1) OR ucast (packet ! 0 AND 0x4) OR ucast (packet ! 0 AND 0x2);
                  s = s\<lparr>el_keytime := to_ns clk (uptime clk (el_clock_reads s)), el_clock_reads := el_clock_reads s + 1\<rparr>
              in elan_post (ElanTrackpoint dx dy buttons) s)"

definition processPacketStatusV4 :: "kclock \<Rightarrow> u8 list \<Rightarrow> elan \<Rightarrow> elan option" where
  "processPacketStatusV4 clk packet s =
     (let s = elan_set_buttons packet s;
          down = (\<lambda>i. packet ! 1 AND 0x1f AND push_bit i 1 \<noteq> 0);
          cnt = length (filter down [0..<ETP_MAX_FINGERS]);
          s = s\<lparr>el_virtualFinger := map (\<lambda>(i, f). f\<lparr>ef_touch := down i\<rparr>) (List.enumerate 0 (el_virtualFinger s)),
                el_heldFingers := int cnt, el_headPacketsCount := 0\<rparr>
      in if cnt = 0 then elan_sendTouchData clk s else Some s)"

text \<open>The array of fingers has five elements; the finger number of a packet comes from the pad.\<close>

definition processPacketHeadV4 :: "kclock \<Rightarrow> u8 list \<Rightarrow> elan \<Rightarrow> elan option" where
  "processPacketHeadV4 clk packet s =
     (let s = elan_set_buttons packet s;
          ident = int (unat (drop_bit 5 (packet ! 3 AND 0xe0))) - 1;
          s = s\<lparr>el_headPacketsCount := el_headPacketsCount s + 1\<rparr>
      in if ident < 0 then Some s
         else do {
           f \<leftarrow> array_get (el_virtualFinger s) (nat ident);
           let s = s\<lparr>el_virtualFinger := (el_virtualFinger s)[nat ident := f\<lparr>
             ef_button := (packet ! 0 AND 0x3 \<noteq> 0), ef_prev := ef_now f,
             ef_pressure := (packet ! 1 AND 0xf0) OR drop_bit 4 (packet ! 4 AND 0xf0),
             ef_width := drop_bit 4 (packet ! 0 AND 0xf0),
             ef_now := (ef_now f)\<lparr>tc_x := unat (elan_x12 packet), tc_y := unat (ei_y_max (el_info s) - elan_y12 packet)\<rparr>\<rparr>]\<rparr>;
           if el_headPacketsCount s = el_heldFingers s
           then elan_sendTouchData clk (s\<lparr>el_headPacketsCount := 0\<rparr>)
           else Some s
         })"

definition elan_move :: "nat \<Rightarrow> u8 \<Rightarrow> u8 \<Rightarrow> u32 \<Rightarrow> bool \<Rightarrow> elan \<Rightarrow> elan option" where
  "elan_move i dx dy weight button s = do {
     f \<leftarrow> array_get (el_virtualFinger s) i;
     Some (s\<lparr>el_virtualFinger := (el_virtualFinger s)[i := f\<lparr>ef_button := button, ef_prev := ef_now f,
       ef_now := (ef_now f)\<lparr>tc_x := unat (of_nat (tc_x (ef_now f)) + scast dx * weight),
                            tc_y := unat (of_nat (tc_y (ef_now f)) - scast dy * weight)\<rparr>\<rparr>]\<rparr>)
   }"

definition processPacketMotionV4 :: "kclock \<Rightarrow> u8 list \<Rightarrow> elan \<Rightarrow> elan option" where
  "processPacketMotionV4 clk packet s =
     (let s = elan_set_buttons packet s;
          ident = int (unat (drop_bit 5 (packet ! 0 AND 0xe0))) - 1;
          sid = int (unat (drop_bit 5 (packet ! 3 AND 0xe0))) - 1;
          weight = (if packet ! 0 AND 0x10 \<noteq> 0 then ETP_WEIGHT_VALUE else 1);
          button = (packet ! 0 AND 0x3 \<noteq> 0)
      in if ident < 0 then Some s
         else do {
           s \<leftarrow> elan_move (nat ident) (packet ! 1) (packet ! 2) weight button s;
           s \<leftarrow> (if sid \<ge> 0 then elan_move (nat sid) (packet ! 4) (packet ! 5) weight button s else Some s);
           elan_sendTouchData clk s
         })"

definition elantechReportAbsoluteV4 :: "kclock \<Rightarrow> elan_packet_type \<Rightarrow> u8 list \<Rightarrow> elan \<Rightarrow> elan option" where
  "elantechReportAbsoluteV4 clk packetType packet s = (case packetType of
     PACKET_V4_STATUS \<Rightarrow> processPacketStatusV4 clk packet s
   | PACKET_V4_HEAD \<Rightarrow> processPacketHeadV4 clk packet s
   | PACKET_V4_MOTION \<Rightarrow> processPacketMotionV4 clk packet s
   | _ \<Rightarrow> Some s)"

section \<open>Receiving and draining\<close>

definition elan_interruptOccurred :: "u8 \<Rightarrow> elan \<Rightarrow> (PS2InterruptResult \<times> elan) option" where
  "elan_interruptOccurred data s = do {
     r \<leftarrow> ring_poke (el_packetByteCount s) data (el_ringBuffer s);
     let s = s\<lparr>el_ringBuffer := r, el_packetByteCount := el_packetByteCount s + 1\<rparr>;
     if el_packetByteCount s = el_packetLength s
     then Some (kPS2IR_packetReady,
       s\<lparr>el_ringBuffer := advanceHead (el_packetLength s) (el_ringBuffer s), el_packetByteCount := 0\<rparr>)
     else Some (kPS2IR_packetBuffering, s)
   }"

definition elan_handle :: "kclock \<Rightarrow> u8 list \<Rightarrow> elan \<Rightarrow> elan option" where
  "elan_handle clk packet s =
     (let hw = ei_hw_version (el_info s); check = ei_paritycheck (el_info s) in
      if hw = 1
      then (if check \<and> \<not> elantechPacketCheckV1 s packet then Some s else elantechReportAbsoluteV1 clk packet s)
      else if hw = 2
      then (if elantechDebounceCheckV2 packet then Some s
            else if check \<and> \<not> elantechPacketCheckV2 s packet then Some s
            else elantechReportAbsoluteV2 clk packet s)
      else if hw = 3
      then (case elantechPacketCheckV3 s packet of
              PACKET_UNKNOWN \<Rightarrow> Some s
            | PACKET_DEBOUNCE \<Rightarrow> Some s
            | PACKET_TRACKPOINT \<Rightarrow> Some (elantechReportTrackpoint clk packet s)
            | ty \<Rightarrow> elantechReportAbsoluteV3 clk ty packet s)
      else if hw = 4
      then (case elantechPacketCheckV4 s packet of
              PACKET_UNKNOWN \<Rightarrow> Some s
            | PACKET_TRACKPOINT \<Rightarrow> Some (elantechReportTrackpoint clk packet s)
            | ty \<Rightarrow> elantechReportAbsoluteV4 clk ty packet s)
      else Some s)"

definition elan_packetStep :: "kclock \<Rightarrow> u8 list \<Rightarrow> elan \<Rightarrow> elan option" where
  "elan_packetStep clk packet s = do {
     s \<leftarrow> (if el_ignoreall s then Some s else elan_handle clk packet s);
     Some (s\<lparr>el_ringBuffer := advanceTail (el_packetLength s) (el_ringBuffer s)\<rparr>)
   }"

fun elan_packetReady :: "kclock \<Rightarrow> nat \<Rightarrow> elan \<Rightarrow> elan option" where
  "elan_packetReady clk 0 s = None"
| "elan_packetReady clk (Suc n) s =
     (if ring_count (el_ringBuffer s) \<ge> el_packetLength s then do {
        packet \<leftarrow> ring_peek (el_packetLength s) (el_ringBuffer s);
        s \<leftarrow> elan_packetStep clk packet s;
        elan_packetReady clk n s
      } else Some s)"

section \<open>Messages from the keyboard\<close>

definition elan_getDisableTouchpad :: "elan \<Rightarrow> bool" where
  "elan_getDisableTouchpad s = (\<not> el_ignoreall s)"

definition elan_setDisableTouchpad :: "bool \<Rightarrow> elan \<Rightarrow> elan" where
  "elan_setDisableTouchpad enable s = s\<lparr>el_ignoreall := \<not> enable\<rparr>"

definition elan_notifyKeyTime :: "u64 \<Rightarrow> elan \<Rightarrow> elan" where
  "elan_notifyKeyTime t s = s\<lparr>el_keytime := t\<rparr>"

text \<open>What can happen to the input path.\<close>

datatype elan_event = ElanByte u8 | ElanWork | ElanKeyTime u64 | ElanEnable bool

fun elan_exec :: "kclock \<Rightarrow> elan_event \<Rightarrow> elan \<Rightarrow> elan option" where
  "elan_exec clk (ElanByte b) s = map_option snd (elan_interruptOccurred b s)"
| "elan_exec clk ElanWork s = elan_packetReady clk 48 s"
| "elan_exec clk (ElanKeyTime t) s = Some (elan_notifyKeyTime t s)"
| "elan_exec clk (ElanEnable b) s = Some (elan_setDisableTouchpad b s)"

section \<open>A consumer that may fault\<close>

text \<open>
  A work loop whose step faults on some packets: \<open>safe\<close> says on which it does not, and handling a
  packet does not change that. The loop returns exactly if all waiting packets are safe.
\<close>

locale faulting_consumer = packet_queue "write" commit front discard fill invar packets slot len cap
  for "write" :: "nat \<Rightarrow> 'a \<Rightarrow> 'q \<Rightarrow> 'q option"
    and commit front discard fill invar packets slot len cap +
  fixes queue :: "'s \<Rightarrow> 'q"
    and good :: "'s \<Rightarrow> bool"
    and safe :: "'s \<Rightarrow> 'a list \<Rightarrow> bool"
    and step :: "'a list \<Rightarrow> 's \<Rightarrow> 's option"
    and run :: "nat \<Rightarrow> 's \<Rightarrow> 's option"
  assumes run_0: "run 0 s = None"
    and run_Suc: "good s \<Longrightarrow> run (Suc n) s =
      (if len \<le> fill (queue s)
       then Option.bind (front (queue s)) (\<lambda>p. Option.bind (step p s) (run n)) else Some s)"
    and step_safe: "\<lbrakk>good s; invar (queue s); length p = len; safe s p\<rbrakk> \<Longrightarrow>
      \<exists>s'. step p s = Some s' \<and> good s' \<and> queue s' = discard (queue s) \<and> safe s' = safe s"
    and step_unsafe: "\<lbrakk>good s; \<not> safe s p\<rbrakk> \<Longrightarrow> step p s = None"
    and packets_len: "\<lbrakk>invar q; p \<in> set (packets q)\<rbrakk> \<Longrightarrow> length p = len"
begin

lemma run_safe:
  "\<lbrakk>good s; invar (queue s); length (packets (queue s)) < n; \<forall>p \<in> set (packets (queue s)). safe s p\<rbrakk> \<Longrightarrow>
   \<exists>s'. run n s = Some s' \<and> good s' \<and> invar (queue s') \<and> packets (queue s') = []"
proof (induction n arbitrary: s)
  case (Suc n)
  show ?case
  proof (cases "packets (queue s)")
    case Nil
    then show ?thesis using Suc.prems fill_ok by (simp add: run_Suc)
  next
    case (Cons p ps)
    then obtain s1 where s1: "step p s = Some s1" "good s1" "queue s1 = discard (queue s)" "safe s1 = safe s"
      using step_safe [of s p] packets_len [of "queue s" p] Suc.prems by auto
    have "front (queue s) = Some p" "packets (queue s1) = ps" "invar (queue s1)"
      using Suc.prems front_ok discard_ok Cons s1(3) by auto
    then show ?thesis using Suc.prems Suc.IH [of s1] Cons fill_ok s1 by (simp add: run_Suc)
  qed
qed simp

lemma run_unsafe:
  "\<lbrakk>good s; invar (queue s); \<not> (\<forall>p \<in> set (packets (queue s)). safe s p)\<rbrakk> \<Longrightarrow> run n s = None"
proof (induction n arbitrary: s)
  case (Suc n)
  then obtain p ps where Cons: "packets (queue s) = p # ps" by (cases "packets (queue s)") auto
  have q: "front (queue s) = Some p" "len \<le> fill (queue s)" using Suc.prems front_ok fill_ok Cons by auto
  show ?case
  proof (cases "safe s p")
    case True
    then obtain s1 where s1: "step p s = Some s1" "good s1" "queue s1 = discard (queue s)" "safe s1 = safe s"
      using step_safe [of s p] packets_len [of "queue s" p] Suc.prems Cons by auto
    have "packets (queue s1) = ps" "invar (queue s1)" using Suc.prems discard_ok Cons s1(3) by auto
    then have "run n s1 = None" using Suc.IH [of s1] Suc.prems Cons True s1 by simp
    then show ?thesis using q s1 Suc.prems by (simp add: run_Suc)
  next
    case False
    then show ?thesis using q Suc.prems step_unsafe by (simp add: run_Suc)
  qed
qed (simp add: run_0)

end

section \<open>The state of the driver\<close>

definition coords_word :: "TouchCoordinates \<Rightarrow> bool" where
  "coords_word c \<longleftrightarrow> coords_ok 4294967295 4294967295 c"

definition elan_fingers_ok :: "elan_virtual_finger_state list \<Rightarrow> bool" where
  "elan_fingers_ok fs \<longleftrightarrow> length fs = 5 \<and> (\<forall>f \<in> set fs. coords_word (ef_now f) \<and> coords_word (ef_prev f))"

text \<open>
  A well-formed event: besides the contacts being first and switched on, they belong to different
  fingers in ascending order, only a pad that is its own button presses with them, and with four or
  more of them exactly one is the thumb.
\<close>

definition elan_event_ok :: "bool \<Rightarrow> VoodooInputEvent \<Rightarrow> bool" where
  "elan_event_ok bp ev \<longleftrightarrow> event_ok 4294967295 4294967295 ev \<and>
     (let cs = take (contact_count ev) (transducers ev) in
        sorted_wrt (<) (map secondaryId cs) \<and> (\<forall>t \<in> set cs. secondaryId t < 5) \<and>
        (\<forall>t \<in> set cs. isPhysicalButtonDown t \<longrightarrow> bp) \<and>
        (4 \<le> length cs \<longrightarrow> length (filter (\<lambda>t. fingerType t = kMT2FingerTypeThumb) cs) = 1))"

definition elan_data_inv :: "elan \<Rightarrow> bool" where
  "elan_data_inv s \<longleftrightarrow> elan_fingers_ok (el_virtualFinger s) \<and> 5 \<le> length (transducers (el_inputEvent s)) \<and>
     ei_x_res (el_info s) \<noteq> 0 \<and> ei_y_res (el_info s) \<noteq> 0 \<and>
     (\<forall>ev. ElanInput ev \<in> set (el_sent s) \<longrightarrow> elan_event_ok (ei_is_buttonpad (el_info s)) ev)"

text \<open>What handling a packet leaves alone: everything that decides how the next ones are handled.\<close>

definition elan_model :: "elantech_device_info \<Rightarrow> elantech_device_info" where
  "elan_model i = i\<lparr>ei_x_max := 0, ei_y_max := 0\<rparr>"

definition elan_kept :: "elan \<Rightarrow> elan \<Rightarrow> bool" where
  "elan_kept s s' \<longleftrightarrow> el_ringBuffer s' = el_ringBuffer s \<and> el_packetByteCount s' = el_packetByteCount s \<and>
     el_packetLength s' = el_packetLength s \<and> el_ignoreall s' = el_ignoreall s \<and> el_voodooInput s' = el_voodooInput s \<and>
     elan_model (el_info s') = elan_model (el_info s)"

lemma elan_kept_refl [simp]: "elan_kept s s"
  by (simp add: elan_kept_def)

lemma elan_kept_trans [trans]: "\<lbrakk>elan_kept a b; elan_kept b c\<rbrakk> \<Longrightarrow> elan_kept a c"
  by (simp add: elan_kept_def)

lemma elan_modelD:
  assumes "elan_model i' = elan_model i"
  shows "ei_hw_version i' = ei_hw_version i" "ei_fw_version i' = ei_fw_version i" "ei_samples i' = ei_samples i"
    "ei_crc_enabled i' = ei_crc_enabled i" "ei_has_trackpoint i' = ei_has_trackpoint i" "ei_is_buttonpad i' = ei_is_buttonpad i"
    "ei_x_res i' = ei_x_res i" "ei_y_res i' = ei_y_res i"
  using arg_cong [OF assms, of ei_hw_version] arg_cong [OF assms, of ei_fw_version] arg_cong [OF assms, of ei_samples]
    arg_cong [OF assms, of ei_crc_enabled] arg_cong [OF assms, of ei_has_trackpoint] arg_cong [OF assms, of ei_is_buttonpad]
    arg_cong [OF assms, of ei_x_res] arg_cong [OF assms, of ei_y_res]
  by (simp_all add: elan_model_def)

section \<open>The event that is sent\<close>

definition elan_touching :: "elan_virtual_finger_state list \<Rightarrow> nat" where
  "elan_touching vs = length (filter ef_touch vs)"

definition elan_contact :: "bool \<Rightarrow> VoodooInputTransducer \<Rightarrow> bool" where
  "elan_contact bp t \<longleftrightarrow> contact_ok 4294967295 4294967295 t \<and> secondaryId t < 5 \<and> (isPhysicalButtonDown t \<longrightarrow> bp)"

lemma GetBestFingerType_same: "GetBestFingerType k = fingerTypeForIndex k"
  by (cases k rule: fingerTypeForIndex.cases) auto

lemma elan_transducer_ok:
  assumes "coords_word (ef_now v)" "coords_word (ef_prev v)" "i < 5"
  shows "elan_contact bp (elan_transducer bp force i n v t)" "secondaryId (elan_transducer bp force i n v t) = i"
    "fingerType (elan_transducer bp force i n v t) = fingerTypeForIndex n"
  using assms by (auto simp: elan_transducer_def elan_contact_def contact_ok_def coords_word_def coords_ok_def Let_def
      GetBestFingerType_same simp del: GetBestFingerType.simps)

lemma elan_fill_ok:
  assumes "\<forall>v \<in> set vs. coords_word (ef_now v) \<and> coords_word (ef_prev v)" and "i + length vs \<le> 5"
    and "n + elan_touching vs \<le> length ts" and "\<forall>t \<in> set (take n ts). elan_contact bp t"
    and "\<forall>k < n. fingerType (ts ! k) = fingerTypeForIndex k"
    and "sorted_wrt (<) (map secondaryId (take n ts))" and "\<forall>t \<in> set (take n ts). secondaryId t < i"
  shows "\<exists>ts'. elan_fill bp force i n vs ts = Some (n + elan_touching vs, ts') \<and> length ts' = length ts \<and>
    (\<forall>t \<in> set (take (n + elan_touching vs) ts'). elan_contact bp t) \<and>
    (\<forall>k < n + elan_touching vs. fingerType (ts' ! k) = fingerTypeForIndex k) \<and>
    sorted_wrt (<) (map secondaryId (take (n + elan_touching vs) ts'))"
  using assms
proof (induction vs arbitrary: i n ts)
  case (Cons v vs)
  show ?case
  proof (cases "ef_touch v")
    case False
    have "\<forall>t \<in> set (take n ts). secondaryId t < Suc i" using Cons.prems(7) by auto
    then show ?thesis using False Cons.prems Cons.IH [of "Suc i" n ts] by (simp add: elan_touching_def)
  next
    case True
    define t where "t = elan_transducer bp force i n v (ts ! n)"
    have c: "n < length ts" using Cons.prems(3) True by (simp add: elan_touching_def)
    have t: "elan_contact bp t" "secondaryId t = i" "fingerType t = fingerTypeForIndex n"
      using elan_transducer_ok [of v i] Cons.prems(1,2) by (simp_all add: t_def)
    have tk: "take (Suc n) (ts[n := t]) = take n ts @ [t]" using c by (simp add: take_Suc_conv_app_nth)
    have "\<forall>x \<in> set (take (Suc n) (ts[n := t])). elan_contact bp x" "\<forall>x \<in> set (take (Suc n) (ts[n := t])). secondaryId x < Suc i"
      "sorted_wrt (<) (map secondaryId (take (Suc n) (ts[n := t])))"
      unfolding tk using Cons.prems(4,6,7) t by (auto simp: sorted_wrt_append)
    moreover have "\<forall>k < Suc n. fingerType (ts[n := t] ! k) = fingerTypeForIndex k"
      using Cons.prems(5) t(3) c by (auto simp: less_Suc_eq nth_list_update)
    moreover have "Suc n + elan_touching vs \<le> length (ts[n := t])" using Cons.prems(3) True by (simp add: elan_touching_def)
    ultimately show ?thesis using Cons.IH [of "Suc i" "Suc n" "ts[n := t]"] Cons.prems(1,2) True c
      by (simp add: elan_touching_def t_def)
  qed
qed (auto simp: elan_touching_def)

lemma fingerType_update_same:
  "secondaryId (ts[i := (ts ! i)\<lparr>fingerType := t\<rparr>] ! k) = secondaryId (ts ! k)"
  "isPhysicalButtonDown (ts[i := (ts ! i)\<lparr>fingerType := t\<rparr>] ! k) = isPhysicalButtonDown (ts ! k)"
  "isValid (ts[i := (ts ! i)\<lparr>fingerType := t\<rparr>] ! k) = isValid (ts ! k)"
  "isTransducerActive (ts[i := (ts ! i)\<lparr>fingerType := t\<rparr>] ! k) = isTransducerActive (ts ! k)"
  "previousCoordinates (ts[i := (ts ! i)\<lparr>fingerType := t\<rparr>] ! k) = previousCoordinates (ts ! k)"
  by (cases "i < length ts"; cases "i = k"; auto simp: list_update_beyond)+

lemma assignThumb_same:
  "secondaryId (assignThumb n ts ! k) = secondaryId (ts ! k)"
  "isPhysicalButtonDown (assignThumb n ts ! k) = isPhysicalButtonDown (ts ! k)"
  "isValid (assignThumb n ts ! k) = isValid (ts ! k)"
  "isTransducerActive (assignThumb n ts ! k) = isTransducerActive (ts ! k)"
  "previousCoordinates (assignThumb n ts ! k) = previousCoordinates (ts ! k)"
  by (simp_all add: assignThumb_def Let_def fingerType_update_same split: prod.splits)

lemma one_thumb:
  assumes "4 \<le> n" "n \<le> 5" "n \<le> length ts" "\<forall>k < n. fingerType (ts ! k) = fingerTypeForIndex k"
  shows "length (filter (\<lambda>t. fingerType t = kMT2FingerTypeThumb) (take n (assignThumb n ts))) = 1"
proof -
  obtain m where m: "m < n" "\<forall>k < n. (fingerType (assignThumb n ts ! k) = kMT2FingerTypeThumb) = (k = m)"
    using assignThumb_unique [OF assms] by blast
  have "{i. i < length (take n (assignThumb n ts)) \<and> fingerType (take n (assignThumb n ts) ! i) = kMT2FingerTypeThumb} = {m}"
    using m assms(3) by auto
  then show ?thesis by (simp add: length_filter_conv_card)
qed

lemma elan_event:
  assumes inv: "elan_data_inv s"
  shows "\<exists>ts. elan_fill (ei_is_buttonpad (el_info s)) force 0 0 (el_virtualFinger s) (transducers (el_inputEvent s)) =
      Some (elan_touching (el_virtualFinger s), ts) \<and> length ts = length (transducers (el_inputEvent s)) \<and>
    elan_event_ok (ei_is_buttonpad (el_info s)) \<lparr>transducers = elan_clear (elan_touching (el_virtualFinger s))
      (assignThumb (elan_touching (el_virtualFinger s)) ts), contact_count = elan_touching (el_virtualFinger s) mod 256\<rparr>"
proof -
  let ?bp = "ei_is_buttonpad (el_info s)" and ?n = "elan_touching (el_virtualFinger s)"
  have n: "?n \<le> 5" using inv by (auto simp: elan_data_inv_def elan_fingers_ok_def elan_touching_def intro: order_trans [OF length_filter_le])
  obtain ts where ts: "elan_fill ?bp force 0 0 (el_virtualFinger s) (transducers (el_inputEvent s)) = Some (?n, ts)"
    "length ts = length (transducers (el_inputEvent s))" "\<forall>t \<in> set (take ?n ts). elan_contact ?bp t"
    "\<forall>k < ?n. fingerType (ts ! k) = fingerTypeForIndex k" "sorted_wrt (<) (map secondaryId (take ?n ts))"
    using elan_fill_ok [of "el_virtualFinger s" 0 0 "transducers (el_inputEvent s)" ?bp force] inv n
    by (auto simp: elan_data_inv_def elan_fingers_ok_def)
  have len: "?n \<le> length ts" using n inv ts(2) by (simp add: elan_data_inv_def)
  let ?ts = "elan_clear ?n (assignThumb ?n ts)"
  have tk: "take ?n ?ts = take ?n (assignThumb ?n ts)" and dr: "\<forall>t \<in> set (drop ?n ?ts). \<not> isValid t \<and> \<not> isTransducerActive t"
    and l: "length ?ts = length ts" using len by (auto simp: elan_clear_def)
  have ok: "elan_contact ?bp (ts ! k)" if "k < ?n" for k
    using ts(3) that len by (metis in_set_conv_nth length_take min.absorb2 nth_take)
  have "elan_contact ?bp (assignThumb ?n ts ! k)" if "k < ?n" for k
    using ok [OF that] by (simp add: elan_contact_def contact_ok_def assignThumb_same assignThumb_coords)
  then have cs: "\<forall>t \<in> set (take ?n ?ts). elan_contact ?bp t" unfolding tk using len by (auto simp: in_set_conv_nth)
  have "map secondaryId (take ?n ?ts) = map secondaryId (take ?n ts)"
    unfolding tk using len by (intro nth_equalityI) (simp_all add: assignThumb_same)
  then have "sorted_wrt (<) (map secondaryId (take ?n ?ts))" using ts(5) by simp
  moreover have "4 \<le> ?n \<longrightarrow> length (filter (\<lambda>t. fingerType t = kMT2FingerTypeThumb) (take ?n ?ts)) = 1"
    unfolding tk using one_thumb [OF _ n len ts(4)] by blast
  ultimately have "elan_event_ok ?bp \<lparr>transducers = ?ts, contact_count = ?n mod 256\<rparr>"
    using cs dr n len l by (auto simp: elan_event_ok_def event_ok_def elan_contact_def contact_ok_def)
  then show ?thesis using ts(1,2) by blast
qed

lemma elan_post_ok:
  assumes "elan_data_inv s" "\<forall>ev. m = ElanInput ev \<longrightarrow> elan_event_ok (ei_is_buttonpad (el_info s)) ev"
  shows "elan_data_inv (elan_post m s)" "elan_kept s (elan_post m s)" "el_info (elan_post m s) = el_info s"
    "el_virtualFinger (elan_post m s) = el_virtualFinger s"
  using assms by (auto simp: elan_post_def elan_data_inv_def elan_kept_def)

lemma elan_data_update:
  assumes "elan_data_inv s" "elan_fingers_ok (el_virtualFinger s')" "length (transducers (el_inputEvent s')) = length (transducers (el_inputEvent s))"
    "el_info s' = el_info s" "el_sent s' = el_sent s"
  shows "elan_data_inv s'"
  using assms by (simp add: elan_data_inv_def)

lemma elan_buttons_ok:
  assumes "elan_data_inv s" shows "elan_data_inv (elan_buttons n s)" "elan_kept s (elan_buttons n s)"
  using assms elan_post_ok [of s] by (auto simp: elan_buttons_def Let_def elan_data_inv_def elan_kept_def)

lemma elan_send_ok:
  assumes inv: "elan_data_inv s"
  shows "\<exists>s'. elan_sendTouchData clk s = Some s' \<and> elan_data_inv s' \<and> elan_kept s s'"
proof -
  let ?s = "s\<lparr>el_clock_reads := el_clock_reads s + 1\<rparr>" and ?n = "elan_touching (el_virtualFinger s)"
  have s: "elan_data_inv ?s" "elan_kept s ?s" using inv by (simp_all add: elan_data_inv_def elan_kept_def)
  obtain ts where ts: "elan_fill (ei_is_buttonpad (el_info s)) (el_forceTouchMode s = FORCE_TOUCH_BUTTON) 0 0 (el_virtualFinger s)
      (transducers (el_inputEvent s)) = Some (?n, ts)" "length ts = length (transducers (el_inputEvent s))"
    "elan_event_ok (ei_is_buttonpad (el_info s)) \<lparr>transducers = elan_clear ?n (assignThumb ?n ts), contact_count = ?n mod 256\<rparr>"
    using elan_event [OF inv] by blast
  define ev where "ev = \<lparr>transducers = elan_clear ?n (assignThumb ?n ts), contact_count = ?n mod 256\<rparr>"
  define t where "t = elan_post (ElanInput ev) (?s\<lparr>el_inputEvent := ev\<rparr>)"
  have "length (elan_clear ?n (assignThumb ?n ts)) = length ts" by (simp add: elan_clear_def)
  then have "elan_data_inv (?s\<lparr>el_inputEvent := ev\<rparr>)" using inv ts(2) by (simp add: elan_data_inv_def ev_def)
  from elan_post_ok(1,2) [OF this, of "ElanInput ev"] ts(3)
  have t: "elan_data_inv t" "elan_kept (?s\<lparr>el_inputEvent := ev\<rparr>) t" by (simp_all add: t_def ev_def)
  have kept: "elan_kept s t" using t(2) by (simp add: elan_kept_def)
  note b = elan_buttons_ok [OF t(1), of ?n]
  have run: "elan_sendTouchData clk s = (if to_ns clk (uptime clk (el_clock_reads s)) - el_keytime s < el_maxaftertyping s then Some ?s
    else Some (if ei_is_buttonpad (el_info t) then t else elan_buttons ?n t))"
    using ts(1) by (simp add: elan_sendTouchData_def Let_def ev_def t_def)
  show ?thesis unfolding run using s t b kept elan_kept_trans [OF kept b(2)] by auto
qed

section \<open>Decoding keeps within the arrays\<close>

lemma unat_u32_le: "unat (x :: u32) \<le> 4294967295"
  using unsigned_less [of x, where 'a = nat] by simp

lemma elan_fingers_update:
  "\<lbrakk>elan_fingers_ok fs; coords_word (ef_now f); coords_word (ef_prev f)\<rbrakk> \<Longrightarrow> elan_fingers_ok (fs[i := f])"
  by (auto simp: elan_fingers_ok_def dest!: set_update_subset_insert [THEN subsetD])

lemma elan_fingers_nth: "\<lbrakk>elan_fingers_ok fs; i < 5\<rbrakk> \<Longrightarrow> coords_word (ef_now (fs ! i)) \<and> coords_word (ef_prev (fs ! i))"
  by (simp add: elan_fingers_ok_def)

lemma coords_word_set [simp]: "coords_word (c\<lparr>tc_x := unat (x :: u32), tc_y := unat (y :: u32)\<rparr>)"
  using unat_u32_le by (simp add: coords_word_def coords_ok_def)

lemma elan_touch_ok: "\<lbrakk>elan_fingers_ok fs; i < 5\<rbrakk> \<Longrightarrow> elan_fingers_ok (elan_touch i x y b fr fs)"
  using elan_fingers_nth [of fs i] by (auto simp: elan_touch_def Let_def intro!: elan_fingers_update)

lemma elan_lift_ok: "elan_fingers_ok fs \<Longrightarrow> elan_fingers_ok (elan_lift fs)"
  using elan_fingers_nth by (auto simp: elan_lift_def intro!: elan_fingers_update)

lemma elan_three_ok: "elan_fingers_ok fs \<Longrightarrow> elan_fingers_ok (elan_three x y b fr fs)"
  by (simp add: elan_three_def elan_touch_ok)

lemmas elan_touches = elan_touch_ok elan_lift_ok elan_three_ok

text \<open>Setting the fingers and the buttons, then sending.\<close>

lemma elan_show_ok:
  assumes "elan_data_inv s" "elan_fingers_ok fs"
  shows "\<exists>s'. elan_sendTouchData clk (elan_set_buttons p (s\<lparr>el_virtualFinger := fs, el_lastFingers := n\<rparr>)) = Some s' \<and>
    elan_data_inv s' \<and> elan_kept s s'"
proof -
  let ?s = "elan_set_buttons p (s\<lparr>el_virtualFinger := fs, el_lastFingers := n\<rparr>)"
  have "elan_data_inv ?s" using assms by (simp add: elan_data_inv_def elan_set_buttons_def)
  from elan_send_ok [OF this] show ?thesis by (simp add: elan_kept_def elan_set_buttons_def)
qed

lemma elan_place_ok:
  assumes "elan_data_inv s"
  shows "\<exists>s'. elan_place clk p n a b s = Some s' \<and> elan_data_inv s' \<and> elan_kept s s'"
proof -
  have "elan_fingers_ok (el_virtualFinger s)" using assms by (simp add: elan_data_inv_def)
  then show ?thesis using assms unfolding elan_place_def Let_def split_beta
    by (intro elan_show_ok) (auto intro!: elan_touches)
qed

lemma elan_V1_ok:
  assumes "elan_data_inv s"
  shows "\<exists>s'. elantechReportAbsoluteV1 clk p s = Some s' \<and> elan_data_inv s' \<and> elan_kept s s'"
proof -
  have ok: "elan_fingers_ok (el_virtualFinger s)" using assms by (simp add: elan_data_inv_def)
  have skip: "elan_data_inv (s\<lparr>el_etd := d\<rparr>)" "elan_kept s (s\<lparr>el_etd := d\<rparr>)" "elan_kept (s\<lparr>el_etd := d\<rparr>) t = elan_kept s t" for d t
    using assms by (simp_all add: elan_data_inv_def elan_kept_def)
  show ?thesis
  proof (cases "ei_jumpy_cursor (el_info s) \<and> elan_fingersV1 s p = 1 \<and> ed_single_finger_reports (el_etd s) < 2")
    case True
    then show ?thesis using skip by (simp add: elantechReportAbsoluteV1_def Let_def)
  next
    case False
    define t where "t = (if ei_jumpy_cursor (el_info s) \<and> elan_fingersV1 s p \<noteq> 1
      then s\<lparr>el_etd := (el_etd s)\<lparr>ed_single_finger_reports := 0\<rparr>\<rparr> else s)"
    have t: "elan_data_inv t" "elan_kept t u = elan_kept s u" "el_virtualFinger t = el_virtualFinger s" for u
      using assms skip by (auto simp: t_def)
    show ?thesis unfolding elantechReportAbsoluteV1_def Let_def if_not_P [OF False] t_def [symmetric] t(2) [symmetric]
      by (intro elan_show_ok) (auto simp: t ok intro!: elan_touches)
  qed
qed

lemma elan_publish_ok: "elan_data_inv s \<Longrightarrow> \<exists>s'. elan_publish s = Some s' \<and> elan_data_inv s' \<and> elan_kept s s' \<and> el_etd s' = el_etd s"
  by (auto simp: elan_publish_def elan_data_inv_def elan_kept_def Let_def)

lemma elan_rescale_ok:
  assumes "elan_data_inv s"
  shows "\<exists>s'. elantechRescale x y s = Some s' \<and> elan_data_inv s' \<and> elan_kept s s'"
proof -
  let ?i = "el_info s"
  define i where "i = (let i = (if x > ei_x_max ?i then ?i\<lparr>ei_x_max := x\<rparr> else ?i) in if y > ei_y_max ?i then i\<lparr>ei_y_max := y\<rparr> else i)"
  have i: "elan_model i = elan_model ?i" "(if y > ei_y_max (if x > ei_x_max ?i then ?i\<lparr>ei_x_max := x\<rparr> else ?i)
      then (if x > ei_x_max ?i then ?i\<lparr>ei_x_max := x\<rparr> else ?i)\<lparr>ei_y_max := y\<rparr> else (if x > ei_x_max ?i then ?i\<lparr>ei_x_max := x\<rparr> else ?i)) = i"
    by (simp_all add: i_def elan_model_def Let_def)
  have s: "elan_data_inv (s\<lparr>el_info := i\<rparr>)" "elan_kept s (s\<lparr>el_info := i\<rparr>)"
    using assms elan_modelD [OF i(1)] i(1) by (simp_all add: elan_data_inv_def elan_kept_def)
  obtain s' where s': "elan_publish (s\<lparr>el_info := i\<rparr>) = Some s'" "elan_data_inv s'" "elan_kept (s\<lparr>el_info := i\<rparr>) s'"
    using elan_publish_ok [OF s(1)] by blast
  have run: "elantechRescale x y s = (if x > ei_x_max ?i \<or> y > ei_y_max ?i
    then Some (elan_post (ElanDimensions (ei_x_min i) (ei_x_max i) (ei_y_min i) (ei_y_max i)) s') else Some (s\<lparr>el_info := i\<rparr>))"
    unfolding elantechRescale_def Let_def i(2) using s'(1) by simp
  note p = elan_post_ok [OF s'(2), of "ElanDimensions (ei_x_min i) (ei_x_max i) (ei_y_min i) (ei_y_max i)"]
  show ?thesis unfolding run using s s'(2) p elan_kept_trans [OF elan_kept_trans [OF s(2) s'(3)]] by simp
qed

lemma elan_V2_ok:
  assumes "elan_data_inv s"
  shows "\<exists>s'. elantechReportAbsoluteV2 clk p s = Some s' \<and> elan_data_inv s' \<and> elan_kept s s'"
  unfolding elantechReportAbsoluteV2_def Let_def split_beta by (rule elan_place_ok [OF assms])

lemma elan_V3_ok:
  assumes "elan_data_inv s"
  shows "\<exists>s'. elantechReportAbsoluteV3 clk ty p s = Some s' \<and> elan_data_inv s' \<and> elan_kept s s'"
proof -
  obtain t where t: "elantechRescale (elan_x12 p) (elan_y12 p) s = Some t" "elan_data_inv t" "elan_kept s t"
    using elan_rescale_ok [OF assms] by blast
  have place: "\<exists>s'. elan_place clk p n a b t = Some s' \<and> elan_data_inv s' \<and> elan_kept s s'" for n a b
    using elan_place_ok [OF t(2)] elan_kept_trans [OF t(3)] by blast
  have head: "elan_data_inv (s\<lparr>el_etd := d\<rparr>) \<and> elan_kept s (s\<lparr>el_etd := d\<rparr>)" for d
    using assms by (simp add: elan_data_inv_def elan_kept_def)
  show ?thesis unfolding elantechReportAbsoluteV3_def Let_def
    using t(1) place head elan_place_ok [OF assms] by (simp split del: if_split split: if_split)
qed

lemma elan_trackpoint_ok:
  assumes "elan_data_inv s"
  shows "elan_data_inv (elantechReportTrackpoint clk p s) \<and> elan_kept s (elantechReportTrackpoint clk p s)"
proof -
  let ?s = "s\<lparr>el_keytime := to_ns clk (uptime clk (el_clock_reads s)), el_clock_reads := el_clock_reads s + 1\<rparr>"
  have "elan_data_inv ?s" using assms by (simp add: elan_data_inv_def)
  from elan_post_ok(1,2) [OF this] have "elan_data_inv (elan_post (ElanTrackpoint a b c) ?s) \<and> elan_kept s (elan_post (ElanTrackpoint a b c) ?s)" for a b c
    by (simp add: elan_kept_def)
  then show ?thesis using assms unfolding elantechReportTrackpoint_def Let_def by simp
qed

lemma elan_status_ok:
  assumes "elan_data_inv s"
  shows "\<exists>s'. processPacketStatusV4 clk p s = Some s' \<and> elan_data_inv s' \<and> elan_kept s s'"
proof -
  define t where "t = (elan_set_buttons p s)\<lparr>el_virtualFinger :=
      map (\<lambda>(i, f). f\<lparr>ef_touch := (p ! 1 AND 0x1f AND push_bit i 1 \<noteq> 0)\<rparr>) (List.enumerate 0 (el_virtualFinger (elan_set_buttons p s))),
    el_heldFingers := int (length (filter (\<lambda>i. p ! 1 AND 0x1f AND push_bit i 1 \<noteq> 0) [0..<ETP_MAX_FINGERS])), el_headPacketsCount := 0\<rparr>"
  have "elan_fingers_ok (el_virtualFinger t)"
    using assms by (auto simp: t_def elan_data_inv_def elan_fingers_ok_def elan_set_buttons_def in_set_enumerate_eq)
  then have t: "elan_data_inv t" "elan_kept s t" using assms by (simp_all add: t_def elan_data_inv_def elan_kept_def elan_set_buttons_def)
  show ?thesis unfolding processPacketStatusV4_def Let_def t_def [symmetric]
    using t elan_send_ok [OF t(1)] elan_kept_trans [OF t(2)] by auto
qed

text \<open>The finger numbers a packet of version four refers to; zero is none.\<close>

definition elan_first :: "u8 list \<Rightarrow> nat" where
  "elan_first p = unat (drop_bit 5 (p ! 0 AND 0xe0))"

definition elan_second :: "u8 list \<Rightarrow> nat" where
  "elan_second p = unat (drop_bit 5 (p ! 3 AND 0xe0))"

lemma elan_head_ok:
  assumes inv: "elan_data_inv s"
  shows "if elan_second p \<le> 5 then \<exists>s'. processPacketHeadV4 clk p s = Some s' \<and> elan_data_inv s' \<and> elan_kept s s'
    else processPacketHeadV4 clk p s = None"
proof -
  define t where "t = (elan_set_buttons p s)\<lparr>el_headPacketsCount := el_headPacketsCount (elan_set_buttons p s) + 1\<rparr>"
  have t: "elan_data_inv t" "elan_kept s t" "elan_fingers_ok (el_virtualFinger t)"
    using inv by (simp_all add: t_def elan_data_inv_def elan_kept_def elan_set_buttons_def)
  let ?i = "elan_second p - 1"
  define u where "u = t\<lparr>el_virtualFinger := (el_virtualFinger t)[?i := (el_virtualFinger t ! ?i)\<lparr>
     ef_button := (p ! 0 AND 0x3 \<noteq> 0), ef_prev := ef_now (el_virtualFinger t ! ?i),
     ef_pressure := (p ! 1 AND 0xf0) OR drop_bit 4 (p ! 4 AND 0xf0), ef_width := drop_bit 4 (p ! 0 AND 0xf0),
     ef_now := (ef_now (el_virtualFinger t ! ?i))\<lparr>tc_x := unat (elan_x12 p), tc_y := unat (ei_y_max (el_info t) - elan_y12 p)\<rparr>\<rparr>]\<rparr>"
  have run: "processPacketHeadV4 clk p s = (if elan_second p = 0 then Some t else if 5 < elan_second p then None
    else if el_headPacketsCount u = el_heldFingers u then elan_sendTouchData clk (u\<lparr>el_headPacketsCount := 0\<rparr>) else Some u)"
    unfolding processPacketHeadV4_def Let_def t_def [symmetric] elan_second_def [symmetric]
    using t(3) by (auto simp: array_get_def elan_fingers_ok_def u_def nat_diff_distrib)
  show ?thesis
  proof (cases "elan_second p = 0 \<or> 5 < elan_second p")
    case True
    then show ?thesis unfolding run using t by auto
  next
    case False
    then have u: "elan_data_inv u" "elan_kept s u"
      using t elan_fingers_nth [OF t(3), of ?i] by (auto simp: u_def elan_data_inv_def elan_kept_def intro!: elan_fingers_update)
    have w: "elan_data_inv (u\<lparr>el_headPacketsCount := 0\<rparr>)" "elan_kept s (u\<lparr>el_headPacketsCount := 0\<rparr>)"
      using u by (simp_all add: elan_data_inv_def elan_kept_def)
    show ?thesis unfolding run using False u elan_send_ok [OF w(1)] elan_kept_trans [OF w(2)] by auto
  qed
qed

lemma elan_move_in:
  "\<lbrakk>elan_data_inv s; i < 5\<rbrakk> \<Longrightarrow> \<exists>s'. elan_move i dx dy w b s = Some s' \<and> elan_data_inv s' \<and> elan_kept s s'"
  using elan_fingers_nth [of "el_virtualFinger s" i]
  by (auto simp: elan_move_def array_get_def elan_data_inv_def elan_kept_def elan_fingers_ok_def [of "el_virtualFinger s"]
      intro!: elan_fingers_update)

lemma elan_move_out: "\<lbrakk>elan_data_inv s; 5 \<le> i\<rbrakk> \<Longrightarrow> elan_move i dx dy w b s = None"
  by (simp add: elan_move_def array_get_def elan_data_inv_def elan_fingers_ok_def)

definition elan_motion_safe :: "u8 list \<Rightarrow> bool" where
  "elan_motion_safe p \<longleftrightarrow> elan_first p = 0 \<or> elan_first p \<le> 5 \<and> elan_second p \<le> 5"

lemma elan_motion_ok:
  assumes inv: "elan_data_inv s"
  shows "if elan_motion_safe p then \<exists>s'. processPacketMotionV4 clk p s = Some s' \<and> elan_data_inv s' \<and> elan_kept s s'
    else processPacketMotionV4 clk p s = None"
proof -
  define t where "t = elan_set_buttons p s"
  have t: "elan_data_inv t" "elan_kept s t" using inv by (simp_all add: t_def elan_data_inv_def elan_kept_def elan_set_buttons_def)
  let ?w = "if p ! 0 AND 0x10 \<noteq> 0 then ETP_WEIGHT_VALUE else 1" and ?b = "p ! 0 AND 0x3 \<noteq> 0"
  have run: "processPacketMotionV4 clk p s = (if elan_first p = 0 then Some t
    else Option.bind (elan_move (elan_first p - 1) (p ! 1) (p ! 2) ?w ?b t) (\<lambda>u.
      Option.bind (if elan_second p \<noteq> 0 then elan_move (elan_second p - 1) (p ! 4) (p ! 5) ?w ?b u else Some u) (elan_sendTouchData clk)))"
    unfolding processPacketMotionV4_def Let_def t_def [symmetric] elan_first_def [symmetric] elan_second_def [symmetric]
    by (auto simp: nat_diff_distrib intro!: Option.bind_cong)
  consider (none) "elan_first p = 0" | (wild) "5 < elan_first p" | (one) "elan_first p \<noteq> 0" "elan_first p \<le> 5" by linarith
  then show ?thesis
  proof cases
    case none
    then show ?thesis unfolding run using t by (simp add: elan_motion_safe_def)
  next
    case wild
    then have "5 \<le> elan_first p - 1" by linarith
    from elan_move_out [OF t(1) this] show ?thesis unfolding run using wild by (simp add: elan_motion_safe_def)
  next
    case one
    then have "elan_first p - 1 < 5" by linarith
    with elan_move_in [OF t(1), of "elan_first p - 1" "p ! 1" "p ! 2" ?w ?b] obtain u where
      u: "elan_move (elan_first p - 1) (p ! 1) (p ! 2) ?w ?b t = Some u" "elan_data_inv u" "elan_kept t u" by auto
    have ku: "elan_kept s u" using elan_kept_trans [OF t(2) u(3)] .
    consider (stay) "elan_second p = 0" | (out) "5 < elan_second p" | (two) "elan_second p \<noteq> 0" "elan_second p \<le> 5" by linarith
    then show ?thesis
    proof cases
      case stay
      then show ?thesis unfolding run u(1) using one u elan_send_ok [OF u(2)] elan_kept_trans [OF ku] by (auto simp: elan_motion_safe_def)
    next
      case out
      then have "5 \<le> elan_second p - 1" by linarith
      from elan_move_out [OF u(2) this] show ?thesis unfolding run u(1) using out by (simp add: elan_motion_safe_def one)
    next
      case two
      then have "elan_second p - 1 < 5" by linarith
      with elan_move_in [OF u(2), of "elan_second p - 1" "p ! 4" "p ! 5" ?w ?b] obtain v where
        v: "elan_move (elan_second p - 1) (p ! 4) (p ! 5) ?w ?b u = Some v" "elan_data_inv v" "elan_kept u v" by auto
      show ?thesis unfolding run u(1) Option.bind.simps v(1) using one two elan_send_ok [OF v(2)] elan_kept_trans [OF elan_kept_trans [OF ku v(3)]]
        by (auto simp: elan_motion_safe_def)
    qed
  qed
qed

text \<open>The packets the driver can handle: those that name no finger beyond the fifth.\<close>

definition elan_safe :: "elan \<Rightarrow> u8 list \<Rightarrow> bool" where
  "elan_safe s p \<longleftrightarrow> el_ignoreall s \<or> ei_hw_version (el_info s) \<noteq> 4 \<or>
     (case elantechPacketCheckV4 s p of PACKET_V4_HEAD \<Rightarrow> elan_second p \<le> 5 | PACKET_V4_MOTION \<Rightarrow> elan_motion_safe p | _ \<Rightarrow> True)"

lemma elan_check_kept: "elan_kept s s' \<Longrightarrow> elantechPacketCheckV4 s' = elantechPacketCheckV4 s"
  using elan_modelD [of "el_info s'" "el_info s"] by (auto simp: elan_kept_def elantechPacketCheckV4_def Let_def fun_eq_iff)

lemma elan_safe_kept: "elan_kept s s' \<Longrightarrow> elan_safe s' = elan_safe s"
  using elan_check_kept [of s s'] elan_modelD(1) [of "el_info s'" "el_info s"] by (auto simp: elan_kept_def elan_safe_def fun_eq_iff)

lemma elan_handle_ok:
  assumes inv: "elan_data_inv s" and on: "\<not> el_ignoreall s"
  shows "if elan_safe s p then \<exists>s'. elan_handle clk p s = Some s' \<and> elan_data_inv s' \<and> elan_kept s s' else elan_handle clk p s = None"
proof (cases "ei_hw_version (el_info s) = 4")
  case True
  note status = elan_status_ok [OF inv] and head = elan_head_ok [OF inv] and motion = elan_motion_ok [OF inv]
    and track = elan_trackpoint_ok [OF inv]
  show ?thesis using status [of clk p] head [of p clk] motion [of p clk] track [of clk p] inv on True
    by (cases "elantechPacketCheckV4 s p") (simp_all add: elan_handle_def elan_safe_def elantechReportAbsoluteV4_def Let_def)
next
  case False
  then have "\<exists>s'. elan_handle clk p s = Some s' \<and> elan_data_inv s' \<and> elan_kept s s'"
    using inv elan_V1_ok [OF inv, of clk p] elan_V2_ok [OF inv, of clk p] elan_V3_ok [OF inv, of clk _ p] elan_trackpoint_ok [OF inv, of clk p]
    by (cases "elantechPacketCheckV3 s p") (simp_all add: elan_handle_def Let_def)
  then show ?thesis using False by (simp add: elan_safe_def)
qed

section \<open>The driver as a whole\<close>

definition elan_good :: "nat \<Rightarrow> elan \<Rightarrow> elan \<Rightarrow> bool" where
  "elan_good len s0 s \<longleftrightarrow> elan_data_inv s \<and> el_packetLength s = len \<and> el_packetByteCount s = el_packetByteCount s0 \<and>
     el_ignoreall s = el_ignoreall s0 \<and> elan_model (el_info s) = elan_model (el_info s0)"

lemma elan_step_safe:
  assumes "elan_good len s0 s" "elan_safe s p"
  shows "\<exists>s'. elan_packetStep clk p s = Some s' \<and> elan_good len s0 s' \<and>
    el_ringBuffer s' = advanceTail len (el_ringBuffer s) \<and> elan_safe s' = elan_safe s"
proof -
  have inv: "elan_data_inv s" "el_packetLength s = len" using assms by (auto simp: elan_good_def)
  obtain t where t: "(if el_ignoreall s then Some s else elan_handle clk p s) = Some t" "elan_data_inv t" "elan_kept s t"
    using elan_handle_ok [OF inv(1), of p clk] inv(1) assms(2) by (cases "el_ignoreall s") auto
  let ?t = "t\<lparr>el_ringBuffer := advanceTail len (el_ringBuffer t)\<rparr>"
  have "elan_safe ?t = elan_safe t" by (simp add: elan_safe_def elantechPacketCheckV4_def fun_eq_iff)
  moreover have "elan_data_inv ?t" using t(2) by (simp add: elan_data_inv_def)
  ultimately show ?thesis using t(1,3) inv assms(1) elan_safe_kept [OF t(3)]
    by (simp add: elan_packetStep_def elan_good_def elan_kept_def)
qed

lemma elan_step_unsafe: "\<lbrakk>elan_good len s0 s; \<not> elan_safe s p\<rbrakk> \<Longrightarrow> elan_packetStep clk p s = None"
  using elan_handle_ok [of s p clk] by (auto simp: elan_good_def elan_packetStep_def elan_safe_def)

interpretation elan_ring: packet_ring 4 192
  by unfold_locales auto

interpretation elan_work4: faulting_consumer ring_poke "advanceHead 4" "ring_peek 4" "advanceTail 4" ring_count
  "packet_inv 4 192" "ring_packets 4" "head_slot 4" 4 "192 div 4 - 1"
  el_ringBuffer "elan_good 4 s0" elan_safe "elan_packetStep clk" "elan_packetReady clk"
proof
  fix s :: elan and p :: "u8 list" and k q
  show "elan_packetReady clk 0 s = None" by simp
  show "elan_packetReady clk (Suc k) s = (if 4 \<le> ring_count (el_ringBuffer s)
    then Option.bind (ring_peek 4 (el_ringBuffer s)) (\<lambda>p. Option.bind (elan_packetStep clk p s) (elan_packetReady clk k)) else Some s)"
    if "elan_good 4 s0 s" using that by (simp add: elan_good_def)
  show "\<exists>s'. elan_packetStep clk p s = Some s' \<and> elan_good 4 s0 s' \<and> el_ringBuffer s' = advanceTail 4 (el_ringBuffer s) \<and> elan_safe s' = elan_safe s"
    if "elan_good 4 s0 s" "elan_safe s p" using elan_step_safe [OF that] .
  show "elan_packetStep clk p s = None" if "elan_good 4 s0 s" "\<not> elan_safe s p" using elan_step_unsafe [OF that] .
  show "length p = 4" if "packet_inv 4 192 q" "p \<in> set (ring_packets 4 q)" using elan_ring.packets_member_length [OF that] .
qed

interpretation elan_work6: faulting_consumer ring_poke "advanceHead 6" "ring_peek 6" "advanceTail 6" ring_count
  "packet_inv 6 192" "ring_packets 6" "head_slot 6" 6 "192 div 6 - 1"
  el_ringBuffer "elan_good 6 s0" elan_safe "elan_packetStep clk" "elan_packetReady clk"
proof
  fix s :: elan and p :: "u8 list" and k q
  show "elan_packetReady clk 0 s = None" by simp
  show "elan_packetReady clk (Suc k) s = (if 6 \<le> ring_count (el_ringBuffer s)
    then Option.bind (ring_peek 6 (el_ringBuffer s)) (\<lambda>p. Option.bind (elan_packetStep clk p s) (elan_packetReady clk k)) else Some s)"
    if "elan_good 6 s0 s" using that by (simp add: elan_good_def)
  show "\<exists>s'. elan_packetStep clk p s = Some s' \<and> elan_good 6 s0 s' \<and> el_ringBuffer s' = advanceTail 6 (el_ringBuffer s) \<and> elan_safe s' = elan_safe s"
    if "elan_good 6 s0 s" "elan_safe s p" using elan_step_safe [OF that] .
  show "elan_packetStep clk p s = None" if "elan_good 6 s0 s" "\<not> elan_safe s p" using elan_step_unsafe [OF that] .
  show "length p = 6" if "packet_inv 6 192 q" "p \<in> set (ring_packets 6 q)" using foc_ring.packets_member_length [OF that] .
qed

definition elan_inv :: "elan \<Rightarrow> bool" where
  "elan_inv s \<longleftrightarrow> elan_data_inv s \<and> packet_inv (el_packetLength s) 192 (el_ringBuffer s) \<and>
     el_packetByteCount s < el_packetLength s \<and>
     (ei_hw_version (el_info s) = 1 \<and> el_packetLength s = 4 \<or> ei_hw_version (el_info s) \<in> {2, 3, 4} \<and> el_packetLength s = 6)"

abbreviation elan_waiting :: "elan \<Rightarrow> u8 list list" where
  "elan_waiting s \<equiv> ring_packets (el_packetLength s) (el_ringBuffer s)"

lemma elan_good_inv:
  assumes "elan_inv s0" "elan_good (el_packetLength s0) s0 s" "packet_inv (el_packetLength s0) 192 (el_ringBuffer s)"
  shows "elan_inv s"
proof -
  have "ei_hw_version (el_info s) = ei_hw_version (el_info s0)" using assms(2) elan_modelD(1) [of "el_info s" "el_info s0"] by (simp add: elan_good_def)
  then show ?thesis using assms by (auto simp: elan_inv_def elan_good_def)
qed

lemma elan_work_ok:
  assumes inv: "elan_inv s"
  shows "if \<forall>p \<in> set (elan_waiting s). elan_safe s p
    then \<exists>s'. elan_packetReady clk 48 s = Some s' \<and> elan_inv s' \<and> elan_waiting s' = [] \<and> elan_model (el_info s') = elan_model (el_info s)
    else elan_packetReady clk 48 s = None"
proof -
  have good: "elan_good (el_packetLength s) s s" using inv by (simp add: elan_good_def elan_inv_def)
  have ring: "packet_inv (el_packetLength s) 192 (el_ringBuffer s)" using inv by (simp add: elan_inv_def)
  have bound: "length (ring_packets 4 r) \<le> 47" if "packet_inv 4 192 r" for r :: "u8 ring"
    using elan_ring.packets_le [OF that] by simp
  have bound6: "length (ring_packets 6 r) \<le> 31" if "packet_inv 6 192 r" for r :: "u8 ring"
    using foc_ring.packets_le [OF that] by simp
  have "el_packetLength s = 4 \<or> el_packetLength s = 6" using inv by (auto simp: elan_inv_def)
  then have run: "if \<forall>p \<in> set (elan_waiting s). elan_safe s p
    then \<exists>s'. elan_packetReady clk 48 s = Some s' \<and> elan_good (el_packetLength s) s s' \<and>
      packet_inv (el_packetLength s) 192 (el_ringBuffer s') \<and> ring_packets (el_packetLength s) (el_ringBuffer s') = []
    else elan_packetReady clk 48 s = None"
  proof
    assume 4: "el_packetLength s = 4"
    have good: "elan_good 4 s s" and ring: "packet_inv 4 192 (el_ringBuffer s)" using good ring unfolding 4 by blast+
    have "length (ring_packets 4 (el_ringBuffer s)) < 48" using bound [OF ring] by simp
    from elan_work4.run_safe [OF good ring this] elan_work4.run_unsafe [OF good ring] show ?thesis unfolding 4 by presburger
  next
    assume 6: "el_packetLength s = 6"
    have good: "elan_good 6 s s" and ring: "packet_inv 6 192 (el_ringBuffer s)" using good ring unfolding 6 by blast+
    have "length (ring_packets 6 (el_ringBuffer s)) < 48" using bound6 [OF ring] by simp
    from elan_work6.run_safe [OF good ring this] elan_work6.run_unsafe [OF good ring] show ?thesis unfolding 6 by presburger
  qed
  show ?thesis
  proof (cases "\<forall>p \<in> set (elan_waiting s). elan_safe s p")
    case True
    then obtain s' where s': "elan_packetReady clk 48 s = Some s'" "elan_good (el_packetLength s) s s'"
      "packet_inv (el_packetLength s) 192 (el_ringBuffer s')" "ring_packets (el_packetLength s) (el_ringBuffer s') = []"
      using run by auto
    from elan_good_inv [OF inv s'(2,3)] s' True show ?thesis by (simp add: elan_good_def)
  next
    case False
    then show ?thesis using run by (simp only: if_False)
  qed
qed

lemma elan_byte_ok:
  assumes inv: "elan_inv s"
  shows "\<exists>r s'. elan_interruptOccurred b s = Some (r, s') \<and> elan_inv s' \<and> el_info s' = el_info s"
proof -
  let ?n = "el_packetByteCount s" and ?L = "el_packetLength s"
  have "packet_ring ?L 192" using inv by (auto simp: elan_inv_def elan_ring.packet_ring_axioms foc_ring.packet_ring_axioms)
  then obtain q where q: "ring_poke ?n b (el_ringBuffer s) = Some q" "packet_inv ?L 192 q"
    using packet_ring.poke_ok [of ?L 192 "el_ringBuffer s" ?n b] inv by (auto simp: elan_inv_def)
  have adv: "packet_inv ?L 192 (advanceHead ?L q)" using packet_ring.advance_inv [OF \<open>packet_ring ?L 192\<close> q(2)] .
  have data: "elan_data_inv (s\<lparr>el_ringBuffer := r, el_packetByteCount := m\<rparr>)" for r m using inv by (simp add: elan_inv_def elan_data_inv_def)
  show ?thesis
  proof (cases "Suc ?n = ?L")
    case True
    then have "elan_interruptOccurred b s = Some (kPS2IR_packetReady, s\<lparr>el_ringBuffer := advanceHead ?L q, el_packetByteCount := 0\<rparr>)"
      using q(1) by (simp add: elan_interruptOccurred_def)
    then show ?thesis using adv data inv by (auto simp: elan_inv_def)
  next
    case False
    then have "elan_interruptOccurred b s = Some (kPS2IR_packetBuffering, s\<lparr>el_ringBuffer := q, el_packetByteCount := Suc ?n\<rparr>)"
      using q(1) by (simp add: elan_interruptOccurred_def)
    then show ?thesis using q(2) data inv False by (auto simp: elan_inv_def)
  qed
qed

lemma elan_exec_ok:
  assumes "elan_inv s"
  shows "case elan_exec clk ev s of
      Some s' \<Rightarrow> elan_inv s' \<and> elan_model (el_info s') = elan_model (el_info s)
    | None \<Rightarrow> ev = ElanWork \<and> (\<exists>p \<in> set (elan_waiting s). \<not> elan_safe s p)"
proof (cases ev)
  case (ElanByte b)
  then show ?thesis using elan_byte_ok [OF assms, of b] by auto
next
  case ElanWork
  then show ?thesis using elan_work_ok [OF assms, of clk] by (auto split: if_splits)
next
  case (ElanKeyTime t)
  then show ?thesis using assms by (simp add: elan_notifyKeyTime_def elan_inv_def elan_data_inv_def)
next
  case (ElanEnable b)
  then show ?thesis using assms by (simp add: elan_setDisableTouchpad_def elan_inv_def elan_data_inv_def)
qed

lemma elan_run_ok:
  "elan_inv s \<Longrightarrow> case fold_opt (elan_exec clk) evs s of
      Some s' \<Rightarrow> elan_inv s' \<and> elan_model (el_info s') = elan_model (el_info s)
    | None \<Rightarrow> \<exists>before after t. evs = before @ ElanWork # after \<and> fold_opt (elan_exec clk) before s = Some t \<and>
        elan_inv t \<and> elan_model (el_info t) = elan_model (el_info s) \<and> (\<exists>p \<in> set (elan_waiting t). \<not> elan_safe t p)"
proof (induction evs arbitrary: s)
  case (Cons ev evs)
  show ?case
  proof (cases "elan_exec clk ev s")
    case None
    then show ?thesis using elan_exec_ok [OF Cons.prems, where clk = clk and ev = ev] Cons.prems by (simp only: fold_opt.simps Option.bind.simps option.case) (intro exI [of _ "[]"] exI [of _ evs] exI [of _ s], simp)
  next
    case (Some s1)
    then have s1: "elan_inv s1" "elan_model (el_info s1) = elan_model (el_info s)"
      using elan_exec_ok [OF Cons.prems, where clk = clk and ev = ev] by auto
    show ?thesis
    proof (cases "fold_opt (elan_exec clk) evs s1")
      case None
      then obtain before after t where "evs = before @ ElanWork # after" "fold_opt (elan_exec clk) before s1 = Some t"
        "elan_inv t" "elan_model (el_info t) = elan_model (el_info s1)" "\<exists>p \<in> set (elan_waiting t). \<not> elan_safe t p"
        using Cons.IH [OF s1(1)] by auto
      then show ?thesis using Some None s1(2)
        by (simp only: fold_opt.simps Option.bind.simps option.case) (rule exI [of _ "ev # before"], rule exI [of _ after], rule exI [of _ t], simp)
    qed (use Some Cons.IH [OF s1(1)] s1(2) in auto)
  qed
qed simp

section \<open>The trackpoint\<close>

text \<open>A displacement of nine bits: the sign in one place, the low bits in another.\<close>

definition nine_bits :: "bool \<Rightarrow> u8 \<Rightarrow> int" where
  "nine_bits sign low = uint low - (if sign then 256 else 0)"

text \<open>A trackpoint packet: the signs in the first byte, inverted in the second, third and fourth.\<close>

definition trackpoint_frame :: "bool \<Rightarrow> bool \<Rightarrow> u8 \<Rightarrow> u8 \<Rightarrow> u8 \<Rightarrow> u8 list" where
  "trackpoint_frame sx sy buttons x y =
     [((if sx then 0x10 else 0) OR (if sy then 0x20 else 0)) OR (buttons AND 7), if sx then 0 else 0x80, if sy then 0 else 0x80,
      0x06 OR (if sy then 0 else 0x20) OR (if sx then 0 else 0x10), x, y]"

definition le_word :: "u8 \<Rightarrow> u8 \<Rightarrow> u8 \<Rightarrow> u8 \<Rightarrow> u32" where
  "le_word a b c d = ucast a OR push_bit 8 (ucast b) OR push_bit 16 (ucast c) OR push_bit 24 (ucast d)"

lemma le_word_bytes:
  "(ucast (le_word a b c d) :: u8) = a" "(ucast (drop_bit 8 (le_word a b c d)) :: u8) = b"
  "(ucast (drop_bit 16 (le_word a b c d)) :: u8) = c" "(ucast (drop_bit 24 (le_word a b c d)) :: u8) = d"
proof -
  have short: "\<not> bit x n" if "8 \<le> n" for x :: u8 and n using bit_imp_le_length [of x n] that by auto
  show "(ucast (le_word a b c d) :: u8) = a" "(ucast (drop_bit 8 (le_word a b c d)) :: u8) = b"
    "(ucast (drop_bit 16 (le_word a b c d)) :: u8) = c" "(ucast (drop_bit 24 (le_word a b c d)) :: u8) = d"
    by (rule bit_word_eqI; auto simp: le_word_def bit_ucast_iff bit_or_iff bit_drop_bit_eq bit_push_bit_iff short)+
qed

lemma le_word_inject: "le_word a b c d = le_word a' b' c' d' \<longleftrightarrow> a = a' \<and> b = b' \<and> c = c' \<and> d = d'"
  by (metis le_word_bytes)

lemma le_word_mask: "le_word a b c d AND NOT 7 = le_word (a AND NOT 7) b c d"
proof -
  have 7: "(7 :: u32) = mask 3" "(7 :: u8) = mask 3" by (simp_all add: mask_eq_exp_minus_1)
  show ?thesis unfolding 7 by (rule bit_word_eqI) (auto simp: le_word_def bit_ucast_iff bit_or_iff bit_and_iff bit_not_iff bit_mask_iff bit_push_bit_iff
      dest: bit_imp_le_length)
qed

lemma byte_split: "(p AND NOT 7) OR (p AND 7) = (p :: u8)"
  by (simp add: bit.conj_disj_distrib [symmetric])

lemma low_masked: "(k OR (b AND 7)) AND NOT 7 = k AND NOT (7 :: u8)"
  by (simp add: bit.conj_disj_distrib2 and.assoc)

lemma low_kept: "k AND 7 = 0 \<Longrightarrow> (k OR (b AND 7)) AND 7 = b AND (7 :: u8)"
  by (simp add: bit.conj_disj_distrib2 and.assoc)

lemma low_buttons: "(ucast (b AND 1) OR ucast (b AND 4) OR ucast (b AND 2) :: u32) = ucast (b AND 7)" for b :: u8
proof -
  have "b AND 1 OR b AND 4 OR b AND 2 = b AND 7" by (simp add: bit.conj_disj_distrib [symmetric])
  then show ?thesis by (simp add: unsigned_or_eq [symmetric])
qed

definition trackpoint_head :: "bool \<Rightarrow> bool \<Rightarrow> u8" where
  "trackpoint_head sx sy = (if sx then 0x10 else 0) OR (if sy then 0x20 else 0)"

lemma trackpoint_signature:
  "(let t = le_word a b c d AND NOT 7 in t \<noteq> 0x06000030 \<and> t \<noteq> 0x16008020 \<and> t \<noteq> 0x26800010 \<and> t \<noteq> 0x36808000) \<longleftrightarrow>
   \<not> (\<exists>sx sy. a AND NOT 7 = trackpoint_head sx sy \<and> b = (if sx then 0 else 0x80) \<and> c = (if sy then 0 else 0x80) \<and>
        d = 0x06 OR (if sy then 0 else 0x20) OR (if sx then 0 else 0x10))"
proof -
  have k: "(0x06000030 :: u32) = le_word 0x30 0 0 6" "(0x16008020 :: u32) = le_word 0x20 0x80 0 0x16"
    "(0x26800010 :: u32) = le_word 0x10 0 0x80 0x26" "(0x36808000 :: u32) = le_word 0 0x80 0x80 0x36"
    by (simp_all add: le_word_def)
  show ?thesis unfolding Let_def k le_word_mask le_word_inject
    by (auto simp: ex_bool_eq trackpoint_head_def)
qed

lemma trackpoint_report:
  assumes "length p = 6"
  shows "elantechReportTrackpoint clk p s =
    (if \<exists>sx sy b x y. p = trackpoint_frame sx sy b x y
     then elan_post (ElanTrackpoint (nine_bits (p ! 1 = 0) (p ! 4)) (- nine_bits (p ! 2 = 0) (p ! 5)) (ucast (p ! 0 AND 7)))
       (s\<lparr>el_keytime := to_ns clk (uptime clk (el_clock_reads s)), el_clock_reads := el_clock_reads s + 1\<rparr>)
     else s)"
proof -
  obtain a b c d x y where p: "p = [a, b, c, d, x, y]" using assms by (auto simp: length_Suc_conv eval_nat_numeral)
  have frame: "(\<exists>sx sy u x y. p = trackpoint_frame sx sy u x y) \<longleftrightarrow>
    (\<exists>sx sy. a AND NOT 7 = trackpoint_head sx sy \<and> b = (if sx then 0 else 0x80) \<and> c = (if sy then 0 else 0x80) \<and>
        d = 0x06 OR (if sy then 0 else 0x20) OR (if sx then 0 else 0x10))" (is "?l = ?r")
  proof
    assume ?l
    then obtain sx sy u where "a = trackpoint_head sx sy OR (u AND 7)" "b = (if sx then 0 else 0x80)" "c = (if sy then 0 else 0x80)"
      "d = 0x06 OR (if sy then 0 else 0x20) OR (if sx then 0 else 0x10)"
      unfolding p trackpoint_frame_def trackpoint_head_def by (auto simp only: list.inject)
    moreover have "trackpoint_head sx sy AND NOT 7 = trackpoint_head sx sy" for sx sy by (cases sx; cases sy) (simp_all add: trackpoint_head_def)
    ultimately show ?r using low_masked by metis
  next
    assume ?r
    then obtain sx sy where "a AND NOT 7 = trackpoint_head sx sy" "b = (if sx then 0 else 0x80)" "c = (if sy then 0 else 0x80)"
      "d = 0x06 OR (if sy then 0 else 0x20) OR (if sx then 0 else 0x10)" by blast
    moreover from this(1) have "a = trackpoint_head sx sy OR (a AND 7)" using byte_split [of a] by simp
    ultimately show ?l unfolding p trackpoint_frame_def trackpoint_head_def by blast
  qed
  let ?t = "s\<lparr>el_keytime := to_ns clk (uptime clk (el_clock_reads s)), el_clock_reads := el_clock_reads s + 1\<rparr>"
  have run: "elantechReportTrackpoint clk p s = (if \<exists>sx sy u x y. p = trackpoint_frame sx sy u x y
    then elan_post (ElanTrackpoint (uint x - 2 * uint (b XOR 0x80)) (2 * uint (c XOR 0x80) - uint y) (ucast (a AND 7))) ?t else s)"
    using trackpoint_signature [of a b c d] unfolding frame [symmetric]
    by (simp add: elantechReportTrackpoint_def p le_word_def [symmetric] low_buttons Let_def)
  show ?thesis unfolding run
  proof (rule if_cong)
    assume "\<exists>sx sy u x y. p = trackpoint_frame sx sy u x y"
    then have "b \<in> {0, 0x80}" "c \<in> {0, 0x80}" unfolding frame by (auto split: if_splits)
    then have "uint x - 2 * uint (b XOR 0x80) = nine_bits (b = 0) x" "2 * uint (c XOR 0x80) - uint y = - nine_bits (c = 0) y"
      by (auto simp: nine_bits_def)
    then show "elan_post (ElanTrackpoint (uint x - 2 * uint (b XOR 0x80)) (2 * uint (c XOR 0x80) - uint y) (ucast (a AND 7))) ?t =
      elan_post (ElanTrackpoint (nine_bits (p ! 1 = 0) (p ! 4)) (- nine_bits (p ! 2 = 0) (p ! 5)) (ucast (p ! 0 AND 7))) ?t"
      by (simp add: p)
  qed simp_all
qed

section \<open>Properties\<close>

text \<open>A pad of version four with its own button, and one with two buttons.\<close>

definition sample_elan :: elan where
  "sample_elan = (new_elan 10)\<lparr>el_voodooInput := True, el_packetLength := 6, el_maxaftertyping := 0,
     el_info := no_elan_info\<lparr>ei_hw_version := 4, ei_fw_version := 0x381f17, ei_x_max := 3000, ei_y_max := 2000,
       ei_x_res := 31, ei_y_res := 31, ei_is_buttonpad := True\<rparr>\<rparr>"

lemma sample_elan_inv: "elan_inv sample_elan"
  using foc_ring.new_ring_ok [of "0 :: u8"]
  by (simp add: elan_inv_def elan_data_inv_def elan_fingers_ok_def coords_word_def coords_ok_def sample_elan_def new_elan_def no_elan_info_def no_coords_def)

text \<open>The second finger touches the pad and presses it.\<close>

definition sample_elan_touch :: "elan_event list" where
  "sample_elan_touch = map ElanByte [0x01, 0x02, 0, 0x10, 0, 0] @ map ElanByte [0x01, 0x01, 0x40, 0x51, 0x02, 0x10] @ [ElanWork]"

text \<open>
  C18. Whatever bytes arrive, however they interleave with the work loop, key presses and the switch
  that disables the pad, every event the Elan driver sends is well formed: at most five contacts,
  first, switched on and of different fingers, a physical press only on a pad that is a button, and
  exactly one thumb among four or more. The input path can only fail in one way: on hardware of
  version four, in a work loop that finds a packet with a finger number the driver has no state for.
\<close>

theorem elan_events_well_formed:
  assumes "elan_inv s"
  shows "case fold_opt (elan_exec clk) evs s of
      Some s' \<Rightarrow> \<forall>ev. ElanInput ev \<in> set (el_sent s') \<longrightarrow> elan_event_ok (ei_is_buttonpad (el_info s)) ev
    | None \<Rightarrow> ei_hw_version (el_info s) = 4 \<and> (\<exists>before after t. evs = before @ ElanWork # after \<and>
        fold_opt (elan_exec clk) before s = Some t \<and> (\<exists>p \<in> set (elan_waiting t). \<not> elan_safe t p))"
proof (cases "fold_opt (elan_exec clk) evs s")
  case None
  then obtain before after t p where "evs = before @ ElanWork # after" "fold_opt (elan_exec clk) before s = Some t"
    "p \<in> set (elan_waiting t)" "\<not> elan_safe t p" and model: "elan_model (el_info t) = elan_model (el_info s)"
    using elan_run_ok [OF assms, where clk = clk and evs = evs] by auto
  then show ?thesis using None elan_modelD(1) [OF model] by (auto simp: elan_safe_def)
next
  case (Some s')
  then have "elan_inv s'" "elan_model (el_info s') = elan_model (el_info s)" using elan_run_ok [OF assms, where clk = clk and evs = evs] by auto
  then show ?thesis using Some elan_modelD(6) [of "el_info s'" "el_info s"] by (simp add: elan_inv_def elan_data_inv_def)
qed

theorem elan_events_well_formed_witness:
  "\<exists>s' ev. fold_opt (elan_exec sample_clock) sample_elan_touch sample_elan = Some s' \<and> el_sent s' = [ElanInput ev] \<and>
     elan_event_ok True ev"
proof -
  have "map_option (\<lambda>s. map (\<lambda>m. case m of ElanInput ev \<Rightarrow> True | _ \<Rightarrow> False) (el_sent s))
    (fold_opt (elan_exec sample_clock) sample_elan_touch sample_elan) = Some [True]" by code_simp
  then obtain s' m where run: "fold_opt (elan_exec sample_clock) sample_elan_touch sample_elan = Some s'" "el_sent s' = [m]"
    "case m of ElanInput ev \<Rightarrow> True | _ \<Rightarrow> False" by (auto simp: map_eq_Cons_conv)
  then obtain ev where "m = ElanInput ev" by (cases m) auto
  then show ?thesis using elan_events_well_formed [OF sample_elan_inv, where clk = sample_clock and evs = sample_elan_touch] run
    by (auto simp: sample_elan_def)
qed

text \<open>
  C19. The finger number of a version four packet is not checked against the size of the finger
  array: the work loop of the Elan driver returns exactly if no waiting packet names a finger beyond
  the fifth. A head or motion packet with number six or seven writes behind the array.
\<close>

theorem elan_finger_overflow:
  assumes "elan_inv s"
  shows "elan_packetReady clk 48 s \<noteq> None \<longleftrightarrow> (\<forall>p \<in> set (elan_waiting s). elan_safe s p)"
  using elan_work_ok [OF assms, of clk] by (auto split: if_splits)

theorem elan_finger_overflow_witness:
  "\<exists>s. fold_opt (elan_exec sample_clock) (map ElanByte [0, 0, 0, 0xF1, 0, 0]) sample_elan = Some s \<and>
     elan_packetReady sample_clock 48 s = None"
proof -
  have "map_option (\<lambda>s. list_ex (\<lambda>p. \<not> elan_safe s p) (elan_waiting s))
    (fold_opt (elan_exec sample_clock) (map ElanByte [0, 0, 0, 0xF1, 0, 0]) sample_elan) = Some True" by code_simp
  then obtain s where s: "fold_opt (elan_exec sample_clock) (map ElanByte [0, 0, 0, 0xF1, 0, 0]) sample_elan = Some s"
    "list_ex (\<lambda>p. \<not> elan_safe s p) (elan_waiting s)" by auto
  have "elan_inv s" using elan_run_ok [OF sample_elan_inv, where clk = sample_clock and evs = "map ElanByte [0, 0, 0, 0xF1, 0, 0]"] s(1) by simp
  from elan_finger_overflow [OF this, of sample_clock] s show ?thesis by (auto simp: list_ex_iff)
qed

text \<open>
  C20. Trackpoint packets: a packet is reported exactly if its four header bytes are consistent, that is,
  the signs of both displacements occur in the first byte and inverted in the next three. The
  report then carries the horizontal displacement as nine bit two's complement, the vertical one
  negated, and the three buttons; any other packet changes nothing.
\<close>

theorem elan_trackpoint_decodes:
  assumes "length p = 6"
  shows "(\<forall>sx sy b x y. p = trackpoint_frame sx sy b x y \<longrightarrow>
      elantechReportTrackpoint clk p s = elan_post (ElanTrackpoint (nine_bits sx x) (- nine_bits sy y) (ucast (b AND 7)))
        (s\<lparr>el_keytime := to_ns clk (uptime clk (el_clock_reads s)), el_clock_reads := el_clock_reads s + 1\<rparr>)) \<and>
    ((\<forall>sx sy b x y. p \<noteq> trackpoint_frame sx sy b x y) \<longrightarrow> elantechReportTrackpoint clk p s = s)"
proof (intro conjI allI impI)
  fix sx sy b x y assume p: "p = trackpoint_frame sx sy b x y"
  have frame: "\<exists>sx sy b x y. p = trackpoint_frame sx sy b x y" using p by blast
  have "(p ! 1 = 0) = sx" "(p ! 2 = 0) = sy" "p ! 4 = x" "p ! 5 = y" "p ! 0 = trackpoint_head sx sy OR (b AND 7)"
    by (simp_all add: p trackpoint_frame_def trackpoint_head_def)
  moreover have "trackpoint_head sx sy AND 7 = 0" by (cases sx; cases sy) (simp_all add: trackpoint_head_def)
  ultimately show "elantechReportTrackpoint clk p s = elan_post (ElanTrackpoint (nine_bits sx x) (- nine_bits sy y) (ucast (b AND 7)))
        (s\<lparr>el_keytime := to_ns clk (uptime clk (el_clock_reads s)), el_clock_reads := el_clock_reads s + 1\<rparr>)"
    using trackpoint_report [OF assms, of clk s, unfolded if_P [OF frame]] low_kept [of "trackpoint_head sx sy" b] by simp
next
  assume "\<forall>sx sy b x y. p \<noteq> trackpoint_frame sx sy b x y"
  then show "elantechReportTrackpoint clk p s = s" using trackpoint_report [OF assms, of clk s] by simp
qed

theorem elan_trackpoint_decodes_witness:
  "el_sent (elantechReportTrackpoint sample_clock [0x11, 0, 0x80, 0x26, 0xFE, 3] sample_elan) = [ElanTrackpoint (- 2) (- 3) 1]"
proof -
  have f: "[0x11, 0, 0x80, 0x26, 0xFE, 3] = trackpoint_frame True False 1 0xFE 3" by (simp add: trackpoint_frame_def)
  have len: "length [0x11, 0, 0x80, 0x26, 0xFE, 3 :: u8] = 6" by simp
  have "el_voodooInput sample_elan" "el_sent sample_elan = []" by (simp_all add: sample_elan_def new_elan_def)
  then show ?thesis
    using conjunct1 [OF elan_trackpoint_decodes [OF len], rule_format, OF f, of sample_clock sample_elan]
    by (simp add: nine_bits_def elan_post_def)
qed

text \<open>
  Pads with separate buttons: while fingers touch the pad, a button report contains only the
  buttons that changed. It shows the buttons actually held exactly if no finger touches the pad or
  no button is held on from before; a button held while the other one changes is reported released.
\<close>

theorem elan_button_reports:
  assumes inv: "elan_data_inv s" and "el_voodooInput s" and "\<not> ei_is_buttonpad (el_info s)"
    and "el_leftButton s \<in> {0, 1}" and "el_rightButton s \<in> {0, 2}"
    and "\<not> to_ns clk (uptime clk (el_clock_reads s)) - el_keytime s < el_maxaftertyping s"
    and "elan_sendTouchData clk s = Some s'" and "el_sent s' = ms @ [ElanTrackpoint dx dy b]"
  shows "b = el_leftButton s OR el_rightButton s \<longleftrightarrow> elan_touching (el_virtualFinger s) = 0 \<or>
    (el_leftButton s = 0 \<or> el_leftButton s \<noteq> el_lastLeftButton s) \<and> (el_rightButton s = 0 \<or> el_rightButton s \<noteq> el_lastRightButton s)"
proof -
  let ?n = "elan_touching (el_virtualFinger s)"
  obtain ts where ts: "elan_fill (ei_is_buttonpad (el_info s)) (el_forceTouchMode s = FORCE_TOUCH_BUTTON) 0 0 (el_virtualFinger s)
      (transducers (el_inputEvent s)) = Some (?n, ts)" using elan_event [OF inv] by blast
  define ev where "ev = \<lparr>transducers = elan_clear ?n (assignThumb ?n ts), contact_count = ?n mod 256\<rparr>"
  define t where "t = s\<lparr>el_clock_reads := el_clock_reads s + 1, el_inputEvent := ev, el_sent := el_sent s @ [ElanInput ev]\<rparr>"
  have "s' = elan_buttons ?n t" using assms ts by (simp add: elan_sendTouchData_def Let_def ev_def t_def elan_post_def)
  then show ?thesis using assms by (auto simp: elan_buttons_def Let_def t_def elan_post_def split: if_splits)
qed

text \<open>The left button is held, the right one goes down, with a finger on the pad.\<close>

definition sample_elan_buttons :: elan where
  "sample_elan_buttons = sample_elan\<lparr>el_info := (el_info sample_elan)\<lparr>ei_is_buttonpad := False\<rparr>,
     el_leftButton := 1, el_rightButton := 2, el_lastLeftButton := 1,
     el_virtualFinger := (el_virtualFinger sample_elan)[0 := (el_virtualFinger sample_elan ! 0)\<lparr>ef_touch := True\<rparr>]\<rparr>"

theorem elan_button_reports_witness:
  "\<exists>s' ms b. elan_sendTouchData sample_clock sample_elan_buttons = Some s' \<and> el_sent s' = ms @ [ElanTrackpoint 0 0 b] \<and> b \<noteq> 1 OR 2"
proof -
  have "map_option el_sent (elan_sendTouchData sample_clock sample_elan_buttons) \<noteq> None \<and>
    map_option (\<lambda>s. last (el_sent s) = ElanTrackpoint 0 0 2 \<and> length (el_sent s) = 2) (elan_sendTouchData sample_clock sample_elan_buttons) = Some True"
    by code_simp
  then obtain s' where s': "elan_sendTouchData sample_clock sample_elan_buttons = Some s'" "last (el_sent s') = ElanTrackpoint 0 0 2" "length (el_sent s') = 2"
    by auto
  then obtain ms where sent: "el_sent s' = ms @ [ElanTrackpoint 0 0 2]" by (metis append_butlast_last_id list.size(3) zero_neq_numeral)
  have d: "el_leftButton sample_elan_buttons = 1" "el_rightButton sample_elan_buttons = 2" "el_lastLeftButton sample_elan_buttons = 1"
    "el_voodooInput sample_elan_buttons" "\<not> ei_is_buttonpad (el_info sample_elan_buttons)" "el_maxaftertyping sample_elan_buttons = 0"
    "elan_touching (el_virtualFinger sample_elan_buttons) = 1"
    by (simp_all add: sample_elan_buttons_def sample_elan_def new_elan_def elan_touching_def eval_nat_numeral)
  have base: "elan_fingers_ok (el_virtualFinger sample_elan)" using sample_elan_inv by (simp add: elan_inv_def elan_data_inv_def)
  have "elan_fingers_ok (el_virtualFinger sample_elan_buttons)"
    using elan_fingers_nth [OF base, of 0] by (auto simp: sample_elan_buttons_def intro!: elan_fingers_update [OF base])
  then have "elan_data_inv sample_elan_buttons"
    by (simp add: elan_data_inv_def) (simp add: sample_elan_buttons_def sample_elan_def new_elan_def)
  from elan_button_reports [OF this _ _ _ _ _ s'(1) sent] d have "(2 :: u32) \<noteq> 1 OR 2" by simp
  with s'(1) sent show ?thesis by blast
qed

end
