(* ===== verification/Elan_Setup.thy ===== *)
theory Elan_Setup
  imports Elan_Packet FocalTech_Setup
begin

text \<open>
  The Elan touchpad driver around its input path (\<^verbatim>\<open>VoodooPS2Elan.cpp\<close>): the command layer with its
  retries and register access, detection, the query for the properties of the hardware, the switch to
  absolute mode, configuration, messages, power changes and life cycle, and the reaction to other
  pointing devices that come and go.

  A command that fails has no answer; what the code leaves in the answer buffers then is not used.
  The method \<^verbatim>\<open>injectVersionDependentProperties\<close> only publishes properties and is left out.
\<close>

section \<open>State\<close>

definition ETP_FW_ID_QUERY :: u8 where [simp]: "ETP_FW_ID_QUERY = 0x00"
definition ETP_FW_VERSION_QUERY :: u8 where [simp]: "ETP_FW_VERSION_QUERY = 0x01"
definition ETP_CAPABILITIES_QUERY :: u8 where [simp]: "ETP_CAPABILITIES_QUERY = 0x02"
definition ETP_SAMPLE_QUERY :: u8 where [simp]: "ETP_SAMPLE_QUERY = 0x03"
definition ETP_RESOLUTION_QUERY :: u8 where [simp]: "ETP_RESOLUTION_QUERY = 0x04"
definition ETP_REGISTER_READ :: u8 where [simp]: "ETP_REGISTER_READ = 0x10"
definition ETP_REGISTER_WRITE :: u8 where [simp]: "ETP_REGISTER_WRITE = 0x11"
definition ETP_REGISTER_READWRITE :: u8 where [simp]: "ETP_REGISTER_READWRITE = 0x00"
definition ETP_PS2_CUSTOM_COMMAND :: u8 where [simp]: "ETP_PS2_CUSTOM_COMMAND = 0xf8"
definition ETP_PS2_COMMAND_TRIES :: nat where [simp]: "ETP_PS2_COMMAND_TRIES = 3"
definition ETP_PS2_COMMAND_DELAY :: u32 where [simp]: "ETP_PS2_COMMAND_DELAY = 500"
definition ETP_READ_BACK_TRIES :: nat where [simp]: "ETP_READ_BACK_TRIES = 5"
definition ETP_READ_BACK_DELAY :: u32 where [simp]: "ETP_READ_BACK_DELAY = 2000"
definition ETP_R10_ABSOLUTE_MODE :: u8 where [simp]: "ETP_R10_ABSOLUTE_MODE = 0x04"
definition ETP_XMIN_V1 :: u32 where [simp]: "ETP_XMIN_V1 = 0 + 32"
definition ETP_XMAX_V1 :: u32 where [simp]: "ETP_XMAX_V1 = 576 - 32"
definition ETP_YMIN_V1 :: u32 where [simp]: "ETP_YMIN_V1 = 0 + 32"
definition ETP_YMAX_V1 :: u32 where [simp]: "ETP_YMAX_V1 = 384 - 32"
definition ETP_XMAX_V2 :: u32 where [simp]: "ETP_XMAX_V2 = 1152"
definition ETP_YMAX_V2 :: u32 where [simp]: "ETP_YMAX_V2 = 768"

definition ETP_NEW_IC_SMBUS_HOST_NOTIFY :: "u32 \<Rightarrow> bool" where
  "ETP_NEW_IC_SMBUS_HOST_NOTIFY fw_version \<longleftrightarrow> fw_version AND 0x0f2000 = 0x0f2000 \<and> fw_version AND 0x0000ff > 0"

text \<open>The notifications about other pointing devices the driver can ask for.\<close>

datatype hid_notifier = usb_hid_publish_notify | usb_hid_terminate_notify | bluetooth_hid_publish_notify | bluetooth_hid_terminate_notify

text \<open>The members beside the input path. \<open>ep_attached\<close> are the pointing devices attached
  elsewhere, \<open>ep_notifiers\<close> the notifications asked for, \<open>ep_trackpoint\<close> is the published description of the trackpoint.\<close>

record elan_driver =
  ep_input :: elan
  ep_device :: bool
  ep_cmdGate :: bool
  ep_interruptHandlerInstalled :: bool
  ep_powerControlHandlerInstalled :: bool
  ep_wakedelay :: u32
  ep_trackpointDeadzone :: u32
  ep_trackpointMultiplierX :: u32
  ep_trackpointMultiplierY :: u32
  ep_trackpointDividerX :: u32
  ep_trackpointDividerY :: u32
  ep_trackpointScrollMultiplierX :: u32
  ep_trackpointScrollMultiplierY :: u32
  ep_trackpointScrollDividerX :: u32
  ep_trackpointScrollDividerY :: u32
  ep_mouseResolution :: u32
  ep_mouseSampleRate :: u32
  ep_set_hw_resolution :: bool
  ep_usb_mouse_stops_trackpad :: bool
  ep_processusbmouse :: bool
  ep_processbluetoothmouse :: bool
  ep_attached :: "nat list option"
  ep_notifiers :: "hid_notifier list"
  ep_trackpoint :: "u32 list"

definition new_elan_driver :: "nat \<Rightarrow> elan_driver" where
  "new_elan_driver n = \<lparr>ep_input = new_elan n, ep_device = False, ep_cmdGate = False, ep_interruptHandlerInstalled = False,
     ep_powerControlHandlerInstalled = False, ep_wakedelay = 1000, ep_trackpointDeadzone = 1,
     ep_trackpointMultiplierX = 120, ep_trackpointMultiplierY = 120, ep_trackpointDividerX = 120, ep_trackpointDividerY = 120,
     ep_trackpointScrollMultiplierX = 120, ep_trackpointScrollMultiplierY = 120, ep_trackpointScrollDividerX = 120,
     ep_trackpointScrollDividerY = 120, ep_mouseResolution = 0x3, ep_mouseSampleRate = 200, ep_set_hw_resolution = False,
     ep_usb_mouse_stops_trackpad = True, ep_processusbmouse = True, ep_processbluetoothmouse = True, ep_attached = None, ep_notifiers = [],
     ep_trackpoint = []\<rparr>"

section \<open>Commands\<close>

definition elan_ps2_command :: "'s submit \<Rightarrow> nat \<Rightarrow> u8 \<Rightarrow> 's \<Rightarrow> (u8 list option \<times> 's) option" where
  "elan_ps2_command submit n cmd w = do {
     (r, w) \<leftarrow> submit (TPS2Request (map send_byte [cmd] @ replicate n read_byte)) w;
     Some (if unat (commandsCount r) = 1 + n then Some (map inOrOut (take n (drop 1 (commands r)))) else None, w)
   }"

text \<open>The retrying version.\<close>

fun elantech_ps2_command ::
  "'s submit \<Rightarrow> (u32 \<Rightarrow> 's \<Rightarrow> 's) \<Rightarrow> nat \<Rightarrow> nat \<Rightarrow> u8 \<Rightarrow> 's \<Rightarrow> (u8 list option \<times> 's) option" where
  "elantech_ps2_command submit sleep 0 n cmd w = Some (None, w)"
| "elantech_ps2_command submit sleep (Suc tries) n cmd w = do {
     (param, w) \<leftarrow> elan_ps2_command submit n cmd w;
     if param \<noteq> None then Some (param, w)
     else elantech_ps2_command submit sleep tries n cmd (sleep ETP_PS2_COMMAND_DELAY w)
   }"

definition elan_sliced_bytes :: "u8 \<Rightarrow> u8 list" where
  "elan_sliced_bytes cmd = kDP_SetMouseScaling1To1 # concat (map (\<lambda>i. [kDP_SetMouseResolution, drop_bit i cmd AND 3]) [6, 4, 2, 0])"

definition ps2_sliced_command :: "'s submit \<Rightarrow> u8 \<Rightarrow> 's \<Rightarrow> (bool \<times> 's) option" where
  "ps2_sliced_command submit cmd w = do {
     (r, w) \<leftarrow> submit (TPS2Request (map send_byte (elan_sliced_bytes cmd))) w;
     Some (unat (commandsCount r) = 9, w)
   }"

text \<open>The code chains steps with a short circuiting disjunction: the first failure ends the chain.\<close>

fun elan_chain :: "('s \<Rightarrow> (bool \<times> 's) option) list \<Rightarrow> 's \<Rightarrow> (bool \<times> 's) option" where
  "elan_chain [] w = Some (True, w)"
| "elan_chain (f # fs) w = do { (ok, w) \<leftarrow> f w; if ok then elan_chain fs w else Some (False, w) }"

definition elan_answered :: "(u8 list option \<times> 's) option \<Rightarrow> (bool \<times> 's) option" where
  "elan_answered = map_option (\<lambda>(p, w). (p \<noteq> None, w))"

definition elan_then ::
  "('s \<Rightarrow> (bool \<times> 's) option) list \<Rightarrow> ('s \<Rightarrow> (u8 list option \<times> 's) option) \<Rightarrow> 's \<Rightarrow> (u8 list option \<times> 's) option" where
  "elan_then fs g w = do { (ok, w) \<leftarrow> elan_chain fs w; if ok then g w else Some (None, w) }"

definition synaptics_send_cmd :: "'s submit \<Rightarrow> u8 \<Rightarrow> 's \<Rightarrow> (u8 list option \<times> 's) option" where
  "synaptics_send_cmd submit c = elan_then [ps2_sliced_command submit c] (elan_ps2_command submit 3 kDP_GetMouseInformation)"

definition elantech_send_cmd :: "'s submit \<Rightarrow> u8 \<Rightarrow> 's \<Rightarrow> (u8 list option \<times> 's) option" where
  "elantech_send_cmd submit c = elan_then
     [elan_answered \<circ> elan_ps2_command submit 0 ETP_PS2_CUSTOM_COMMAND, elan_answered \<circ> elan_ps2_command submit 0 c]
     (elan_ps2_command submit 3 kDP_GetMouseInformation)"

definition elan_send_cmd :: "'s submit \<Rightarrow> elantech_device_info \<Rightarrow> u8 \<Rightarrow> 's \<Rightarrow> (u8 list option \<times> 's) option" where
  "elan_send_cmd submit info c w = (if ei_hw_version info \<ge> 3 then elantech_send_cmd submit c w else synaptics_send_cmd submit c w)"

section \<open>Detection\<close>

definition elantech_is_signature_valid :: "u8 list \<Rightarrow> bool" where
  "elantech_is_signature_valid param =
     (if param ! 0 = 0 then False
      else if param ! 1 = 0 then True
      else if param ! 0 AND 0x0f \<ge> 0x06 \<and> param ! 1 AND 0xaf = 0x0f \<and> param ! 2 < 40 then True
      else param ! 2 \<notin> set [200, 100, 80, 60, 40, 20, 10])"

definition elantech_convert_res :: "u32 \<Rightarrow> u32" where
  "elantech_convert_res val = (val * 10 + 790) * 10 div 254"

definition elantech_get_resolution_v4 :: "'s submit \<Rightarrow> elantech_device_info \<Rightarrow> 's \<Rightarrow> (elantech_device_info \<times> 's) option" where
  "elantech_get_resolution_v4 submit info w = do {
     (param, w) \<leftarrow> elantech_send_cmd submit ETP_RESOLUTION_QUERY w;
     Some (case param of
         None \<Rightarrow> info
       | Some param \<Rightarrow> info\<lparr>ei_x_res := elantech_convert_res (ucast (param ! 1 AND 0x0f)),
           ei_y_res := elantech_convert_res (ucast (drop_bit 4 (param ! 1 AND 0xf0))), ei_bus := ucast (param ! 2)\<rparr>, w)
   }"

definition elantechDetect :: "'s submit \<Rightarrow> 's \<Rightarrow> (bool \<times> 's) option" where
  "elantechDetect submit w = do {
     (param, w) \<leftarrow> elan_then (map (\<lambda>cmd. elan_answered \<circ> elan_ps2_command submit 0 cmd)
         [kDP_SetDefaults, kDP_SetDefaultsAndDisable, kDP_SetMouseScaling1To1, kDP_SetMouseScaling1To1, kDP_SetMouseScaling1To1])
       (elan_ps2_command submit 3 kDP_GetMouseInformation) w;
     case param of
       None \<Rightarrow> Some (False, w)
     | Some param \<Rightarrow>
         if param ! 0 \<noteq> 0x3c \<or> param ! 1 \<noteq> 0x03 \<or> param ! 2 \<noteq> 0xc8 \<and> param ! 2 \<noteq> 0x00 then Some (False, w)
         else do {
           (param, w) \<leftarrow> synaptics_send_cmd submit ETP_FW_VERSION_QUERY w;
           Some (case param of None \<Rightarrow> False | Some param \<Rightarrow> elantech_is_signature_valid param, w)
         }
   }"

text \<open>The hardware version from the firmware version; \<open>None\<close> if it is not known.\<close>

definition elan_hw_version :: "u32 \<Rightarrow> nat option" where
  "elan_hw_version fw =
     (let ver = drop_bit 16 (fw AND 0x0f0000) in
      if fw < 0x020030 \<or> fw = 0x020600 then Some 1
      else if ver = 2 \<or> ver = 4 then Some 2
      else if ver = 5 then Some 3
      else if 6 \<le> ver \<and> ver \<le> 15 then Some 4
      else None)"

definition elantechSetProperties :: "elan_driver \<Rightarrow> bool \<times> elan_driver" where
  "elantechSetProperties d =
     (let s = ep_input d; fw = ei_fw_version (el_info s) in
      case elan_hw_version fw of
        None \<Rightarrow> (False, d)
      | Some hv \<Rightarrow>
          (True, d\<lparr>ep_input := s\<lparr>el_packetLength := (if hv = 1 then 4 else 6),
             el_info := (el_info s)\<lparr>ei_hw_version := hv, ei_paritycheck := True,
               ei_jumpy_cursor := (fw = 0x020022 \<or> fw = 0x020600),
               ei_reports_pressure := (ei_reports_pressure (el_info s) \<or> hv > 1 \<and> fw \<ge> 0x020800),
               ei_crc_enabled := (fw AND 0x4000 = 0x4000), ei_set_hw_resolution := ep_set_hw_resolution d\<rparr>\<rparr>\<rparr>))"

definition trunc_half :: "int \<Rightarrow> int" where
  "trunc_half n = (if n < 0 then - (- n div 2) else n div 2)"

text \<open>The size of the pad, per hardware version. The first component tells if the query succeeded.\<close>

definition elan_range_v2 :: "'s submit \<Rightarrow> elantech_device_info \<Rightarrow> 's \<Rightarrow> (bool \<times> elantech_device_info \<times> 's) option" where
  "elan_range_v2 submit info w =
     (let fw = ei_fw_version info; cap = ei_capabilities info in
      if fw = 0x020800 \<or> fw = 0x020b00 \<or> fw = 0x020030
      then Some (True, info\<lparr>ei_x_min := 0, ei_y_min := 0, ei_x_max := ETP_XMAX_V2, ei_y_max := ETP_YMAX_V2\<rparr>, w)
      else do {
        (param, w) \<leftarrow> elan_send_cmd submit info ETP_FW_ID_QUERY w;
        case param of
          None \<Rightarrow> Some (False, info, w)
        | Some param \<Rightarrow>
            let i = (if fw > 0x020800 \<and> fw < 0x020900 then 1 else 2) :: int in
            if drop_bit 16 fw = 0x14 \<and> param ! 1 AND 0x10 \<noteq> 0
            then do {
              (param, w) \<leftarrow> elan_send_cmd submit info ETP_SAMPLE_QUERY w;
              Some (case param of
                  None \<Rightarrow> (False, info, w)
                | Some param \<Rightarrow> (True, info\<lparr>
                    ei_x_max := word_of_int (trunc_half ((uint (cap ! 1) - i) * uint (param ! 1))),
                    ei_y_max := word_of_int (trunc_half ((uint (cap ! 2) - i) * uint (param ! 2)))\<rparr>, w))
            }
            else if fw = 0x040216 then Some (True, info\<lparr>ei_x_max := 819, ei_y_max := 405\<rparr>, w)
            else if fw = 0x040219 \<or> fw = 0x040215 then Some (True, info\<lparr>ei_x_max := 900, ei_y_max := 500\<rparr>, w)
            else Some (True, info\<lparr>ei_x_max := word_of_int ((uint (cap ! 1) - i) * 64),
                                  ei_y_max := word_of_int ((uint (cap ! 2) - i) * 64)\<rparr>, w)
      })"

definition elan_range_id :: "u8 list \<Rightarrow> elantech_device_info \<Rightarrow> elantech_device_info" where
  "elan_range_id param info = info\<lparr>ei_x_max := push_bit 8 (ucast (0x0f AND param ! 0)) OR ucast (param ! 1),
     ei_y_max := push_bit 4 (ucast (0xf0 AND param ! 0)) OR ucast (param ! 2)\<rparr>"

definition elan_traces_v4 :: "elantech_device_info \<Rightarrow> bool \<times> elantech_device_info" where
  "elan_traces_v4 info =
     (let traces = ei_capabilities info ! 1 in
      if traces < 2 \<or> ucast traces > ei_x_max info then (False, info)
      else let info = info\<lparr>ei_width := ei_x_max info div (ucast traces - 1), ei_x_traces := ucast traces\<rparr>;
               traces = ei_capabilities info ! 2
           in (True, if traces \<ge> 2 \<and> ucast traces \<le> ei_y_max info then info\<lparr>ei_y_traces := ucast traces\<rparr> else info))"

definition elan_range :: "'s submit \<Rightarrow> elantech_device_info \<Rightarrow> 's \<Rightarrow> (bool \<times> elantech_device_info \<times> 's) option" where
  "elan_range submit info w =
     (let hv = ei_hw_version info in
      if hv = 1
      then Some (True, info\<lparr>ei_x_min := ETP_XMIN_V1, ei_y_min := ETP_YMIN_V1, ei_x_max := ETP_XMAX_V1, ei_y_max := ETP_YMAX_V1\<rparr>, w)
      else if hv = 2 then elan_range_v2 submit info w
      else if hv = 3 \<or> hv = 4
      then do {
        (param, w) \<leftarrow> elan_send_cmd submit info ETP_FW_ID_QUERY w;
        Some (case param of
            None \<Rightarrow> (False, info, w)
          | Some param \<Rightarrow>
              let info = elan_range_id param info;
                  (ok, info) = (if hv = 3 then (True, info) else elan_traces_v4 info)
              in (ok, info, w))
      }
      else Some (True, info, w))"

definition elan_set_info :: "elantech_device_info \<Rightarrow> elan_driver \<Rightarrow> elan_driver" where
  "elan_set_info info d = d\<lparr>ep_input := (ep_input d)\<lparr>el_info := info\<rparr>\<rparr>"

definition elan_query_samples :: "'s submit \<Rightarrow> elantech_device_info \<Rightarrow> 's \<Rightarrow> (elantech_device_info option \<times> 's) option" where
  "elan_query_samples submit info w =
     (if ei_hw_version info = 1 then Some (Some info, w)
      else map_option (\<lambda>(param, w). (map_option (\<lambda>param. info\<lparr>ei_samples := param\<rparr>) param, w))
             (elan_send_cmd submit info ETP_SAMPLE_QUERY w))"

definition elan_finish_info :: "elantech_device_info \<Rightarrow> elantech_device_info" where
  "elan_finish_info info =
     (let bp = (ei_fw_version info AND 0x001000 \<noteq> 0)
      in info\<lparr>ei_is_buttonpad := bp, ei_has_middle_button := (ETP_NEW_IC_SMBUS_HOST_NOTIFY (ei_fw_version info) \<and> \<not> bp)\<rparr>)"

text \<open>The second half of the query: resolution, size and buttons.\<close>

definition elan_query_rest :: "'s submit \<Rightarrow> elantech_device_info \<Rightarrow> elan_driver \<Rightarrow> 's \<Rightarrow> (bool \<times> elan_driver \<times> 's) option" where
  "elan_query_rest submit info d w = do {
     let info = info\<lparr>ei_has_trackpoint := (ei_capabilities info ! 0 AND 0x80 = 0x80), ei_x_res := 31, ei_y_res := 31\<rparr>;
     (info, w) \<leftarrow> (if ei_hw_version info = 4 then elantech_get_resolution_v4 submit info w else Some (info, w));
     (ok, info, w) \<leftarrow> elan_range submit info w;
     Some (ok, elan_set_info (if ok then elan_finish_info info else info) d, w)
   }"

text \<open>What is already known when a query fails stays in the driver, which then is not started.\<close>

definition elantechQueryInfo :: "'s submit \<Rightarrow> elan_driver \<Rightarrow> 's \<Rightarrow> (bool \<times> elan_driver \<times> 's) option" where
  "elantechQueryInfo submit d w = do {
     (param, w) \<leftarrow> synaptics_send_cmd submit ETP_FW_VERSION_QUERY w;
     case param of None \<Rightarrow> Some (False, d, w) | Some param \<Rightarrow> do {
       let fw = push_bit 16 (ucast (param ! 0)) OR push_bit 8 (ucast (param ! 1)) OR ucast (param ! 2);
       let (ok, d) = elantechSetProperties (elan_set_info ((el_info (ep_input d))\<lparr>ei_fw_version := fw\<rparr>) d);
       if \<not> ok then Some (False, d, w) else do {
         let info = el_info (ep_input d);
         (param, w) \<leftarrow> elan_send_cmd submit info ETP_CAPABILITIES_QUERY w;
         case param of None \<Rightarrow> Some (False, d, w) | Some param \<Rightarrow> do {
           let info = info\<lparr>ei_capabilities := param\<rparr>;
           (sampled, w) \<leftarrow> elan_query_samples submit info w;
           case sampled of None \<Rightarrow> Some (False, elan_set_info info d, w) | Some info \<Rightarrow>
             if ei_samples info ! 1 = 0x74 \<and> ei_hw_version info = 3 then Some (False, elan_set_info info d, w)
             else elan_query_rest submit info d w
         }
       }
     }
   }"

section \<open>Registers and absolute mode\<close>

definition elan_custom :: "'s submit \<Rightarrow> (u32 \<Rightarrow> 's \<Rightarrow> 's) \<Rightarrow> u8 list \<Rightarrow> ('s \<Rightarrow> (bool \<times> 's) option) list" where
  "elan_custom submit sleep bs = map (\<lambda>b. elan_answered \<circ> elantech_ps2_command submit sleep ETP_PS2_COMMAND_TRIES 0 b) bs"

definition elan_reg_ok :: "u8 \<Rightarrow> bool" where
  "elan_reg_ok reg \<longleftrightarrow> \<not> (reg < 0x07 \<or> reg > 0x26) \<and> \<not> (reg > 0x11 \<and> reg < 0x20)"

definition elantechReadReg ::
  "'s submit \<Rightarrow> (u32 \<Rightarrow> 's \<Rightarrow> 's) \<Rightarrow> nat \<Rightarrow> u8 \<Rightarrow> 's \<Rightarrow> (u8 option \<times> 's) option" where
  "elantechReadReg submit sleep hv reg w =
     (if \<not> elan_reg_ok reg then Some (None, w)
      else do {
        (param, w) \<leftarrow>
          (if hv = 1 then elan_then [ps2_sliced_command submit ETP_REGISTER_READ, ps2_sliced_command submit reg]
             (elan_ps2_command submit 3 kDP_GetMouseInformation) w
           else if hv = 2 then elan_then (elan_custom submit sleep [ETP_PS2_CUSTOM_COMMAND, ETP_REGISTER_READ, ETP_PS2_CUSTOM_COMMAND, reg])
             (elantech_ps2_command submit sleep ETP_PS2_COMMAND_TRIES 3 kDP_GetMouseInformation) w
           else if hv = 3 \<or> hv = 4 then elan_then (elan_custom submit sleep [ETP_PS2_CUSTOM_COMMAND, ETP_REGISTER_READWRITE, ETP_PS2_CUSTOM_COMMAND, reg])
             (elantech_ps2_command submit sleep ETP_PS2_COMMAND_TRIES 3 kDP_GetMouseInformation) w
           else Some (Some [0, 0, 0], w));
        Some (map_option (\<lambda>param. if hv \<noteq> 4 then param ! 0 else param ! 1) param, w)
      })"

definition elantechWriteReg ::
  "'s submit \<Rightarrow> (u32 \<Rightarrow> 's \<Rightarrow> 's) \<Rightarrow> nat \<Rightarrow> u8 \<Rightarrow> u8 \<Rightarrow> 's \<Rightarrow> (bool \<times> 's) option" where
  "elantechWriteReg submit sleep hv reg val w =
     (if \<not> elan_reg_ok reg then Some (False, w)
      else if hv = 1
      then elan_chain [ps2_sliced_command submit ETP_REGISTER_WRITE, ps2_sliced_command submit reg, ps2_sliced_command submit val,
             elan_answered \<circ> elan_ps2_command submit 0 kDP_SetMouseScaling1To1] w
      else if hv = 2
      then elan_chain (elan_custom submit sleep [ETP_PS2_CUSTOM_COMMAND, ETP_REGISTER_WRITE, ETP_PS2_CUSTOM_COMMAND, reg,
             ETP_PS2_CUSTOM_COMMAND, val, kDP_SetMouseScaling1To1]) w
      else if hv = 3
      then elan_chain (elan_custom submit sleep [ETP_PS2_CUSTOM_COMMAND, ETP_REGISTER_READWRITE, ETP_PS2_CUSTOM_COMMAND, reg,
             ETP_PS2_CUSTOM_COMMAND, val, kDP_SetMouseScaling1To1]) w
      else if hv = 4
      then elan_chain (elan_custom submit sleep [ETP_PS2_CUSTOM_COMMAND, ETP_REGISTER_READWRITE, ETP_PS2_CUSTOM_COMMAND, reg,
             ETP_PS2_CUSTOM_COMMAND, ETP_REGISTER_READWRITE, ETP_PS2_CUSTOM_COMMAND, val, kDP_SetMouseScaling1To1]) w
      else Some (True, w))"

fun elan_readback ::
  "'s submit \<Rightarrow> (u32 \<Rightarrow> 's \<Rightarrow> 's) \<Rightarrow> nat \<Rightarrow> nat \<Rightarrow> 's \<Rightarrow> (u8 option \<times> 's) option" where
  "elan_readback submit sleep 0 hv w = Some (None, w)"
| "elan_readback submit sleep (Suc tries) hv w = do {
     (val, w) \<leftarrow> elantechReadReg submit sleep hv 0x10 w;
     if val \<noteq> None then Some (val, w) else elan_readback submit sleep tries hv (sleep ETP_READ_BACK_DELAY w)
   }"

definition elan_registers :: "elantech_device_info \<Rightarrow> elantech_data \<Rightarrow> elantech_data" where
  "elan_registers info e =
     (let hv = ei_hw_version info in
      if hv = 1 then e\<lparr>ed_reg_10 := 0x16, ed_reg_11 := 0x8f\<rparr>
      else if hv = 2 then e\<lparr>ed_reg_10 := 0x54, ed_reg_11 := 0x88, ed_reg_21 := 0x60\<rparr>
      else if hv = 3 then e\<lparr>ed_reg_10 := (if ei_set_hw_resolution info then 0x0b else 0x01)\<rparr>
      else if hv = 4 then e\<lparr>ed_reg_07 := 0x01\<rparr>
      else e)"

definition elan_writes :: "nat \<Rightarrow> elantech_data \<Rightarrow> (u8 \<times> u8) list" where
  "elan_writes hv e =
     (if hv = 1 then [(0x10, ed_reg_10 e), (0x11, ed_reg_11 e)]
      else if hv = 2 then [(0x10, ed_reg_10 e), (0x11, ed_reg_11 e), (0x21, ed_reg_21 e)]
      else if hv = 3 then [(0x10, ed_reg_10 e)]
      else if hv = 4 then [(0x07, ed_reg_07 e)]
      else [])"

definition elantechSetAbsoluteMode ::
  "'s submit \<Rightarrow> (u32 \<Rightarrow> 's \<Rightarrow> 's) \<Rightarrow> elan \<Rightarrow> 's \<Rightarrow> (bool \<times> elan \<times> 's) option" where
  "elantechSetAbsoluteMode submit sleep s w = do {
     let hv = ei_hw_version (el_info s);
     let s = s\<lparr>el_etd := elan_registers (el_info s) (el_etd s)\<rparr>;
     (ok, w) \<leftarrow> elan_chain (map (\<lambda>(reg, val). elantechWriteReg submit sleep hv reg val) (elan_writes hv (el_etd s))) w;
     if hv = 4 \<or> \<not> ok then Some (ok, s, w)
     else do {
       (val, w) \<leftarrow> elan_readback submit sleep ETP_READ_BACK_TRIES hv w;
       Some (case val of None \<Rightarrow> False | Some val \<Rightarrow> \<not> (hv = 1 \<and> val AND ETP_R10_ABSOLUTE_MODE = 0), s, w)
     }
   }"

definition elan_parity_step :: "nat \<Rightarrow> u8 list \<Rightarrow> u8 list" where
  "elan_parity_step i ps = ps[i := ps ! (i AND (i - 1)) XOR 1]"

definition elan_parity_table :: "u8 list \<Rightarrow> u8 list" where
  "elan_parity_table ps = fold elan_parity_step [1..<256] (ps[0 := 1])"

definition elantechSetupPS2 ::
  "'s submit \<Rightarrow> (u32 \<Rightarrow> 's \<Rightarrow> 's) \<Rightarrow> elan_driver \<Rightarrow> 's \<Rightarrow> (bool \<times> elan_driver \<times> 's) option" where
  "elantechSetupPS2 submit sleep d w = do {
     let s = ep_input d;
     let s = s\<lparr>el_etd := (el_etd s)\<lparr>ed_parity := elan_parity_table (ed_parity (el_etd s))\<rparr>\<rparr>;
     (ok, s, w) \<leftarrow> elantechSetAbsoluteMode submit sleep s w;
     if \<not> ok then Some (False, d\<lparr>ep_input := s\<rparr>, w)
     else do {
       s \<leftarrow> elan_publish s;
       (_, w) \<leftarrow> submit (TPS2Request (map send_byte [kDP_SetDefaultsAndDisable, kDP_SetMouseSampleRate, ucast (ep_mouseSampleRate d),
         kDP_SetMouseResolution, ucast (ep_mouseResolution d), kDP_SetMouseScaling1To1, kDP_Enable])) w;
       Some (True, d\<lparr>ep_input := s\<rparr>, w)
     }
   }"

definition elan_resetMouse :: "'s submit \<Rightarrow> 's \<Rightarrow> 's option" where
  "elan_resetMouse submit w = map_option snd (elan_ps2_command submit 2 kDP_Reset w)"

definition elan_setTouchPadEnable :: "'s submit \<Rightarrow> bool \<Rightarrow> 's \<Rightarrow> 's option" where
  "elan_setTouchPadEnable submit enable w =
     map_option snd (elan_ps2_command submit 0 (if enable then kDP_Enable else kDP_SetDefaultsAndDisable) w)"

section \<open>Configuration\<close>

definition set_lowbit :: "dict \<Rightarrow> string \<Rightarrow> (bool \<Rightarrow> 's \<Rightarrow> 's) \<Rightarrow> 's \<Rightarrow> 's" where
  "set_lowbit config k f s = (case asNumber (getObject k config) of
     Some n \<Rightarrow> f (n AND 1 \<noteq> 0) s
   | None \<Rightarrow> (case asBoolean (getObject k config) of Some b \<Rightarrow> f b s | None \<Rightarrow> s))"

definition setTrackpointProperties :: "elan_driver \<Rightarrow> elan_driver" where
  "setTrackpointProperties d = d\<lparr>ep_trackpoint := [ep_trackpointDeadzone d, 3, ep_trackpointMultiplierX d, ep_trackpointMultiplierY d,
     ep_trackpointDividerX d, ep_trackpointDividerY d, ep_trackpointScrollMultiplierX d, ep_trackpointScrollMultiplierY d,
     ep_trackpointScrollDividerX d, ep_trackpointScrollDividerY d]\<rparr>"

definition elan_setParamPropertiesGated :: "dict option \<Rightarrow> elan_driver \<Rightarrow> elan_driver" where
  "elan_setParamPropertiesGated config d = (case config of None \<Rightarrow> d | Some config \<Rightarrow>
     (let d = set_number config ''WakeDelay'' (\<lambda>n d. d\<lparr>ep_wakedelay := ucast n\<rparr>) d;
          d = set_number config ''TrackpointDeadzone'' (\<lambda>n d. d\<lparr>ep_trackpointDeadzone := ucast n\<rparr>) d;
          d = set_number config ''TrackpointMultiplierX'' (\<lambda>n d. d\<lparr>ep_trackpointMultiplierX := ucast n\<rparr>) d;
          d = set_number config ''TrackpointMultiplierY'' (\<lambda>n d. d\<lparr>ep_trackpointMultiplierY := ucast n\<rparr>) d;
          d = set_number config ''TrackpointDividerX'' (\<lambda>n d. d\<lparr>ep_trackpointDividerX := ucast n\<rparr>) d;
          d = set_number config ''TrackpointDividerY'' (\<lambda>n d. d\<lparr>ep_trackpointDividerY := ucast n\<rparr>) d;
          d = set_number config ''TrackpointScrollMultiplierX'' (\<lambda>n d. d\<lparr>ep_trackpointScrollMultiplierX := ucast n\<rparr>) d;
          d = set_number config ''TrackpointScrollMultiplierY'' (\<lambda>n d. d\<lparr>ep_trackpointScrollMultiplierY := ucast n\<rparr>) d;
          d = set_number config ''TrackpointScrollDividerY'' (\<lambda>n d. d\<lparr>ep_trackpointScrollDividerX := ucast n\<rparr>) d;
          d = set_number config ''TrackpointScrollDividerY'' (\<lambda>n d. d\<lparr>ep_trackpointScrollDividerY := ucast n\<rparr>) d;
          d = set_number config ''MouseResolution'' (\<lambda>n d. d\<lparr>ep_mouseResolution := ucast n\<rparr>) d;
          d = set_number config ''MouseSampleRate'' (\<lambda>n d. d\<lparr>ep_mouseSampleRate := ucast n\<rparr>) d;
          d = set_number config ''ForceTouchMode'' (\<lambda>n d. d\<lparr>ep_input := (ep_input d)\<lparr>el_forceTouchMode := ucast n\<rparr>\<rparr>) d;
          d = set_number config ''QuietTimeAfterTyping'' (\<lambda>n d. d\<lparr>ep_input := (ep_input d)\<lparr>el_maxaftertyping := n\<rparr>\<rparr>) d;
          d = set_boolean config ''ProcessUSBMouseStopsTrackpad'' (\<lambda>b d. d\<lparr>ep_processusbmouse := b\<rparr>) d;
          d = set_boolean config ''ProcessBluetoothMouseStopsTrackpad'' (\<lambda>b d. d\<lparr>ep_processbluetoothmouse := b\<rparr>) d;
          d = set_boolean config ''SetHwResolution'' (\<lambda>b d. d\<lparr>ep_set_hw_resolution := b\<rparr>) d;
          d = set_lowbit config ''USBMouseStopsTrackpad'' (\<lambda>b d. d\<lparr>ep_usb_mouse_stops_trackpad := b\<rparr>) d;
          d = (case ep_attached d of
                 Some (_ # _) \<Rightarrow> d\<lparr>ep_input := (ep_input d)\<lparr>el_ignoreall := ep_usb_mouse_stops_trackpad d\<rparr>\<rparr>
               | _ \<Rightarrow> d)
      in setTrackpointProperties d))"

definition elan_setProperties :: "dict option \<Rightarrow> elan_driver \<Rightarrow> elan_driver" where
  "elan_setProperties props d = (if props \<noteq> None \<and> ep_cmdGate d then elan_setParamPropertiesGated props d else d)"

section \<open>Other pointing devices\<close>

text \<open>The class codes of Bluetooth devices come from the headers of the system.\<close>

record bt_codes =
  MajorPeripheral :: u32
  Peripheral1Pointing :: u32
  Peripheral1Combo :: u32
  Peripheral2Unclassified :: u32
  Peripheral2DigitizerTablet :: u32
  Peripheral2DigitalPen :: u32

definition registerHIDPointerNotifications :: "elan_driver \<Rightarrow> elan_driver" where
  "registerHIDPointerNotifications d = d\<lparr>ep_notifiers :=
     (if ep_processusbmouse d then [usb_hid_publish_notify, usb_hid_terminate_notify] else []) @
     (if ep_processbluetoothmouse d then [bluetooth_hid_publish_notify, bluetooth_hid_terminate_notify] else [])\<rparr>"

definition unregisterHIDPointerNotifications :: "elan_driver \<Rightarrow> elan_driver option" where
  "unregisterHIDPointerNotifications d =
     (if ep_attached d = None then None else Some (d\<lparr>ep_notifiers := [], ep_attached := Some []\<rparr>))"

definition bt_pointer :: "bt_codes \<Rightarrow> u32 \<Rightarrow> bool" where
  "bt_pointer bt classOfDevice \<longleftrightarrow>
     (let deviceClassMajor = drop_bit 8 (classOfDevice AND 0x1F00);
          deviceClassMinor = drop_bit 2 (classOfDevice AND 0xFF);
          deviceClassMinor1 = deviceClassMinor AND 0x30;
          deviceClassMinor2 = deviceClassMinor AND 0x0F
      in deviceClassMajor = MajorPeripheral bt \<and>
         (deviceClassMinor1 = Peripheral1Pointing bt \<or> deviceClassMinor1 = Peripheral1Combo bt) \<and>
         (deviceClassMinor2 = Peripheral2Unclassified bt \<or> deviceClassMinor2 = Peripheral2DigitizerTablet bt \<or>
          deviceClassMinor2 = Peripheral2DigitalPen bt))"

definition elan_attach_set :: "bt_codes \<Rightarrow> nat \<Rightarrow> u32 option \<Rightarrow> hid_notifier \<Rightarrow> nat list \<Rightarrow> nat list" where
  "elan_attach_set bt service classOfDevice notifier ds = (case notifier of
     usb_hid_publish_notify \<Rightarrow> List.insert service ds
   | usb_hid_terminate_notify \<Rightarrow> removeAll service ds
   | bluetooth_hid_publish_notify \<Rightarrow>
       (case classOfDevice of None \<Rightarrow> ds | Some c \<Rightarrow> if bt_pointer bt c then List.insert service ds else ds)
   | bluetooth_hid_terminate_notify \<Rightarrow> removeAll service ds)"

definition elan_notificationHIDAttachedHandlerGated ::
  "bt_codes \<Rightarrow> nat \<Rightarrow> u32 option \<Rightarrow> hid_notifier \<Rightarrow> elan_driver \<Rightarrow> elan_driver option" where
  "elan_notificationHIDAttachedHandlerGated bt service classOfDevice notifier d = (case ep_attached d of
     None \<Rightarrow> None
   | Some ds \<Rightarrow>
       let ds = elan_attach_set bt service classOfDevice notifier ds;
           publish = (notifier = usb_hid_publish_notify \<or> notifier = bluetooth_hid_publish_notify);
           d = d\<lparr>ep_attached := Some ds\<rparr>
       in Some (if publish \<and> ep_usb_mouse_stops_trackpad d \<and> ds \<noteq> [] then d\<lparr>ep_input := (ep_input d)\<lparr>el_ignoreall := True\<rparr>\<rparr>
          else if \<not> publish \<and> ep_usb_mouse_stops_trackpad d \<and> ds = [] then d\<lparr>ep_input := (ep_input d)\<lparr>el_ignoreall := False\<rparr>\<rparr>
          else d))"

definition elan_notificationHIDAttachedHandler ::
  "bt_codes \<Rightarrow> nat \<Rightarrow> u32 option \<Rightarrow> hid_notifier \<Rightarrow> elan_driver \<Rightarrow> elan_driver option" where
  "elan_notificationHIDAttachedHandler bt service classOfDevice notifier d =
     (if ep_cmdGate d then elan_notificationHIDAttachedHandlerGated bt service classOfDevice notifier d else Some d)"

section \<open>Messages, power and life cycle\<close>

text \<open>Stale bytes are dropped, then the pad is reset, set up and enabled.\<close>

definition elan_restart :: "'s submit \<Rightarrow> (u32 \<Rightarrow> 's \<Rightarrow> 's) \<Rightarrow> elan_driver \<Rightarrow> 's \<Rightarrow> (elan_driver \<times> 's) option" where
  "elan_restart submit sleep d w = do {
     let d = d\<lparr>ep_input := (ep_input d)\<lparr>el_packetByteCount := 0, el_ringBuffer := ring_reset (el_ringBuffer (ep_input d))\<rparr>\<rparr>;
     w \<leftarrow> elan_resetMouse submit w;
     (_, d, w) \<leftarrow> elantechSetupPS2 submit sleep d w;
     w \<leftarrow> elan_setTouchPadEnable submit True w;
     Some (d, w)
   }"

definition elan_setDevicePowerState ::
  "'s submit \<Rightarrow> (u32 \<Rightarrow> 's \<Rightarrow> 's) \<Rightarrow> PS2PowerWhat \<Rightarrow> elan_driver \<Rightarrow> 's \<Rightarrow> (elan_driver \<times> 's) option" where
  "elan_setDevicePowerState submit sleep whatToDo d w = (case whatToDo of
     kPS2C_DisableDevice \<Rightarrow> map_option (Pair d) (elan_setTouchPadEnable submit False w)
   | kPS2C_EnableDevice \<Rightarrow> elan_restart submit sleep d (sleep (ep_wakedelay d) w))"

text \<open>The first component is the answer to \<^verbatim>\<open>kPS2M_getDisableTouchpad\<close>.\<close>

definition elan_receive ::
  "'s submit \<Rightarrow> (u32 \<Rightarrow> 's \<Rightarrow> 's) \<Rightarrow> PS2Message \<Rightarrow> elan_driver \<Rightarrow> 's \<Rightarrow> (bool option \<times> elan_driver \<times> 's) option" where
  "elan_receive submit sleep msg d w = (case msg of
     kPS2M_getDisableTouchpad \<Rightarrow> Some (Some (elan_getDisableTouchpad (ep_input d)), d, w)
   | kPS2M_setDisableTouchpad enable \<Rightarrow> Some (None, d\<lparr>ep_input := elan_setDisableTouchpad enable (ep_input d)\<rparr>, w)
   | kPS2M_resetTouchpad reqCode \<Rightarrow>
       if reqCode = 1 then do {
         w \<leftarrow> elan_setTouchPadEnable submit False w;
         (d, w) \<leftarrow> elan_restart submit sleep (d\<lparr>ep_input := (ep_input d)\<lparr>el_ignoreall := False\<rparr>\<rparr>) (sleep (ep_wakedelay d) w);
         Some (None, d, w)
       } else Some (None, d, w)
   | kPS2M_notifyKeyTime t \<Rightarrow> Some (None, d\<lparr>ep_input := elan_notifyKeyTime t (ep_input d)\<rparr>, w)
   | _ \<Rightarrow> Some (None, d, w))"

definition elan_handleOpen :: "bool \<Rightarrow> elan_driver \<Rightarrow> bool \<times> elan_driver" where
  "elan_handleOpen isVoodooInput d =
     (if isVoodooInput then (True, d\<lparr>ep_input := (ep_input d)\<lparr>el_voodooInput := True\<rparr>\<rparr>) else (False, d))"

definition elan_handleClose :: "bool \<Rightarrow> elan_driver \<Rightarrow> elan_driver" where
  "elan_handleClose isClient d = (if isClient then d\<lparr>ep_input := (ep_input d)\<lparr>el_voodooInput := False\<rparr>\<rparr> else d)"

definition elan_probe ::
  "'s submit \<Rightarrow> bool \<Rightarrow> dict option \<Rightarrow> elan_driver \<Rightarrow> 's \<Rightarrow> (bool \<times> elan_driver \<times> 's) option" where
  "elan_probe submit super config d w =
     (if \<not> super then Some (False, d, w)
      else if Option.bind config (\<lambda>c. asBoolean (getObject ''DisableDevice'' c)) = Some True
      then Some (False, d\<lparr>ep_device := False\<rparr>, w)
      else do {
        let d = elan_setParamPropertiesGated config (d\<lparr>ep_device := True\<rparr>);
        w \<leftarrow> elan_resetMouse submit w;
        (detected, w) \<leftarrow> elantechDetect submit w;
        if \<not> detected then Some (False, d, w)
        else do {
          w \<leftarrow> elan_resetMouse submit w;
          (ok, d, w) \<leftarrow> elantechQueryInfo submit d w;
          Some (ok, if ok then d\<lparr>ep_device := False\<rparr> else d, w)
        }
      })"

text \<open>What the start does before it installs its handlers.\<close>

definition elan_bringup :: "'s submit \<Rightarrow> (u32 \<Rightarrow> 's \<Rightarrow> 's) \<Rightarrow> elan_driver \<Rightarrow> 's \<Rightarrow> (elan_driver \<times> 's) option" where
  "elan_bringup submit sleep d w = do {
     let d = registerHIDPointerNotifications (d\<lparr>ep_device := True, ep_cmdGate := True, ep_attached := Some []\<rparr>);
     (_, d, w) \<leftarrow> elantechSetupPS2 submit sleep d w;
     Some (d, w)
   }"

definition elan_start ::
  "('h, 'c) env \<Rightarrow> nat \<Rightarrow> bool \<Rightarrow> bool \<Rightarrow> bool \<Rightarrow> elan_driver \<Rightarrow> ('h, 'c) ctl \<Rightarrow> (bool \<times> elan_driver \<times> ('h, 'c) ctl) option" where
  "elan_start e p super workLoop gate d c =
     (if \<not> super then Some (False, d, c)
      else if \<not> workLoop \<or> \<not> gate then Some (False, d\<lparr>ep_device := False, ep_cmdGate := gate\<rparr>, c)
      else do {
        (d, c) \<leftarrow> elan_bringup (nub_submitRequestAndBlock e p) (nub_sleep e) d c;
        c \<leftarrow> nub_installInterruptAction e p c;
        c \<leftarrow> elan_setTouchPadEnable (nub_submitRequestAndBlock e p) True c;
        c \<leftarrow> nub_installPowerControlAction p c;
        Some (True, d\<lparr>ep_interruptHandlerInstalled := True, ep_powerControlHandlerInstalled := True\<rparr>, c)
      })"

definition elan_stop :: "('h, 'c) env \<Rightarrow> nat \<Rightarrow> bool \<Rightarrow> elan_driver \<Rightarrow> ('h, 'c) ctl \<Rightarrow> (elan_driver \<times> ('h, 'c) ctl) option" where
  "elan_stop e p workLoop d c = do {
     d \<leftarrow> unregisterHIDPointerNotifications d;
     c \<leftarrow> elan_setTouchPadEnable (nub_submitRequestAndBlock e p) False c;
     c \<leftarrow> (if ep_interruptHandlerInstalled d then nub_uninstallInterruptAction e p c else Some c);
     c \<leftarrow> (if ep_powerControlHandlerInstalled d then nub_uninstallPowerControlAction p c else Some c);
     Some (d\<lparr>ep_attached := None, ep_cmdGate := (ep_cmdGate d \<and> \<not> workLoop), ep_interruptHandlerInstalled := False,
             ep_powerControlHandlerInstalled := False, ep_device := False\<rparr>, c)
   }"

section \<open>Everything returns if requests do\<close>

abbreviation replies :: "'s submit \<Rightarrow> bool" where
  "replies submit \<equiv> (\<forall>r w. submit r w \<noteq> None)"

definition returns :: "('s \<Rightarrow> 'r option) \<Rightarrow> bool" where
  "returns f \<longleftrightarrow> (\<forall>w. f w \<noteq> None)"

text \<open>The rules follow the shape of a step: it ends in \<open>Some\<close>, and every call on the way returns.\<close>

named_theorems returning

lemma returnsI [returning]: "(\<And>w. f w \<noteq> None) \<Longrightarrow> returns f"
  by (simp add: returns_def)

lemma returns_shape [returning]:
  "Some x \<noteq> None"
  "\<And>a b. \<lbrakk>c \<Longrightarrow> a \<noteq> None; \<not> c \<Longrightarrow> b \<noteq> None\<rbrakk> \<Longrightarrow> (if c then a else b) \<noteq> None"
  "\<And>f. \<lbrakk>u \<noteq> None; \<And>y. f y \<noteq> None\<rbrakk> \<Longrightarrow> (case p of None \<Rightarrow> u | Some y \<Rightarrow> f y) \<noteq> None"
  "\<And>f. m \<noteq> None \<Longrightarrow> map_option f m \<noteq> None"
  "\<And>f. (\<And>a b. f a b \<noteq> None) \<Longrightarrow> (case q of (a, b) \<Rightarrow> f a b) \<noteq> None"
  "\<And>f. (\<And>a b. f a b v \<noteq> None) \<Longrightarrow> (case q of (a, b) \<Rightarrow> f a b) v \<noteq> None"
  by (auto split: option.splits prod.splits)

lemma returns_bind [returning]: "\<lbrakk>m \<noteq> None; \<And>a b. g a b \<noteq> None\<rbrakk> \<Longrightarrow> Option.bind m (\<lambda>(a, b). g a b) \<noteq> None"
  by auto

lemma returns_submit [returning]: "replies submit \<Longrightarrow> submit r w \<noteq> None"
  by simp

lemma returns_command [returning]: "replies submit \<Longrightarrow> elan_ps2_command submit n cmd w \<noteq> None"
  unfolding elan_ps2_command_def by (intro returning)

lemma returns_sliced [returning]: "replies submit \<Longrightarrow> ps2_sliced_command submit cmd w \<noteq> None"
  unfolding ps2_sliced_command_def by (intro returning)

lemma returns_retry [returning]: "replies submit \<Longrightarrow> elantech_ps2_command submit sleep tries n cmd w \<noteq> None"
proof (induction tries arbitrary: w)
  case (Suc tries)
  show ?case unfolding elantech_ps2_command.simps by (intro returning Suc)
qed simp

lemma returns_answered [returning]: "f w \<noteq> None \<Longrightarrow> (elan_answered \<circ> f) w \<noteq> None"
  by (simp add: elan_answered_def)

lemma returns_chain [returning]: "list_all returns fs \<Longrightarrow> elan_chain fs w \<noteq> None"
proof (induction fs arbitrary: w)
  case (Cons f fs)
  have "f w \<noteq> None" using Cons.prems by (simp add: returns_def)
  then show ?case unfolding elan_chain.simps by (intro returning Cons) (use Cons.prems in auto)
qed simp

lemma returns_then [returning]: "list_all returns fs \<Longrightarrow> returns g \<Longrightarrow> elan_then fs g w \<noteq> None"
  unfolding elan_then_def by (intro returning) (auto simp: returns_def)

lemma returns_all [returning]: "list_all returns []" "\<And>f. returns f \<Longrightarrow> list_all returns fs \<Longrightarrow> list_all returns (f # fs)"
  "\<And>F. (\<And>x. returns (F x)) \<Longrightarrow> list_all returns (map F xs)"
  by (simp_all add: list_all_iff)

lemma returns_custom [returning]: "replies submit \<Longrightarrow> list_all returns (elan_custom submit sleep bs)"
  unfolding elan_custom_def by (intro returning)

lemma returns_send [returning]:
  assumes "replies submit"
  shows "synaptics_send_cmd submit c w \<noteq> None" "elantech_send_cmd submit c w \<noteq> None" "elan_send_cmd submit info c w \<noteq> None"
  unfolding synaptics_send_cmd_def elantech_send_cmd_def elan_send_cmd_def by (intro returning assms)+

lemma returns_detect [returning]: "replies submit \<Longrightarrow> elantechDetect submit w \<noteq> None"
  unfolding elantechDetect_def by (intro returning)

lemma returns_range [returning]: "replies submit \<Longrightarrow> elan_range submit info w \<noteq> None"
  unfolding elan_range_def elan_range_v2_def Let_def by (intro returning)

lemma returns_read [returning]: "replies submit \<Longrightarrow> elantechReadReg submit sleep hv reg w \<noteq> None"
  unfolding elantechReadReg_def by (intro returning)

lemma returns_write [returning]: "replies submit \<Longrightarrow> elantechWriteReg submit sleep hv reg val w \<noteq> None"
  unfolding elantechWriteReg_def by (intro returning)

lemma returns_readback [returning]: "replies submit \<Longrightarrow> elan_readback submit sleep tries hv w \<noteq> None"
proof (induction tries arbitrary: w)
  case (Suc tries)
  show ?case unfolding elan_readback.simps by (intro returning Suc)
qed simp

lemma returns_query [returning]: "replies submit \<Longrightarrow> elantechQueryInfo submit d w \<noteq> None"
  unfolding elantechQueryInfo_def elan_query_rest_def elan_query_samples_def elantech_get_resolution_v4_def Let_def by (intro returning)

lemma returns_reset [returning]: "replies submit \<Longrightarrow> elan_resetMouse submit w \<noteq> None" "replies submit \<Longrightarrow> elan_setTouchPadEnable submit b w \<noteq> None"
  unfolding elan_resetMouse_def elan_setTouchPadEnable_def by (intro returning; assumption)+

section \<open>The invariant of the input path is established and kept\<close>

lemma absolute_mode_etd:
  assumes "replies submit"
  obtains ok e w' where "elantechSetAbsoluteMode submit sleep s w = Some (ok, s\<lparr>el_etd := e\<rparr>, w')"
proof -
  have "elantechSetAbsoluteMode submit sleep s w \<noteq> None"
    unfolding elantechSetAbsoluteMode_def Let_def by (intro returning assms)
  then obtain ok s' w' where run: "elantechSetAbsoluteMode submit sleep s w = Some (ok, s', w')" by auto
  then have "\<exists>e. s' = s\<lparr>el_etd := e\<rparr>" by (auto simp: elantechSetAbsoluteMode_def Let_def elim!: bind_eq_SomeE split: if_splits)
  then show ?thesis using that run by auto
qed

lemma setup_keeps:
  assumes rep: "replies submit" and inv: "elan_inv (ep_input d)"
  obtains ok s' w' where "elantechSetupPS2 submit sleep d w = Some (ok, d\<lparr>ep_input := s'\<rparr>, w')" "elan_inv s'" "el_info s' = el_info (ep_input d)"
proof -
  let ?s = "(ep_input d)\<lparr>el_etd := (el_etd (ep_input d))\<lparr>ed_parity := elan_parity_table (ed_parity (el_etd (ep_input d)))\<rparr>\<rparr>"
  obtain ok e w1 where abs: "elantechSetAbsoluteMode submit sleep ?s w = Some (ok, ?s\<lparr>el_etd := e\<rparr>, w1)"
    using absolute_mode_etd [OF rep] .
  have res: "ei_x_res (el_info (ep_input d)) \<noteq> 0" "ei_y_res (el_info (ep_input d)) \<noteq> 0" using inv by (simp_all add: elan_inv_def elan_data_inv_def)
  obtain dims where pub: "elan_publish ((ep_input d)\<lparr>el_etd := e\<rparr>) = Some ((ep_input d)\<lparr>el_etd := e, el_dimensions := dims\<rparr>)"
    using res by (auto simp: elan_publish_def Let_def)
  have keep: "elan_inv ((ep_input d)\<lparr>el_etd := e\<rparr>)" "elan_inv ((ep_input d)\<lparr>el_etd := e, el_dimensions := dims\<rparr>)"
    using inv by (simp_all add: elan_inv_def elan_data_inv_def)
  show ?thesis
  proof (cases ok)
    case True
    let ?r = "TPS2Request (map send_byte [kDP_SetDefaultsAndDisable, kDP_SetMouseSampleRate, ucast (ep_mouseSampleRate d),
      kDP_SetMouseResolution, ucast (ep_mouseResolution d), kDP_SetMouseScaling1To1, kDP_Enable])"
    obtain r' w' where "submit ?r w1 = Some (r', w')" using rep by (metis option.exhaust surj_pair)
    then have "elantechSetupPS2 submit sleep d w = Some (True, d\<lparr>ep_input := (ep_input d)\<lparr>el_etd := e, el_dimensions := dims\<rparr>\<rparr>, w')"
      using abs pub True by (simp add: elantechSetupPS2_def)
    from that [OF this keep(2)] show ?thesis by simp
  next
    case False
    then have "elantechSetupPS2 submit sleep d w = Some (False, d\<lparr>ep_input := (ep_input d)\<lparr>el_etd := e\<rparr>\<rparr>, w1)"
      using abs by (simp add: elantechSetupPS2_def)
    from that [OF this keep(1)] show ?thesis by simp
  qed
qed

lemma convert_res_bound: "31 \<le> elantech_convert_res (ucast (b :: u8))"
proof -
  have b: "unat b < 256" using unsigned_less [of b, where 'a = nat] by simp
  have "100 * unat b < 4294967296" "100 * unat b + 7900 < 4294967296" using b by linarith+
  moreover have "take_bit 32 (unat b) = unat b" by (intro take_bit_nat_eq_self less_trans [OF b]) simp
  ultimately have "unat ((ucast b * 10 + 790) * 10 :: u32) = (unat b * 10 + 790) * 10"
    by (simp add: unat_word_ariths unsigned_ucast_eq)
  then show ?thesis by (simp add: elantech_convert_res_def word_le_nat_alt unat_div)
qed

lemma range_keeps:
  "elan_range submit info w = Some (ok, info', w') \<Longrightarrow>
     ei_hw_version info' = ei_hw_version info \<and> ei_x_res info' = ei_x_res info \<and> ei_y_res info' = ei_y_res info"
  by (auto simp: elan_range_def elan_range_v2_def elan_traces_v4_def elan_range_id_def Let_def elim!: bind_eq_SomeE
      split: if_splits option.splits)

lemma set_properties_ok:
  assumes "elantechSetProperties d = (True, d')"
  shows "\<exists>info. d' = d\<lparr>ep_input := (ep_input d)\<lparr>el_packetLength := (if ei_hw_version info = 1 then 4 else 6), el_info := info\<rparr>\<rparr> \<and>
      ei_hw_version info \<in> {1, 2, 3, 4}"
proof -
  obtain hv where "elan_hw_version (ei_fw_version (el_info (ep_input d))) = Some hv"
    using assms by (auto simp: elantechSetProperties_def Let_def split: option.splits)
  moreover from this have "hv \<in> {1, 2, 3, 4}" by (auto simp: elan_hw_version_def Let_def split: if_splits)
  ultimately show ?thesis using assms
    by (intro exI [of _ "el_info (ep_input d')"]) (auto simp: elantechSetProperties_def Let_def)
qed

definition elan_identified :: "elan_driver \<Rightarrow> elan_driver \<Rightarrow> bool" where
  "elan_identified d d' \<longleftrightarrow> (\<exists>info. d' = d\<lparr>ep_input := (ep_input d)\<lparr>el_packetLength := (if ei_hw_version info = 1 then 4 else 6), el_info := info\<rparr>\<rparr> \<and>
      ei_hw_version info \<in> {1, 2, 3, 4} \<and> 31 \<le> ei_x_res info \<and> 31 \<le> ei_y_res info)"

lemma identified_step:
  assumes "elantechSetProperties (elan_set_info i d) = (True, d1)" "ei_hw_version info = ei_hw_version (el_info (ep_input d1))"
    "31 \<le> ei_x_res info" "31 \<le> ei_y_res info"
  shows "elan_identified d (elan_set_info info d1)"
proof -
  from set_properties_ok [OF assms(1)] obtain j where j: "ei_hw_version j \<in> {1, 2, 3, 4}"
    "d1 = d\<lparr>ep_input := (ep_input d)\<lparr>el_packetLength := (if ei_hw_version j = 1 then 4 else 6), el_info := j\<rparr>\<rparr>"
    unfolding elan_set_info_def by auto
  have "ei_hw_version info = ei_hw_version j" using assms(2) j(2) by simp
  then show ?thesis unfolding elan_identified_def using assms(3,4) j by (intro exI [of _ info]) (simp add: elan_set_info_def)
qed

lemma resolution_ok:
  "elantech_get_resolution_v4 submit info w = Some (info', w') \<Longrightarrow> 31 \<le> ei_x_res info \<Longrightarrow> 31 \<le> ei_y_res info \<Longrightarrow>
   ei_hw_version info' = ei_hw_version info \<and> 31 \<le> ei_x_res info' \<and> 31 \<le> ei_y_res info'"
  by (auto simp: elantech_get_resolution_v4_def convert_res_bound elim!: bind_eq_SomeE split: option.splits)

lemma query_rest_ok:
  assumes "elan_query_rest submit info d w = Some (True, d', w')"
  shows "\<exists>info'. d' = elan_set_info info' d \<and> ei_hw_version info' = ei_hw_version info \<and> 31 \<le> ei_x_res info' \<and> 31 \<le> ei_y_res info'"
proof -
  let ?info = "info\<lparr>ei_has_trackpoint := (ei_capabilities info ! 0 AND 0x80 = 0x80), ei_x_res := 31, ei_y_res := 31\<rparr>"
  from assms obtain info1 w1 info2 where
    res: "(if ei_hw_version ?info = 4 then elantech_get_resolution_v4 submit ?info w else Some (?info, w)) = Some (info1, w1)"
    and rng: "elan_range submit info1 w1 = Some (True, info2, w')" and d': "d' = elan_set_info (elan_finish_info info2) d"
    unfolding elan_query_rest_def Let_def by (simp only: bind_eq_Some_conv split_paired_Ex case_prod_conv) (fastforce split del: if_split)
  have "ei_hw_version info1 = ei_hw_version info \<and> 31 \<le> ei_x_res info1 \<and> 31 \<le> ei_y_res info1"
    using res resolution_ok [of submit ?info w info1 w1] by (auto split: if_splits)
  then show ?thesis unfolding d' using range_keeps [OF rng] by (intro exI [of _ "elan_finish_info info2"]) (simp add: elan_finish_info_def)
qed

lemma query_end:
  assumes "elan_query_rest submit info d1 w1 = Some (True, d', w')" "elantechSetProperties (elan_set_info i d) = (True, d1)"
    "ei_hw_version info = ei_hw_version (el_info (ep_input d1))"
  shows "elan_identified d d'"
  using query_rest_ok [OF assms(1)] identified_step [OF assms(2)] assms(3) by auto

lemma query_ok: "elantechQueryInfo submit d w = Some (True, d', w') \<Longrightarrow> elan_identified d d'"
  by (auto simp: elantechQueryInfo_def elan_query_samples_def Let_def elim!: bind_eq_SomeE split: option.splits if_splits prod.splits)
    (erule (1) query_end, simp)+

text \<open>Configuration tunes the driver; nothing in the invariant depends on it.\<close>

lemma set_keeps:
  "\<lbrakk>\<And>n d. P d \<Longrightarrow> P (f n d); P d\<rbrakk> \<Longrightarrow> P (set_number config k f d)"
  "\<lbrakk>\<And>b d. P d \<Longrightarrow> P (g b d); P d\<rbrakk> \<Longrightarrow> P (set_boolean config k g d)"
  "\<lbrakk>\<And>b d. P d \<Longrightarrow> P (g b d); P d\<rbrakk> \<Longrightarrow> P (set_lowbit config k g d)"
  by (auto simp: set_number_def set_boolean_def set_lowbit_def split: option.splits)

definition elan_base :: "elan \<Rightarrow> elan" where
  "elan_base s = s\<lparr>el_forceTouchMode := FORCE_TOUCH_BUTTON, el_maxaftertyping := 0, el_ignoreall := False\<rparr>"

lemma elan_base_simps [simp]:
  "elan_base (s\<lparr>el_forceTouchMode := f\<rparr>) = elan_base s" "elan_base (s\<lparr>el_maxaftertyping := t\<rparr>) = elan_base s"
  "elan_base (s\<lparr>el_ignoreall := g\<rparr>) = elan_base s" "el_info (elan_base s) = el_info s"
  "elan_base (s\<lparr>el_packetLength := l, el_info := i\<rparr>) = (elan_base s)\<lparr>el_packetLength := l, el_info := i\<rparr>"
  "elan_inv (elan_base s) = elan_inv s"
  by (simp_all add: elan_base_def elan_inv_def elan_data_inv_def)

definition elan_tuned :: "elan_driver \<Rightarrow> elan_driver \<Rightarrow> bool" where
  "elan_tuned d d' \<longleftrightarrow> ep_attached d' = ep_attached d \<and> elan_base (ep_input d') = elan_base (ep_input d)"

lemma config_tunes: "elan_tuned d (elan_setParamPropertiesGated config d)"
proof (cases config)
  case (Some c)
  have last: "elan_tuned d (case ep_attached d1 of
      Some (_ # _) \<Rightarrow> d1\<lparr>ep_input := (ep_input d1)\<lparr>el_ignoreall := ep_usb_mouse_stops_trackpad d1\<rparr>\<rparr> | _ \<Rightarrow> d1)" if "elan_tuned d d1" for d1
    using that by (auto simp: elan_tuned_def split: option.splits list.splits)
  have trackpoint: "elan_tuned d (setTrackpointProperties d1)" if "elan_tuned d d1" for d1
    using that by (simp add: elan_tuned_def setTrackpointProperties_def)
  show ?thesis unfolding elan_setParamPropertiesGated_def Some option.case Let_def
    by (intro trackpoint last set_keeps [where P = "elan_tuned d"] ; simp add: elan_tuned_def)
qed (simp add: elan_setParamPropertiesGated_def elan_tuned_def)

lemma tuned_inv: "elan_tuned d d' \<Longrightarrow> elan_inv (ep_input d) \<Longrightarrow> elan_inv (ep_input d')"
  by (metis elan_tuned_def elan_base_simps(6))

lemma probe_ready:
  assumes n: "5 \<le> n" and run: "elan_probe submit super config (new_elan_driver n) w = Some (True, d, w')"
  shows "elan_inv (ep_input d)" "31 \<le> ei_x_res (el_info (ep_input d))" "31 \<le> ei_y_res (el_info (ep_input d))"
proof -
  let ?d = "elan_setParamPropertiesGated config ((new_elan_driver n)\<lparr>ep_device := True\<rparr>)"
  obtain d1 w1 where query: "elantechQueryInfo submit ?d w1 = Some (True, d1, w')" and d: "ep_input d = ep_input d1"
    using run by (auto simp: elan_probe_def Let_def elim!: bind_eq_SomeE split: if_splits)
  have base: "elan_base (ep_input ?d) = elan_base (new_elan n)"
    using config_tunes [of "(new_elan_driver n)\<lparr>ep_device := True\<rparr>" config] by (simp add: elan_tuned_def new_elan_driver_def)
  obtain info where d1: "ep_input d1 = (ep_input ?d)\<lparr>el_packetLength := (if ei_hw_version info = 1 then 4 else 6), el_info := info\<rparr>"
    and hv: "ei_hw_version info \<in> {1, 2, 3, 4}" and res: "31 \<le> ei_x_res info" "31 \<le> ei_y_res info"
    using query_ok [OF query] unfolding elan_identified_def by (elim exE conjE) (rule that, simp_all)
  have s: "elan_base (ep_input d) = (elan_base (new_elan n))\<lparr>el_packetLength := (if ei_hw_version info = 1 then 4 else 6), el_info := info\<rparr>"
    unfolding d d1 elan_base_simps(5) base ..
  have info: "el_info (ep_input d) = info" using arg_cong [OF s, of el_info] by simp
  have ring: "packet_inv 4 192 (new_ring 192 (0 :: u8))" "packet_inv 6 192 (new_ring 192 (0 :: u8))"
    using elan_ring.new_ring_ok [of "0 :: u8"] foc_ring.new_ring_ok [of "0 :: u8"] by simp_all
  have "ei_x_res info \<noteq> 0" "ei_y_res info \<noteq> 0" using res by auto
  then have "elan_inv (elan_base (ep_input d))" using n hv ring unfolding s
    by (auto simp: elan_inv_def elan_data_inv_def elan_fingers_ok_def coords_word_def coords_ok_def elan_base_def new_elan_def no_coords_def)
  then show "elan_inv (ep_input d)" by simp
  show "31 \<le> ei_x_res (el_info (ep_input d))" "31 \<le> ei_y_res (el_info (ep_input d))" using res info by simp_all
qed

section \<open>Running the driver\<close>

text \<open>What can happen to a started driver.\<close>

datatype elan_action =
    ElanInputs elan_event
  | ElanReceive PS2Message
  | ElanPower PS2PowerWhat
  | ElanProperties "dict option"
  | ElanNotify hid_notifier nat "u32 option"

fun elan_act ::
  "bt_codes \<Rightarrow> 's submit \<Rightarrow> (u32 \<Rightarrow> 's \<Rightarrow> 's) \<Rightarrow> kclock \<Rightarrow> elan_action \<Rightarrow> elan_driver \<times> 's \<Rightarrow> (elan_driver \<times> 's) option" where
  "elan_act bt submit sleep clk (ElanInputs ev) (d, w) = map_option (\<lambda>s. (d\<lparr>ep_input := s\<rparr>, w)) (elan_exec clk ev (ep_input d))"
| "elan_act bt submit sleep clk (ElanReceive msg) (d, w) = map_option snd (elan_receive submit sleep msg d w)"
| "elan_act bt submit sleep clk (ElanPower what) (d, w) = elan_setDevicePowerState submit sleep what d w"
| "elan_act bt submit sleep clk (ElanProperties props) (d, w) = Some (elan_setProperties props d, w)"
| "elan_act bt submit sleep clk (ElanNotify notifier service cls) (d, w) =
     map_option (\<lambda>d. (d, w)) (elan_notificationHIDAttachedHandler bt service cls notifier d)"

abbreviation elan_driver_inv :: "elan_driver \<Rightarrow> bool" where
  "elan_driver_inv d \<equiv> elan_inv (ep_input d) \<and> ep_attached d \<noteq> None"

definition elan_fault :: "elan \<Rightarrow> bool" where
  "elan_fault s \<longleftrightarrow> (\<exists>p \<in> set (elan_waiting s). \<not> elan_safe s p)"

lemma restart_ok:
  assumes rep: "replies submit" and inv: "elan_driver_inv d"
  shows "\<exists>d' w'. elan_restart submit sleep d w = Some (d', w') \<and> elan_driver_inv d' \<and> el_info (ep_input d') = el_info (ep_input d)"
proof -
  let ?d = "d\<lparr>ep_input := (ep_input d)\<lparr>el_packetByteCount := 0, el_ringBuffer := ring_reset (el_ringBuffer (ep_input d))\<rparr>\<rparr>"
  have "packet_ring (el_packetLength (ep_input d)) 192"
    using inv by (auto simp: elan_inv_def elan_ring.packet_ring_axioms foc_ring.packet_ring_axioms)
  then have "elan_inv (ep_input ?d)" using inv packet_ring.reset_ok [of "el_packetLength (ep_input d)" 192 "el_ringBuffer (ep_input d)"]
    by (auto simp: elan_inv_def elan_data_inv_def)
  obtain w1 where w1: "elan_resetMouse submit w = Some w1" using returns_reset(1) [OF rep] by blast
  obtain ok s' w2 where done_setup: "elantechSetupPS2 submit sleep ?d w1 = Some (ok, ?d\<lparr>ep_input := s'\<rparr>, w2)" "elan_inv s'" "el_info s' = el_info (ep_input ?d)"
    using setup_keeps [OF rep \<open>elan_inv (ep_input ?d)\<close>] .
  obtain w3 where w3: "elan_setTouchPadEnable submit True w2 = Some w3" using returns_reset(2) [OF rep] by blast
  have "elan_restart submit sleep d w = Some (?d\<lparr>ep_input := s'\<rparr>, w3)" using w1 done_setup(1) w3 by (simp add: elan_restart_def)
  then show ?thesis using done_setup(2,3) inv by simp
qed

lemma elan_act_ok:
  assumes rep: "replies submit" and inv: "elan_driver_inv d"
  shows "case elan_act bt submit sleep clk a (d, w) of
      Some (d', w') \<Rightarrow> elan_driver_inv d' \<and> elan_model (el_info (ep_input d')) = elan_model (el_info (ep_input d))
    | None \<Rightarrow> a = ElanInputs ElanWork \<and> elan_fault (ep_input d)"
proof (cases a)
  case (ElanInputs ev)
  then show ?thesis using inv elan_exec_ok [of "ep_input d", where clk = clk and ev = ev]
    by (auto simp: elan_fault_def split: option.splits)
next
  case (ElanReceive msg)
  obtain w1 where w1: "elan_setTouchPadEnable submit False w = Some w1" using returns_reset(2) [OF rep] by blast
  have "elan_driver_inv (d\<lparr>ep_input := (ep_input d)\<lparr>el_ignoreall := False\<rparr>\<rparr>)" using inv by (simp add: elan_inv_def elan_data_inv_def)
  from restart_ok [OF rep this, of sleep "sleep (ep_wakedelay d) w1"] show ?thesis using ElanReceive inv w1
    by (cases msg) (auto simp: elan_receive_def elan_setDisableTouchpad_def elan_notifyKeyTime_def elan_inv_def elan_data_inv_def)
next
  case (ElanPower what)
  obtain w1 where "elan_setTouchPadEnable submit False w = Some w1" using returns_reset(2) [OF rep] by blast
  then show ?thesis using ElanPower inv restart_ok [OF rep inv, of sleep "sleep (ep_wakedelay d) w"]
    by (cases what) (auto simp: elan_setDevicePowerState_def)
next
  case (ElanProperties props)
  have "elan_driver_inv (elan_setParamPropertiesGated props d)" "el_info (ep_input (elan_setParamPropertiesGated props d)) = el_info (ep_input d)"
    using config_tunes [of d props] inv tuned_inv by (auto simp: elan_tuned_def) (metis elan_base_simps(4))+
  then show ?thesis using ElanProperties inv by (simp add: elan_setProperties_def)
next
  case (ElanNotify notifier service cls)
  then show ?thesis using inv
    by (auto simp: elan_notificationHIDAttachedHandler_def elan_notificationHIDAttachedHandlerGated_def Let_def elan_inv_def elan_data_inv_def)
qed

lemma elan_life_ok:
  assumes rep: "replies submit"
  shows "elan_driver_inv d \<Longrightarrow> case fold_opt (elan_act bt submit sleep clk) acts (d, w) of
      Some (d', w') \<Rightarrow> elan_driver_inv d' \<and> elan_model (el_info (ep_input d')) = elan_model (el_info (ep_input d))
    | None \<Rightarrow> \<exists>before after t w'. acts = before @ ElanInputs ElanWork # after \<and>
        fold_opt (elan_act bt submit sleep clk) before (d, w) = Some (t, w') \<and> elan_fault (ep_input t) \<and>
        elan_model (el_info (ep_input t)) = elan_model (el_info (ep_input d))"
proof (induction acts arbitrary: d w)
  case (Cons a acts)
  show ?case
  proof (cases "elan_act bt submit sleep clk a (d, w)")
    case None
    then show ?thesis using elan_act_ok [OF rep Cons.prems, where bt = bt and sleep = sleep and clk = clk and a = a and w = w]
      by (simp only: fold_opt.simps Option.bind.simps option.case) (intro exI [of _ "[]"] exI [of _ acts] exI [of _ d] exI [of _ w], simp)
  next
    case (Some q)
    then obtain d1 w1 where q: "elan_act bt submit sleep clk a (d, w) = Some (d1, w1)" by (cases q) auto
    then have d1: "elan_driver_inv d1" "elan_model (el_info (ep_input d1)) = elan_model (el_info (ep_input d))"
      using elan_act_ok [OF rep Cons.prems, where bt = bt and sleep = sleep and clk = clk and a = a and w = w] by auto
    show ?thesis
    proof (cases "fold_opt (elan_act bt submit sleep clk) acts (d1, w1)")
      case None
      then obtain before after t w' where "acts = before @ ElanInputs ElanWork # after"
        "fold_opt (elan_act bt submit sleep clk) before (d1, w1) = Some (t, w')" "elan_fault (ep_input t)"
        "elan_model (el_info (ep_input t)) = elan_model (el_info (ep_input d1))"
        using Cons.IH [OF d1(1), of w1] by auto
      then show ?thesis using q None d1(2)
        by (simp only: fold_opt.simps Option.bind.simps option.case)
          (rule exI [of _ "a # before"], rule exI [of _ after], rule exI [of _ t], rule exI [of _ w'], simp)
    qed (use q Cons.IH [OF d1(1), of w1] d1(2) in auto)
  qed
qed simp

lemma bringup_ok:
  assumes rep: "replies submit" and inv: "elan_inv (ep_input d)"
  shows "\<exists>d' w'. elan_bringup submit sleep d w = Some (d', w') \<and> elan_driver_inv d' \<and> el_info (ep_input d') = el_info (ep_input d)"
proof -
  let ?d = "registerHIDPointerNotifications (d\<lparr>ep_device := True, ep_cmdGate := True, ep_attached := Some []\<rparr>)"
  have d: "ep_input ?d = ep_input d" "ep_attached ?d = Some []" by (simp_all add: registerHIDPointerNotifications_def)
  obtain ok s' w' where "elantechSetupPS2 submit sleep ?d w = Some (ok, ?d\<lparr>ep_input := s'\<rparr>, w')" "elan_inv s'" "el_info s' = el_info (ep_input ?d)"
    using setup_keeps [OF rep, of ?d] inv d(1) by metis
  then show ?thesis using d by (simp add: elan_bringup_def)
qed

lemma returns_probe: "replies submit \<Longrightarrow> \<exists>ok d' w'. elan_probe submit super config d w = Some (ok, d', w')"
proof -
  assume rep: "replies submit"
  have bind: "m \<noteq> None \<Longrightarrow> (\<And>a. g a \<noteq> None) \<Longrightarrow> Option.bind m g \<noteq> None" for m :: "'b option" and g :: "'b \<Rightarrow> 'c option" by auto
  have "elan_probe submit super config d w \<noteq> None" unfolding elan_probe_def Let_def by (intro bind returning rep)
  then show ?thesis by auto
qed

section \<open>The parity of a packet\<close>

fun popcount :: "nat \<Rightarrow> nat" where
  "popcount n = (if n = 0 then 0 else n mod 2 + popcount (n div 2))"

declare popcount.simps [simp del]

lemma popcount_simps [simp]: "popcount 0 = 0" "popcount (2 * n) = popcount n" "popcount (Suc (2 * n)) = Suc (popcount n)"
proof -
  show "popcount 0 = 0" by (simp add: popcount.simps)
  then show "popcount (2 * n) = popcount n" by (simp add: popcount.simps [of "2 * n"])
  have "Suc (2 * n) div 2 = n" by simp
  then show "popcount (Suc (2 * n)) = Suc (popcount n)" unfolding popcount.simps [of "Suc (2 * n)"] by simp
qed

text \<open>Clearing the lowest bit that is set is what the loop over the table relies on.\<close>

lemma lowest_bit:
  assumes "0 < (n :: nat)"
  shows "n AND (n - 1) < n" "popcount n = Suc (popcount (n AND (n - 1)))"
proof -
  have "n AND (n - 1) < n \<and> popcount n = Suc (popcount (n AND (n - 1)))" using assms
  proof (induction n rule: less_induct)
    case (less n)
    show ?case
    proof (cases "odd n")
      case True
      then obtain m where n: "n = Suc (2 * m)" by (auto elim: oddE)
      have "n AND (n - 1) = 2 * m" unfolding n by (simp add: and_rec [of "Suc (2 * m)" "2 * m"])
      then show ?thesis by (simp add: n)
    next
      case False
      then obtain m where n: "n = 2 * m" "0 < m" "m < n" using less.prems by (auto elim: evenE)
      have "(2 * m - 1) div 2 = m - 1" using n(2) by linarith
      then have "n AND (n - 1) = 2 * (m AND (m - 1))" unfolding n(1) by (simp add: and_rec [of "2 * m" "2 * m - Suc 0"])
      then show ?thesis using less.IH [OF n(3,2)] by (simp add: n(1))
    qed
  qed
  then show "n AND (n - 1) < n" "popcount n = Suc (popcount (n AND (n - 1)))" by simp_all
qed

lemma parity_table_upto:
  assumes "length ps = 256" "n \<le> 256" "0 < n"
  defines "t \<equiv> fold elan_parity_step [1..<n] (ps[0 := 1])"
  shows "length t = 256 \<and> (\<forall>i < n. t ! i = (if even (popcount i) then 1 else 0))"
  unfolding t_def using assms(2,3)
proof (induction n)
  case (Suc n)
  show ?case
  proof (cases "n = 0")
    case True
    then show ?thesis using assms(1) by simp
  next
    case False
    let ?t = "fold elan_parity_step [1..<n] (ps[0 := 1])"
    have ih: "length ?t = 256" "\<And>i. i < n \<Longrightarrow> ?t ! i = (if even (popcount i) then 1 else 0)" using Suc False by auto
    have "fold elan_parity_step [1..<Suc n] (ps[0 := 1]) = ?t[n := ?t ! (n AND (n - 1)) XOR 1]"
      using False by (simp add: elan_parity_step_def)
    moreover have "?t ! (n AND (n - 1)) XOR 1 = (if even (popcount n) then 1 else 0)" using ih(2) lowest_bit [of n] False by simp
    ultimately show ?thesis using ih Suc.prems by (auto simp: nth_list_update less_Suc_eq)
  qed
qed simp

lemma parity_table:
  "length ps = 256 \<Longrightarrow> i < 256 \<Longrightarrow> elan_parity_table ps ! i = (if even (popcount i) then 1 else 0)"
  using parity_table_upto [of ps 256] by (simp add: elan_parity_table_def)

lemma setup_parity:
  assumes "elantechSetupPS2 submit sleep d w = Some (ok, d', w')"
  shows "ed_parity (el_etd (ep_input d')) = elan_parity_table (ed_parity (el_etd (ep_input d)))" "el_info (ep_input d') = el_info (ep_input d)"
  using assms by (auto simp: elantechSetupPS2_def elantechSetAbsoluteMode_def elan_registers_def elan_publish_def Let_def
      elim!: bind_eq_SomeE split: if_splits)

text \<open>The bit of the first byte that makes the number of bits of byte \<open>k\<close> odd.\<close>

definition elan_parity_bit :: "u32 \<Rightarrow> nat \<Rightarrow> nat" where
  "elan_parity_bit fw k = (if k = 3 then 2 else if (k = 1) = (fw < 0x020000) then 5 else 4)"

lemma bit_extract: "drop_bit 5 (b AND 0x20) = of_bool (bit b 5)" "drop_bit 4 (b AND 0x10) = of_bool (bit b 4)"
  "drop_bit 2 (b AND 0x04) = of_bool (bit b 2)" for b :: u8
proof -
  have single: "b AND 2 ^ n = (if bit b n then 2 ^ n else 0)" for n
    by (rule bit_word_eqI) (auto simp: bit_and_iff bit_exp_iff)
  show "drop_bit 5 (b AND 0x20) = of_bool (bit b 5)" using single [of 5] by simp
  show "drop_bit 4 (b AND 0x10) = of_bool (bit b 4)" using single [of 4] by simp
  show "drop_bit 2 (b AND 0x04) = of_bool (bit b 2)" using single [of 2] by simp
qed

lemma parity_odd: "((if even n then 1 else 0) = (of_bool c :: u8)) = odd (n + of_bool c)"
  by (cases c) auto

section \<open>Other pointing devices\<close>

text \<open>Which devices are there, by the notifications alone.\<close>

fun hid_present :: "bt_codes \<Rightarrow> (hid_notifier \<times> nat \<times> u32 option) list \<Rightarrow> nat set \<Rightarrow> nat set" where
  "hid_present bt [] S = S"
| "hid_present bt ((notifier, service, cls) # evs) S = hid_present bt evs
     (case notifier of
        usb_hid_publish_notify \<Rightarrow> insert service S
      | bluetooth_hid_publish_notify \<Rightarrow> if (\<exists>c. cls = Some c \<and> bt_pointer bt c) then insert service S else S
      | _ \<Rightarrow> S - {service})"

abbreviation elan_notified ::
  "bt_codes \<Rightarrow> (hid_notifier \<times> nat \<times> u32 option) list \<Rightarrow> elan_driver \<Rightarrow> elan_driver option" where
  "elan_notified bt \<equiv> fold_opt (\<lambda>(notifier, service, cls). elan_notificationHIDAttachedHandler bt service cls notifier)"

definition hid_consistent :: "elan_driver \<Rightarrow> nat list \<Rightarrow> bool" where
  "hid_consistent d ds \<longleftrightarrow> ep_attached d = Some ds \<and> ep_cmdGate d \<and> ep_usb_mouse_stops_trackpad d \<and>
     (el_ignoreall (ep_input d) \<longleftrightarrow> ds \<noteq> [])"

lemma attach_set_present:
  "set (elan_attach_set bt service cls notifier ds) = hid_present bt [(notifier, service, cls)] (set ds)"
  by (cases notifier) (auto simp: elan_attach_set_def split: option.splits)

lemma notified_step:
  assumes "hid_consistent d ds"
  shows "\<exists>d'. elan_notificationHIDAttachedHandler bt service cls notifier d = Some d' \<and>
    hid_consistent d' (elan_attach_set bt service cls notifier ds)"
proof -
  have "elan_attach_set bt service cls notifier ds \<noteq> []" if "ds \<noteq> []" "notifier \<in> {usb_hid_publish_notify, bluetooth_hid_publish_notify}"
    using that by (auto simp: elan_attach_set_def List.insert_def split: option.splits if_splits)
  moreover have "elan_attach_set bt service cls notifier ds = []" if "ds = []" "notifier \<notin> {usb_hid_publish_notify, bluetooth_hid_publish_notify}"
    using that by (cases notifier) (auto simp: elan_attach_set_def)
  ultimately show ?thesis using assms
    by (cases notifier) (auto simp: elan_notificationHIDAttachedHandler_def elan_notificationHIDAttachedHandlerGated_def Let_def hid_consistent_def)
qed

lemma notified_run:
  "hid_consistent d ds \<Longrightarrow> \<exists>d' ds'. elan_notified bt evs d = Some d' \<and> hid_consistent d' ds' \<and> set ds' = hid_present bt evs (set ds)"
proof (induction evs arbitrary: d ds)
  case (Cons ev evs)
  obtain notifier service cls where ev: "ev = (notifier, service, cls)" by (cases ev)
  obtain d1 where d1: "elan_notificationHIDAttachedHandler bt service cls notifier d = Some d1"
    "hid_consistent d1 (elan_attach_set bt service cls notifier ds)" using notified_step [OF Cons.prems] by blast
  from Cons.IH [OF d1(2)] show ?case using d1(1) by (simp add: ev attach_set_present)
qed auto

text \<open>Whatever the option, the devices are remembered; without it the pad is left as it is.\<close>

lemma notified_any_step:
  assumes "ep_attached d = Some ds" "ep_cmdGate d"
  shows "\<exists>d'. elan_notificationHIDAttachedHandler bt service cls notifier d = Some d' \<and>
    ep_attached d' = Some (elan_attach_set bt service cls notifier ds) \<and> ep_cmdGate d' \<and>
    ep_usb_mouse_stops_trackpad d' = ep_usb_mouse_stops_trackpad d \<and>
    (\<not> ep_usb_mouse_stops_trackpad d \<longrightarrow> el_ignoreall (ep_input d') = el_ignoreall (ep_input d))"
  using assms
  by (auto simp: elan_notificationHIDAttachedHandler_def elan_notificationHIDAttachedHandlerGated_def Let_def)

lemma notified_any:
  "\<lbrakk>ep_attached d = Some ds; ep_cmdGate d\<rbrakk> \<Longrightarrow> \<exists>d' ds'. elan_notified bt evs d = Some d' \<and> ep_attached d' = Some ds' \<and>
     set ds' = hid_present bt evs (set ds) \<and> ep_usb_mouse_stops_trackpad d' = ep_usb_mouse_stops_trackpad d \<and>
     (\<not> ep_usb_mouse_stops_trackpad d \<longrightarrow> el_ignoreall (ep_input d') = el_ignoreall (ep_input d))"
proof (induction evs arbitrary: d ds)
  case (Cons ev evs)
  obtain notifier service cls where ev: "ev = (notifier, service, cls)" by (cases ev)
  obtain d1 where d1: "elan_notificationHIDAttachedHandler bt service cls notifier d = Some d1"
    "ep_attached d1 = Some (elan_attach_set bt service cls notifier ds)" "ep_cmdGate d1"
    "ep_usb_mouse_stops_trackpad d1 = ep_usb_mouse_stops_trackpad d"
    "\<not> ep_usb_mouse_stops_trackpad d \<longrightarrow> el_ignoreall (ep_input d1) = el_ignoreall (ep_input d)"
    using notified_any_step [OF Cons.prems] by blast
  from Cons.IH [OF d1(2,3)] show ?case using d1(1,4,5) by (auto simp: ev attach_set_present)
qed auto

section \<open>Sliced commands on the wire\<close>

context driver_port
begin

lemma sliced_wire:
  assumes "ps2_sliced_command submit cmd s = Some (True, s')" and on: "online s"
  shows "online s' \<and> writes s' = writes s \<and> wire s' = wire s @ sent_bytes s (elan_sliced_bytes cmd)"
proof -
  have n: "length (elan_sliced_bytes cmd) = 9" by (simp add: elan_sliced_bytes_def)
  obtain r' where run: "submit (TPS2Request (map send_byte (elan_sliced_bytes cmd) @ replicate 0 read_byte)) s = Some (r', s')"
    and all: "unat (commandsCount r') = length (elan_sliced_bytes cmd) + 0"
    using assms(1) n by (auto simp: ps2_sliced_command_def elim!: bind_eq_SomeE)
  from completed_bytes [OF run on all] n show ?thesis by simp
qed

lemma elan_command_wire:
  assumes "elan_ps2_command submit n cmd s = Some (Some param, s')" and on: "online s" and n: "n < 255"
  shows "online s' \<and> writes s' = writes s \<and> wire s' = wire s @ sent_bytes s [cmd]"
proof -
  obtain r' where run: "submit (TPS2Request (map send_byte [cmd] @ replicate n read_byte)) s = Some (r', s')"
    and all: "unat (commandsCount r') = length [cmd] + n"
    using assms(1) by (auto simp: elan_ps2_command_def elim!: bind_eq_SomeE split: if_splits)
  from completed_bytes [OF run on all] n show ?thesis by simp
qed

lemma write_v1_wire:
  assumes run: "elantechWriteReg submit sleep 1 reg val s = Some (True, s')" and on: "online s"
  shows "wire s' = wire s @ sent_bytes s
    (elan_sliced_bytes ETP_REGISTER_WRITE @ elan_sliced_bytes reg @ elan_sliced_bytes val @ [kDP_SetMouseScaling1To1])"
proof -
  obtain s1 s2 s3 param where "ps2_sliced_command submit ETP_REGISTER_WRITE s = Some (True, s1)" "ps2_sliced_command submit reg s1 = Some (True, s2)"
    "ps2_sliced_command submit val s2 = Some (True, s3)" "elan_ps2_command submit 0 kDP_SetMouseScaling1To1 s3 = Some (Some param, s')"
    using run by (auto simp: elantechWriteReg_def elan_answered_def elim!: bind_eq_SomeE split: if_splits)
  then show ?thesis using sliced_wire [of ETP_REGISTER_WRITE s s1] sliced_wire [of reg s1 s2] sliced_wire [of val s2 s3]
      elan_command_wire [of 0 kDP_SetMouseScaling1To1 s3 param s'] on
    by (auto simp: sent_bytes_cong [of s3 s] sent_bytes_cong [of s2 s] sent_bytes_cong [of s1 s])
qed

end

text \<open>How the pad reads a sliced command.\<close>

fun elan_unslice :: "u8 list \<Rightarrow> nat option" where
  "elan_unslice [a, b, rr, c, ss, d, tt, f, uu] = (if [a, b, c, d, f] = [0xE6, 0xE8, 0xE8, 0xE8, 0xE8]
     then Some (unat rr * 64 + unat ss * 16 + unat tt * 4 + unat uu) else None)"
| "elan_unslice _ = None"

lemma unslice_sliced: "elan_unslice (elan_sliced_bytes cmd) = Some (unat cmd)"
proof -
  have 3: "(3 :: u8) = mask 2" by (simp add: mask_eq_exp_minus_1)
  have digit: "unat (drop_bit i cmd AND 3) = unat cmd div 2 ^ i mod 4" for i
    unfolding 3 by (simp add: take_bit_eq_mask [symmetric] unsigned_take_bit_eq unsigned_drop_bit_eq) (simp add: take_bit_eq_mod drop_bit_eq_div)
  have sum: "b div 64 * 64 + b div 16 mod 4 * 16 + b div 4 mod 4 * 4 + b mod 4 = b" for b :: nat
  proof -
    have split: "q2 * 64 + r2 * 16 + r1 * 4 + r = b"
      if "4 * q + r = b" "4 * q1 + r1 = q" "4 * q2 + r2 = q1" for q q1 q2 r r1 r2 using that by simp
    have "b div 16 = b div 4 div 4" "b div 64 = b div 4 div 4 div 4" by (simp_all flip: div_mult2_eq)
    then show ?thesis using split [OF mult_div_mod_eq mult_div_mod_eq mult_div_mod_eq] by simp
  qed
  have "unat cmd < 256" using unsigned_less [of cmd, where 'a = nat] by simp
  then have "unat cmd div 64 mod 4 = unat cmd div 64" by (simp add: less_mult_imp_div_less)
  then show ?thesis using sum [of "unat cmd"] digit [of 0] by (simp add: elan_sliced_bytes_def digit)
qed

section \<open>Properties\<close>

text \<open>A pad of version four, as a list of the answers it still gives to queries for three bytes.\<close>

definition sample_elan_submit :: "u8 list list submit" where
  "sample_elan_submit r w =
     (if length (commands r) = 4 \<and> w \<noteq> []
      then Some (r\<lparr>commands := hd (commands r) # map (\<lambda>b. set_inOrOut b read_byte) (hd w)\<rparr>, tl w)
      else Some (r, w))"

definition sample_elan_answers :: "u8 list list" where
  "sample_elan_answers = [[0x3c, 0x03, 0xc8], [0x38, 0x1f, 0x17], [0x38, 0x1f, 0x17], [0x12, 0x18, 0x0f], [0, 0, 0], [0, 0, 2], [0x6a, 0xb0, 0x60]]"

definition sample_bt :: bt_codes where
  "sample_bt = \<lparr>MajorPeripheral = 5, Peripheral1Pointing = 32, Peripheral1Combo = 48, Peripheral2Unclassified = 0,
     Peripheral2DigitizerTablet = 5, Peripheral2DigitalPen = 7\<rparr>"

lemma sample_elan_replies: "replies sample_elan_submit"
  by (simp add: sample_elan_submit_def)

text \<open>
  C21. The Elan driver from probe to sleep: as long as requests are answered at all, whatever the
  answers are, the probe returns; if it finds a pad, its resolution is known and bringing the
  driver up leaves the input path in a state that satisfies its invariant. From then on bytes,
  runs of the work loop, messages, sleep and wake, changes of properties and notifications about other pointing
  devices in any order return and keep the invariant, with the one exception of a version four packet
  with a finger number the driver has no state for.
\<close>

theorem elan_lifecycle_safe:
  assumes "5 \<le> n" and rep: "replies submit"
  shows "\<exists>ok d w1. elan_probe submit super config (new_elan_driver n) w = Some (ok, d, w1) \<and>
    (ok \<longrightarrow> 31 \<le> ei_x_res (el_info (ep_input d)) \<and> 31 \<le> ei_y_res (el_info (ep_input d)) \<and>
      (\<exists>d1 w2. elan_bringup submit sleep d w1 = Some (d1, w2) \<and>
        (case fold_opt (elan_act bt submit sleep clk) acts (d1, w2) of
           Some (d2, w3) \<Rightarrow> elan_inv (ep_input d2)
         | None \<Rightarrow> ei_hw_version (el_info (ep_input d)) = 4 \<and> (\<exists>before after t w'. acts = before @ ElanInputs ElanWork # after \<and>
             fold_opt (elan_act bt submit sleep clk) before (d1, w2) = Some (t, w') \<and> elan_fault (ep_input t)))))"
proof -
  obtain ok d w1 where run: "elan_probe submit super config (new_elan_driver n) w = Some (ok, d, w1)" using returns_probe [OF rep] by blast
  show ?thesis
  proof (cases ok)
    case True
    have "elan_probe submit super config (new_elan_driver n) w = Some (True, d, w1)" using run True by simp
    note ready = probe_ready [OF assms(1) this]
    from bringup_ok [OF rep ready(1)] obtain d1 w2 where up: "elan_bringup submit sleep d w1 = Some (d1, w2)" "elan_driver_inv d1"
      "el_info (ep_input d1) = el_info (ep_input d)" by blast
    have life: "case fold_opt (elan_act bt submit sleep clk) acts (d1, w2) of
           Some (d2, w3) \<Rightarrow> elan_inv (ep_input d2)
         | None \<Rightarrow> ei_hw_version (el_info (ep_input d)) = 4 \<and> (\<exists>before after t w'. acts = before @ ElanInputs ElanWork # after \<and>
             fold_opt (elan_act bt submit sleep clk) before (d1, w2) = Some (t, w') \<and> elan_fault (ep_input t))"
    proof (cases "fold_opt (elan_act bt submit sleep clk) acts (d1, w2)")
      case None
      then obtain before after t w' where t: "acts = before @ ElanInputs ElanWork # after"
        "fold_opt (elan_act bt submit sleep clk) before (d1, w2) = Some (t, w')" "elan_fault (ep_input t)"
        "elan_model (el_info (ep_input t)) = elan_model (el_info (ep_input d))"
        using elan_life_ok [OF rep up(2), where bt = bt and sleep = sleep and clk = clk and acts = acts and w = w2] up(3) by auto
      have "ei_hw_version (el_info (ep_input t)) = 4" using t(3) by (auto simp: elan_fault_def elan_safe_def)
      then show ?thesis using None t elan_modelD(1) [OF t(4)] by auto
    qed (use elan_life_ok [OF rep up(2), where bt = bt and sleep = sleep and clk = clk and acts = acts and w = w2] in auto)
    show ?thesis using run ready(2,3) up(1) life by blast
  qed (use run in blast)
qed

definition sample_elan_acts :: "elan_action list" where
  "sample_elan_acts = [ElanNotify usb_hid_publish_notify 1 None, ElanPower kPS2C_DisableDevice, ElanPower kPS2C_EnableDevice] @
     map ElanInputs (map ElanByte [0, 0, 0, 0xF1, 0, 0])"

theorem elan_lifecycle_safe_witness:
  "\<exists>d w1 d1 w2 d2 w3. elan_probe sample_elan_submit True None (new_elan_driver 10) sample_elan_answers = Some (True, d, w1) \<and>
     31 \<le> ei_x_res (el_info (ep_input d)) \<and> elan_bringup sample_elan_submit (\<lambda>n w. w) d w1 = Some (d1, w2) \<and>
     fold_opt (elan_act sample_bt sample_elan_submit (\<lambda>n w. w) sample_clock) sample_elan_acts (d1, w2) = Some (d2, w3) \<and> elan_inv (ep_input d2)"
proof -
  have "map_option fst (elan_probe sample_elan_submit True None (new_elan_driver 10) sample_elan_answers) = Some True" by code_simp
  then obtain d w1 where probed: "elan_probe sample_elan_submit True None (new_elan_driver 10) sample_elan_answers = Some (True, d, w1)" by auto
  have "ElanInputs ElanWork \<notin> set sample_elan_acts" by (simp add: sample_elan_acts_def)
  then have no_work: "sample_elan_acts \<noteq> before @ ElanInputs ElanWork # after" for before after by (metis in_set_conv_decomp)
  from elan_lifecycle_safe [of 10 sample_elan_submit, where super = True and config = None and w = sample_elan_answers and sleep = "\<lambda>n w. w"
      and bt = sample_bt and clk = sample_clock and acts = sample_elan_acts]
  show ?thesis using sample_elan_replies probed by (auto simp: no_work split: option.splits)
qed

text \<open>
  C22. The parity check of version one packets: after the setup a packet is accepted exactly if each of
  its last three bytes together with its parity bit in the first byte has an odd number of bits
  set. Firmware before version 2.0 has the parity bits of the second and the third byte swapped.
\<close>

theorem elan_parity_check:
  assumes "elantechSetupPS2 submit sleep d w = Some (ok, d', w')" and "length (ed_parity (el_etd (ep_input d))) = 256"
  shows "elantechPacketCheckV1 (ep_input d') p \<longleftrightarrow>
    list_all (\<lambda>k. odd (popcount (unat (p ! k)) + of_bool (bit (p ! 0) (elan_parity_bit (ei_fw_version (el_info (ep_input d))) k)))) [1, 2, 3]"
proof -
  have "unat b < 256" for b :: u8 using unsigned_less [of b, where 'a = nat] by simp
  note table = parity_table [OF assms(2) this]
  show ?thesis unfolding elantechPacketCheckV1_def setup_parity [OF assms(1)] bit_extract
    by (simp add: table parity_odd elan_parity_bit_def del: even_add odd_add)
qed

text \<open>A pad of version one.\<close>

definition sample_elan_v1 :: elan_driver where
  "sample_elan_v1 = (new_elan_driver 10)\<lparr>ep_input := (new_elan 10)\<lparr>el_packetLength := 4,
     el_info := no_elan_info\<lparr>ei_hw_version := 1, ei_fw_version := 0x020022, ei_x_res := 31, ei_y_res := 31\<rparr>\<rparr>\<rparr>"

lemma sample_elan_v1_inv: "elan_inv (ep_input sample_elan_v1)"
  using elan_ring.new_ring_ok [of "0 :: u8"]
  by (simp add: elan_inv_def elan_data_inv_def elan_fingers_ok_def coords_word_def coords_ok_def sample_elan_v1_def new_elan_def no_elan_info_def no_coords_def)

theorem elan_parity_check_witness:
  "\<exists>ok d' w'. elantechSetupPS2 sample_elan_submit (\<lambda>n w. w) sample_elan_v1 [] = Some (ok, d', w') \<and>
     elantechPacketCheckV1 (ep_input d') [0x34, 0, 0, 0] \<and> \<not> elantechPacketCheckV1 (ep_input d') [0x34, 0, 1, 0]"
proof -
  obtain ok d' w' where run: "elantechSetupPS2 sample_elan_submit (\<lambda>n w. w) sample_elan_v1 [] = Some (ok, d', w')"
    using setup_keeps [OF sample_elan_replies sample_elan_v1_inv] by metis
  have len: "length (ed_parity (el_etd (ep_input sample_elan_v1))) = 256" by (simp add: sample_elan_v1_def new_elan_def no_elan_data_def)
  have pop: "popcount (Suc 0) = 1" by (simp add: popcount.simps)
  show ?thesis using run elan_parity_check [OF run len, of "[0x34, 0, 0, 0]"] elan_parity_check [OF run len, of "[0x34, 0, 1, 0]"]
    by (simp add: sample_elan_v1_def elan_parity_bit_def pop bit_numeral_rec eval_nat_numeral)
qed

text \<open>
  C23. Other pointing devices. Whatever notifications arrive and whatever was attached before, the Elan
  driver remembers exactly the devices published and not terminated since (Bluetooth devices only if
  their class is that of a pointing device). With the option to pause the pad while a mouse is attached,
  a driver whose pad was off exactly if a device was attached keeps it so: the pad is off afterwards
  exactly if one is attached. Without the option, notifications never switch the pad on or off.
\<close>

theorem elan_paused_while_attached:
  assumes "ep_attached d = Some ds" "ep_cmdGate d"
  shows "\<exists>d' ds'. elan_notified bt evs d = Some d' \<and> ep_attached d' = Some ds' \<and> set ds' = hid_present bt evs (set ds) \<and>
    (ep_usb_mouse_stops_trackpad d \<and> (el_ignoreall (ep_input d) \<longleftrightarrow> ds \<noteq> []) \<longrightarrow>
      (el_ignoreall (ep_input d') \<longleftrightarrow> hid_present bt evs (set ds) \<noteq> {})) \<and>
    (\<not> ep_usb_mouse_stops_trackpad d \<longrightarrow> el_ignoreall (ep_input d') = el_ignoreall (ep_input d))"
proof -
  obtain d' ds' where run: "elan_notified bt evs d = Some d'" "ep_attached d' = Some ds'" "set ds' = hid_present bt evs (set ds)"
    and opt: "ep_usb_mouse_stops_trackpad d' = ep_usb_mouse_stops_trackpad d"
      "\<not> ep_usb_mouse_stops_trackpad d \<longrightarrow> el_ignoreall (ep_input d') = el_ignoreall (ep_input d)"
    using notified_any [OF assms] by blast
  have "el_ignoreall (ep_input d') \<longleftrightarrow> hid_present bt evs (set ds) \<noteq> {}"
    if "ep_usb_mouse_stops_trackpad d" "el_ignoreall (ep_input d) \<longleftrightarrow> ds \<noteq> []"
  proof -
    have "hid_consistent d ds" using assms that by (simp add: hid_consistent_def)
    from notified_run [OF this, of bt evs] show ?thesis using run unfolding hid_consistent_def by (metis option.inject set_empty)
  qed
  then show ?thesis using run opt by blast
qed

definition sample_hid :: "(hid_notifier \<times> nat \<times> u32 option) list" where
  "sample_hid = [(usb_hid_publish_notify, 1, None), (bluetooth_hid_publish_notify, 2, Some 0x0540), (usb_hid_terminate_notify, 1, None)]"

theorem elan_paused_while_attached_witness:
  "\<exists>d' d''. elan_notified sample_bt sample_hid ((new_elan_driver 10)\<lparr>ep_cmdGate := True, ep_attached := Some []\<rparr>) = Some d' \<and>
     \<not> el_ignoreall (ep_input d') \<and>
     elan_notified sample_bt (take 1 sample_hid) ((new_elan_driver 10)\<lparr>ep_cmdGate := True, ep_attached := Some []\<rparr>) = Some d'' \<and>
     el_ignoreall (ep_input d'')"
proof -
  let ?d = "(new_elan_driver 10)\<lparr>ep_cmdGate := True, ep_attached := Some []\<rparr>"
  have opt: "ep_attached ?d = Some []" "ep_cmdGate ?d" "ep_usb_mouse_stops_trackpad ?d" "\<not> el_ignoreall (ep_input ?d)"
    by (simp_all add: new_elan_driver_def new_elan_def)
  have "hid_present sample_bt sample_hid {} = {}" "hid_present sample_bt (take 1 sample_hid) {} = {1}"
    by (auto simp: sample_hid_def bt_pointer_def sample_bt_def)
  then show ?thesis using elan_paused_while_attached [OF opt(1,2), of sample_bt sample_hid]
      elan_paused_while_attached [OF opt(1,2), of sample_bt "take 1 sample_hid"] opt(3,4) by auto
qed

text \<open>
  C24. Writing a register of a version one pad: when the write succeeds, the port has received exactly
  three sliced commands and a final byte, and a pad that reads the slices as four digits to base four
  gets back the write command, the register and the value.
\<close>

theorem elan_register_roundtrip:
  assumes "elantechWriteReg (nub_submitRequestAndBlock e p) (nub_sleep e) 1 reg val c = Some (True, c')" and "nub_online e wr c"
  shows "\<exists>b1 b2 b3. wr (hw c') = wr (hw c) @ concat (map (\<lambda>b. command_writes (muxPresent c) p (send_byte b)) (b1 @ b2 @ b3 @ [0xE6])) \<and>
    elan_unslice b1 = Some 0x11 \<and> elan_unslice b2 = Some (unat reg) \<and> elan_unslice b3 = Some (unat val)"
proof -
  have "elan_unslice (elan_sliced_bytes ETP_REGISTER_WRITE) = Some 0x11" using unslice_sliced [of "0x11"] by simp
  then show ?thesis using nub_port.write_v1_wire [OF assms] unslice_sliced [of reg] unslice_sliced [of val]
    by (intro exI [of _ "elan_sliced_bytes ETP_REGISTER_WRITE"] exI [of _ "elan_sliced_bytes reg"] exI [of _ "elan_sliced_bytes val"])
      (simp add: nub_port.sent_bytes_def)
qed

lemma ack_sliced: "\<exists>h'. ps2_sliced_command (nub_submitRequestAndBlock ack_env (Suc 0)) cmd (ack_state h 0) = Some (True, ack_state h' 0)"
  using ack_submit [OF ack_sends, of "elan_sliced_bytes cmd" 0] by (simp add: ps2_sliced_command_def elan_sliced_bytes_def)

lemma ack_elan_command: "\<exists>h'. elan_ps2_command (nub_submitRequestAndBlock ack_env (Suc 0)) 0 cmd (ack_state h 0) = Some (Some [], ack_state h' 0)"
  using ack_submit [OF ack_sends, of "[cmd]" 0] by (simp add: elan_ps2_command_def)

theorem elan_register_roundtrip_witness:
  "\<exists>c' b1 b2 b3. elantechWriteReg (nub_submitRequestAndBlock ack_env (Suc 0)) (nub_sleep ack_env) 1 0x10 0x16 (ack_state [] 0) = Some (True, c') \<and>
     elan_unslice b1 = Some 0x11 \<and> elan_unslice b2 = Some 0x10 \<and> elan_unslice b3 = Some 0x16"
proof -
  let ?sub = "nub_submitRequestAndBlock ack_env (Suc 0)"
  obtain h1 where h1: "ps2_sliced_command ?sub ETP_REGISTER_WRITE (ack_state [] 0) = Some (True, ack_state h1 0)" using ack_sliced by blast
  obtain h2 where h2: "ps2_sliced_command ?sub 0x10 (ack_state h1 0) = Some (True, ack_state h2 0)" using ack_sliced by blast
  obtain h3 where h3: "ps2_sliced_command ?sub 0x16 (ack_state h2 0) = Some (True, ack_state h3 0)" using ack_sliced by blast
  obtain h4 where h4: "elan_ps2_command ?sub 0 kDP_SetMouseScaling1To1 (ack_state h3 0) = Some (Some [], ack_state h4 0)" using ack_elan_command by blast
  have run: "elantechWriteReg ?sub (nub_sleep ack_env) 1 0x10 0x16 (ack_state [] 0) = Some (True, ack_state h4 0)"
    using h1 h2 h3 h4 by (simp add: elantechWriteReg_def elan_reg_ok_def elan_answered_def)
  have "nub_online ack_env (\<lambda>h. h) (ack_state [] 0)" using ack_online by simp
  from elan_register_roundtrip [OF run this] run show ?thesis by auto
qed

end
