(* ===== verification/PS2_Keyboard.thy ===== *)
theory PS2_Keyboard
  imports Ring_Buffer PS2_Driver PS2_Config PS2_ADB_Map
begin

text \<open>
  The state of the keyboard driver (\<^verbatim>\<open>ApplePS2Keyboard\<close>) and its interrupt routine: scan code
  sequences become packets of sixteen bytes, two of key data and eight of time stamp; the bit vector
  of the keys that are down suppresses auto repeat. The routine refines a specification over the set
  of keys that are down.
\<close>

section \<open>State\<close>

definition KBV_NUM_KEYCODES :: nat where [simp]: "KBV_NUM_KEYCODES = 512"
definition KBV_BITS_PER_UNIT :: nat where [simp]: "KBV_BITS_PER_UNIT = 32"
definition KBV_NUNITS :: nat where
  [simp]: "KBV_NUNITS = (KBV_NUM_KEYCODES + (KBV_BITS_PER_UNIT - 1)) div KBV_BITS_PER_UNIT"
definition KBV_NUM_SCANCODES :: nat where [simp]: "KBV_NUM_SCANCODES = 256"
definition kBreaklessKey :: u16 where [simp]: "kBreaklessKey = 0x01"
definition kPacketLength :: nat where [simp]: "kPacketLength = 2 + 6 + 8"
definition kPacketTimeOffset :: nat where [simp]: "kPacketTimeOffset = 8"
definition kPacketKeyDataLength :: nat where [simp]: "kPacketKeyDataLength = 2"

datatype timer_func = kTimerSleep | kTimerEject

text \<open>
  What the driver does to the rest of the system, in order: key events for the HID system, messages
  to the other drivers of the controller, calls of ACPI methods, the lock and power state of the
  system, its timers.
\<close>

datatype kbd_event =
    KeyEvent u32 bool u64
  | Message PS2Message
  | EvaluateObject string u32
  | SetNumLock bool
  | SleepNow
  | SetFKeyMode u32
  | SleepEjectTimeout "u64 option"

record keyboard =
  keyBitVector :: "u32 list"
  extendCount :: u8
  kbd_ringBuffer :: "u8 ring"
  kbd_lastdata :: u8
  kbd_interruptHandlerInstalled :: bool
  kbd_powerControlHandlerInstalled :: bool
  ledState :: u8
  kbd_cmdGate :: bool
  PS2modifierState :: u16
  PS2ToPS2Map :: "u16 list"
  PS2flags :: "u16 list"
  PS2ToADBMap :: "u8 list"
  PS2ToADBMapMapped :: "u8 list"
  fkeymode :: u32
  fkeymodesupported :: bool
  keysStandard :: "OSObject list option"
  keysSpecial :: "OSObject list option"
  swapcommandoption :: bool
  logscancodes :: u32
  f12ejectdelay :: u32
  timerFunc :: timer_func
  remapPrntScr :: bool
  numLockSupport :: bool
  numLockOnAtBoot :: bool
  sleepEjectTimer :: bool
  maxsleeppresstime :: u32
  kbd_provider :: bool
  backlightLevels :: "u32 list option"
  brightnessHack :: bool
  disableInput :: bool
  macroTranslation :: "u8 list list option"
  macroInversion :: "u8 list list option"
  macroBuffer :: "u8 list option"
  macroMax :: nat
  macroCurrent :: nat
  macroMaxTime :: u64
  macroTimer :: bool
  macroArmed :: bool
  ignoreCapsLedChange :: bool
  capsFirstTime :: bool
  kbd_clock_reads :: nat
  kbd_posted :: "kbd_event list"

definition init_keyboard :: keyboard where
  "init_keyboard = \<lparr>keyBitVector = replicate KBV_NUNITS 0, extendCount = 0,
     kbd_ringBuffer = new_ring (kPacketLength * 32) 0, kbd_lastdata = 0, kbd_interruptHandlerInstalled = False,
     kbd_powerControlHandlerInstalled = False, ledState = 0, kbd_cmdGate = False, PS2modifierState = 0,
     PS2ToPS2Map = map of_nat [0..<KBV_NUM_SCANCODES * 2], PS2flags = PS2flagsStock,
     PS2ToADBMap = replicate ADB_CONVERTER_LEN 0, PS2ToADBMapMapped = PS2ToADBMapStock, fkeymode = 0,
     fkeymodesupported = False, keysStandard = None, keysSpecial = None, swapcommandoption = False,
     logscancodes = 0, f12ejectdelay = 250, timerFunc = kTimerSleep, remapPrntScr = False,
     numLockSupport = False, numLockOnAtBoot = False, sleepEjectTimer = False, maxsleeppresstime = 0,
     kbd_provider = False, backlightLevels = None, brightnessHack = False, disableInput = False,
     macroTranslation = None, macroInversion = None, macroBuffer = None, macroMax = 0, macroCurrent = 0,
     macroMaxTime = 25000000, macroTimer = False, macroArmed = False, ignoreCapsLedChange = False, capsFirstTime = True,
     kbd_clock_reads = 0, kbd_posted = []\<rparr>"

section \<open>The interrupt routine\<close>

definition KBV_KEYDOWN :: "nat \<Rightarrow> keyboard \<Rightarrow> keyboard option" where
  "KBV_KEYDOWN n s = do {
     v \<leftarrow> array_get (keyBitVector s) (drop_bit 5 n);
     v' \<leftarrow> array_set (drop_bit 5 n) (v OR push_bit (n AND 31) 1) (keyBitVector s);
     Some (s\<lparr>keyBitVector := v'\<rparr>)
   }"

definition KBV_KEYUP :: "nat \<Rightarrow> keyboard \<Rightarrow> keyboard option" where
  "KBV_KEYUP n s = do {
     v \<leftarrow> array_get (keyBitVector s) (drop_bit 5 n);
     v' \<leftarrow> array_set (drop_bit 5 n) (v AND NOT (push_bit (n AND 31) 1)) (keyBitVector s);
     Some (s\<lparr>keyBitVector := v'\<rparr>)
   }"

definition KBV_IS_KEYDOWN :: "nat \<Rightarrow> keyboard \<Rightarrow> bool option" where
  "KBV_IS_KEYDOWN n s = do {
     v \<leftarrow> array_get (keyBitVector s) (drop_bit 5 n);
     Some (v AND push_bit (n AND 31) 1 \<noteq> 0)
   }"

text \<open>A time stamp in memory: eight bytes, the low one first.\<close>

definition time_bytes :: "u64 \<Rightarrow> u8 list" where
  "time_bytes t = map (\<lambda>i. ucast (drop_bit (8 * i) t)) [0..<8]"

definition packet_time :: "u8 list \<Rightarrow> u64" where
  "packet_time packet = foldr (\<lambda>b t. ucast b OR push_bit 8 t) (take 8 (drop kPacketTimeOffset packet)) 0"

definition kbd_uptime :: "kclock \<Rightarrow> keyboard \<Rightarrow> u64 \<times> keyboard" where
  "kbd_uptime clk s = (uptime clk (kbd_clock_reads s), s\<lparr>kbd_clock_reads := kbd_clock_reads s + 1\<rparr>)"

definition kbd_buffer :: "kclock \<Rightarrow> u8 \<Rightarrow> u8 \<Rightarrow> keyboard \<Rightarrow> keyboard option" where
  "kbd_buffer clk b0 b1 s = do {
     r \<leftarrow> ring_poke 0 b0 (kbd_ringBuffer s);
     r \<leftarrow> ring_poke 1 b1 r;
     let (now, s) = kbd_uptime clk s;
     r \<leftarrow> fold_opt (\<lambda>(i, b). ring_poke i b) (List.enumerate kPacketTimeOffset (time_bytes now)) r;
     Some (s\<lparr>kbd_ringBuffer := advanceHead kPacketLength r\<rparr>)
   }"

text \<open>Updates the bit vector; the result says whether the byte only repeats a key that is down.\<close>

definition kbd_track :: "nat \<Rightarrow> u8 \<Rightarrow> keyboard \<Rightarrow> (bool \<times> keyboard) option" where
  "kbd_track keyCodeRaw data s = do {
     flags \<leftarrow> array_get (PS2flags s) keyCodeRaw;
     if flags AND kBreaklessKey \<noteq> 0 then Some (False, s)
     else if data AND kSC_UpBit = 0 then do {
       down \<leftarrow> KBV_IS_KEYDOWN keyCodeRaw s;
       if down then Some (True, s) else map_option (Pair False) (KBV_KEYDOWN keyCodeRaw s)
     }
     else map_option (Pair False) (KBV_KEYUP keyCodeRaw s)
   }"

definition kbd_interruptOccurred :: "kclock \<Rightarrow> u8 \<Rightarrow> keyboard \<Rightarrow> (PS2InterruptResult \<times> keyboard) option" where
  "kbd_interruptOccurred clk data s =
     (if kSC_Reset = kbd_lastdata s \<and> 0x00 = data then do {
        s \<leftarrow> kbd_buffer clk 0x00 kSC_Reset s;
        Some (kPS2IR_packetReady, s\<lparr>extendCount := 0\<rparr>)
      }
      else let s = s\<lparr>kbd_lastdata := data\<rparr> in
        if kSC_Acknowledge = data \<or> kSC_Resend = data then Some (kPS2IR_packetBuffering, s)
        else if data = kSC_Extend then Some (kPS2IR_packetBuffering, s\<lparr>extendCount := 1\<rparr>)
        else if data = kSC_Pause then Some (kPS2IR_packetBuffering, s\<lparr>extendCount := 2\<rparr>)
        else
          let extended = extendCount s;
              s = (if extended = 0 then s else s\<lparr>extendCount := extended - 1\<rparr>)
          in if extended = 0 \<or> extendCount s = 0
             then do {
               let keyCodeRaw = unat (push_bit 8 (ucast extended) OR ucast (data AND NOT kSC_UpBit) :: u32);
               (again, s) \<leftarrow> kbd_track keyCodeRaw data s;
               if again then Some (kPS2IR_packetBuffering, s)
               else map_option (Pair kPS2IR_packetReady) (kbd_buffer clk (extended + 1) data s)
             }
             else Some (kPS2IR_packetBuffering, s))"

section \<open>The bit vector as a set\<close>

definition keys_down :: "keyboard \<Rightarrow> nat set" where
  "keys_down s = {n. n < KBV_NUM_KEYCODES \<and> bit (keyBitVector s ! (n div 32)) (n mod 32)}"

lemma kbv_index: "drop_bit 5 (n :: nat) = n div 32" "n AND 31 = n mod 32"
proof -
  have "n AND 31 = take_bit 5 n" by (simp add: take_bit_eq_mask mask_eq_exp_minus_1)
  then show "n AND 31 = n mod 32" by (simp add: take_bit_eq_mod)
qed (simp add: drop_bit_eq_div)

lemma kbv_same_unit: "m div 32 = n div 32 \<Longrightarrow> m mod 32 = n mod 32 \<Longrightarrow> m = n" for m n :: nat
  by (metis div_mult_mod_eq)

text \<open>The three macros are membership, insertion and removal.\<close>

lemma is_keydown:
  assumes "length (keyBitVector s) = KBV_NUNITS" and "n < KBV_NUM_KEYCODES"
  shows "KBV_IS_KEYDOWN n s = Some (n \<in> keys_down s)"
  using assms and_single_bit [of "n mod 32" "keyBitVector s ! (n div 32)"]
  by (simp add: KBV_IS_KEYDOWN_def kbv_index keys_down_def)

lemma keydown:
  assumes "length (keyBitVector s) = KBV_NUNITS" and "n < KBV_NUM_KEYCODES"
  obtains v where "KBV_KEYDOWN n s = Some (s\<lparr>keyBitVector := v\<rparr>)" "length v = KBV_NUNITS"
    "keys_down (s\<lparr>keyBitVector := v\<rparr>) = insert n (keys_down s)"
proof
  let ?v = "(keyBitVector s)[n div 32 := keyBitVector s ! (n div 32) OR push_bit (n mod 32) 1]"
  show "KBV_KEYDOWN n s = Some (s\<lparr>keyBitVector := ?v\<rparr>)" "length ?v = KBV_NUNITS"
    using assms by (simp_all add: KBV_KEYDOWN_def kbv_index)
  show "keys_down (s\<lparr>keyBitVector := ?v\<rparr>) = insert n (keys_down s)"
    using assms by (auto simp: keys_down_def nth_list_update bit_or_iff bit_exp_iff less_mult_imp_div_less
        dest: kbv_same_unit)
qed

lemma keyup:
  assumes "length (keyBitVector s) = KBV_NUNITS" and "n < KBV_NUM_KEYCODES"
  obtains v where "KBV_KEYUP n s = Some (s\<lparr>keyBitVector := v\<rparr>)" "length v = KBV_NUNITS"
    "keys_down (s\<lparr>keyBitVector := v\<rparr>) = keys_down s - {n}"
proof
  let ?v = "(keyBitVector s)[n div 32 := keyBitVector s ! (n div 32) AND NOT (push_bit (n mod 32) 1)]"
  show "KBV_KEYUP n s = Some (s\<lparr>keyBitVector := ?v\<rparr>)" "length ?v = KBV_NUNITS"
    using assms by (simp_all add: KBV_KEYUP_def kbv_index)
  show "keys_down (s\<lparr>keyBitVector := ?v\<rparr>) = keys_down s - {n}"
    using assms by (auto simp: keys_down_def nth_list_update bit_and_iff bit_not_iff bit_exp_iff
        less_mult_imp_div_less dest: kbv_same_unit)
qed

section \<open>Packets in the buffer\<close>

interpretation kbd_ring: packet_ring 16 512
  by unfold_locales auto

text \<open>A packet as its reader sees it: prefix, scan code and time.\<close>

definition kbd_packet :: "u8 list \<Rightarrow> u8 \<times> u8 \<times> u64" where
  "kbd_packet p = (p ! 0, p ! 1, packet_time p)"

definition kbd_packets :: "keyboard \<Rightarrow> (u8 \<times> u8 \<times> u64) list" where
  "kbd_packets s = map kbd_packet (ring_packets 16 (kbd_ringBuffer s))"

lemma time_bytes_length [simp]: "length (time_bytes t) = 8"
  by (simp add: time_bytes_def)

lemma foldr_bytes:
  "foldr (\<lambda>b t. ucast b OR push_bit 8 t) (map (\<lambda>i. ucast (drop_bit (8 * i) t) :: u8) [k..<k + n]) 0 =
   take_bit (8 * n) (drop_bit (8 * k) (t :: u64))"
proof (induction n arbitrary: k)
  case (Suc n)
  have "[k..<k + Suc n] = k # [Suc k..<Suc k + n]" by (simp add: upt_conv_Cons)
  then show ?case using Suc.IH [of "Suc k"]
    by (auto intro!: bit_word_eqI simp: bit_or_iff bit_push_bit_iff bit_take_bit_iff bit_drop_bit_eq bit_ucast_iff
        algebra_simps not_less)
qed simp

text \<open>The time stamp written is the one read back.\<close>

lemma packet_time_bytes:
  assumes "length p = 8" shows "packet_time (p @ time_bytes t) = t"
proof -
  have "take_bit 64 t = t" by (rule take_bit_word_eq_self) simp
  then show ?thesis using foldr_bytes [where k = 0 and n = 8 and t = t] assms
    by (simp add: packet_time_def time_bytes_def)
qed

lemma kbd_buffer_ok:
  assumes "packet_inv 16 512 (kbd_ringBuffer s)"
  obtains r where "kbd_buffer clk b0 b1 s = Some (s\<lparr>kbd_clock_reads := Suc (kbd_clock_reads s), kbd_ringBuffer := r\<rparr>)"
    "packet_inv 16 512 r"
    "map kbd_packet (ring_packets 16 r) = take 31 (kbd_packets s @ [(b0, b1, uptime clk (kbd_clock_reads s))])"
proof -
  let ?t = "uptime clk (kbd_clock_reads s)"
  let ?hs = "head_slot 16 (kbd_ringBuffer s)"
  have hs: "length ?hs = 16" using kbd_ring.head_slot_length [OF assms] .
  obtain r0 where r0: "ring_poke 0 b0 (kbd_ringBuffer s) = Some r0" "packet_inv 16 512 r0"
    "ring_packets 16 r0 = ring_packets 16 (kbd_ringBuffer s)" "head_slot 16 r0 = ?hs[0 := b0]"
    using kbd_ring.poke_ok [OF assms, of 0 b0] by auto
  obtain r1 where r1: "ring_poke 1 b1 r0 = Some r1" "packet_inv 16 512 r1"
    "ring_packets 16 r1 = ring_packets 16 (kbd_ringBuffer s)" "head_slot 16 r1 = ?hs[0 := b0, 1 := b1]"
    using kbd_ring.poke_ok [OF r0(2), of 1 b1] r0(3,4) by auto
  obtain r2 where r2: "fold_opt (\<lambda>(i, b). ring_poke i b) (List.enumerate 8 (time_bytes ?t)) r1 = Some r2"
    "packet_inv 16 512 r2" "ring_packets 16 r2 = ring_packets 16 (kbd_ringBuffer s)"
    "head_slot 16 r2 = take 8 (?hs[0 := b0, 1 := b1]) @ time_bytes ?t"
    using kbd_ring.poke_list [OF r1(2), of 8 "time_bytes ?t"] r1(3,4) hs by auto
  have "kbd_packet (head_slot 16 r2) = (b0, b1, ?t)"
    using hs packet_time_bytes [of "take 8 (?hs[0 := b0, 1 := b1])" ?t]
    by (simp add: kbd_packet_def r2(4) nth_append)
  then have "map kbd_packet (ring_packets 16 (advanceHead 16 r2)) = take 31 (kbd_packets s @ [(b0, b1, ?t)])"
    using kbd_ring.advance_take [OF r2(2)] r2(3) by (simp add: take_map kbd_packets_def take_Cons')
  then show ?thesis using that kbd_ring.advance_inv [OF r2(2)] r0(1) r1(1) r2(1)
    by (simp add: kbd_buffer_def kbd_uptime_def)
qed

section \<open>The specification\<close>

text \<open>
  Over the previous byte, the number of prefixed bytes to come and the set of keys that are down:
  what a byte makes of them and the packet it completes, if any.
\<close>

definition raw_key :: "u8 \<Rightarrow> u8 \<Rightarrow> nat" where
  "raw_key ext b = 256 * unat ext + unat b mod 128"

definition kbd_rx_spec ::
  "(nat \<Rightarrow> bool) \<Rightarrow> u8 \<Rightarrow> u8 \<times> u8 \<times> nat set \<Rightarrow> (u8 \<times> u8) option \<times> u8 \<times> u8 \<times> nat set" where
  "kbd_rx_spec breakless b = (\<lambda>(prev, ext, down).
     if prev = 0xAA \<and> b = 0 then (Some (0, 0xAA), prev, 0, down)
     else if b = 0xFA \<or> b = 0xFE then (None, b, ext, down)
     else if b = 0xE0 then (None, b, 1, down)
     else if b = 0xE1 then (None, b, 2, down)
     else if ext = 2 then (None, b, 1, down)
     else let k = raw_key ext b in
       if breakless k then (Some (ext + 1, b), b, 0, down)
       else if bit b 7 then (Some (ext + 1, b), b, 0, down - {k})
       else if k \<in> down then (None, b, 0, down)
       else (Some (ext + 1, b), b, 0, insert k down))"

definition breakless :: "keyboard \<Rightarrow> nat \<Rightarrow> bool" where
  "breakless s k \<longleftrightarrow> PS2flags s ! k AND kBreaklessKey \<noteq> 0"

definition kbd_rx_inv :: "keyboard \<Rightarrow> bool" where
  "kbd_rx_inv s \<longleftrightarrow> packet_inv 16 512 (kbd_ringBuffer s) \<and> length (keyBitVector s) = KBV_NUNITS \<and>
     length (PS2flags s) = 512 \<and> extendCount s \<le> 2"

definition kbd_view :: "keyboard \<Rightarrow> u8 \<times> u8 \<times> nat set" where
  "kbd_view s = (kbd_lastdata s, extendCount s, keys_down s)"

text \<open>What the interrupt routine may change.\<close>

definition kbd_rx_frame :: "keyboard \<Rightarrow> keyboard \<Rightarrow> bool" where
  "kbd_rx_frame s s' \<longleftrightarrow> s' = s\<lparr>keyBitVector := keyBitVector s', extendCount := extendCount s',
     kbd_ringBuffer := kbd_ringBuffer s', kbd_lastdata := kbd_lastdata s', kbd_clock_reads := kbd_clock_reads s'\<rparr>"

lemma raw_key_word:
  assumes "ext \<le> 1"
  shows "unat (push_bit 8 (ucast ext) OR ucast (b AND NOT 0x80) :: u32) = raw_key ext b" and "raw_key ext b < 512"
proof -
  have "ext = 0 \<or> ext = 1" using assms by (auto simp: word_le_nat_alt word_unat_eq_iff)
  moreover have "(NOT 0x80 :: u8) = mask 7" by (simp add: mask_eq_exp_minus_1)
  then have "b AND NOT 0x80 = take_bit 7 b" by (simp only: take_bit_eq_mask)
  moreover have low: "unat (take_bit 7 b) = unat b mod 128" by (simp add: unsigned_take_bit_eq) (simp add: take_bit_eq_mod)
  moreover have "unat (push_bit 8 1 OR ucast (take_bit 7 b) :: u32) = 256 + unat b mod 128"
  proof -
    have off: "bit (push_bit 8 1 :: u32) n \<longleftrightarrow> n = 8" for n by (subst bit_push_bit_iff) (auto simp: bit_1_iff)
    have "push_bit 8 1 AND ucast (take_bit 7 b) = (0 :: u32)"
      by (intro bit_word_eqI, unfold bit_and_iff off) (auto simp: bit_ucast_iff bit_take_bit_iff)
    then have "push_bit 8 1 OR ucast (take_bit 7 b) = (push_bit 8 1 + ucast (take_bit 7 b) :: u32)"
      using word_plus_and_or [of "push_bit 8 1 :: u32" "ucast (take_bit 7 b)"] by simp
    moreover have "unat (ucast (take_bit 7 b) :: u32) = unat b mod 128"
      using mod_less_divisor [of 128 "unat b"] by (simp add: unsigned_ucast_eq low take_bit_nat_eq_self_iff)
    ultimately show ?thesis by (simp add: unat_word_ariths)
  qed
  ultimately show "unat (push_bit 8 (ucast ext) OR ucast (b AND NOT 0x80) :: u32) = raw_key ext b"
    using mod_less_divisor [of 128 "unat b"] by (auto simp: raw_key_def unsigned_ucast_eq take_bit_nat_eq_self_iff)
  show "raw_key ext b < 512" using \<open>ext = 0 \<or> ext = 1\<close> by (auto simp: raw_key_def)
qed

lemma kbd_track_ok:
  assumes "kbd_rx_inv s" "k < 512"
  obtains v where "kbd_track k b s = Some (\<not> breakless s k \<and> \<not> bit b 7 \<and> k \<in> keys_down s, s\<lparr>keyBitVector := v\<rparr>)"
    "length v = KBV_NUNITS"
    "keys_down (s\<lparr>keyBitVector := v\<rparr>) = (if breakless s k then keys_down s
       else if bit b 7 then keys_down s - {k} else insert k (keys_down s))"
proof -
  have inv: "length (keyBitVector s) = KBV_NUNITS" "k < KBV_NUM_KEYCODES" "length (PS2flags s) = 512"
    using assms by (simp_all add: kbd_rx_inv_def)
  have up: "(b AND 0x80 = 0) = (\<not> bit b 7)" using and_single_bit [of 7 b] by auto
  have track: "kbd_track k b s = (if breakless s k then Some (False, s)
      else if bit b 7 then map_option (Pair False) (KBV_KEYUP k s)
      else if k \<in> keys_down s then Some (True, s) else map_option (Pair False) (KBV_KEYDOWN k s))"
    using inv(3) assms(2) by (simp add: kbd_track_def breakless_def up is_keydown [OF inv(1,2)])
  show ?thesis
  proof (cases "breakless s k \<or> \<not> bit b 7 \<and> k \<in> keys_down s")
    case True
    then show ?thesis using inv(1) by (intro that [of "keyBitVector s"]) (auto simp: track)
  next
    case False
    show ?thesis
    proof (cases "bit b 7")
      case True
      show ?thesis by (rule keyup [OF inv(1,2)]) (use False True track that in auto)
    next
      case f: False
      show ?thesis by (rule keydown [OF inv(1,2)]) (use False f track that in auto)
    qed
  qed
qed

text \<open>One interrupt: it returns, keeps the invariant and follows the specification.\<close>

definition kbd_rx_step :: "kclock \<Rightarrow> u8 \<Rightarrow> keyboard \<Rightarrow> PS2InterruptResult \<Rightarrow> keyboard \<Rightarrow> bool" where
  "kbd_rx_step clk b s r s' \<longleftrightarrow> kbd_rx_inv s' \<and> kbd_rx_frame s s' \<and>
     (case kbd_rx_spec (breakless s) b (kbd_view s) of
        (None, v) \<Rightarrow> r = kPS2IR_packetBuffering \<and> kbd_view s' = v \<and> kbd_packets s' = kbd_packets s \<and>
          kbd_clock_reads s' = kbd_clock_reads s
      | (Some (b0, b1), v) \<Rightarrow> r = kPS2IR_packetReady \<and> kbd_view s' = v \<and>
          kbd_packets s' = take 31 (kbd_packets s @ [(b0, b1, uptime clk (kbd_clock_reads s))]) \<and>
          kbd_clock_reads s' = Suc (kbd_clock_reads s))"

lemma kbd_step_buffered:
  assumes "kbd_rx_inv s" "kbd_rx_frame s t" "kbd_rx_inv t" "kbd_packets t = kbd_packets s"
    "kbd_clock_reads t = kbd_clock_reads s" "kbd_rx_spec (breakless s) b (kbd_view s) = (Some (b0, b1), kbd_view t)"
  shows "\<exists>s'. kbd_buffer clk b0 b1 t = Some s' \<and> kbd_rx_step clk b s kPS2IR_packetReady s'"
proof -
  have "packet_inv 16 512 (kbd_ringBuffer t)" using assms(3) by (simp add: kbd_rx_inv_def)
  then obtain r where r: "kbd_buffer clk b0 b1 t = Some (t\<lparr>kbd_clock_reads := Suc (kbd_clock_reads t), kbd_ringBuffer := r\<rparr>)"
    "packet_inv 16 512 r"
    "map kbd_packet (ring_packets 16 r) = take 31 (kbd_packets t @ [(b0, b1, uptime clk (kbd_clock_reads t))])"
    by (rule kbd_buffer_ok)
  let ?t = "t\<lparr>kbd_clock_reads := Suc (kbd_clock_reads t), kbd_ringBuffer := r\<rparr>"
  have "kbd_rx_inv ?t" using assms(3) r(2) by (simp add: kbd_rx_inv_def)
  moreover have "kbd_rx_frame s ?t" using assms(2) unfolding kbd_rx_frame_def by (cases s, cases t) simp
  moreover have "kbd_view ?t = kbd_view t" by (simp add: kbd_view_def keys_down_def)
  moreover have "kbd_packets ?t = take 31 (kbd_packets s @ [(b0, b1, uptime clk (kbd_clock_reads s))])"
    using r(3) unfolding assms(4,5) [symmetric] by (simp add: kbd_packets_def [of ?t])
  ultimately show ?thesis using r(1) assms(5,6) by (simp add: kbd_rx_step_def)
qed

lemma kbd_interrupt_refines:
  assumes inv: "kbd_rx_inv s"
  shows "\<exists>r s'. kbd_interruptOccurred clk b s = Some (r, s') \<and> kbd_rx_step clk b s r s'"
proof -
  note defs = kbd_rx_inv_def kbd_rx_frame_def kbd_view_def keys_down_def kbd_packets_def
  have ext: "extendCount s = 0 \<or> extendCount s = 1 \<or> extendCount s = 2"
    using inv by (auto simp: kbd_rx_inv_def word_le_nat_alt word_unat_eq_iff le_Suc_eq)
  consider (reset) "kbd_lastdata s = 0xAA" "b = 0"
    | (plain) "\<not> (kbd_lastdata s = 0xAA \<and> b = 0)" "b \<in> {0xFA, 0xFE, 0xE0, 0xE1} \<or> extendCount s = 2"
    | (key) "\<not> (kbd_lastdata s = 0xAA \<and> b = 0)" "b \<notin> {0xFA, 0xFE, 0xE0, 0xE1}" "extendCount s \<le> 1"
    using ext by force
  then show ?thesis
  proof cases
    case reset
    let ?t = "s\<lparr>extendCount := 0\<rparr>"
    have "kbd_rx_spec (breakless s) b (kbd_view s) = (Some (0, 0xAA), kbd_view ?t)"
      using reset by (simp add: kbd_rx_spec_def defs)
    moreover have "kbd_rx_frame s ?t" "kbd_rx_inv ?t" "kbd_packets ?t = kbd_packets s" using inv by (simp_all add: defs)
    ultimately obtain s' where "kbd_buffer clk 0 0xAA ?t = Some s'" "kbd_rx_step clk b s kPS2IR_packetReady s'"
      using kbd_step_buffered [OF inv] by fastforce
    moreover have "kbd_buffer clk 0 0xAA ?t = map_option (extendCount_update (\<lambda>_. 0)) (kbd_buffer clk 0 0xAA s)"
      by (simp add: kbd_buffer_def kbd_uptime_def split: Option.bind_split)
    ultimately show ?thesis using reset by (auto simp: kbd_interruptOccurred_def)
  next
    case plain
    let ?t = "s\<lparr>kbd_lastdata := b, extendCount := (if b = 0xFA \<or> b = 0xFE then extendCount s else if b = 0xE1 then 2 else 1)\<rparr>"
    have "kbd_interruptOccurred clk b s = Some (kPS2IR_packetBuffering, ?t)"
      using plain by (auto simp: kbd_interruptOccurred_def Let_def)
    moreover have "kbd_rx_spec (breakless s) b (kbd_view s) = (None, kbd_view ?t)"
      using plain by (auto simp: kbd_rx_spec_def kbd_view_def keys_down_def)
    moreover have "kbd_rx_inv ?t" "kbd_rx_frame s ?t" "kbd_packets ?t = kbd_packets s" "kbd_clock_reads ?t = kbd_clock_reads s"
      using inv by (simp_all add: defs)
    ultimately show ?thesis by (simp add: kbd_rx_step_def)
  next
    case key
    let ?e = "extendCount s" and ?s = "s\<lparr>kbd_lastdata := b, extendCount := 0\<rparr>"
    let ?k = "raw_key ?e b"
    have e: "?e = 0 \<or> ?e = 1" using key(3) ext by (auto simp: word_le_nat_alt)
    have same: "kbd_rx_inv ?s" "breakless ?s = breakless s" "keys_down ?s = keys_down s"
      using inv by (simp_all add: defs breakless_def fun_eq_iff)
    obtain v where v: "kbd_track ?k b ?s = Some (\<not> breakless s ?k \<and> \<not> bit b 7 \<and> ?k \<in> keys_down s, ?s\<lparr>keyBitVector := v\<rparr>)"
      "length v = KBV_NUNITS"
      "keys_down (?s\<lparr>keyBitVector := v\<rparr>) = (if breakless s ?k then keys_down s
         else if bit b 7 then keys_down s - {?k} else insert ?k (keys_down s))"
      using kbd_track_ok [OF same(1) raw_key_word(2) [OF key(3)]] same(2,3) by metis
    let ?t = "?s\<lparr>keyBitVector := v\<rparr>"
    have t: "kbd_rx_inv ?t" "kbd_rx_frame s ?t" "kbd_packets ?t = kbd_packets s" "kbd_clock_reads ?t = kbd_clock_reads s"
      using inv v(2) by (simp_all add: defs)
    have view: "kbd_view ?t = (b, 0, keys_down ?t)" by (simp add: kbd_view_def)
    have low: "?s = s\<lparr>kbd_lastdata := b\<rparr>" if "?e = 0" using that by (cases s) auto
    have "kbd_interruptOccurred clk b s = Option.bind (kbd_track ?k b ?s) (\<lambda>(again, s').
        if again then Some (kPS2IR_packetBuffering, s')
        else map_option (Pair kPS2IR_packetReady) (kbd_buffer clk (?e + 1) b s'))"
      using key(1,2) e raw_key_word(1) [OF key(3), of b]
      by (auto simp: kbd_interruptOccurred_def Let_def low cong del: if_weak_cong)
    then have run: "kbd_interruptOccurred clk b s = (if \<not> breakless s ?k \<and> \<not> bit b 7 \<and> ?k \<in> keys_down s
        then Some (kPS2IR_packetBuffering, ?t) else map_option (Pair kPS2IR_packetReady) (kbd_buffer clk (?e + 1) b ?t))"
      by (simp add: v(1))
    show ?thesis
    proof (cases "\<not> breakless s ?k \<and> \<not> bit b 7 \<and> ?k \<in> keys_down s")
      case True
      then have "kbd_rx_spec (breakless s) b (kbd_view s) = (None, kbd_view ?t)"
        using key e v(3) view by (auto simp: kbd_rx_spec_def kbd_view_def [of s])
      then show ?thesis using True run t by (simp add: kbd_rx_step_def)
    next
      case False
      then have "kbd_rx_spec (breakless s) b (kbd_view s) = (Some (?e + 1, b), kbd_view ?t)"
        using key e v(3) view by (auto simp: kbd_rx_spec_def kbd_view_def [of s])
      from kbd_step_buffered [OF inv t(2,1,3,4) this] show ?thesis using False run by fastforce
    qed
  qed
qed

section \<open>Streams of scan codes\<close>

definition kbd_interrupts :: "kclock \<Rightarrow> u8 list \<Rightarrow> keyboard \<Rightarrow> keyboard option" where
  "kbd_interrupts clk = fold_opt (\<lambda>b s. map_option snd (kbd_interruptOccurred clk b s))"

fun kbd_rx_stream ::
  "(nat \<Rightarrow> bool) \<Rightarrow> u8 list \<Rightarrow> u8 \<times> u8 \<times> nat set \<Rightarrow> (u8 \<times> u8) list \<times> u8 \<times> u8 \<times> nat set" where
  "kbd_rx_stream bl [] v = ([], v)"
| "kbd_rx_stream bl (b # bs) v =
     (let (p, v) = kbd_rx_spec bl b v; (ps, v) = kbd_rx_stream bl bs v
      in ((case p of None \<Rightarrow> ps | Some x \<Rightarrow> x # ps), v))"

definition key_data :: "u8 \<times> u8 \<times> u64 \<Rightarrow> u8 \<times> u8" where
  "key_data = (\<lambda>(b0, b1, _). (b0, b1))"

lemma frame_breakless: "kbd_rx_frame s s' \<Longrightarrow> breakless s' = breakless s"
  unfolding kbd_rx_frame_def breakless_def by (cases s, cases s') (simp add: fun_eq_iff)

lemma kbd_packets_le: "kbd_rx_inv s \<Longrightarrow> length (kbd_packets s) \<le> 31"
  using kbd_ring.packets_le [of "kbd_ringBuffer s"] by (simp add: kbd_packets_def kbd_rx_inv_def)

lemma kbd_stream:
  assumes "kbd_rx_inv s"
  shows "\<exists>s'. kbd_interrupts clk bs s = Some s' \<and> kbd_rx_inv s' \<and> breakless s' = breakless s \<and>
    kbd_view s' = snd (kbd_rx_stream (breakless s) bs (kbd_view s)) \<and>
    map key_data (kbd_packets s') =
      take 31 (map key_data (kbd_packets s) @ fst (kbd_rx_stream (breakless s) bs (kbd_view s)))"
  using assms
proof (induction bs arbitrary: s)
  case Nil
  then show ?case using kbd_packets_le by (simp add: kbd_interrupts_def)
next
  case (Cons b bs)
  obtain r s1 where s1: "kbd_interruptOccurred clk b s = Some (r, s1)" "kbd_rx_step clk b s r s1"
    using kbd_interrupt_refines [OF Cons.prems] by blast
  have inv1: "kbd_rx_inv s1" "breakless s1 = breakless s" using s1(2) frame_breakless by (auto simp: kbd_rx_step_def)
  obtain p v where pv: "kbd_rx_spec (breakless s) b (kbd_view s) = (p, v)" by (cases "kbd_rx_spec (breakless s) b (kbd_view s)")
  obtain ps v' where st: "kbd_rx_stream (breakless s) bs v = (ps, v')" by (cases "kbd_rx_stream (breakless s) bs v")
  have one: "kbd_view s1 = v" "map key_data (kbd_packets s1) =
      take 31 (map key_data (kbd_packets s) @ (case p of None \<Rightarrow> [] | Some x \<Rightarrow> [x]))"
    using s1(2) pv kbd_packets_le [OF Cons.prems]
    by (auto simp: kbd_rx_step_def key_data_def take_Cons' split: option.splits)
  obtain s' where s': "kbd_interrupts clk bs s1 = Some s'" "kbd_rx_inv s'" "breakless s' = breakless s" "kbd_view s' = v'"
    "map key_data (kbd_packets s') = take 31 (map key_data (kbd_packets s1) @ ps)"
    using Cons.IH [OF inv1(1)] inv1(2) one(1) st by auto
  have "take 31 (take 31 xs @ ys) = take 31 (xs @ ys)" for xs ys :: "(u8 \<times> u8) list"
    by (cases "length xs \<le> 31") auto
  then have "map key_data (kbd_packets s') = take 31 (map key_data (kbd_packets s) @ (case p of None \<Rightarrow> ps | Some x \<Rightarrow> x # ps))"
    unfolding s'(5) one(2) by (cases p) (simp_all only: append_assoc option.case append_Nil append_Cons)
  then show ?case using s' s1(1) pv st by (auto simp: kbd_interrupts_def split: option.splits)
qed

text \<open>
  The history of a key: presses (\<open>True\<close>) and releases (\<open>False\<close>) among the packets, in order. Auto
  repeat is gone when no press follows a press.
\<close>

definition key_history :: "nat \<Rightarrow> (u8 \<times> u8) list \<Rightarrow> bool list" where
  "key_history k ps = map (\<lambda>(b0, b1). \<not> bit b1 7) (filter (\<lambda>(b0, b1). b0 \<noteq> 0 \<and> raw_key (b0 - 1) b1 = k) ps)"

fun no_repeat :: "bool \<Rightarrow> bool list \<Rightarrow> bool" where
  "no_repeat held [] \<longleftrightarrow> True"
| "no_repeat held (press # hist) \<longleftrightarrow> \<not> (held \<and> press) \<and> no_repeat press hist"

lemma key_history_simps [simp]: "key_history k [] = []"
  "key_history k ((b0, b1) # ps) = (if b0 \<noteq> 0 \<and> raw_key (b0 - 1) b1 = k then [\<not> bit b1 7] else []) @ key_history k ps"
  by (simp_all add: key_history_def)

lemma kbd_spec_history:
  assumes "kbd_rx_spec bl b (prev, ext, down) = (p, prev', ext', down')" "ext \<le> 2" "\<not> bl k"
  shows "ext' \<le> 2 \<and> (case p of None \<Rightarrow> k \<in> down' \<longleftrightarrow> k \<in> down
    | Some x \<Rightarrow> (case key_history k [x] of [] \<Rightarrow> k \<in> down' \<longleftrightarrow> k \<in> down
        | press # _ \<Rightarrow> \<not> (k \<in> down \<and> press) \<and> (k \<in> down' \<longleftrightarrow> press)))"
proof -
  have "ext = 0 \<or> ext = 1 \<or> ext = 2" using assms(2) by (auto simp: word_le_nat_alt word_unat_eq_iff le_Suc_eq)
  then have "ext + 1 \<noteq> 0" by auto
  then show ?thesis using assms by (auto simp: kbd_rx_spec_def Let_def split: if_splits)
qed

lemma kbd_stream_history:
  assumes "kbd_rx_stream bl bs (prev, ext, down) = (ps, prev', ext', down')" "ext \<le> 2" "\<not> bl k"
  shows "no_repeat (k \<in> down) (key_history k ps) \<and> (k \<in> down' \<longleftrightarrow> last ((k \<in> down) # key_history k ps))"
  using assms
proof (induction bs arbitrary: prev ext down ps)
  case (Cons b bs)
  obtain p prev1 ext1 down1 where one: "kbd_rx_spec bl b (prev, ext, down) = (p, prev1, ext1, down1)"
    by (cases "kbd_rx_spec bl b (prev, ext, down)")
  obtain qs where rest: "kbd_rx_stream bl bs (prev1, ext1, down1) = (qs, prev', ext', down')"
    and ps: "ps = (case p of None \<Rightarrow> qs | Some x \<Rightarrow> x # qs)"
    using Cons.prems(1) one by (auto split: prod.splits)
  note step = kbd_spec_history [OF one Cons.prems(2,3)]
  then have "no_repeat (k \<in> down1) (key_history k qs) \<and> (k \<in> down' \<longleftrightarrow> last ((k \<in> down1) # key_history k qs))"
    using Cons.IH [OF rest _ Cons.prems(3)] by simp
  then show ?case using step ps by (cases p) (auto split: if_splits)
qed simp

lemma kbd_spec_breakless:
  "\<lbrakk>kbd_rx_spec bl b (prev, ext, down) = (p, prev', ext', down'); bl k\<rbrakk> \<Longrightarrow> k \<in> down' \<longleftrightarrow> k \<in> down"
  by (auto simp: kbd_rx_spec_def Let_def split: if_splits)

lemma kbd_stream_breakless:
  "\<lbrakk>kbd_rx_stream bl bs (prev, ext, down) = (ps, prev', ext', down'); bl k\<rbrakk> \<Longrightarrow> k \<in> down' \<longleftrightarrow> k \<in> down"
proof (induction bs arbitrary: prev ext down ps)
  case (Cons b bs)
  obtain p prev1 ext1 down1 where one: "kbd_rx_spec bl b (prev, ext, down) = (p, prev1, ext1, down1)"
    by (cases "kbd_rx_spec bl b (prev, ext, down)")
  obtain qs where rest: "kbd_rx_stream bl bs (prev1, ext1, down1) = (qs, prev', ext', down')"
    using Cons.prems(1) one by (auto split: prod.splits)
  show ?case using kbd_spec_breakless [OF one Cons.prems(2)] Cons.IH [OF rest Cons.prems(2)] by simp
qed simp

text \<open>
  The packets the interrupt routine signals: for every byte on which it reports a complete packet, the
  prefix count and the byte (or the report of a reset). They reach the buffer as long as it has room.
\<close>

fun kbd_signals :: "kclock \<Rightarrow> u8 list \<Rightarrow> keyboard \<Rightarrow> ((u8 \<times> u8) list \<times> keyboard) option" where
  "kbd_signals clk [] s = Some ([], s)"
| "kbd_signals clk (b # bs) s = do {
     (r, s1) \<leftarrow> kbd_interruptOccurred clk b s;
     (ps, s2) \<leftarrow> kbd_signals clk bs s1;
     Some (if r = kPS2IR_packetReady
           then (if kbd_lastdata s = 0xAA \<and> b = 0 then (0, 0xAA) else (extendCount s + 1, b)) # ps else ps, s2)
   }"

lemma kbd_spec_packet:
  "fst (kbd_rx_spec bl b (prev, ext, down)) = Some x \<Longrightarrow> x = (if prev = 0xAA \<and> b = 0 then (0, 0xAA) else (ext + 1, b))"
  by (auto simp: kbd_rx_spec_def Let_def split: if_splits)

lemma kbd_signals_stream:
  "kbd_rx_inv s \<Longrightarrow> map_option fst (kbd_signals clk bs s) = Some (fst (kbd_rx_stream (breakless s) bs (kbd_view s))) \<and>
     map_option snd (kbd_signals clk bs s) = kbd_interrupts clk bs s"
proof (induction bs arbitrary: s)
  case Nil
  then show ?case by (simp add: kbd_interrupts_def)
next
  case (Cons b bs)
  obtain r s1 where s1: "kbd_interruptOccurred clk b s = Some (r, s1)" "kbd_rx_step clk b s r s1"
    using kbd_interrupt_refines [OF Cons.prems] by blast
  have inv1: "kbd_rx_inv s1" "breakless s1 = breakless s" using s1(2) frame_breakless by (auto simp: kbd_rx_step_def)
  obtain p v where pv: "kbd_rx_spec (breakless s) b (kbd_view s) = (p, v)" by (cases "kbd_rx_spec (breakless s) b (kbd_view s)")
  have view: "kbd_view s1 = v" "r = kPS2IR_packetReady \<longleftrightarrow> p \<noteq> None" using s1(2) pv by (auto simp: kbd_rx_step_def split: option.splits)
  have x: "x = (if kbd_lastdata s = 0xAA \<and> b = 0 then (0, 0xAA) else (extendCount s + 1, b))" if "p = Some x" for x
    using kbd_spec_packet [of "breakless s" b "kbd_lastdata s" "extendCount s" "keys_down s" x] pv that by (simp add: kbd_view_def)
  obtain ps s2 where rest: "kbd_signals clk bs s1 = Some (ps, s2)" "ps = fst (kbd_rx_stream (breakless s) bs v)"
    "Some s2 = kbd_interrupts clk bs s1" using Cons.IH [OF inv1(1)] inv1(2) view(1) by auto
  have "kbd_interrupts clk (b # bs) s = Some s2" using s1(1) rest(3) by (simp add: kbd_interrupts_def)
  then show ?case using rest(1,2) s1(1) pv view(2) x by (auto simp: split_def Let_def split: option.splits)
qed

lemma init_keyboard_rx: "kbd_rx_inv init_keyboard" "kbd_packets init_keyboard = []" "keys_down init_keyboard = {}"
proof -
  have "packet_inv 16 512 (new_ring 512 (0 :: u8))" "ring_packets 16 (new_ring 512 (0 :: u8)) = []" using kbd_ring.new_ring_ok [of "0 :: u8"] by simp_all
  then show "kbd_rx_inv init_keyboard" "kbd_packets init_keyboard = []"
    by (simp_all add: kbd_rx_inv_def init_keyboard_def kbd_packets_def)
  show "keys_down init_keyboard = {}" by (auto simp: keys_down_def init_keyboard_def less_mult_imp_div_less)
qed

text \<open>
  C39. Decoding scan codes: whatever bytes the keyboard sends, the interrupt routine returns, stays
  inside its tables, and the bit vector, the prefix counter and the packets in the buffer (as many as
  fit) are those of the specification over the set of keys that are down.
\<close>

theorem kbd_scan_refines:
  assumes "kbd_rx_inv s"
  shows "\<exists>s'. kbd_interrupts clk bs s = Some s' \<and> kbd_rx_inv s' \<and>
    kbd_view s' = snd (kbd_rx_stream (breakless s) bs (kbd_view s)) \<and>
    map key_data (kbd_packets s') =
      take 31 (map key_data (kbd_packets s) @ fst (kbd_rx_stream (breakless s) bs (kbd_view s)))"
  using kbd_stream [OF assms] by blast

text \<open>The Pause key, a cursor key, and a letter that repeats.\<close>

theorem kbd_scan_refines_witness:
  "\<exists>s'. kbd_interrupts sample_clock [0xE1, 0x1D, 0x45, 0xE1, 0x9D, 0xC5, 0xE0, 0x48, 0x1E, 0x1E, 0x9E] init_keyboard = Some s' \<and>
    map key_data (kbd_packets s') = [(2, 0x45), (2, 0xC5), (2, 0x48), (1, 0x1E), (1, 0x9E)]"
proof -
  have bl: "\<not> breakless init_keyboard 0x145" "\<not> breakless init_keyboard 0x148" "\<not> breakless init_keyboard 0x1E"
    by (simp_all add: breakless_def init_keyboard_def flags_table)
  have "fst (kbd_rx_stream (breakless init_keyboard) [0xE1, 0x1D, 0x45, 0xE1, 0x9D, 0xC5, 0xE0, 0x48, 0x1E, 0x1E, 0x9E]
    (kbd_view init_keyboard)) = [(2, 0x45), (2, 0xC5), (2, 0x48), (1, 0x1E), (1, 0x9E)]"
    using bl by (simp add: kbd_view_def init_keyboard_rx) (simp add: init_keyboard_def kbd_rx_spec_def raw_key_def)
  then show ?thesis using kbd_scan_refines [OF init_keyboard_rx(1), of sample_clock] init_keyboard_rx(2) by fastforce
qed

text \<open>
  C40. Auto repeat, for any number of bytes and however full the buffer is: among the packets the
  interrupt routine signals, a press of a key with break codes is followed by another press of it only
  after a release, and at the end such a key counts as held exactly when its last packet was a press. A
  key without break codes is not tracked: whether it counts as held never changes. The buffer takes the
  signalled packets in order until it is full (31 packets); packets beyond that are dropped, so its reader
  sees the alternation only while it keeps up.
\<close>

theorem kbd_autorepeat_filtered:
  assumes "kbd_rx_inv s"
  shows "\<exists>ps s'. kbd_signals clk bs s = Some (ps, s') \<and>
    map key_data (kbd_packets s') = take 31 (map key_data (kbd_packets s) @ ps) \<and>
    (\<forall>k. if breakless s k then k \<in> keys_down s' \<longleftrightarrow> k \<in> keys_down s
      else no_repeat (k \<in> keys_down s) (key_history k ps) \<and>
        (k \<in> keys_down s' \<longleftrightarrow> last ((k \<in> keys_down s) # key_history k ps)))"
proof -
  obtain ps prev ext down where st: "kbd_rx_stream (breakless s) bs (kbd_lastdata s, extendCount s, keys_down s) = (ps, prev, ext, down)"
    by (cases "kbd_rx_stream (breakless s) bs (kbd_lastdata s, extendCount s, keys_down s)")
  obtain s' where s': "kbd_interrupts clk bs s = Some s'" "keys_down s' = down"
    "map key_data (kbd_packets s') = take 31 (map key_data (kbd_packets s) @ ps)"
    using kbd_stream [OF assms, of clk bs] st by (auto simp: kbd_view_def)
  have sig: "kbd_signals clk bs s = Some (ps, s')" using kbd_signals_stream [OF assms, of clk bs] s'(1) st by (auto simp: kbd_view_def)
  have ext: "extendCount s \<le> 2" using assms by (simp add: kbd_rx_inv_def)
  have "if breakless s k then k \<in> down \<longleftrightarrow> k \<in> keys_down s
      else no_repeat (k \<in> keys_down s) (key_history k ps) \<and> (k \<in> down \<longleftrightarrow> last ((k \<in> keys_down s) # key_history k ps))" for k
    using kbd_stream_breakless [OF st, of k] kbd_stream_history [OF st ext, of k] by presburger
  then show ?thesis using sig s'(2,3) by blast
qed

theorem kbd_autorepeat_filtered_witness:
  "\<exists>ps s'. kbd_signals sample_clock [0x1E, 0x1E, 0x1E, 0x9E, 0x1E] init_keyboard = Some (ps, s') \<and>
    no_repeat False (key_history 0x1E ps) \<and> (0x1E \<in> keys_down s' \<longleftrightarrow> last (False # key_history 0x1E ps))"
proof -
  have bl: "\<not> breakless init_keyboard 0x1E" by (simp add: breakless_def init_keyboard_def flags_table)
  obtain ps s' where "kbd_signals sample_clock [0x1E, 0x1E, 0x1E, 0x9E, 0x1E] init_keyboard = Some (ps, s')"
    "\<forall>k. if breakless init_keyboard k then k \<in> keys_down s' \<longleftrightarrow> k \<in> {}
      else no_repeat (k \<in> {}) (key_history k ps) \<and> (k \<in> keys_down s' \<longleftrightarrow> last ((k \<in> {}) # key_history k ps))"
    using kbd_autorepeat_filtered [OF init_keyboard_rx(1), of sample_clock "[0x1E, 0x1E, 0x1E, 0x9E, 0x1E]"] unfolding init_keyboard_rx(3) by blast
  then show ?thesis using bl spec [of _ "0x1E"] by (metis empty_iff)
qed

end
