(* ===== verification/PS2_Keyboard_Dispatch.thy ===== *)
theory PS2_Keyboard_Dispatch
  imports PS2_Keyboard
begin

text \<open>
  From packets to key events: \<^verbatim>\<open>dispatchKeyboardEventWithPacket\<close> with its special keys, one definition
  per case of its switch. The outside world is a parameter: what the HID superclass, the ACPI
  methods and the receivers of a message answer may depend on everything posted before.
\<close>

section \<open>The outside world\<close>

record kbd_os =
  os_clock :: kclock
  os_numLock :: "kbd_event list \<Rightarrow> bool"
  os_notify :: "kbd_event list \<Rightarrow> PS2KeyInfo \<Rightarrow> PS2KeyInfo"
  os_touchpadEnabled :: "kbd_event list \<Rightarrow> bool"
  os_KKQC :: "kbd_event list \<Rightarrow> u32 option"
  os_rootDomain :: bool
  os_hidSystem :: bool
  os_version_major :: nat

definition kbd_post :: "kbd_event \<Rightarrow> keyboard \<Rightarrow> keyboard" where
  "kbd_post ev s = s\<lparr>kbd_posted := kbd_posted s @ [ev]\<rparr>"

definition dispatchKeyboardEventX :: "u32 \<Rightarrow> bool \<Rightarrow> u64 \<Rightarrow> keyboard \<Rightarrow> keyboard" where
  "dispatchKeyboardEventX keyCode goDown time = kbd_post (KeyEvent keyCode goDown time)"

definition checkModifierState :: "u16 \<Rightarrow> keyboard \<Rightarrow> bool" where
  "checkModifierState m s \<longleftrightarrow> m = PS2modifierState s AND m"

definition checkModifierStateAny :: "u16 \<Rightarrow> keyboard \<Rightarrow> bool" where
  "checkModifierStateAny m s \<longleftrightarrow> PS2modifierState s AND m \<noteq> 0"

definition setSleepEjectTimeout :: "u32 \<Rightarrow> keyboard \<Rightarrow> keyboard option" where
  "setSleepEjectTimeout ms s =
     (if sleepEjectTimer s then Some (kbd_post (SleepEjectTimeout (Some (ucast ms * 1000000))) s) else None)"

definition cancelSleepEject :: "keyboard \<Rightarrow> keyboard option" where
  "cancelSleepEject s = (if sleepEjectTimer s then Some (kbd_post (SleepEjectTimeout None) s) else None)"

section \<open>Special keys\<close>

definition modifyKeyboardBacklight :: "kbd_os \<Rightarrow> nat \<Rightarrow> bool \<Rightarrow> keyboard \<Rightarrow> keyboard option" where
  "modifyKeyboardBacklight os keyCode goDown s = (case (kbd_provider s, backlightLevels s) of
     (True, Some levels) \<Rightarrow>
       (case os_KKQC os (kbd_posted s) of
          None \<Rightarrow> Some s
        | Some current \<Rightarrow>
            (let count = int (length levels);
                 index = int (length (takeWhile (\<lambda>l. sint l < sint current) levels));
                 index = index + (if keyCode = 0x4e then 1 else -1);
                 index = (if index \<ge> count then count - 1 else index);
                 index = (if index < 0 then 0 else index)
             in do {
               level \<leftarrow> array_get levels (nat index);
               Some (if goDown then kbd_post (EvaluateObject ''KKCM'' level) s else s)
             }))
   | _ \<Rightarrow> None)"

definition onSleepEjectTimer :: "kbd_os \<Rightarrow> keyboard \<Rightarrow> keyboard" where
  "onSleepEjectTimer os s = (case timerFunc s of
     kTimerSleep \<Rightarrow> if os_rootDomain os then kbd_post SleepNow s else s
   | kTimerEject \<Rightarrow> let (now_abs, s) = kbd_uptime (os_clock os) s in dispatchKeyboardEventX 0x92 True now_abs s)"

definition kbd_numLockKey :: "kbd_os \<Rightarrow> u8 \<Rightarrow> nat \<Rightarrow> keyboard \<Rightarrow> (bool + nat) \<times> keyboard" where
  "kbd_numLockKey os scanCode keyCode s =
     (if numLockSupport s \<and> scanCode = 0xc5
      then (Inl True, kbd_post (SetNumLock (\<not> os_numLock os (kbd_posted s))) s)
      else if numLockSupport s \<and> scanCode = 0x45 then (Inl False, s)
      else (Inr keyCode, s))"

definition kbd_lift :: "bool \<Rightarrow> u64 \<Rightarrow> nat list \<Rightarrow> keyboard \<Rightarrow> keyboard option" where
  "kbd_lift press now_abs = fold_opt (\<lambda>key s. do {
     down \<leftarrow> KBV_IS_KEYDOWN key s;
     if down then do {
       adb \<leftarrow> array_get (PS2ToADBMap s) key;
       Some (dispatchKeyboardEventX (ucast adb) press now_abs s)
     } else Some s
   })"

definition kbd_numpadKey :: "kbd_os \<Rightarrow> bool \<Rightarrow> u64 \<Rightarrow> nat \<Rightarrow> keyboard \<Rightarrow> (nat \<times> keyboard) option" where
  "kbd_numpadKey os goDown now_abs keyCode s =
     (if backlightLevels s \<noteq> None \<and> checkModifierState (kMaskLeftControl OR kMaskLeftAlt) s
      then map_option (Pair 0) (modifyKeyboardBacklight os keyCode goDown s)
      else if brightnessHack s \<and> checkModifierState (kMaskLeftControl OR kMaskLeftShift) s
      then do {
        let keys = (if checkModifierState kMaskLeftWindows s then [0x1d] else [0x2a, 0x1d]);
        s \<leftarrow> kbd_lift False now_abs keys s;
        let s = dispatchKeyboardEventX (if keyCode = 0x4e then 0x90 else 0x91) goDown now_abs s;
        s \<leftarrow> kbd_lift True now_abs keys s;
        Some (0, s)
      }
      else Some (keyCode, s))"

definition kbd_deleteKey :: "bool \<Rightarrow> u64 \<Rightarrow> nat \<Rightarrow> keyboard \<Rightarrow> nat \<times> keyboard" where
  "kbd_deleteKey goDown now_abs keyCode s =
     (if checkModifierState (kMaskLeftControl OR kMaskLeftAlt) s
      then (0, if goDown then s
               else fold (\<lambda>(code, press). dispatchKeyboardEventX code press now_abs)
                 [(0x37, False), (0x3b, False), (0x7f, True), (0x7f, False)] s)
      else (keyCode, s))"

definition kbd_sleepKey :: "kbd_os \<Rightarrow> bool \<Rightarrow> keyboard \<Rightarrow> keyboard option" where
  "kbd_sleepKey os goDown s =
     (if goDown
      then let s = s\<lparr>timerFunc := kTimerSleep\<rparr> in
        if fkeymode s \<noteq> 0 \<or> maxsleeppresstime s = 0 then Some (onSleepEjectTimer os s)
        else setSleepEjectTimeout (maxsleeppresstime s) s
      else cancelSleepEject s)"

definition kbd_fnKey :: "kbd_os \<Rightarrow> bool \<Rightarrow> keyboard \<Rightarrow> keyboard" where
  "kbd_fnKey os goDown s =
     (if goDown \<and> fkeymodesupported s \<and> os_hidSystem os
      then kbd_post (SetFKeyMode (if fkeymode s = 0 then 1 else 0)) s else s)"

definition kbd_printScreen :: "kbd_os \<Rightarrow> bool \<Rightarrow> u64 \<Rightarrow> nat \<Rightarrow> keyboard \<Rightarrow> nat \<times> keyboard" where
  "kbd_printScreen os goDown now_abs keyCode s =
     (if \<not> remapPrntScr s then (keyCode, s)
      else let origKeyCode = keyCode in
        (0, if \<not> goDown then s
            else if checkModifierStateAny (kMaskLeftControl OR kMaskRightControl) s
            then let s = (if checkModifierStateAny (kMaskLeftAlt OR kMaskRightAlt) s
                          then kbd_post (Message (kPS2M_resetTouchpad 1)) s else s)
                 in if origKeyCode \<noteq> 0x0137 then s else kbd_fnKey os goDown s
            else if checkModifierState kMaskLeftShift s \<or> checkModifierState kMaskRightShift s
            then dispatchKeyboardEventX 0x58 False now_abs (dispatchKeyboardEventX 0x58 True now_abs s)
            else if checkModifierStateAny (kMaskRightShift OR kMaskLeftShift OR kMaskRightAlt OR kMaskLeftAlt) s then s
            else if checkModifierStateAny (kMaskLeftWindows OR kMaskRightWindows) s
            then let enabled = disableInput s
                 in kbd_post (Message (kPS2M_setDisableTouchpad enabled)) (s\<lparr>disableInput := \<not> disableInput s\<rparr>)
            else let s = kbd_post (Message kPS2M_getDisableTouchpad) s;
                     enabled = os_touchpadEnabled os (kbd_posted s)
                 in kbd_post (Message (kPS2M_setDisableTouchpad (\<not> enabled))) s))"

definition kbd_sysRq :: "kbd_os \<Rightarrow> bool \<Rightarrow> u64 \<Rightarrow> keyboard \<Rightarrow> nat \<times> keyboard" where
  "kbd_sysRq os goDown now_abs s =
     (let s = s\<lparr>PS2modifierState := (PS2modifierState s AND NOT kMaskRightAlt) OR kMaskLeftAlt\<rparr>
      in kbd_printScreen os goDown now_abs 0x0137 s)"

definition kbd_special :: "kbd_os \<Rightarrow> u8 \<Rightarrow> bool \<Rightarrow> u64 \<Rightarrow> nat \<Rightarrow> keyboard \<Rightarrow> ((bool + nat) \<times> keyboard) option" where
  "kbd_special os scanCode goDown now_abs keyCode s =
     (if keyCode = 0x45 then Some (kbd_numLockKey os scanCode keyCode s)
      else if keyCode = 0x4e \<or> keyCode = 0x4a
      then map_option (apfst Inr) (kbd_numpadKey os goDown now_abs keyCode s)
      else if keyCode = 0x0153 then Some (apfst Inr (kbd_deleteKey goDown now_abs keyCode s))
      else if keyCode = 0x015f then map_option (Pair (Inr 0)) (kbd_sleepKey os goDown s)
      else if keyCode = 0x0054 \<and> remapPrntScr s \<or> keyCode = 0x0128
      then Some (apfst Inr (kbd_sysRq os goDown now_abs s))
      else if keyCode = 0x0137 then Some (apfst Inr (kbd_printScreen os goDown now_abs keyCode s))
      else if keyCode = 0x0127 then Some (Inr 0, kbd_fnKey os goDown s)
      else Some (Inr keyCode, s))"

section \<open>Dispatching a packet\<close>

text \<open>The translation of a scan code: a final result, or the raw key and the code it is mapped to.\<close>

definition kbd_translate :: "kbd_os \<Rightarrow> u8 list \<Rightarrow> keyboard \<Rightarrow> ((bool + nat \<times> nat) \<times> keyboard) option" where
  "kbd_translate os packet s =
     (let extended = packet ! 0 - 1;
          scanCode = packet ! 1;
          keyCodeRaw = unat (scanCode AND NOT kSC_UpBit)
      in if extended = 0
         then if scanCode = 0xf2 \<or> scanCode = 0xf1
           then do {
             adb \<leftarrow> array_get (PS2ToADBMap s) (unat scanCode);
             let (now_abs, s) = kbd_uptime (os_clock os) s;
             let s = dispatchKeyboardEventX (ucast adb) True now_abs s;
             let (now_abs, s) = kbd_uptime (os_clock os) s;
             Some (Inl True, dispatchKeyboardEventX (ucast adb) False now_abs s)
           }
           else do {
             keyCode \<leftarrow> array_get (PS2ToPS2Map s) keyCodeRaw;
             Some (Inr (keyCodeRaw, unat keyCode), s)
           }
         else do {
           let keyCodeRaw = keyCodeRaw + KBV_NUM_SCANCODES;
           keyCode \<leftarrow> array_get (PS2ToPS2Map s) keyCodeRaw;
           Some (if keyCodeRaw = 0x012a then Inl False else Inr (keyCodeRaw, unat keyCode), s)
         })"

definition modifier_mask :: "u16 \<Rightarrow> u16" where
  "modifier_mask flags = (if drop_bit 8 flags = 0 then 0 else push_bit (unat (drop_bit 8 flags) - 1) 1)"

definition kbd_trackModifier :: "nat \<Rightarrow> bool \<Rightarrow> keyboard \<Rightarrow> keyboard option" where
  "kbd_trackModifier keyCodeRaw goDown s = do {
     flags \<leftarrow> array_get (PS2flags s) keyCodeRaw;
     Some (if drop_bit 8 flags = 0 then s
           else s\<lparr>PS2modifierState := (if goDown then PS2modifierState s OR modifier_mask flags
                                    else PS2modifierState s AND NOT (modifier_mask flags))\<rparr>)
   }"

definition kbd_acpiKey :: "nat \<Rightarrow> bool \<Rightarrow> keyboard \<Rightarrow> keyboard" where
  "kbd_acpiKey keyCode goDown s =
     (if keyCode \<ge> 0x01f0 \<and> keyCode \<le> 0x01ff \<and> kbd_provider s
      then let n = keyCode - 0x01f0;
               method = ''RKA'' @ [char_of (if n < 10 then n + 48 else n - 10 + 65)]
           in kbd_post (EvaluateObject method (if goDown then 1 else 0)) s
      else s)"

definition kbd_eject :: "kbd_os \<Rightarrow> u8 \<Rightarrow> bool \<Rightarrow> keyboard \<Rightarrow> (bool \<times> keyboard) option" where
  "kbd_eject os adb goDown s =
     (if adb = 0x92 \<and> PS2modifierState s = 0
      then if goDown
        then let s = s\<lparr>timerFunc := kTimerEject\<rparr> in
          map_option (Pair True)
            (if f12ejectdelay s = 0 then Some (onSleepEjectTimer os s) else setSleepEjectTimeout (f12ejectdelay s) s)
        else map_option (Pair False) (cancelSleepEject s)
      else Some (False, s))"

definition kbd_typeTwice :: "kbd_os \<Rightarrow> u8 \<Rightarrow> keyboard \<Rightarrow> keyboard" where
  "kbd_typeTwice os adb s =
     (let (now_abs, s) = kbd_uptime (os_clock os) s;
          s = dispatchKeyboardEventX (ucast adb) True now_abs s;
          (now_abs, s) = kbd_uptime (os_clock os) s
      in dispatchKeyboardEventX (ucast adb) False now_abs s)"

definition kbd_capsLock :: "kbd_os \<Rightarrow> u8 \<Rightarrow> bool \<Rightarrow> keyboard \<Rightarrow> keyboard" where
  "kbd_capsLock os adb goDown s =
     (let s = (if goDown \<or> os_version_major os \<ge> 18
               then kbd_typeTwice os adb (s\<lparr>ignoreCapsLedChange := True\<rparr>) else s)
      in if goDown \<and> os_version_major os < 18
         then (if capsFirstTime s then s else kbd_typeTwice os adb s)\<lparr>capsFirstTime := False\<rparr>
         else s)"

definition kbd_deliver :: "kbd_os \<Rightarrow> nat \<Rightarrow> nat \<Rightarrow> bool \<Rightarrow> u64 \<Rightarrow> keyboard \<Rightarrow> (bool \<times> keyboard) option" where
  "kbd_deliver os keyCodeRaw keyCode goDown now_abs s = do {
     let keyCode = (if disableInput s \<and> goDown then 0 else keyCode);
     adb \<leftarrow> array_get (PS2ToADBMap s) keyCode;
     (eat, s) \<leftarrow> kbd_eject os adb goDown s;
     let info = \<lparr>key_time = to_ns (os_clock os) now_abs, adbKeyCode = ucast adb, goingDown = goDown, eatKey = eat\<rparr>;
     let info' = os_notify os (kbd_posted s) info;
     let s = kbd_post (Message (kPS2M_notifyKeyPressed info)) s;
     if adb = 0x39 \<and> os_version_major os \<ge> 16 then Some (True, kbd_capsLock os adb goDown s)
     else if keyCode \<noteq> 0 \<and> \<not> eatKey info' then do {
       flags \<leftarrow> array_get (PS2flags s) keyCodeRaw;
       let s = (if goDown \<or> flags AND kBreaklessKey = 0 then dispatchKeyboardEventX (ucast adb) goDown now_abs s else s);
       let s = (if goDown \<and> flags AND kBreaklessKey \<noteq> 0 then dispatchKeyboardEventX (ucast adb) False now_abs s else s);
       Some (True, s)
     }
     else Some (True, s)
   }"

definition dispatchKeyboardEventWithPacket :: "kbd_os \<Rightarrow> u8 list \<Rightarrow> keyboard \<Rightarrow> (bool \<times> keyboard) option" where
  "dispatchKeyboardEventWithPacket os packet s =
     (let scanCode = packet ! 1;
          goDown = (scanCode AND kSC_UpBit = 0);
          now_abs = packet_time packet
      in do {
        (r, s) \<leftarrow> kbd_translate os packet s;
        case r of
          Inl result \<Rightarrow> Some (result, s)
        | Inr (keyCodeRaw, keyCode) \<Rightarrow> do {
            s \<leftarrow> kbd_trackModifier keyCodeRaw goDown s;
            (r, s) \<leftarrow> kbd_special os scanCode goDown now_abs keyCode (kbd_acpiKey keyCode goDown s);
            case r of
              Inl result \<Rightarrow> Some (result, s)
            | Inr keyCode \<Rightarrow> kbd_deliver os keyCodeRaw keyCode goDown now_abs s
          }
      })"

section \<open>What dispatching touches\<close>

text \<open>
  \<open>kbd_core\<close> hides the members a dispatch may change; \<open>kbd_ok\<close> is what it relies on: the tables
  have their size, remapped codes stay inside them, the timer exists, and backlight levels are known
  only with the ACPI device that has them.
\<close>

definition kbd_core :: "keyboard \<Rightarrow> keyboard" where
  "kbd_core s = s\<lparr>PS2modifierState := 0, timerFunc := kTimerSleep, disableInput := False, ignoreCapsLedChange := False,
     capsFirstTime := False, kbd_clock_reads := 0, kbd_posted := []\<rparr>"

definition kbd_ok :: "keyboard \<Rightarrow> bool" where
  "kbd_ok s \<longleftrightarrow> length (keyBitVector s) = KBV_NUNITS \<and> length (PS2ToPS2Map s) = 512 \<and>
     (\<forall>c \<in> set (PS2ToPS2Map s). unat c < 512) \<and> length (PS2flags s) = 512 \<and> length (PS2ToADBMap s) = 512 \<and>
     length (PS2ToADBMapMapped s) = 512 \<and> sleepEjectTimer s \<and> (\<forall>levels. backlightLevels s = Some levels \<longrightarrow> levels \<noteq> [] \<and> kbd_provider s)"

lemma kbd_core_fields [simp]:
  "keyBitVector (kbd_core s) = keyBitVector s" "PS2ToPS2Map (kbd_core s) = PS2ToPS2Map s"
  "PS2flags (kbd_core s) = PS2flags s" "PS2ToADBMap (kbd_core s) = PS2ToADBMap s"
  "sleepEjectTimer (kbd_core s) = sleepEjectTimer s" "backlightLevels (kbd_core s) = backlightLevels s"
  "kbd_provider (kbd_core s) = kbd_provider s" "kbd_ringBuffer (kbd_core s) = kbd_ringBuffer s"
  "extendCount (kbd_core s) = extendCount s" "macroInversion (kbd_core s) = macroInversion s"
  "macroBuffer (kbd_core s) = macroBuffer s" "macroCurrent (kbd_core s) = macroCurrent s"
  "macroMax (kbd_core s) = macroMax s" "macroTimer (kbd_core s) = macroTimer s"
  "macroMaxTime (kbd_core s) = macroMaxTime s" "macroArmed (kbd_core s) = macroArmed s"
  "PS2ToADBMapMapped (kbd_core s) = PS2ToADBMapMapped s"
  by (simp_all add: kbd_core_def)

lemma kbd_ok_core: "kbd_ok (kbd_core s) = kbd_ok s"
  by (simp add: kbd_ok_def)

lemma kbd_ok_cong: "kbd_core s' = kbd_core s \<Longrightarrow> kbd_ok s' = kbd_ok s"
  by (metis kbd_ok_core)

lemma kbd_core_updates [simp]:
  "kbd_core (s\<lparr>PS2modifierState := m\<rparr>) = kbd_core s" "kbd_core (s\<lparr>timerFunc := t\<rparr>) = kbd_core s"
  "kbd_core (s\<lparr>disableInput := d\<rparr>) = kbd_core s" "kbd_core (s\<lparr>ignoreCapsLedChange := i\<rparr>) = kbd_core s"
  "kbd_core (s\<lparr>capsFirstTime := c\<rparr>) = kbd_core s" "kbd_core (s\<lparr>kbd_clock_reads := n\<rparr>) = kbd_core s"
  "kbd_core (s\<lparr>kbd_posted := ps\<rparr>) = kbd_core s"
  by (simp_all add: kbd_core_def)

lemma kbd_core_post [simp]:
  "kbd_core (kbd_post ev s) = kbd_core s" "kbd_core (dispatchKeyboardEventX c d t s) = kbd_core s"
  "kbd_core (snd (kbd_uptime clk s)) = kbd_core s"
  by (simp_all add: kbd_post_def dispatchKeyboardEventX_def kbd_uptime_def)

lemma kbd_core_keys [simp]:
  "kbd_core (onSleepEjectTimer os s) = kbd_core s" "kbd_core (kbd_fnKey os d s) = kbd_core s"
  "kbd_core (kbd_acpiKey k d s) = kbd_core s" "kbd_core (kbd_typeTwice os a s) = kbd_core s"
  by (simp_all add: onSleepEjectTimer_def kbd_fnKey_def kbd_acpiKey_def kbd_typeTwice_def kbd_uptime_def Let_def
      split: timer_func.split)

lemma kbd_core_special [simp]:
  "kbd_core (snd (kbd_numLockKey os c k s)) = kbd_core s" "kbd_core (snd (kbd_deleteKey d t k s)) = kbd_core s"
  "kbd_core (snd (kbd_printScreen os d t k s)) = kbd_core s" "kbd_core (snd (kbd_sysRq os d t s)) = kbd_core s"
  "kbd_core (kbd_capsLock os a d s) = kbd_core s"
  by (simp_all add: kbd_numLockKey_def kbd_deleteKey_def kbd_printScreen_def kbd_sysRq_def kbd_capsLock_def Let_def)

lemma kbd_codes:
  "k < 512 \<Longrightarrow> fst (kbd_printScreen os d t k s) < 512" "fst (kbd_sysRq os d t s) < 512"
  "k < 512 \<Longrightarrow> fst (kbd_deleteKey d t k s) < 512"
  by (simp_all add: kbd_printScreen_def kbd_sysRq_def kbd_deleteKey_def Let_def)

text \<open>Each part of a dispatch returns, and leaves the core alone.\<close>

lemma sleepEject_total:
  "kbd_ok s \<Longrightarrow> \<exists>s'. setSleepEjectTimeout ms s = Some s' \<and> kbd_core s' = kbd_core s"
  "kbd_ok s \<Longrightarrow> \<exists>s'. cancelSleepEject s = Some s' \<and> kbd_core s' = kbd_core s"
  by (auto simp: setSleepEjectTimeout_def cancelSleepEject_def kbd_ok_def)

lemma backlight_total:
  assumes "kbd_ok s" "backlightLevels s \<noteq> None"
  shows "\<exists>s'. modifyKeyboardBacklight os k d s = Some s' \<and> kbd_core s' = kbd_core s"
  using assms by (auto simp: modifyKeyboardBacklight_def kbd_ok_def Let_def neq_Nil_conv split: option.split)

lemma lift_total:
  assumes "kbd_ok s" "\<forall>k \<in> set keys. k < 512"
  shows "\<exists>s'. kbd_lift d t keys s = Some s' \<and> kbd_core s' = kbd_core s"
  using assms
proof (induction keys arbitrary: s)
  case (Cons k keys)
  have k: "KBV_IS_KEYDOWN k s = Some (k \<in> keys_down s)" "k < length (PS2ToADBMap s)"
    using Cons.prems is_keydown [of s k] by (simp_all add: kbd_ok_def)
  let ?s = "if k \<in> keys_down s then dispatchKeyboardEventX (ucast (PS2ToADBMap s ! k)) d t s else s"
  have "kbd_lift d t (k # keys) s = kbd_lift d t keys ?s" using k by (simp add: kbd_lift_def)
  moreover have "kbd_core ?s = kbd_core s" by simp
  ultimately show ?case using Cons.IH [of ?s] Cons.prems kbd_ok_cong by (metis list.set_intros(2))
qed (simp add: kbd_lift_def)

lemma numpad_total:
  assumes "kbd_ok s" "k < 512"
  shows "\<exists>k' s'. kbd_numpadKey os d t k s = Some (k', s') \<and> kbd_core s' = kbd_core s \<and> k' < 512"
proof -
  let ?lifted = "if checkModifierState kMaskLeftWindows s then [0x1d] else [0x2a, 0x1d] :: nat list"
  have keys: "\<forall>k \<in> set ?lifted. k < 512" by auto
  obtain s1 where s1: "kbd_lift False t ?lifted s = Some s1" "kbd_core s1 = kbd_core s" using lift_total [OF assms(1) keys] by blast
  let ?s = "dispatchKeyboardEventX (if k = 0x4e then 0x90 else 0x91) d t s1"
  have "kbd_ok ?s" using assms(1) s1(2) kbd_ok_cong by (metis kbd_core_post(2))
  from lift_total [OF this keys] s1(2) obtain s2 where "kbd_lift True t ?lifted ?s = Some s2" "kbd_core s2 = kbd_core s" by auto
  with s1(1) backlight_total [OF assms(1), of os k d] assms(2) show ?thesis by (auto simp: kbd_numpadKey_def Let_def)
qed

lemma sleepKey_total: "kbd_ok s \<Longrightarrow> \<exists>s'. kbd_sleepKey os d s = Some s' \<and> kbd_core s' = kbd_core s"
  using sleepEject_total(1) [of "s\<lparr>timerFunc := kTimerSleep\<rparr>"] sleepEject_total(2) kbd_ok_cong [of "s\<lparr>timerFunc := kTimerSleep\<rparr>" s]
  by (auto simp: kbd_sleepKey_def Let_def)

definition special_ok :: "keyboard \<Rightarrow> ((bool + nat) \<times> keyboard) option \<Rightarrow> bool" where
  "special_ok s x \<longleftrightarrow> (\<exists>r s'. x = Some (r, s') \<and> kbd_core s' = kbd_core s \<and> (\<forall>k. r = Inr k \<longrightarrow> k < 512))"

lemma special_ok_simps [simp]:
  "special_ok s (Some q) \<longleftrightarrow> kbd_core (snd q) = kbd_core s \<and> (\<forall>k. fst q = Inr k \<longrightarrow> k < 512)"
  "special_ok s (map_option (apfst Inr) y) \<longleftrightarrow> (\<exists>k s'. y = Some (k, s') \<and> kbd_core s' = kbd_core s \<and> k < 512)"
  "special_ok s (map_option (Pair (Inr 0)) z) \<longleftrightarrow> (\<exists>s'. z = Some s' \<and> kbd_core s' = kbd_core s)"
  by (cases q, simp add: special_ok_def) (auto simp: special_ok_def)

lemma special_total:
  assumes "kbd_ok s" "k < 512"
  shows "special_ok s (kbd_special os c d t k s)"
proof -
  have "fst (kbd_numLockKey os c k s) = Inr k' \<Longrightarrow> k' < 512" for k'
    using assms(2) by (auto simp: kbd_numLockKey_def split: if_splits)
  then show ?thesis
    using numpad_total [OF assms, of os d t] sleepKey_total [OF assms(1), of os d] assms(2)
    by (simp add: kbd_special_def kbd_codes)
qed

definition translate_ok :: "keyboard \<Rightarrow> ((bool + nat \<times> nat) \<times> keyboard) option \<Rightarrow> bool" where
  "translate_ok s x \<longleftrightarrow> (\<exists>r s'. x = Some (r, s') \<and> kbd_core s' = kbd_core s \<and>
     (\<forall>raw k. r = Inr (raw, k) \<longrightarrow> raw < 512 \<and> k < 512))"

lemma translate_total:
  assumes "kbd_ok s" shows "translate_ok s (kbd_translate os p s)"
proof -
  define raw where "raw = unat (p ! 1 AND NOT 0x80)"
  have raw: "raw < 256" by (simp add: raw_def)
  then have "PS2ToPS2Map s ! raw \<in> set (PS2ToPS2Map s)" "PS2ToPS2Map s ! (raw + 256) \<in> set (PS2ToPS2Map s)"
    using assms by (auto simp: kbd_ok_def intro!: nth_mem)
  then have "unat (PS2ToPS2Map s ! raw) < 512" "unat (PS2ToPS2Map s ! (raw + 256)) < 512" "length (PS2ToADBMap s) = 512"
    "length (PS2ToPS2Map s) = 512"
    using assms by (simp_all add: kbd_ok_def)
  moreover have "unat (p ! 1) < 512" using unat_u8_less [of "p ! 1"] by linarith
  ultimately show ?thesis using raw
    by (simp add: kbd_translate_def translate_ok_def Let_def kbd_uptime_def raw_def [symmetric, simplified])
qed

lemma trackModifier_total:
  "kbd_ok s \<Longrightarrow> raw < 512 \<Longrightarrow> \<exists>s'. kbd_trackModifier raw d s = Some s' \<and> kbd_core s' = kbd_core s"
  by (simp add: kbd_trackModifier_def kbd_ok_def)

lemma eject_total: "kbd_ok s \<Longrightarrow> \<exists>e s'. kbd_eject os a d s = Some (e, s') \<and> kbd_core s' = kbd_core s"
  using sleepEject_total(1) [of "s\<lparr>timerFunc := kTimerEject\<rparr>" "f12ejectdelay s"] sleepEject_total(2) [of s]
    kbd_ok_cong [of "s\<lparr>timerFunc := kTimerEject\<rparr>" s]
  by (auto simp: kbd_eject_def Let_def)

lemma deliver_total:
  assumes "kbd_ok s" "raw < 512" "k < 512"
  shows "\<exists>s'. kbd_deliver os raw k d t s = Some (True, s') \<and> kbd_core s' = kbd_core s"
proof -
  define k' where "k' = (if disableInput s \<and> d then 0 else k)"
  have k': "k' < length (PS2ToADBMap s)" using assms by (simp add: k'_def kbd_ok_def)
  obtain e s1 where s1: "kbd_eject os (PS2ToADBMap s ! k') d s = Some (e, s1)" "kbd_core s1 = kbd_core s"
    using eject_total [OF assms(1)] by blast
  have "length (PS2flags s1) = 512" using assms(1) kbd_ok_cong [OF s1(2)] by (simp add: kbd_ok_def)
  then show ?thesis using k' s1 assms(2)
    by (simp add: kbd_deliver_def k'_def [symmetric] Let_def) (simp add: kbd_post_def dispatchKeyboardEventX_def)
qed

text \<open>Dispatching any packet returns; nothing outside the core changes.\<close>

lemma dispatch_total:
  assumes "kbd_ok s"
  shows "\<exists>r s'. dispatchKeyboardEventWithPacket os p s = Some (r, s') \<and> kbd_core s' = kbd_core s"
proof -
  let ?d = "p ! 1 AND kSC_UpBit = 0" and ?t = "packet_time p"
  obtain r s1 where s1: "kbd_translate os p s = Some (r, s1)" "kbd_core s1 = kbd_core s"
    "\<forall>raw k. r = Inr (raw, k) \<longrightarrow> raw < 512 \<and> k < 512"
    using translate_total [OF assms, of os p] by (auto simp: translate_ok_def)
  show ?thesis
  proof (cases r)
    case (Inr rk)
    obtain raw k where rk: "r = Inr (raw, k)" "raw < 512" "k < 512" using Inr s1(3) by (cases rk) auto
    have "kbd_ok s1" using assms kbd_ok_cong [OF s1(2)] by simp
    then obtain s2 where s2: "kbd_trackModifier raw ?d s1 = Some s2" "kbd_core s2 = kbd_core s"
      using trackModifier_total rk(2) s1(2) by metis
    let ?s = "kbd_acpiKey k ?d s2"
    have core: "kbd_core ?s = kbd_core s" using s2(2) by simp
    then have "special_ok ?s (kbd_special os (p ! 1) ?d ?t k ?s)" using special_total kbd_ok_cong assms rk(3) by blast
    then obtain q s3 where s3: "kbd_special os (p ! 1) ?d ?t k ?s = Some (q, s3)" "kbd_core s3 = kbd_core s"
      "\<forall>k'. q = Inr k' \<longrightarrow> k' < 512"
      using core by (auto simp: special_ok_def)
    have "kbd_ok s3" using assms kbd_ok_cong [OF s3(2)] by simp
    note deliver = deliver_total [OF this rk(2), of _ os ?d ?t]
    show ?thesis
    proof (cases q)
      case (Inr k')
      then show ?thesis using s1 rk s2 s3 deliver [of k'] by (auto simp: dispatchKeyboardEventWithPacket_def Let_def)
    qed (use s1 rk s2 s3 in \<open>auto simp: dispatchKeyboardEventWithPacket_def Let_def\<close>)
  qed (use s1 in \<open>auto simp: dispatchKeyboardEventWithPacket_def Let_def\<close>)
qed

end
