(* ===== verification/PS2_Keyboard_Macros.thy ===== *)
theory PS2_Keyboard_Macros
  imports PS2_Keyboard_Dispatch
begin

text \<open>
  The work loop of the keyboard driver: macro inversion, which replaces a sequence of packets that
  arrives quickly enough by a single one, the drain loop, its timer, and the messages the driver
  understands.
\<close>

section \<open>Macro inversion\<close>

definition kOutputBytesOffset :: nat where [simp]: "kOutputBytesOffset = 2"
definition kModifierBytesOffset :: nat where [simp]: "kModifierBytesOffset = 2 + 2"
definition kPrefixBytes :: nat where [simp]: "kPrefixBytes = 2 + 2 + 4"
definition kSequenceBytesOffset :: nat where [simp]: "kSequenceBytesOffset = kPrefixBytes"
definition kMinMacroInversion :: nat where [simp]: "kMinMacroInversion = kPrefixBytes + 2"

fun compareMacro :: "u8 list \<Rightarrow> u8 list \<Rightarrow> nat \<Rightarrow> bool option" where
  "compareMacro buffer data 0 = Some True"
| "compareMacro buffer data (Suc n) = do {
     b0 \<leftarrow> array_get buffer 0;
     d0 \<leftarrow> array_get data 0;
     b1 \<leftarrow> array_get buffer 1;
     d1 \<leftarrow> array_get data 1;
     if b0 \<noteq> d0 \<or> b1 \<noteq> d1 then Some False
     else compareMacro (drop kPacketLength buffer) (drop kPacketKeyDataLength data) n
   }"

text \<open>The packet at position \<open>i\<close> of the macro buffer, and copying a packet there.\<close>

definition macro_slot :: "u8 list \<Rightarrow> nat \<Rightarrow> u8 list option" where
  "macro_slot buf i = (if Suc i * kPacketLength \<le> length buf then Some (take kPacketLength (drop (i * kPacketLength) buf)) else None)"

definition macro_copy :: "nat \<Rightarrow> u8 list \<Rightarrow> u8 list \<Rightarrow> u8 list option" where
  "macro_copy i packet buf =
     (if Suc i * kPacketLength \<le> length buf \<and> kPacketLength \<le> length packet
      then Some (take (i * kPacketLength) buf @ take kPacketLength packet @ drop (Suc i * kPacketLength) buf) else None)"

definition dispatchInvertBuffer :: "kbd_os \<Rightarrow> u8 list \<Rightarrow> keyboard \<Rightarrow> keyboard option" where
  "dispatchInvertBuffer os buf s = do {
     s \<leftarrow> fold_opt (\<lambda>i s. do {
            packet \<leftarrow> macro_slot buf i;
            map_option snd (dispatchKeyboardEventWithPacket os packet s)
          }) [0..<macroCurrent s] s;
     Some (s\<lparr>macroCurrent := 0, macroArmed := False\<rparr>)
   }"

text \<open>The time between the last buffered packet and \<open>now_abs\<close> is longer than macros allow.\<close>

definition macro_late :: "kbd_os \<Rightarrow> u64 \<Rightarrow> u8 list \<Rightarrow> keyboard \<Rightarrow> bool option" where
  "macro_late os now_abs buf s = do {
     packet \<leftarrow> macro_slot buf (macroCurrent s - 1);
     let now_ns = to_ns (os_clock os) now_abs;
     let prev = to_ns (os_clock os) (packet_time packet);
     Some (now_ns - prev > macroMaxTime s)
   }"

definition macro_modifiers :: "u8 list \<Rightarrow> u16 \<Rightarrow> bool" where
  "macro_modifiers data mods =
     (let m = push_bit 8 (ucast (data ! kModifierBytesOffset)) + ucast (data ! (kModifierBytesOffset + 1));
          compare = push_bit 8 (ucast (data ! (kModifierBytesOffset + 2))) + ucast (data ! (kModifierBytesOffset + 3))
      in compare = 0xFFFF \<and> mods AND m \<noteq> 0 \<or> mods AND m = compare)"

fun matchMacros :: "kbd_os \<Rightarrow> nat \<Rightarrow> u8 list list \<Rightarrow> u8 list \<Rightarrow> keyboard \<Rightarrow> (bool \<times> keyboard) option" where
  "matchMacros os buffered [] buf s = do {
     s \<leftarrow> (if macroCurrent s > 0 then dispatchInvertBuffer os buf s else Some s);
     Some (False, s)
   }"
| "matchMacros os buffered (data # ps) buf s =
     (let total = buffered * kPacketKeyDataLength in
      if total + kPrefixBytes \<le> length data then do {
        same \<leftarrow> compareMacro buf (drop kSequenceBytesOffset data) buffered;
        if \<not> same then matchMacros os buffered ps buf s
        else if total + kPrefixBytes = length data then
          if macro_modifiers data (PS2modifierState s) then do {
            let buf = buf[0 := data ! kOutputBytesOffset, 1 := data ! (kOutputBytesOffset + 1)];
            packet \<leftarrow> macro_slot buf 0;
            (_, s) \<leftarrow> dispatchKeyboardEventWithPacket os packet (s\<lparr>macroBuffer := Some buf\<rparr>);
            Some (True, s\<lparr>macroCurrent := 0, macroArmed := False\<rparr>)
          }
          else matchMacros os buffered ps buf s
        else Some (True, s\<lparr>macroCurrent := macroCurrent s + 1, macroArmed := True\<rparr>)
      }
      else matchMacros os buffered ps buf s)"

definition invertMacros :: "kbd_os \<Rightarrow> u8 list list \<Rightarrow> u8 list \<Rightarrow> keyboard \<Rightarrow> (bool \<times> keyboard) option" where
  "invertMacros os macros packet s = (case (macroTimer s, macroBuffer s) of
     (True, Some buf) \<Rightarrow> do {
       s \<leftarrow> (if macroCurrent s > 0 then do {
              late \<leftarrow> macro_late os (packet_time packet) buf s;
              if late then dispatchInvertBuffer os buf s else Some s
            } else Some s);
       buf \<leftarrow> macro_copy (macroCurrent s) packet buf;
       matchMacros os (macroCurrent s + 1) macros buf (s\<lparr>macroBuffer := Some buf\<rparr>)
     }
   | _ \<Rightarrow> Some (False, s))"

definition kbd_handle :: "kbd_os \<Rightarrow> u8 list \<Rightarrow> keyboard \<Rightarrow> keyboard option" where
  "kbd_handle os packet s = (case macroInversion s of
     None \<Rightarrow> map_option snd (dispatchKeyboardEventWithPacket os packet s)
   | Some macros \<Rightarrow> do {
       (inverted, s) \<leftarrow> invertMacros os macros packet s;
       if inverted then Some s else map_option snd (dispatchKeyboardEventWithPacket os packet s)
     })"

section \<open>The work loop\<close>

definition kbd_packetStep :: "kbd_os \<Rightarrow> u8 list \<Rightarrow> keyboard \<Rightarrow> keyboard option" where
  "kbd_packetStep os packet s = do {
     s \<leftarrow> (if packet ! 0 \<noteq> 0x00 then kbd_handle os packet s else Some s);
     Some (s\<lparr>kbd_ringBuffer := advanceTail kPacketLength (kbd_ringBuffer s)\<rparr>)
   }"

fun kbd_packetReady :: "kbd_os \<Rightarrow> nat \<Rightarrow> keyboard \<Rightarrow> keyboard option" where
  "kbd_packetReady os 0 s = None"
| "kbd_packetReady os (Suc n) s =
     (if ring_count (kbd_ringBuffer s) \<ge> kPacketLength then do {
        packet \<leftarrow> ring_peek kPacketLength (kbd_ringBuffer s);
        s \<leftarrow> kbd_packetStep os packet s;
        kbd_packetReady os n s
      } else Some s)"

definition onMacroTimer :: "kbd_os \<Rightarrow> nat \<Rightarrow> keyboard \<Rightarrow> keyboard option" where
  "onMacroTimer os n s = do {
     s \<leftarrow> kbd_packetReady os n s;
     if macroCurrent s > 0 then do {
       buf \<leftarrow> macroBuffer s;
       let (now_abs, s) = kbd_uptime (os_clock os) s;
       late \<leftarrow> macro_late os now_abs buf s;
       if late then dispatchInvertBuffer os buf s else Some s
     } else Some s
   }"

section \<open>Messages\<close>

text \<open>A packet made from two bytes and the time; the bytes between are never read.\<close>

definition stamped :: "u8 \<Rightarrow> u8 \<Rightarrow> u64 \<Rightarrow> u8 list" where
  "stamped b0 b1 t = [b0, b1] @ replicate 6 0 @ time_bytes t"

definition kbd_inject :: "kbd_os \<Rightarrow> u8 \<Rightarrow> u8 \<Rightarrow> keyboard \<Rightarrow> keyboard option" where
  "kbd_inject os b0 b1 s =
     (let (now, s) = kbd_uptime (os_clock os) s in kbd_handle os (stamped b0 b1 now) s)"

datatype kbd_notice = DeviceNotification u32 | ControllerMessage PS2Message

text \<open>The answer of a query, or the changed key information, is returned with the state.\<close>

fun kbd_message :: "kbd_os \<Rightarrow> kbd_notice \<Rightarrow> keyboard \<Rightarrow> (PS2Message option \<times> keyboard) option" where
  "kbd_message os (DeviceNotification arg) s =
     (if arg AND 0xFFFF0000 = 0
      then let b0 = ucast (drop_bit 8 arg) :: u8; b1 = ucast arg :: u8 in
        map_option (Pair None)
          (if b0 = 1 \<or> b0 = 2 then kbd_inject os b0 b1 s
           else if b0 = 3 \<or> b0 = 4
           then do {
             s \<leftarrow> kbd_inject os (b0 - 2) b1 s;
             kbd_inject os (b0 - 2) (b1 OR 0x80) s
           }
           else Some s)
      else Some (None, s))"
| "kbd_message os (ControllerMessage kPS2K_getKeyboardStatus) s =
     Some (Some (kPS2K_setKeyboardStatus (\<not> disableInput s)), s)"
| "kbd_message os (ControllerMessage (kPS2K_setKeyboardStatus enable)) s =
     Some (None, if enable = disableInput s then s\<lparr>disableInput := \<not> enable\<rparr> else s)"
| "kbd_message os (ControllerMessage (kPS2K_notifyKeystroke key)) s =
     Some (if eatKey key then (Some (kPS2K_notifyKeystroke key), s)
           else (Some (kPS2K_notifyKeystroke (key\<lparr>eatKey := True\<rparr>)),
             dispatchKeyboardEventX (ucast (adbKeyCode key)) (goingDown key) (key_time key) s))"
| "kbd_message os (ControllerMessage _) s = Some (None, s)"

section \<open>Dispatching does not see the macro buffer\<close>

definition with_macro :: "u8 list option \<times> nat \<times> bool \<Rightarrow> keyboard \<Rightarrow> keyboard" where
  "with_macro = (\<lambda>(buf, n, armed) s. s\<lparr>macroBuffer := buf, macroCurrent := n, macroArmed := armed\<rparr>)"

lemma with_macro_fields [simp]:
  "keyBitVector (with_macro m s) = keyBitVector s" "PS2ToPS2Map (with_macro m s) = PS2ToPS2Map s"
  "PS2flags (with_macro m s) = PS2flags s" "PS2ToADBMap (with_macro m s) = PS2ToADBMap s"
  "PS2ToADBMapMapped (with_macro m s) = PS2ToADBMapMapped s"
  "sleepEjectTimer (with_macro m s) = sleepEjectTimer s" "backlightLevels (with_macro m s) = backlightLevels s"
  "kbd_provider (with_macro m s) = kbd_provider s" "PS2modifierState (with_macro m s) = PS2modifierState s"
  "timerFunc (with_macro m s) = timerFunc s" "disableInput (with_macro m s) = disableInput s"
  "capsFirstTime (with_macro m s) = capsFirstTime s" "kbd_posted (with_macro m s) = kbd_posted s"
  "kbd_clock_reads (with_macro m s) = kbd_clock_reads s" "numLockSupport (with_macro m s) = numLockSupport s"
  "brightnessHack (with_macro m s) = brightnessHack s" "remapPrntScr (with_macro m s) = remapPrntScr s"
  "fkeymode (with_macro m s) = fkeymode s" "fkeymodesupported (with_macro m s) = fkeymodesupported s"
  "maxsleeppresstime (with_macro m s) = maxsleeppresstime s" "f12ejectdelay (with_macro m s) = f12ejectdelay s"
  by (simp_all add: with_macro_def split: prod.split)

lemma with_macro_updates [simp]:
  "(with_macro m s)\<lparr>PS2modifierState := x\<rparr> = with_macro m (s\<lparr>PS2modifierState := x\<rparr>)"
  "(with_macro m s)\<lparr>timerFunc := t\<rparr> = with_macro m (s\<lparr>timerFunc := t\<rparr>)"
  "(with_macro m s)\<lparr>disableInput := d\<rparr> = with_macro m (s\<lparr>disableInput := d\<rparr>)"
  "(with_macro m s)\<lparr>ignoreCapsLedChange := i\<rparr> = with_macro m (s\<lparr>ignoreCapsLedChange := i\<rparr>)"
  "(with_macro m s)\<lparr>capsFirstTime := c\<rparr> = with_macro m (s\<lparr>capsFirstTime := c\<rparr>)"
  "(with_macro m s)\<lparr>kbd_clock_reads := n\<rparr> = with_macro m (s\<lparr>kbd_clock_reads := n\<rparr>)"
  "(with_macro m s)\<lparr>kbd_posted := ps\<rparr> = with_macro m (s\<lparr>kbd_posted := ps\<rparr>)"
  by (simp_all add: with_macro_def split: prod.split)

lemma with_macro_basic [simp]:
  "kbd_post e (with_macro m s) = with_macro m (kbd_post e s)"
  "dispatchKeyboardEventX c d t (with_macro m s) = with_macro m (dispatchKeyboardEventX c d t s)"
  "kbd_uptime clk (with_macro m s) = apsnd (with_macro m) (kbd_uptime clk s)"
  "checkModifierState x (with_macro m s) = checkModifierState x s"
  "checkModifierStateAny x (with_macro m s) = checkModifierStateAny x s"
  "KBV_IS_KEYDOWN k (with_macro m s) = KBV_IS_KEYDOWN k s"
  by (simp_all add: kbd_post_def dispatchKeyboardEventX_def kbd_uptime_def checkModifierState_def
      checkModifierStateAny_def KBV_IS_KEYDOWN_def)

lemma with_macro_keys [simp]:
  "onSleepEjectTimer os (with_macro m s) = with_macro m (onSleepEjectTimer os s)"
  "kbd_fnKey os d (with_macro m s) = with_macro m (kbd_fnKey os d s)"
  "kbd_acpiKey k d (with_macro m s) = with_macro m (kbd_acpiKey k d s)"
  "kbd_typeTwice os a (with_macro m s) = with_macro m (kbd_typeTwice os a s)"
  "kbd_capsLock os a d (with_macro m s) = with_macro m (kbd_capsLock os a d s)"
  "setSleepEjectTimeout ms (with_macro m s) = map_option (with_macro m) (setSleepEjectTimeout ms s)"
  "cancelSleepEject (with_macro m s) = map_option (with_macro m) (cancelSleepEject s)"
  "kbd_numLockKey os c k (with_macro m s) = apsnd (with_macro m) (kbd_numLockKey os c k s)"
  "kbd_deleteKey d t k (with_macro m s) = apsnd (with_macro m) (kbd_deleteKey d t k s)"
  "kbd_printScreen os d t k (with_macro m s) = apsnd (with_macro m) (kbd_printScreen os d t k s)"
  by (simp_all add: onSleepEjectTimer_def kbd_fnKey_def kbd_acpiKey_def kbd_uptime_def kbd_typeTwice_def kbd_capsLock_def
      setSleepEjectTimeout_def cancelSleepEject_def kbd_numLockKey_def kbd_deleteKey_def kbd_printScreen_def Let_def
      split: timer_func.split)

lemma with_macro_sysRq [simp]: "kbd_sysRq os d t (with_macro m s) = apsnd (with_macro m) (kbd_sysRq os d t s)"
  by (simp add: kbd_sysRq_def Let_def)

lemma with_macro_fallible [simp]:
  "modifyKeyboardBacklight os k d (with_macro m s) = map_option (with_macro m) (modifyKeyboardBacklight os k d s)"
  "kbd_sleepKey os d (with_macro m s) = map_option (with_macro m) (kbd_sleepKey os d s)"
  "kbd_trackModifier raw d (with_macro m s) = map_option (with_macro m) (kbd_trackModifier raw d s)"
  "kbd_eject os a d (with_macro m s) = map_option (apsnd (with_macro m)) (kbd_eject os a d s)"
  by (auto simp: modifyKeyboardBacklight_def kbd_sleepKey_def kbd_trackModifier_def kbd_eject_def Let_def array_get_def
      option.map_comp o_def split: option.split bool.split)

lemma with_macro_lift [simp]: "kbd_lift d t keys (with_macro m s) = map_option (with_macro m) (kbd_lift d t keys s)"
proof (induction keys arbitrary: s)
  case (Cons k keys)
  then show ?case
    by (cases "KBV_IS_KEYDOWN k s") (auto simp: kbd_lift_def array_get_def)
qed (simp add: kbd_lift_def)

lemma bind_map_option: "Option.bind (map_option f x) g = Option.bind x (g \<circ> f)"
  by (cases x) simp_all

lemma map_option_bind: "map_option f (Option.bind x g) = Option.bind x (map_option f \<circ> g)"
  by (cases x) simp_all

lemma with_macro_numpad [simp]:
  "kbd_numpadKey os d t k (with_macro m s) = map_option (apsnd (with_macro m)) (kbd_numpadKey os d t k s)"
  by (simp add: kbd_numpadKey_def Let_def bind_map_option map_option_bind option.map_comp o_def)

lemma with_macro_special [simp]:
  "kbd_special os c d t k (with_macro m s) = map_option (apsnd (with_macro m)) (kbd_special os c d t k s)"
  by (simp add: kbd_special_def option.map_comp o_def split: prod.split)

lemma with_macro_translate [simp]:
  "kbd_translate os p (with_macro m s) = map_option (apsnd (with_macro m)) (kbd_translate os p s)"
  by (simp add: kbd_translate_def Let_def kbd_uptime_def array_get_def)

lemma with_macro_deliver [simp]:
  "kbd_deliver os raw k d t (with_macro m s) = map_option (apsnd (with_macro m)) (kbd_deliver os raw k d t s)"
  by (cases "kbd_eject os (PS2ToADBMap s ! (if disableInput s \<and> d then 0 else k)) d s")
    (auto simp: kbd_deliver_def Let_def array_get_def)

lemma with_macro_dispatch:
  "dispatchKeyboardEventWithPacket os p (with_macro m s) =
   map_option (apsnd (with_macro m)) (dispatchKeyboardEventWithPacket os p s)"
  by (auto simp: dispatchKeyboardEventWithPacket_def Let_def bind_map_option map_option_bind
      intro!: Option.bind_cong split: sum.split)

end
