(* ===== verification/PS2_Keyboard_Inversion.thy ===== *)
theory PS2_Keyboard_Inversion
  imports PS2_Keyboard_Macros
begin

text \<open>
  Macro inversion is correct: whatever the timing, the packets that reach the dispatcher are the
  packets received, in order, with some complete macro sequences replaced by the output of the macro;
  packets held back are a proper beginning of a macro. The work loop terminates and nothing is read
  or written outside the buffers.
\<close>

section \<open>The buffer as a list of packets\<close>

definition packet_keys :: "u8 list \<Rightarrow> u8 \<times> u8" where
  "packet_keys p = (p ! 0, p ! 1)"

fun byte_pairs :: "'a list \<Rightarrow> ('a \<times> 'a) list" where
  "byte_pairs (x # y # xs) = (x, y) # byte_pairs xs"
| "byte_pairs _ = []"

definition macro_keys :: "u8 list \<Rightarrow> (u8 \<times> u8) list" where
  "macro_keys m = byte_pairs (drop kSequenceBytesOffset m)"

definition macro_output :: "u8 list \<Rightarrow> u8 list \<Rightarrow> u8 list" where
  "macro_output m p = p[0 := m ! kOutputBytesOffset, 1 := m ! (kOutputBytesOffset + 1)]"

definition slots_of :: "u8 list \<Rightarrow> nat \<Rightarrow> u8 list list" where
  "slots_of buf n = map (\<lambda>i. take 16 (drop (16 * i) buf)) [0..<n]"

lemma slots_of_simps [simp]: "slots_of buf 0 = []" "length (slots_of buf n) = n"
  "i < n \<Longrightarrow> slots_of buf n ! i = take 16 (drop (16 * i) buf)"
  by (simp_all add: slots_of_def)

lemma slots_of_snoc: "slots_of buf (Suc n) = slots_of buf n @ [take 16 (drop (16 * n) buf)]"
  by (simp add: slots_of_def)

lemma slots_of_Cons: "slots_of buf (Suc n) = take 16 buf # slots_of (drop 16 buf) n"
proof -
  have "[0..<Suc n] = 0 # map Suc [0..<n]" by (simp add: map_Suc_upt upt_conv_Cons)
  then show ?thesis by (simp add: slots_of_def add.commute)
qed

lemma slot_bound: "i < n \<Longrightarrow> n * 16 \<le> length buf \<Longrightarrow> 16 * i + 16 \<le> length (buf :: u8 list)"
  using mult_le_mono1 [of "Suc i" n 16] by simp

lemma slots_of_member: "\<lbrakk>p \<in> set (slots_of buf n); n * 16 \<le> length buf\<rbrakk> \<Longrightarrow> length p = 16"
  using slot_bound by (fastforce simp: slots_of_def)

lemma macro_slot_nth: "\<lbrakk>i < n; n * 16 \<le> length buf\<rbrakk> \<Longrightarrow> macro_slot buf i = Some (slots_of buf n ! i)"
  using slot_bound [of i n buf] by (simp add: macro_slot_def mult.commute)

lemma slots_of_agree:
  assumes "take (n * 16) buf = take (n * 16) buf'" shows "slots_of buf n = slots_of buf' n"
proof (rule nth_equalityI)
  fix i assume "i < length (slots_of buf n)"
  then have i: "i < n" by simp
  then have "16 \<le> n * 16 - 16 * i" using mult_le_mono1 [of "Suc i" n 16] by simp
  then have "take 16 (drop (16 * i) (take (n * 16) xs)) = take 16 (drop (16 * i) xs)" for xs :: "u8 list"
    by (simp add: drop_take min_def)
  then have "take 16 (drop (16 * i) buf) = take 16 (drop (16 * i) buf')" using assms by metis
  then show "slots_of buf n ! i = slots_of buf' n ! i" using i by simp
qed simp

lemma macro_copy_ok:
  assumes "Suc i * 16 \<le> length buf" "length p = 16"
  obtains buf' where "macro_copy i p buf = Some buf'" "length buf' = length buf"
    "slots_of buf' (Suc i) = slots_of buf i @ [p]"
proof -
  let ?b = "take (i * 16) buf @ p @ drop (Suc i * 16) buf"
  have "macro_copy i p buf = Some ?b" using assms by (simp add: macro_copy_def)
  moreover have "length ?b = length buf" using assms by simp
  moreover have "slots_of ?b i = slots_of buf i" using assms by (intro slots_of_agree) simp
  then have "slots_of ?b (Suc i) = slots_of buf i @ [p]"
    using assms by (simp add: slots_of_snoc mult.commute)
  ultimately show ?thesis using that by blast
qed

text \<open>Comparing against a macro is comparing the key data of the packets with its beginning.\<close>

lemma compareMacro_ok:
  "\<lbrakk>n * 16 \<le> length buf; n * 2 \<le> length data\<rbrakk> \<Longrightarrow>
   compareMacro buf data n = Some (map packet_keys (slots_of buf n) = take n (byte_pairs data))"
proof (induction n arbitrary: buf data)
  case (Suc n)
  obtain x y rest where data: "data = x # y # rest"
    using Suc.prems(2) by (cases data; cases "tl data") auto
  have "compareMacro (drop 16 buf) rest n = Some (map packet_keys (slots_of (drop 16 buf) n) = take n (byte_pairs rest))"
    using Suc.IH [of "drop 16 buf" rest] Suc.prems data by simp
  moreover have "1 < length buf" using Suc.prems(1) by simp
  ultimately show ?case by (auto simp: data packet_keys_def [of "take 16 buf"] slots_of_Cons array_get_def)
qed simp

lemma byte_pairs_length: "length (byte_pairs xs) = length xs div 2"
  by (induction xs rule: byte_pairs.induct) auto

section \<open>Invariant\<close>

definition kbd_dispatches :: "kbd_os \<Rightarrow> u8 list list \<Rightarrow> keyboard \<Rightarrow> keyboard option" where
  "kbd_dispatches os = fold_opt (\<lambda>p s. map_option snd (dispatchKeyboardEventWithPacket os p s))"

text \<open>The packets held back, and the state without the macro buffer.\<close>

definition pending :: "keyboard \<Rightarrow> u8 list list" where
  "pending s = (case macroBuffer s of Some buf \<Rightarrow> slots_of buf (macroCurrent s) | None \<Rightarrow> [])"

definition no_macro :: "keyboard \<Rightarrow> keyboard" where
  "no_macro = with_macro (None, 0, False)"

definition macro_ok :: "nat \<Rightarrow> u8 list \<Rightarrow> bool" where
  "macro_ok n m \<longleftrightarrow> kMinMacroInversion \<le> length m \<and> even (length m) \<and> length m \<le> n + kPrefixBytes"

definition macro_inv :: "keyboard \<Rightarrow> bool" where
  "macro_inv s \<longleftrightarrow> (macroInversion s = None \<longrightarrow> macroCurrent s = 0) \<and> (\<forall>macros. macroInversion s = Some macros \<longrightarrow>
     macros \<noteq> [] \<and> (\<forall>m \<in> set macros. macro_ok (macroMax s) m) \<and>
     (\<exists>buf. macroBuffer s = Some buf \<and> length buf = macroMax s * kPacketLength) \<and>
     (0 < macroCurrent s \<longrightarrow> macroTimer s \<and> (\<exists>m \<in> set macros. macroCurrent s < length (macro_keys m))))"

lemma macro_keys_length: "macro_ok n m \<Longrightarrow> length (macro_keys m) * 2 + 8 = length m \<and> 0 < length (macro_keys m) \<and>
  length (macro_keys m) * 2 \<le> n"
  by (auto simp: macro_ok_def macro_keys_def byte_pairs_length elim!: evenE)

lemma dispatches_total:
  "kbd_ok s \<Longrightarrow> \<exists>s'. kbd_dispatches os ps s = Some s' \<and> kbd_core s' = kbd_core s"
proof (induction ps arbitrary: s)
  case (Cons p ps)
  obtain r s1 where s1: "dispatchKeyboardEventWithPacket os p s = Some (r, s1)" "kbd_core s1 = kbd_core s"
    using dispatch_total [OF Cons.prems] by blast
  then have "kbd_ok s1" using kbd_ok_cong Cons.prems by blast
  from Cons.IH [OF this] s1 show ?case by (auto simp: kbd_dispatches_def)
qed (simp add: kbd_dispatches_def)

lemma dispatches_with_macro: "kbd_dispatches os ps (with_macro m s) = map_option (with_macro m) (kbd_dispatches os ps s)"
proof (induction ps arbitrary: s)
  case (Cons p ps)
  then show ?case
    by (cases "dispatchKeyboardEventWithPacket os p s") (auto simp: kbd_dispatches_def with_macro_dispatch)
qed (simp add: kbd_dispatches_def)

lemma dispatches_append:
  "kbd_dispatches os (ps @ qs) s = Option.bind (kbd_dispatches os ps s) (kbd_dispatches os qs)"
  by (simp add: kbd_dispatches_def fold_opt_append)

lemma with_macro_own [simp]:
  "macroBuffer (with_macro (b, n, a) s) = b" "macroCurrent (with_macro (b, n, a) s) = n" "macroArmed (with_macro (b, n, a) s) = a"
  by (simp_all add: with_macro_def)

lemma with_macro_same [simp]: "with_macro (macroBuffer s, macroCurrent s, macroArmed s) s = s"
  "with_macro m (with_macro m' s) = with_macro m s" "no_macro (with_macro m s) = no_macro s"
  "with_macro m (no_macro s) = with_macro m s"
  by (simp_all add: with_macro_def no_macro_def split: prod.split)

lemma with_macro_core: "kbd_core (with_macro m s) = with_macro m (kbd_core s)"
  by (simp add: with_macro_def kbd_core_def split: prod.split)

lemma core_own: "with_macro (macroBuffer s, macroCurrent s, macroArmed s) (kbd_core s) = kbd_core s"
  using with_macro_same(1) [of "kbd_core s"] by (simp only: kbd_core_fields)

lemma core_macro:
  assumes "kbd_core s' = with_macro (b, n, a) (kbd_core s)"
  shows "macroBuffer s' = b" "macroCurrent s' = n" "macroArmed s' = a" "macroInversion s' = macroInversion s"
    "macroMax s' = macroMax s" "macroTimer s' = macroTimer s" "macroMaxTime s' = macroMaxTime s" "kbd_ok s' = kbd_ok s"
    "kbd_ringBuffer s' = kbd_ringBuffer s"
proof -
  show "macroBuffer s' = b" "macroCurrent s' = n" "macroArmed s' = a" "macroInversion s' = macroInversion s"
    "macroMax s' = macroMax s" "macroTimer s' = macroTimer s" "macroMaxTime s' = macroMaxTime s"
    "kbd_ringBuffer s' = kbd_ringBuffer s"
    using assms [THEN arg_cong, of macroBuffer] assms [THEN arg_cong, of macroCurrent] assms [THEN arg_cong, of macroArmed]
      assms [THEN arg_cong, of macroInversion] assms [THEN arg_cong, of macroMax] assms [THEN arg_cong, of macroTimer]
      assms [THEN arg_cong, of macroMaxTime] assms [THEN arg_cong, of kbd_ringBuffer]
    by (simp_all add: with_macro_def)
  have "kbd_ok (with_macro (b, n, a) (kbd_core s)) = kbd_ok s" by (simp add: kbd_ok_def)
  then show "kbd_ok s' = kbd_ok s" using assms by (metis kbd_ok_core)
qed

text \<open>Flushing the buffer dispatches what was held back.\<close>

lemma flush_ok:
  assumes "kbd_ok s" "macroCurrent s * 16 \<le> length buf"
  obtains s' where "dispatchInvertBuffer os buf s = Some s'"
    "kbd_dispatches os (slots_of buf (macroCurrent s)) (no_macro s) = Some (no_macro s')"
    "kbd_core s' = with_macro (macroBuffer s, 0, False) (kbd_core s)"
proof -
  let ?n = "macroCurrent s"
  have "fold_opt (\<lambda>i s. Option.bind (macro_slot buf i) (\<lambda>p. map_option snd (dispatchKeyboardEventWithPacket os p s))) is t =
      kbd_dispatches os (map (\<lambda>i. slots_of buf ?n ! i) is) t" if "\<forall>i \<in> set is. i < ?n" for "is" t
    using that by (induction "is" arbitrary: t) (auto simp: kbd_dispatches_def macro_slot_nth [OF _ assms(2)] intro!: Option.bind_cong)
  moreover have "map (\<lambda>i. slots_of buf ?n ! i) [0..<?n] = slots_of buf ?n" by (metis map_nth slots_of_simps(2))
  moreover obtain s1 where s1: "kbd_dispatches os (slots_of buf ?n) s = Some s1" "kbd_core s1 = kbd_core s"
    using dispatches_total [OF assms(1)] by blast
  ultimately have "dispatchInvertBuffer os buf s = Some (s1\<lparr>macroCurrent := 0, macroArmed := False\<rparr>)"
    by (simp add: dispatchInvertBuffer_def)
  moreover have "kbd_dispatches os (slots_of buf ?n) (no_macro s) = Some (no_macro s1)"
    using s1(1) dispatches_with_macro [of os _ "(None, 0, False)" s] by (simp add: no_macro_def)
  moreover have "no_macro (s1\<lparr>macroCurrent := 0, macroArmed := False\<rparr>) = no_macro s1"
    by (simp add: no_macro_def with_macro_def)
  moreover have "macroBuffer s1 = macroBuffer s" using arg_cong [OF s1(2), of macroBuffer] by simp
  then have "s1\<lparr>macroCurrent := 0, macroArmed := False\<rparr> = with_macro (macroBuffer s, 0, False) s1"
    by (cases s1) (simp add: with_macro_def)
  ultimately show ?thesis using that s1(2) by (auto simp: with_macro_core)
qed

section \<open>One packet\<close>

text \<open>
  What handling a packet \<open>p\<close> did: the packets \<open>D\<close> were dispatched. Either nothing was replaced, or
  the packets since the last flush were the keys of a macro.
\<close>

definition inverted :: "u8 list list \<Rightarrow> u8 list list \<Rightarrow> u8 list list \<Rightarrow> u8 list list \<Rightarrow> bool" where
  "inverted macros ps D rest \<longleftrightarrow> D @ rest = ps \<or>
     (\<exists>m before seq. m \<in> set macros \<and> ps = before @ seq \<and> map packet_keys seq = macro_keys m \<and>
        D = before @ [macro_output m (hd seq)] \<and> rest = [])"

definition handled :: "kbd_os \<Rightarrow> u8 list list \<Rightarrow> u8 list list \<Rightarrow> keyboard \<Rightarrow> keyboard \<Rightarrow> bool" where
  "handled os macros ps s s' \<longleftrightarrow> kbd_core s' = with_macro (macroBuffer s', macroCurrent s', macroArmed s') (kbd_core s) \<and>
     (\<exists>D. kbd_dispatches os D (no_macro s) = Some (no_macro s') \<and> inverted macros ps D (pending s'))"

definition flushed :: "kbd_os \<Rightarrow> keyboard \<Rightarrow> keyboard \<Rightarrow> bool" where
  "flushed os s s' \<longleftrightarrow> kbd_core s' = with_macro (macroBuffer s', macroCurrent s', macroArmed s') (kbd_core s) \<and>
     kbd_dispatches os (pending s) (no_macro s) = Some (no_macro s') \<and> pending s' = []"

lemma macro_invI:
  assumes "macroInversion s = Some macros" "macros \<noteq> []" "\<forall>m \<in> set macros. macro_ok (macroMax s) m"
    "macroBuffer s = Some buf" "length buf = macroMax s * 16"
    "0 < macroCurrent s \<Longrightarrow> macroTimer s \<and> (\<exists>m \<in> set macros. macroCurrent s < length (macro_keys m))"
  shows "macro_inv s"
  using assms by (simp add: macro_inv_def)

text \<open>A complete match: the output of the macro is dispatched in place of the packets.\<close>

definition inverts_to :: "kbd_os \<Rightarrow> u8 list \<Rightarrow> u8 list \<Rightarrow> keyboard \<Rightarrow> (bool \<times> keyboard) option" where
  "inverts_to os m buf s = do {
     let buf = buf[0 := m ! kOutputBytesOffset, 1 := m ! (kOutputBytesOffset + 1)];
     packet \<leftarrow> macro_slot buf 0;
     (_, s) \<leftarrow> dispatchKeyboardEventWithPacket os packet (s\<lparr>macroBuffer := Some buf\<rparr>);
     Some (True, s\<lparr>macroCurrent := 0, macroArmed := False\<rparr>)
   }"

lemma inverts_to_ok:
  assumes ok: "kbd_ok s" and inv: "macroInversion s = Some macros" "macros \<noteq> []" "\<forall>m \<in> set macros. macro_ok (macroMax s) m"
      "macroBuffer s = Some buf" "length buf = macroMax s * 16" "macroTimer s" "Suc (macroCurrent s) * 2 \<le> macroMax s"
    and m: "m \<in> set macros" "map packet_keys (slots_of buf (Suc (macroCurrent s))) = macro_keys m"
  shows "\<exists>s'. inverts_to os m buf s = Some (True, s') \<and> macro_inv s' \<and>
    handled os macros (slots_of buf (Suc (macroCurrent s))) s s'"
proof -
  let ?buf = "buf[0 := m ! 2, Suc 0 := m ! 3]" and ?p = "macro_output m (take 16 buf)"
  have slot: "macro_slot ?buf 0 = Some ?p"
    using inv(5,7) by (simp add: macro_slot_def macro_output_def take_update_swap)
  have upd: "s\<lparr>macroBuffer := Some ?buf\<rparr> = with_macro (Some ?buf, macroCurrent s, macroArmed s) s"
    by (cases s) (simp add: with_macro_def)
  obtain r s1 where s1: "dispatchKeyboardEventWithPacket os ?p s = Some (r, s1)" "kbd_core s1 = kbd_core s"
    using dispatch_total [OF ok] by blast
  let ?s = "with_macro (Some ?buf, 0, False) s1"
  have run: "inverts_to os m buf s = Some (True, ?s)"
    using slot s1(1) by (simp add: inverts_to_def upd with_macro_dispatch) (simp add: with_macro_def)
  have core: "kbd_core ?s = with_macro (Some ?buf, 0, False) (kbd_core s)" using s1(2) by (simp add: with_macro_core)
  note fields = core_macro [OF core]
  have "macro_inv ?s" using inv fields by (intro macro_invI [where buf = ?buf]) simp_all
  moreover have "kbd_dispatches os [?p] (no_macro s) = Some (no_macro ?s)"
    using s1(1) by (simp add: kbd_dispatches_def no_macro_def with_macro_dispatch)
  moreover have "inverted macros (slots_of buf (Suc (macroCurrent s))) [?p] (pending ?s)"
    unfolding inverted_def
    by (rule disjI2, rule exI [of _ m], rule exI [of _ "[]"]) (use m fields(1,2) in \<open>simp add: pending_def slots_of_Cons\<close>)
  ultimately show ?thesis using run core fields(1-3) by (auto simp: handled_def)
qed

text \<open>The search through the macros, with the packet already copied into the buffer.\<close>

lemma match_ok:
  assumes ok: "kbd_ok s" and inv: "macroInversion s = Some macros" "macros \<noteq> []" "\<forall>m \<in> set macros. macro_ok (macroMax s) m"
      "macroBuffer s = Some buf" "length buf = macroMax s * 16" "macroTimer s" "Suc (macroCurrent s) * 2 \<le> macroMax s"
    and sub: "set ms \<subseteq> set macros"
  shows "\<exists>found s'. matchMacros os (Suc (macroCurrent s)) ms buf s = Some (found, s') \<and> macro_inv s' \<and>
    (if found then handled os macros (slots_of buf (Suc (macroCurrent s))) s s'
     else flushed os s s')"
  using sub
proof (induction ms)
  case Nil
  show ?case
  proof (cases "macroCurrent s = 0")
    case True
    then have "flushed os s s" using core_own [of s] inv(4)
      by (simp add: flushed_def pending_def kbd_dispatches_def)
    moreover have "macro_inv s" using inv True by (intro macro_invI) simp_all
    ultimately show ?thesis using True by (intro exI [of _ False] exI [of _ s]) simp
  next
    case False
    have "macroCurrent s * 16 \<le> length buf" using inv(5,7) by simp
    then obtain s' where s': "dispatchInvertBuffer os buf s = Some s'"
      "kbd_dispatches os (slots_of buf (macroCurrent s)) (no_macro s) = Some (no_macro s')"
      "kbd_core s' = with_macro (macroBuffer s, 0, False) (kbd_core s)"
      using flush_ok [OF ok] by metis
    note fields = core_macro [OF s'(3)]
    have "macro_inv s'" using inv fields by (intro macro_invI) simp_all
    moreover have "pending s' = []" "pending s = slots_of buf (macroCurrent s)" using fields inv(4) by (simp_all add: pending_def)
    ultimately show ?thesis using False s' fields by (intro exI [of _ False] exI [of _ s']) (simp add: flushed_def)
  qed
next
  case (Cons m ms)
  let ?n = "Suc (macroCurrent s)"
  have IH: "\<exists>found s'. matchMacros os ?n ms buf s = Some (found, s') \<and> macro_inv s' \<and>
    (if found then handled os macros (slots_of buf ?n) s s' else flushed os s s')"
    using Cons by simp
  have m: "m \<in> set macros" "macro_ok (macroMax s) m" using Cons.prems inv(3) by auto
  note len = macro_keys_length [OF m(2)]
  have compared: "compareMacro buf (drop 8 m) ?n = Some (map packet_keys (slots_of buf ?n) = take ?n (macro_keys m))"
    if "?n \<le> length (macro_keys m)"
  proof -
    have "?n * 16 \<le> length buf" "?n * 2 \<le> length (drop 8 m)" using that len inv(5,7) by auto
    from compareMacro_ok [OF this] show ?thesis by (simp only: macro_keys_def kSequenceBytesOffset_def kPrefixBytes_def) simp
  qed
  show ?case
  proof (cases "?n \<le> length (macro_keys m) \<and> map packet_keys (slots_of buf ?n) = take ?n (macro_keys m)")
    case True
    then have cmp: "compareMacro buf (drop 8 m) ?n = Some True" using compared by (simp del: compareMacro.simps)
    consider (whole) "?n = length (macro_keys m)" "macro_modifiers m (PS2modifierState s)"
      | (other) "?n = length (macro_keys m)" "\<not> macro_modifiers m (PS2modifierState s)"
      | (part) "?n < length (macro_keys m)" using True by linarith
    then show ?thesis
    proof cases
      case whole
      then have "matchMacros os ?n (m # ms) buf s = inverts_to os m buf s" using cmp len by (simp add: inverts_to_def Let_def)
      moreover obtain s' where "inverts_to os m buf s = Some (True, s')" "macro_inv s'" "handled os macros (slots_of buf ?n) s s'"
        using inverts_to_ok [OF ok inv m(1), of os] True whole(1) by auto
      ultimately show ?thesis by (metis (full_types))
    next
      case other
      then show ?thesis using cmp len IH by (simp add: Let_def)
    next
      case part
      let ?s = "s\<lparr>macroCurrent := ?n, macroArmed := True\<rparr>"
      have "matchMacros os ?n (m # ms) buf s = Some (True, ?s)" using cmp len part by (simp add: Let_def)
      moreover have "macro_inv ?s" using inv m(1) part by (intro macro_invI) auto
      moreover have "?s = with_macro (macroBuffer s, ?n, True) s" by (cases s) (simp add: with_macro_def)
      then have "handled os macros (slots_of buf ?n) s ?s"
        using inv(4) by (auto simp: handled_def inverted_def kbd_dispatches_def pending_def with_macro_core no_macro_def intro!: exI [of _ "[]"])
      ultimately show ?thesis by (metis (full_types))
    qed
  next
    case False
    then have "matchMacros os ?n (m # ms) buf s = matchMacros os ?n ms buf s"
      using compared len by (auto simp: Let_def simp del: compareMacro.simps)
    then show ?thesis using IH by simp
  qed
qed

lemma inverted_prefix: "inverted macros ps D rest \<Longrightarrow> inverted macros (F @ ps) (F @ D) rest"
  unfolding inverted_def by (metis append.assoc)

lemma handled_after:
  assumes "handled os macros ps s1 s2" "kbd_dispatches os F (no_macro s) = Some (no_macro s1)"
    "kbd_core s1 = with_macro (macroBuffer s1, macroCurrent s1, macroArmed s1) (kbd_core s)"
  shows "handled os macros (F @ ps) s s2"
proof -
  obtain D where D: "kbd_dispatches os D (no_macro s1) = Some (no_macro s2)" "inverted macros ps D (pending s2)"
    and core: "kbd_core s2 = with_macro (macroBuffer s2, macroCurrent s2, macroArmed s2) (kbd_core s1)"
    using assms(1) by (auto simp: handled_def)
  have "kbd_dispatches os (F @ D) (no_macro s) = Some (no_macro s2)" using assms(2) D(1) by (simp add: dispatches_append)
  moreover have "kbd_core s2 = with_macro (macroBuffer s2, macroCurrent s2, macroArmed s2) (kbd_core s)"
    using core assms(3) by (metis with_macro_same(2))
  ultimately show ?thesis using inverted_prefix [OF D(2)] by (auto simp: handled_def)
qed

lemma dispatch_handled:
  assumes "kbd_ok s" "pending s = []"
  shows "\<exists>r s'. dispatchKeyboardEventWithPacket os p s = Some (r, s') \<and> handled os macros [p] s s' \<and> kbd_core s' = kbd_core s"
proof -
  obtain r s' where s': "dispatchKeyboardEventWithPacket os p s = Some (r, s')" "kbd_core s' = kbd_core s"
    using dispatch_total [OF assms(1)] by blast
  have "kbd_dispatches os [p] (no_macro s) = Some (no_macro s')"
    using s'(1) by (simp add: kbd_dispatches_def no_macro_def with_macro_dispatch)
  moreover have "kbd_core s' = with_macro (macroBuffer s', macroCurrent s', macroArmed s') (kbd_core s)"
    using core_own [of s'] unfolding s'(2) by (rule sym)
  moreover have "pending s' = []"
    using assms(2) arg_cong [OF s'(2), of macroBuffer] arg_cong [OF s'(2), of macroCurrent]
    by (cases "macroBuffer s") (simp_all add: pending_def)
  ultimately show ?thesis using s' by (auto simp: handled_def inverted_def)
qed

lemma macro_inv_cong: "kbd_core s' = kbd_core s \<Longrightarrow> macro_inv s' = macro_inv s"
  using core_macro [of s' "macroBuffer s" "macroCurrent s" "macroArmed s" s] core_own [of s]
  by (simp add: macro_inv_def)

lemma handled_ok: "handled os macros ps s s' \<Longrightarrow> kbd_ok s' = kbd_ok s" "handled os macros ps s s' \<Longrightarrow> macroInversion s' = macroInversion s"
  "handled os macros ps s s' \<Longrightarrow> kbd_ringBuffer s' = kbd_ringBuffer s"
  by (auto simp: handled_def dest: core_macro(4,8,9))

lemma flushed_ok: "flushed os s s' \<Longrightarrow> kbd_ok s' = kbd_ok s"
  by (auto simp: flushed_def dest: core_macro(8))

text \<open>A packet that comes too late first flushes the buffer.\<close>

lemma late_ok:
  assumes "kbd_ok s" "macro_inv s" "macroInversion s = Some macros" "macroBuffer s = Some buf"
  shows "\<exists>F s1. (if macroCurrent s > 0 then Option.bind (macro_late os t buf s)
      (\<lambda>late. if late then dispatchInvertBuffer os buf s else Some s) else Some s) = Some s1 \<and>
    kbd_dispatches os F (no_macro s) = Some (no_macro s1) \<and> F @ pending s1 = pending s \<and>
    kbd_core s1 = with_macro (macroBuffer s, macroCurrent s1, macroArmed s1) (kbd_core s) \<and> macroCurrent s1 \<le> macroCurrent s"
proof -
  have len: "macroCurrent s * 16 \<le> length buf"
    using assms(2-4) macro_keys_length by (fastforce simp: macro_inv_def)
  have stay: ?thesis if "(if macroCurrent s > 0 then Option.bind (macro_late os t buf s)
      (\<lambda>late. if late then dispatchInvertBuffer os buf s else Some s) else Some s) = Some s"
    using that core_own [of s] by (intro exI [of _ "[]"] exI [of _ s]) (simp add: kbd_dispatches_def)
  show ?thesis
  proof (cases "macroCurrent s > 0")
    case True
    then have "macro_slot buf (macroCurrent s - 1) = Some (slots_of buf (macroCurrent s) ! (macroCurrent s - 1))"
      using len by (intro macro_slot_nth) simp_all
    then obtain late where late: "macro_late os t buf s = Some late" by (simp add: macro_late_def)
    obtain s1 where "dispatchInvertBuffer os buf s = Some s1"
      "kbd_dispatches os (slots_of buf (macroCurrent s)) (no_macro s) = Some (no_macro s1)"
      "kbd_core s1 = with_macro (macroBuffer s, 0, False) (kbd_core s)"
      using flush_ok [OF assms(1) len] by metis
    moreover from core_macro(1-3) [OF this(3)] have "pending s1 = []" "macroArmed s1 = False" "macroCurrent s1 = 0"
      "pending s = slots_of buf (macroCurrent s)"
      using assms(4) by (simp_all add: pending_def)
    ultimately have ?thesis if late using that late True by (intro exI [of _ "pending s"] exI [of _ s1]) simp
    then show ?thesis using stay late True by (cases late) simp_all
  qed (use stay in simp)
qed

text \<open>Handling a packet with macros configured.\<close>

lemma handle_ok:
  assumes ok: "kbd_ok s" and inv: "macro_inv s" "macroInversion s = Some macros" and p: "length p = 16"
  shows "\<exists>s'. kbd_handle os p s = Some s' \<and> macro_inv s' \<and> handled os macros (pending s @ [p]) s s'"
proof -
  obtain buf where buf: "macroBuffer s = Some buf" "length buf = macroMax s * 16"
    and macros: "macros \<noteq> []" "\<forall>m \<in> set macros. macro_ok (macroMax s) m"
    and cur: "0 < macroCurrent s \<Longrightarrow> macroTimer s \<and> (\<exists>m \<in> set macros. macroCurrent s < length (macro_keys m))"
    using inv by (auto simp: macro_inv_def)
  have room: "Suc n * 2 \<le> macroMax s" if "n \<le> macroCurrent s" for n
  proof -
    have "0 < length (macro_keys (hd macros))" using macro_keys_length macros by (metis list.set_sel(1))
    then obtain m where "m \<in> set macros" "macroCurrent s < length (macro_keys m)"
      using cur macros(1) that by (metis list.set_sel(1) neq0_conv)
    then show ?thesis using macro_keys_length [of "macroMax s" m] macros(2) that by fastforce
  qed
  show ?thesis
  proof (cases "macroTimer s")
    case False
    then have "macroCurrent s = 0" using cur by auto
    then have "pending s = []" using buf(1) by (simp add: pending_def)
    then obtain r s' where s': "dispatchKeyboardEventWithPacket os p s = Some (r, s')" "handled os macros [p] s s'"
      and core: "kbd_core s' = kbd_core s"
      using dispatch_handled [OF ok] by blast
    then show ?thesis using False inv macro_inv_cong [OF core] \<open>pending s = []\<close>
      by (simp add: kbd_handle_def invertMacros_def)
  next
    case True
    obtain F s1 where s1: "(if macroCurrent s > 0 then Option.bind (macro_late os (packet_time p) buf s)
        (\<lambda>late. if late then dispatchInvertBuffer os buf s else Some s) else Some s) = Some s1"
      "kbd_dispatches os F (no_macro s) = Some (no_macro s1)" "F @ pending s1 = pending s"
      "kbd_core s1 = with_macro (macroBuffer s, macroCurrent s1, macroArmed s1) (kbd_core s)" "macroCurrent s1 \<le> macroCurrent s"
      using late_ok [OF ok inv buf(1)] by metis
    let ?c = "macroCurrent s1"
    obtain buf' where copy: "macro_copy ?c p buf = Some buf'" "length buf' = length buf"
      "slots_of buf' (Suc ?c) = slots_of buf ?c @ [p]"
      using macro_copy_ok [of ?c buf p] room [OF s1(5)] buf(2) p by auto
    let ?s = "s1\<lparr>macroBuffer := Some buf'\<rparr>"
    have upd: "?s = with_macro (Some buf', ?c, macroArmed s1) s1" by (cases s1) (simp add: with_macro_def)
    have core: "kbd_core ?s = with_macro (Some buf', ?c, macroArmed s1) (kbd_core s)"
      unfolding upd with_macro_core s1(4) by simp
    note fields = core_macro [OF core]
    have pend: "pending ?s = pending s1" "pending s1 = slots_of buf ?c"
      using copy(3) core_macro(1) [OF s1(4)] buf(1) by (simp_all add: pending_def slots_of_snoc)
    have F: "kbd_dispatches os F (no_macro s) = Some (no_macro ?s)" using s1(2) unfolding upd by simp
    have core': "kbd_core ?s = with_macro (macroBuffer ?s, macroCurrent ?s, macroArmed ?s) (kbd_core s)"
      using core by simp
    obtain found s3 where s3: "matchMacros os (Suc ?c) macros buf' ?s = Some (found, s3)" "macro_inv s3"
      "if found then handled os macros (slots_of buf' (Suc (macroCurrent ?s))) ?s s3 else flushed os ?s s3"
      using match_ok [of ?s macros buf' macros os] ok fields inv(2) macros buf copy(2) True room [OF s1(5)] by auto
    have run: "invertMacros os macros p s = Some (found, s3)" using True buf(1) s1(1) copy(1) s3(1)
      by (simp add: invertMacros_def)
    show ?thesis
    proof (cases found)
      case True
      then have "handled os macros (F @ pending s1 @ [p]) s s3"
        using handled_after [OF _ F core'] s3(3) copy(3) pend(2) by simp
      then show ?thesis using run True inv(2) s3(2) s1(3) by (simp add: kbd_handle_def flip: append_assoc)
    next
      case False
      then have fl: "flushed os ?s s3" using s3(3) by simp
      then obtain r s4 where s4: "dispatchKeyboardEventWithPacket os p s3 = Some (r, s4)" "handled os macros [p] s3 s4" "kbd_core s4 = kbd_core s3"
        using dispatch_handled [of s3 os p macros] ok fields(8) flushed_ok by (auto simp: flushed_def)
      have "handled os macros (pending ?s @ [p]) ?s s4"
        using fl by (intro handled_after [OF s4(2)]) (simp_all add: flushed_def)
      from handled_after [OF this F core'] have "handled os macros (pending s @ [p]) s s4"
        using pend(1) s1(3) by (simp flip: append_assoc)
      then show ?thesis using run False inv(2) s4(1) s3(2) macro_inv_cong [OF s4(3)] by (simp add: kbd_handle_def)
    qed
  qed
qed

section \<open>Streams of packets\<close>

text \<open>
  \<open>inverts macros ps D\<close>: the dispatched packets \<open>D\<close> are the packets \<open>ps\<close> with some complete macro
  sequences replaced by the output of the macro.
\<close>

inductive inverts :: "u8 list list \<Rightarrow> u8 list list \<Rightarrow> u8 list list \<Rightarrow> bool" for macros where
  empty: "inverts macros [] []"
| keep: "inverts macros ps D \<Longrightarrow> inverts macros (p # ps) (p # D)"
| replace: "\<lbrakk>m \<in> set macros; map packet_keys seq = macro_keys m; inverts macros ps D\<rbrakk> \<Longrightarrow>
    inverts macros (seq @ ps) (macro_output m (hd seq) # D)"

lemma inverts_append: "inverts macros ps D \<Longrightarrow> inverts macros ps' D' \<Longrightarrow> inverts macros (ps @ ps') (D @ D')"
  by (induction rule: inverts.induct) (auto intro: inverts.intros)

lemma inverts_refl: "inverts macros ps ps"
  by (induction ps) (auto intro: inverts.intros)

lemma inverted_inverts:
  assumes "inverted macros ps D rest"
  shows "\<exists>front. front @ rest = ps \<and> inverts macros front D"
  using assms unfolding inverted_def
proof (elim disjE exE conjE)
  assume "D @ rest = ps"
  then show ?thesis using inverts_refl by blast
next
  fix m before seq
  assume m: "m \<in> set macros" "ps = before @ seq" "map packet_keys seq = macro_keys m" "D = before @ [macro_output m (hd seq)]" "rest = []"
  have "inverts macros (seq @ []) [macro_output m (hd seq)]" using m by (intro inverts.intros)
  with inverts_append [OF inverts_refl this, of before] show ?thesis using m by simp
qed

lemma handle_stream:
  assumes "kbd_ok s" "macro_inv s" "macroInversion s = Some macros" "\<forall>p \<in> set ps. length p = 16"
  shows "\<exists>s' D front. fold_opt (kbd_handle os) ps s = Some s' \<and> kbd_ok s' \<and> macro_inv s' \<and>
    kbd_dispatches os D (no_macro s) = Some (no_macro s') \<and> front @ pending s' = pending s @ ps \<and> inverts macros front D"
  using assms
proof (induction ps arbitrary: s)
  case Nil
  then show ?case by (intro exI [of _ s] exI [of _ "[]"]) (auto simp: kbd_dispatches_def intro: inverts.intros)
next
  case (Cons p ps)
  have len: "length p = 16" using Cons.prems(4) by simp
  obtain s1 where s1: "kbd_handle os p s = Some s1" "macro_inv s1" "handled os macros (pending s @ [p]) s s1"
    using handle_ok [OF Cons.prems(1-3) len] by blast
  obtain D1 where D1: "kbd_dispatches os D1 (no_macro s) = Some (no_macro s1)" "inverted macros (pending s @ [p]) D1 (pending s1)"
    using s1(3) by (auto simp: handled_def)
  obtain f1 where f1: "f1 @ pending s1 = pending s @ [p]" "inverts macros f1 D1" using inverted_inverts [OF D1(2)] by blast
  have ok: "kbd_ok s1" "macroInversion s1 = Some macros" using handled_ok [OF s1(3)] Cons.prems by simp_all
  obtain s' D f where s': "fold_opt (kbd_handle os) ps s1 = Some s'" "kbd_ok s'" "macro_inv s'"
    "kbd_dispatches os D (no_macro s1) = Some (no_macro s')" "f @ pending s' = pending s1 @ ps" "inverts macros f D"
    using Cons.IH [OF ok(1) s1(2) ok(2)] Cons.prems(4) by auto
  have "(f1 @ f) @ pending s' = pending s @ p # ps"
    using f1(1) s'(5) by (metis append.assoc append_Cons append_Nil)
  moreover have "kbd_dispatches os (D1 @ D) (no_macro s) = Some (no_macro s')" using D1(1) s'(4) by (simp add: dispatches_append)
  ultimately show ?case using s1(1) s'(1-3) inverts_append [OF f1(2) s'(6)]
    by (intro exI [of _ s'] exI [of _ "D1 @ D"] exI [of _ "f1 @ f"]) simp
qed

section \<open>The driver as a whole\<close>

definition kbd_inv :: "keyboard \<Rightarrow> bool" where
  "kbd_inv s \<longleftrightarrow> packet_inv 16 512 (kbd_ringBuffer s) \<and> extendCount s \<le> 2 \<and> kbd_ok s \<and> macro_inv s"

lemma kbd_inv_rx: "kbd_inv s \<Longrightarrow> kbd_rx_inv s"
  by (simp add: kbd_inv_def kbd_rx_inv_def kbd_ok_def)

lemma core_extend: "kbd_core s' = with_macro m (kbd_core s) \<Longrightarrow> extendCount s' = extendCount s"
  by (drule arg_cong [where f = extendCount]) (cases m, simp add: with_macro_def)

lemma handle_total:
  assumes "kbd_ok s" "macro_inv s" "length p = 16"
  shows "\<exists>s'. kbd_handle os p s = Some s' \<and> kbd_ok s' \<and> macro_inv s' \<and> kbd_ringBuffer s' = kbd_ringBuffer s \<and>
    extendCount s' = extendCount s"
proof (cases "macroInversion s")
  case None
  obtain r s' where s': "dispatchKeyboardEventWithPacket os p s = Some (r, s')" and core: "kbd_core s' = kbd_core s"
    using dispatch_total [OF assms(1)] by blast
  have "kbd_ringBuffer s' = kbd_ringBuffer s" "extendCount s' = extendCount s"
    using arg_cong [OF core, of kbd_ringBuffer] arg_cong [OF core, of extendCount] by simp_all
  then show ?thesis using None s' assms kbd_ok_cong [OF core] macro_inv_cong [OF core] by (simp add: kbd_handle_def)
next
  case (Some macros)
  obtain s' where s': "kbd_handle os p s = Some s'" "macro_inv s'" "handled os macros (pending s @ [p]) s s'"
    using handle_ok [OF assms(1,2) Some assms(3)] by blast
  have "kbd_core s' = with_macro (macroBuffer s', macroCurrent s', macroArmed s') (kbd_core s)"
    using s'(3) by (simp add: handled_def)
  then have "extendCount s' = extendCount s" by (rule core_extend)
  then show ?thesis using s'(1,2) handled_ok [OF s'(3)] assms(1) by simp
qed

lemma ring_update_ok [simp]:
  "kbd_ok (s\<lparr>kbd_ringBuffer := r\<rparr>) = kbd_ok s" "macro_inv (s\<lparr>kbd_ringBuffer := r\<rparr>) = macro_inv s"
  by (simp_all add: kbd_ok_def macro_inv_def)

interpretation kbd_work: packet_consumer ring_poke "advanceHead 16" "ring_peek 16" "advanceTail 16" ring_count
  "packet_inv 16 512" "ring_packets 16" "head_slot 16" 16 "512 div 16 - 1"
  kbd_ringBuffer "\<lambda>s. kbd_ok s \<and> macro_inv s \<and> extendCount s \<le> 2" "kbd_packetStep os" "kbd_packetReady os"
proof
  fix s :: keyboard and p :: "u8 list" and n q
  show "kbd_packetReady os (Suc n) s = (if 16 \<le> ring_count (kbd_ringBuffer s)
    then Option.bind (ring_peek 16 (kbd_ringBuffer s)) (\<lambda>p. Option.bind (kbd_packetStep os p s) (kbd_packetReady os n)) else Some s)"
    by simp
  show "\<exists>s'. kbd_packetStep os p s = Some s' \<and> (kbd_ok s' \<and> macro_inv s' \<and> extendCount s' \<le> 2) \<and>
    kbd_ringBuffer s' = advanceTail 16 (kbd_ringBuffer s)"
    if "kbd_ok s \<and> macro_inv s \<and> extendCount s \<le> 2" "length p = 16"
    using that handle_total [of s p os] by (auto simp: kbd_packetStep_def)
  show "length p = 16" if "packet_inv 16 512 q" "p \<in> set (ring_packets 16 q)"
    using kbd_ring.packets_member_length [OF that] .
qed

lemma kbd_work_ok:
  assumes "kbd_inv s"
  shows "\<exists>s'. kbd_packetReady os 32 s = Some s' \<and> kbd_inv s' \<and> ring_packets 16 (kbd_ringBuffer s') = [] \<and>
    fold_opt (kbd_packetStep os) (ring_packets 16 (kbd_ringBuffer s)) s = Some s'"
  using kbd_work.run_drains [of s 32 os] kbd_ring.packets_le [of "kbd_ringBuffer s"] assms by (auto simp: kbd_inv_def)

text \<open>Everything that can happen to the driver after its start.\<close>

datatype kbd_input = KeyByte u8 | KeyWork | KeyMacroTimer | KeySleepTimer | KeyNotice kbd_notice

fun kbd_exec :: "kbd_os \<Rightarrow> kbd_input \<Rightarrow> keyboard \<Rightarrow> keyboard option" where
  "kbd_exec os (KeyByte b) s = map_option snd (kbd_interruptOccurred (os_clock os) b s)"
| "kbd_exec os KeyWork s = kbd_packetReady os 32 s"
| "kbd_exec os KeyMacroTimer s = onMacroTimer os 32 s"
| "kbd_exec os KeySleepTimer s = Some (onSleepEjectTimer os s)"
| "kbd_exec os (KeyNotice m) s = map_option snd (kbd_message os m s)"

lemma kbd_inv_core:
  assumes "kbd_core s' = kbd_core s" "kbd_inv s" shows "kbd_inv s'"
  using assms(2) kbd_ok_cong [OF assms(1)] macro_inv_cong [OF assms(1)] arg_cong [OF assms(1), of kbd_ringBuffer]
    arg_cong [OF assms(1), of extendCount] by (simp add: kbd_inv_def)

lemma interrupt_total:
  assumes "kbd_inv s"
  shows "\<exists>r s'. kbd_interruptOccurred clk b s = Some (r, s') \<and> kbd_inv s'"
proof -
  obtain r s' where s': "kbd_interruptOccurred clk b s = Some (r, s')" "kbd_rx_inv s'" and frame: "kbd_rx_frame s s'"
    using kbd_interrupt_refines [OF kbd_inv_rx [OF assms], of clk b] by (auto simp: kbd_rx_step_def)
  have "f s' = f s" if "\<And>a b c d e. f (s\<lparr>keyBitVector := a, extendCount := b, kbd_ringBuffer := c, kbd_lastdata := d,
      kbd_clock_reads := e\<rparr>) = f s" for f :: "keyboard \<Rightarrow> 'a"
    using frame that unfolding kbd_rx_frame_def by metis
  note same = this [of PS2ToPS2Map] this [of PS2ToADBMap] this [of PS2ToADBMapMapped] this [of sleepEjectTimer] this [of backlightLevels]
    this [of kbd_provider] this [of macroInversion] this [of macroBuffer] this [of macroCurrent] this [of macroMax] this [of macroTimer]
  have "kbd_ok s'" using assms s'(2) by (simp add: kbd_inv_def kbd_ok_def kbd_rx_inv_def same)
  moreover have "macro_inv s'" using assms by (simp add: kbd_inv_def macro_inv_def same)
  ultimately show ?thesis using s' by (auto simp: kbd_inv_def kbd_rx_inv_def)
qed

lemma inject_total: "kbd_inv s \<Longrightarrow> \<exists>s'. kbd_inject os b0 b1 s = Some s' \<and> kbd_inv s'"
proof -
  assume inv: "kbd_inv s"
  obtain now s1 where s1: "kbd_uptime (os_clock os) s = (now, s1)" "kbd_core s1 = kbd_core s" by (simp add: kbd_uptime_def)
  then have "kbd_inv s1" using kbd_inv_core inv by blast
  moreover have "length (stamped b0 b1 now) = 16" by (simp add: stamped_def)
  ultimately show ?thesis using handle_total [of s1 "stamped b0 b1 now" os] s1(1) by (auto simp: kbd_inject_def kbd_inv_def)
qed

lemma message_total: "kbd_inv s \<Longrightarrow> \<exists>r s'. kbd_message os m s = Some (r, s') \<and> kbd_inv s'"
proof (cases "(os, m, s)" rule: kbd_message.cases)
  case (1 os' arg s')
  assume inv: "kbd_inv s"
  obtain s1 where "kbd_inject os (ucast (drop_bit 8 arg) - 2) (ucast arg) s = Some s1" "kbd_inv s1" using inject_total [OF inv] by blast
  moreover from inject_total [OF this(2)] obtain s2
    where "kbd_inject os (ucast (drop_bit 8 arg) - 2) (ucast arg OR 0x80) s1 = Some s2" "kbd_inv s2" by blast
  moreover obtain s3 where "kbd_inject os (ucast (drop_bit 8 arg)) (ucast arg) s = Some s3" "kbd_inv s3" using inject_total [OF inv] by blast
  ultimately show ?thesis using 1 inv by (auto simp: Let_def)
qed (auto intro: kbd_inv_core [rotated])

lemma macroTimer_total:
  assumes "kbd_inv s" shows "\<exists>s'. onMacroTimer os 32 s = Some s' \<and> kbd_inv s'"
proof -
  obtain s1 where s1: "kbd_packetReady os 32 s = Some s1" "kbd_inv s1" using kbd_work_ok [OF assms] by blast
  show ?thesis
  proof (cases "macroCurrent s1 = 0")
    case False
    then obtain macros buf where mb: "macroInversion s1 = Some macros" "macroBuffer s1 = Some buf" "macro_inv s1"
      using s1(2) by (cases "macroInversion s1") (auto simp: kbd_inv_def macro_inv_def)
    obtain now s2 where s2: "kbd_uptime (os_clock os) s1 = (now, s2)" and core: "kbd_core s2 = kbd_core s1" by (simp add: kbd_uptime_def)
    have same: "kbd_inv s2" "macroInversion s2 = Some macros" "macroBuffer s2 = Some buf" "macroCurrent s2 = macroCurrent s1"
      using kbd_inv_core [OF core s1(2)] mb arg_cong [OF core, of macroInversion] arg_cong [OF core, of macroBuffer]
        arg_cong [OF core, of macroCurrent] by simp_all
    obtain F s3 where s3: "(if macroCurrent s2 > 0 then Option.bind (macro_late os now buf s2)
        (\<lambda>late. if late then dispatchInvertBuffer os buf s2 else Some s2) else Some s2) = Some s3"
      and core3: "kbd_core s3 = with_macro (macroBuffer s2, macroCurrent s3, macroArmed s3) (kbd_core s2)" and le: "macroCurrent s3 \<le> macroCurrent s2"
      using late_ok [of s2 macros buf os now] same by (auto simp: kbd_inv_def)
    have inv2: "macro_inv s2" using same(1) by (simp add: kbd_inv_def)
    have "macroTimer s3 \<and> (\<exists>m \<in> set macros. macroCurrent s3 < length (macro_keys m))" if "0 < macroCurrent s3"
    proof -
      have "0 < macroCurrent s2" using that le by simp
      then have "macroTimer s2" "\<exists>m \<in> set macros. macroCurrent s2 < length (macro_keys m)"
        using inv2 same(2) by (simp_all add: macro_inv_def)
      then show ?thesis using le core_macro(6) [OF core3] by (auto intro: le_less_trans)
    qed
    then have "macro_inv s3" using inv2 same(2,3) core_macro(1,4-6) [OF core3]
      by (intro macro_invI [of s3 macros buf]) (simp_all add: macro_inv_def)
    then have "kbd_inv s3" using same(1) core_macro(8,9) [OF core3] core_extend [OF core3] by (simp add: kbd_inv_def)
    then show ?thesis using s1(1) s2 s3 mb(2) False same(4) by (simp add: onMacroTimer_def)
  qed (use s1 in \<open>simp add: onMacroTimer_def\<close>)
qed

lemma kbd_exec_ok: "kbd_inv s \<Longrightarrow> \<exists>s'. kbd_exec os i s = Some s' \<and> kbd_inv s'"
proof (cases i)
  case (KeyByte b)
  assume "kbd_inv s"
  from interrupt_total [OF this, of "os_clock os" b] show ?thesis by (auto simp: KeyByte)
next
  case KeySleepTimer
  assume "kbd_inv s"
  then show ?thesis using kbd_inv_core [of "onSleepEjectTimer os s" s] by (simp add: KeySleepTimer)
next
  case (KeyNotice m)
  assume "kbd_inv s"
  from message_total [OF this, of os m] show ?thesis by (auto simp: KeyNotice)
qed (use kbd_work_ok [of s os] macroTimer_total [of s os] in auto)

text \<open>A driver as probe and start leave it.\<close>

definition kbd_ready :: "keyboard \<Rightarrow> bool" where
  "kbd_ready s \<longleftrightarrow> kbd_inv s \<and> macroCurrent s = 0"

definition sample_os :: kbd_os where
  "sample_os = \<lparr>os_clock = sample_clock, os_numLock = (\<lambda>_. False), os_notify = (\<lambda>_ i. i), os_touchpadEnabled = (\<lambda>_. True),
     os_KKQC = (\<lambda>_. None), os_rootDomain = True, os_hidSystem = True, os_version_major = 20\<rparr>"

definition sample_macro :: "u8 list" where
  "sample_macro = [0xFF, 0xFF, 0x02, 0x6E, 0, 0, 0, 0, 0x01, 0x38, 0x01, 0x1E]"

definition sample_keyboard :: keyboard where
  "sample_keyboard = init_keyboard\<lparr>PS2ToADBMap := PS2ToADBMapStock, sleepEjectTimer := True,
     macroInversion := Some [sample_macro], macroMax := 4, macroBuffer := Some (replicate 64 0), macroTimer := True\<rparr>"

lemma identity_map: "c \<in> set (map of_nat [0..<512] :: u16 list) \<Longrightarrow> unat c < 512"
  by (auto simp: unsigned_of_nat intro: le_less_trans [OF take_bit_nat_less_eq_self])

lemma sample_keyboard_ready: "kbd_ready sample_keyboard"
proof -
  have "packet_inv 16 512 (new_ring 512 (0 :: u8))" using kbd_ring.new_ring_ok [of "0 :: u8"] by simp
  moreover have "macro_ok 4 sample_macro" by (simp add: macro_ok_def sample_macro_def)
  ultimately show ?thesis
    using identity_map by (auto simp: kbd_ready_def kbd_inv_def kbd_ok_def macro_inv_def sample_keyboard_def init_keyboard_def)
qed

text \<open>
  C35. Macro inversion loses, invents and reorders nothing: from packets \<open>ps\<close> the driver dispatches
  exactly \<open>D\<close>, which is a beginning of \<open>ps\<close> with some complete macro sequences replaced by the output
  of the macro, and it holds back the rest. This holds for every timing of the packets.
\<close>

theorem kbd_macros_conserve:
  assumes "kbd_ready s" and "macroInversion s = Some macros" and "\<forall>p \<in> set ps. length p = 16"
  shows "\<exists>s' D front. fold_opt (kbd_handle os) ps s = Some s' \<and>
    kbd_dispatches os D (no_macro s) = Some (no_macro s') \<and> front @ pending s' = ps \<and> inverts macros front D"
proof -
  have "kbd_ok s" "macro_inv s" "pending s = []"
    using assms(1) by (cases "macroBuffer s"; simp add: kbd_ready_def kbd_inv_def pending_def)+
  then show ?thesis using handle_stream [of s macros ps os] assms(2,3) by auto
qed

theorem kbd_macros_conserve_witness:
  "\<exists>s' D front. fold_opt (kbd_handle sample_os) [stamped 1 0x38 0, stamped 1 0x1E 1] sample_keyboard = Some s' \<and>
     kbd_dispatches sample_os D (no_macro sample_keyboard) = Some (no_macro s') \<and>
     front @ pending s' = [stamped 1 0x38 0, stamped 1 0x1E 1] \<and> inverts [sample_macro] front D"
  by (rule kbd_macros_conserve [OF sample_keyboard_ready]) (simp_all add: sample_keyboard_def stamped_def)

end
