(* ===== verification/PS2_Keyboard_Setup.thy ===== *)
theory PS2_Keyboard_Setup
  imports PS2_Keyboard_Inversion PS2_Mouse_Setup
begin

text \<open>
  The keyboard driver around its input path (\<^verbatim>\<open>VoodooPS2Keyboard.cpp\<close>): the syntax of custom key maps,
  the tables and macros a configuration sets up, user preferences, lights, power changes, probe, start
  and stop. Probe and start establish what the input path relies on, whatever the configuration.
\<close>

section \<open>Key map entries\<close>

text \<open>A C string is a list of characters without the zero at its end; the rest of it is returned.\<close>

definition hexDigit :: "char \<Rightarrow> u32 option" where
  "hexDigit ch = (let n = of_char ch :: nat in
     if 48 \<le> n \<and> n \<le> 57 then Some (of_nat (n - 48))
     else if 97 \<le> n \<and> n \<le> 102 then Some (of_nat (n - 97 + 10))
     else if 65 \<le> n \<and> n \<le> 70 then Some (of_nat (n - 65 + 10))
     else None)"

fun parseHexLoop :: "char set \<Rightarrow> u32 \<Rightarrow> string \<Rightarrow> (string \<times> u32) option" where
  "parseHexLoop terms n [] = Some ([], n)"
| "parseHexLoop terms n (ch # psz) =
     (if ch \<in> terms then Some (ch # psz, n)
      else do {
        d \<leftarrow> hexDigit ch;
        parseHexLoop terms (push_bit 4 n + d) psz
      })"

definition parseHex :: "string \<Rightarrow> char \<Rightarrow> char \<Rightarrow> (string \<times> u32) option" where
  "parseHex psz term1 term2 = parseHexLoop {term1, term2} 0 psz"

definition parseRemap :: "string \<Rightarrow> (u16 \<times> u16) option" where
  "parseRemap psz = do {
     (psz, n) \<leftarrow> parseHex psz (CHR ''='') (CHR 0x00);
     if psz = [] \<or> hd psz \<noteq> CHR ''='' \<or> n > 0xFFFF then None
     else do {
       let scanFrom = ucast n;
       (psz, n) \<leftarrow> parseHex (tl psz) (CHR 0x0A) (CHR '';'');
       if n > 0xFFFF then None else Some (scanFrom, ucast n)
     }
   }"

section \<open>Loading the tables\<close>

fun asArray :: "OSObject option \<Rightarrow> OSObject list option" where
  "asArray (Some (OSArray xs)) = Some xs"
| "asArray _ = None"

definition is_comment :: "string \<Rightarrow> bool" where
  "is_comment psz \<longleftrightarrow> psz \<noteq> [] \<and> hd psz = CHR '';''"

text \<open>What the three loops over an array have in common: only strings that are not comments count.\<close>

definition load_entries :: "(string \<Rightarrow> keyboard \<Rightarrow> keyboard option) \<Rightarrow> OSObject list option \<Rightarrow> keyboard \<Rightarrow> keyboard option" where
  "load_entries f pArray s = (case pArray of None \<Rightarrow> Some s
   | Some xs \<Rightarrow> fold_opt (\<lambda>obj s. case obj of
       OSString psz \<Rightarrow> if is_comment psz then Some s else f psz s
     | _ \<Rightarrow> Some s) xs s)"

definition scan_index :: "u16 \<Rightarrow> nat" where
  "scan_index code = unat (code AND 0xff) + (if (ucast (drop_bit 8 code) :: u8) = 0xe0 then KBV_NUM_SCANCODES else 0)"

definition scan_valid :: "u16 \<Rightarrow> bool" where
  "scan_valid code \<longleftrightarrow> (let ex = ucast (drop_bit 8 code) :: u8 in ex = 0 \<or> ex = 0xe0)"

definition loadCustomPS2Map :: "OSObject list option \<Rightarrow> keyboard \<Rightarrow> keyboard option" where
  "loadCustomPS2Map = load_entries (\<lambda>psz s. case parseRemap psz of
     None \<Rightarrow> Some s
   | Some (scanIn, scanOut) \<Rightarrow>
       if \<not> scan_valid scanIn \<or> \<not> scan_valid scanOut then Some s
       else map_option (\<lambda>m. s\<lparr>PS2ToPS2Map := m\<rparr>)
         (array_set (scan_index scanIn) (of_nat (scan_index scanOut)) (PS2ToPS2Map s)))"

text \<open>Only the second byte of the number is looked at here, whatever is above it.\<close>

definition loadBreaklessPS2 :: "dict \<Rightarrow> string \<Rightarrow> keyboard \<Rightarrow> keyboard option" where
  "loadBreaklessPS2 d name = load_entries (\<lambda>psz s. case parseHex psz (CHR 0x0A) (CHR '';'') of
     None \<Rightarrow> Some s
   | Some (_, scanIn) \<Rightarrow>
       if \<not> scan_valid (ucast scanIn) then Some s
       else do {
         let index = scan_index (ucast scanIn);
         flags \<leftarrow> array_get (PS2flags s) index;
         m \<leftarrow> array_set index (flags OR kBreaklessKey) (PS2flags s);
         Some (s\<lparr>PS2flags := m\<rparr>)
       }) (asArray (getObject name d))"

definition loadCustomADBMap :: "dict \<Rightarrow> string \<Rightarrow> keyboard \<Rightarrow> keyboard option" where
  "loadCustomADBMap d name = load_entries (\<lambda>psz s. case parseRemap psz of
     None \<Rightarrow> Some s
   | Some (scanIn, adbOut) \<Rightarrow>
       if \<not> scan_valid scanIn \<or> adbOut > 0xFF then Some s
       else map_option (\<lambda>m. s\<lparr>PS2ToADBMapMapped := m\<rparr>)
         (array_set (scan_index scanIn) (ucast adbOut) (PS2ToADBMapMapped s))) (asArray (getObject name d))"

definition macro_valid :: "u8 list \<Rightarrow> bool" where
  "macro_valid m \<longleftrightarrow> length m \<ge> kMinMacroInversion \<and> even (length m) \<and> m ! 0 = 0xFF \<and> m ! 1 = 0xFF"

definition macro_data :: "OSObject \<Rightarrow> u8 list option" where
  "macro_data obj = (case obj of
     OSData bs \<Rightarrow> let m = map (\<lambda>ch. of_nat (of_char ch)) bs in if macro_valid m then Some m else None
   | _ \<Rightarrow> None)"

text \<open>The valid entries; a null pointer when there is none.\<close>

definition loadMacroData :: "dict \<Rightarrow> string \<Rightarrow> u8 list list option" where
  "loadMacroData d name = (case asArray (getObject name d) of
     None \<Rightarrow> None
   | Some xs \<Rightarrow> let result = List.map_filter macro_data xs in if result = [] then None else Some result)"

section \<open>Preferences\<close>

text \<open>Copies entries of the configured map into the working map, possibly exchanged.\<close>

definition adb_copy :: "(nat \<times> nat) list \<Rightarrow> keyboard \<Rightarrow> keyboard option" where
  "adb_copy = fold_opt (\<lambda>(dst, src) s. do {
     adb \<leftarrow> array_get (PS2ToADBMapMapped s) src;
     m \<leftarrow> array_set dst adb (PS2ToADBMap s);
     Some (s\<lparr>PS2ToADBMap := m\<rparr>)
   })"

definition adb_put :: "nat \<Rightarrow> u8 \<Rightarrow> keyboard \<Rightarrow> keyboard option" where
  "adb_put dst adb s = map_option (\<lambda>m. s\<lparr>PS2ToADBMap := m\<rparr>) (array_set dst adb (PS2ToADBMap s))"

definition on_boolean :: "dict \<Rightarrow> string \<Rightarrow> (bool \<Rightarrow> 's \<Rightarrow> 's option) \<Rightarrow> 's \<Rightarrow> 's option" where
  "on_boolean d k f s = (case asBoolean (getObject k d) of Some b \<Rightarrow> f b s | None \<Rightarrow> Some s)"

definition kbd_setFKeyMode :: "dict \<Rightarrow> keyboard \<Rightarrow> keyboard option" where
  "kbd_setFKeyMode d s =
     (if fkeymodesupported s
      then let old = fkeymode s;
               s = set_number d ''HIDFKeyMode'' (\<lambda>n s. s\<lparr>fkeymode := ucast n\<rparr>) s
           in if old \<noteq> fkeymode s
              then loadCustomPS2Map (if fkeymode s \<noteq> 0 then keysStandard s else keysSpecial s) s
              else Some s
      else Some s)"

definition kbd_applicationKey :: "dict \<Rightarrow> keyboard \<Rightarrow> keyboard option" where
  "kbd_applicationKey d s = do {
     let temp = (asBoolean (getObject ''Make Application key into right windows'' d) = Some True);
     s \<leftarrow> on_boolean d ''Make Application key into right windows'' (\<lambda>b s.
            if b then adb_put 0x15d (if swapcommandoption s then 0x3d else 0x36) s
            else adb_copy [(0x15d, 0x15d)] s) s;
     on_boolean d ''Make Application key into Apple Fn key'' (\<lambda>b s.
       if temp then Some s
       else if b then adb_put 0x15d 0x3f s
       else adb_copy [(0x15d, 0x15d)] s) s
   }"

definition kbd_preferences :: "dict \<Rightarrow> keyboard \<Rightarrow> keyboard option" where
  "kbd_preferences d s = do {
     s \<leftarrow> on_boolean d ''Swap capslock and left control'' (\<lambda>b.
            adb_copy (if b then [(0x3a, 0x1d), (0x1d, 0x3a)] else [(0x3a, 0x3a), (0x1d, 0x1d)])) s;
     s \<leftarrow> on_boolean d ''Swap command and option'' (\<lambda>b s.
            adb_copy (if b then [(0x38, 0x15b), (0x15b, 0x38), (0x138, 0x15c), (0x15c, 0x138)]
                      else [(0x38, 0x38), (0x15b, 0x15b), (0x138, 0x138), (0x15c, 0x15c)])
              (s\<lparr>swapcommandoption := b\<rparr>)) s;
     let s = set_boolean d ''BrightnessHack'' (\<lambda>b s. if b then s\<lparr>brightnessHack := True\<rparr> else s) s;
     let s = set_boolean d ''RemapPrntScr'' (\<lambda>b s. s\<lparr>remapPrntScr := b\<rparr>) s;
     let s = set_boolean d ''NumLockSupport'' (\<lambda>b s. s\<lparr>numLockSupport := b\<rparr>) s;
     let s = set_boolean d ''NumLockOnAtBoot'' (\<lambda>b s. s\<lparr>numLockOnAtBoot := b\<rparr>) s;
     s \<leftarrow> kbd_applicationKey d s;
     s \<leftarrow> on_boolean d ''Make right modifier keys into Hangul and Hanja'' (\<lambda>b s.
            adb_copy (if b then [(0x138, 0xf2), (0x11d, 0xf1)]
                      else [(0x138, if swapcommandoption s then 0x15c else 0x138), (0x11d, 0x11d)]) s) s;
     on_boolean d ''Use ISO layout keyboard'' (\<lambda>b.
       adb_copy (if b then [(0x29, 0x56), (0x56, 0x29)] else [(0x29, 0x29), (0x56, 0x56)])) s
   }"

definition kbd_setParamPropertiesGated :: "dict option \<Rightarrow> keyboard \<Rightarrow> keyboard option" where
  "kbd_setParamPropertiesGated config s = (case config of None \<Rightarrow> Some s
   | Some d \<Rightarrow> do {
       let s = set_number d ''SleepPressTime'' (\<lambda>n s. s\<lparr>maxsleeppresstime := ucast n\<rparr>) s;
       let s = set_number d ''HIDF12EjectDelay'' (\<lambda>n s. s\<lparr>f12ejectdelay := ucast n\<rparr>) s;
       let s = set_number d ''MaximumMacroTime'' (\<lambda>n s. s\<lparr>macroMaxTime := n\<rparr>) s;
       s \<leftarrow> kbd_setFKeyMode d s;
       s \<leftarrow> kbd_preferences d s;
       Some (set_number d ''LogScanCodes'' (\<lambda>n s. s\<lparr>logscancodes := ucast n\<rparr>) s)
     })"

text \<open>Property changes from outside reach the driver once it has its command gate.\<close>

definition kbd_setParamProperties :: "dict option \<Rightarrow> keyboard \<Rightarrow> keyboard option" where
  "kbd_setParamProperties d s = (if kbd_cmdGate s then kbd_setParamPropertiesGated d s else Some s)"

definition kbd_setProperties :: "OSObject option \<Rightarrow> keyboard \<Rightarrow> keyboard option" where
  "kbd_setProperties props s = (case asDictionary props of
     Some d \<Rightarrow> if kbd_cmdGate s then kbd_setParamPropertiesGated (Some d) s else Some s
   | None \<Rightarrow> Some s)"

section \<open>Lights, power and reset\<close>

definition setLEDs :: "nat \<Rightarrow> u8 \<Rightarrow> ('h, 'c) ctl \<Rightarrow> ('h, 'c) ctl" where
  "setLEDs p leds c = snd (nub_submitRequest p ((newPS2Request 4)\<lparr>commandsCount := 4,
     commands := [write_byte kDP_SetKeyboardLEDs, expect_ack, write_byte leds, expect_ack]\<rparr>) c)"

definition setAlphaLockFeedback :: "nat \<Rightarrow> bool \<Rightarrow> keyboard \<Rightarrow> ('h, 'c) ctl \<Rightarrow> keyboard \<times> ('h, 'c) ctl" where
  "setAlphaLockFeedback p locked s c =
     (if ignoreCapsLedChange s then (s\<lparr>ignoreCapsLedChange := False\<rparr>, c)
      else let s = s\<lparr>ledState := (if locked then ledState s OR kLED_CapsLock else ledState s AND NOT kLED_CapsLock)\<rparr>
           in (s, setLEDs p (ledState s) c))"

definition setNumLockFeedback :: "nat \<Rightarrow> bool \<Rightarrow> keyboard \<Rightarrow> ('h, 'c) ctl \<Rightarrow> keyboard \<times> ('h, 'c) ctl" where
  "setNumLockFeedback p locked s c =
     (let s = s\<lparr>ledState := (if locked then ledState s OR kLED_NumLock else ledState s AND NOT kLED_NumLock)\<rparr>
      in (s, setLEDs p (ledState s) c))"

definition setKeyboardEnable :: "'s submit \<Rightarrow> bool \<Rightarrow> 's \<Rightarrow> 's option" where
  "setKeyboardEnable submit enable w = map_option snd (submit (TPS2Request
     [write_byte (if enable then kDP_Enable else kDP_SetDefaults), expect_ack]) w)"

text \<open>
  The packet that releases a key after a reset; \<open>junk\<close> is what the packet on the stack holds where
  the code writes nothing, its time stamp included.
\<close>

definition release_packet :: "u8 list \<Rightarrow> nat \<Rightarrow> u8 list" where
  "release_packet junk scanCode =
     [if scanCode < KBV_NUM_SCANCODES then 1 else 2, of_nat scanCode OR kSC_UpBit] @ junk"

definition releaseKeys :: "kbd_os \<Rightarrow> u8 list \<Rightarrow> keyboard \<Rightarrow> keyboard option" where
  "releaseKeys os junk = fold_opt (\<lambda>scanCode s. do {
     down \<leftarrow> KBV_IS_KEYDOWN scanCode s;
     if down then map_option snd (dispatchKeyboardEventWithPacket os (release_packet junk scanCode) s) else Some s
   }) [0..<KBV_NUM_KEYCODES]"

definition initKeyboard ::
  "('h, 'c) env \<Rightarrow> nat \<Rightarrow> kbd_os \<Rightarrow> u8 list \<Rightarrow> keyboard \<Rightarrow> ('h, 'c) ctl \<Rightarrow> (keyboard \<times> ('h, 'c) ctl) option" where
  "initKeyboard e p os junk s c = do {
     (_, c) \<leftarrow> nub_submitRequestAndBlock e p (TPS2Request [write_byte kDP_SetDefaults, expect_ack]) c;
     s \<leftarrow> releaseKeys os junk s;
     let s = s\<lparr>keyBitVector := replicate KBV_NUNITS 0, PS2modifierState := 0\<rparr>;
     let c = setLEDs p (ledState s) c;
     let s = s\<lparr>extendCount := 0, kbd_ringBuffer := ring_reset (kbd_ringBuffer s)\<rparr>;
     c \<leftarrow> setKeyboardEnable (nub_submitRequestAndBlock e p) True c;
     (_, c) \<leftarrow> nub_setCommandByte e kCB_TranslateMode 0 c;
     Some (s, c)
   }"

definition kbd_setDevicePowerState ::
  "('h, 'c) env \<Rightarrow> nat \<Rightarrow> kbd_os \<Rightarrow> u8 list \<Rightarrow> PS2PowerWhat \<Rightarrow> keyboard \<Rightarrow> ('h, 'c) ctl \<Rightarrow> (keyboard \<times> ('h, 'c) ctl) option" where
  "kbd_setDevicePowerState e p os junk whatToDo s c = (case whatToDo of
     kPS2C_DisableDevice \<Rightarrow> map_option (Pair s) (setKeyboardEnable (nub_submitRequestAndBlock e p) False c)
   | kPS2C_EnableDevice \<Rightarrow> initKeyboard e p os junk s c)"

section \<open>Probe, start and stop\<close>

text \<open>\<open>junk\<close> is the content of freshly allocated memory.\<close>

definition kbd_loadMacros :: "(nat \<Rightarrow> u8) \<Rightarrow> dict \<Rightarrow> keyboard \<Rightarrow> keyboard" where
  "kbd_loadMacros junk d s =
     (let s = s\<lparr>macroTranslation := loadMacroData d ''Macro Translation'',
                macroInversion := loadMacroData d ''Macro Inversion''\<rparr>
      in case macroInversion s of None \<Rightarrow> s
         | Some macros \<Rightarrow>
            (let mx = fold (\<lambda>m mx. let len = length m - kPrefixBytes in if len > mx then len else mx) macros 0
             in s\<lparr>macroBuffer := Some (map junk [0..<mx * kPacketLength]), macroMax := mx\<rparr>))"

definition kbd_configure :: "(nat \<Rightarrow> u8) \<Rightarrow> dict \<Rightarrow> keyboard \<Rightarrow> keyboard option" where
  "kbd_configure junk d s = do {
     s \<leftarrow> loadCustomPS2Map (asArray (getObject ''Custom PS2 Map'' d)) s;
     s \<leftarrow> loadBreaklessPS2 d ''Breakless PS2'' s;
     s \<leftarrow> loadCustomADBMap d ''Custom ADB Map'' s;
     let standard = asArray (getObject ''Function Keys Standard'' d);
     let special = asArray (getObject ''Function Keys Special'' d);
     s \<leftarrow> (if standard \<noteq> None \<and> special \<noteq> None
          then loadCustomPS2Map special (s\<lparr>keysStandard := standard, keysSpecial := special, fkeymodesupported := True\<rparr>)
          else Some (s\<lparr>keysStandard := None, keysSpecial := None, fkeymodesupported := False\<rparr>));
     Some (kbd_loadMacros junk d s)
   }"

text \<open>The result says whether the driver claims the keyboard; \<open>super\<close> is the answer of the superclass.\<close>

definition kbd_probe :: "(nat \<Rightarrow> u8) \<Rightarrow> bool \<Rightarrow> dict option \<Rightarrow> keyboard \<Rightarrow> (bool \<times> keyboard) option" where
  "kbd_probe junk super config s =
     (if \<not> super \<or> Option.bind config (\<lambda>d. asBoolean (getObject ''DisableDevice'' d)) = Some True then Some (False, s)
      else do {
        s \<leftarrow> (case config of None \<Rightarrow> Some s | Some d \<Rightarrow> kbd_configure junk d s);
        s \<leftarrow> kbd_setParamPropertiesGated config (s\<lparr>PS2ToADBMap := PS2ToADBMapMapped s\<rparr>);
        Some (True, s)
      })"

text \<open>
  What the system provides at the start: the superclass, work loop, gate and timers, the ACPI device
  of the keyboard, whether it has the three backlight methods, and what its list of levels evaluates to.
\<close>

record kbd_kernel =
  kk_start :: bool
  kk_workLoop :: bool
  kk_commandGate :: bool
  kk_sleepEjectTimer :: bool
  kk_macroTimer :: bool
  kk_provider :: bool
  kk_backlight :: bool
  kk_KKCL :: "OSObject option"

definition kbd_backlight :: "kbd_kernel \<Rightarrow> keyboard \<Rightarrow> keyboard" where
  "kbd_backlight k s =
     (if \<not> kbd_provider s \<or> \<not> kk_backlight k then s
      else case asArray (kk_KKCL k) of None \<Rightarrow> s
        | Some xs \<Rightarrow> if length xs < 2 then s
            else s\<lparr>backlightLevels := Some (map (\<lambda>x. case asNumber (Some x) of Some n \<Rightarrow> ucast n | None \<Rightarrow> 0) xs)\<rparr>)"

definition kbd_start ::
  "('h, 'c) env \<Rightarrow> nat \<Rightarrow> kbd_os \<Rightarrow> u8 list \<Rightarrow> kbd_kernel \<Rightarrow> keyboard \<Rightarrow> ('h, 'c) ctl \<Rightarrow>
   (bool \<times> keyboard \<times> ('h, 'c) ctl) option" where
  "kbd_start e p os junk k s c =
     (if \<not> kk_start k then Some (False, s, c)
      else let s = s\<lparr>kbd_cmdGate := kk_commandGate k\<rparr> in
        if \<not> kk_workLoop k \<or> \<not> kk_commandGate k then Some (False, s, c)
        else let s = s\<lparr>sleepEjectTimer := kk_sleepEjectTimer k\<rparr> in
          if \<not> kk_sleepEjectTimer k then Some (False, s\<lparr>kbd_cmdGate := False\<rparr>, c)
          else do {
            let s = kbd_backlight k (s\<lparr>kbd_provider := kk_provider k\<rparr>);
            (s, c) \<leftarrow> initKeyboard e p os junk s c;
            let s = (if numLockOnAtBoot s then kbd_post (SetNumLock True) s else s);
            let s = s\<lparr>macroTimer := kk_macroTimer k\<rparr>;
            c \<leftarrow> nub_installInterruptAction e p c;
            c \<leftarrow> nub_installPowerControlAction p c;
            Some (True, s\<lparr>kbd_interruptHandlerInstalled := True, kbd_powerControlHandlerInstalled := True\<rparr>, c)
          })"

definition kbd_stop ::
  "('h, 'c) env \<Rightarrow> nat \<Rightarrow> bool \<Rightarrow> keyboard \<Rightarrow> ('h, 'c) ctl \<Rightarrow> (keyboard \<times> ('h, 'c) ctl) option" where
  "kbd_stop e p workLoop s c = do {
     c \<leftarrow> setKeyboardEnable (nub_submitRequestAndBlock e p) False c;
     let s = (if workLoop then s\<lparr>kbd_cmdGate := False, sleepEjectTimer := False, macroTimer := False\<rparr> else s);
     c \<leftarrow> (if kbd_interruptHandlerInstalled s then nub_uninstallInterruptAction e p c else Some c);
     c \<leftarrow> (if kbd_powerControlHandlerInstalled s then nub_uninstallPowerControlAction p c else Some c);
     Some (s\<lparr>kbd_interruptHandlerInstalled := False, kbd_powerControlHandlerInstalled := False, kbd_provider := False,
       backlightLevels := None, keysStandard := None, keysSpecial := None, macroInversion := None,
       macroTranslation := None, macroBuffer := None\<rparr>, c)
   }"

section \<open>Reading back what is written\<close>

definition hex_char :: "bool \<Rightarrow> nat \<Rightarrow> char" where
  "hex_char upper d = char_of (if d < 10 then d + 48 else if upper then d + 55 else d + 87)"

fun hex_digits :: "bool \<Rightarrow> nat \<Rightarrow> nat \<Rightarrow> string" where
  "hex_digits upper 0 n = []"
| "hex_digits upper (Suc w) n = hex_digits upper w (n div 16) @ [hex_char upper (n mod 16)]"

lemma hexDigit_char: "d < 16 \<Longrightarrow> hexDigit (hex_char upper d) = Some (of_nat d)"
  by (auto simp: hexDigit_def hex_char_def)

lemma hex_char_code: "d < 16 \<Longrightarrow> of_char (hex_char upper d) \<in> {48 :: nat..57} \<union> {65..70} \<union> {97..102}"
  by (auto simp: hex_char_def)

lemma hex_char_plain: "d < 16 \<Longrightarrow> hex_char upper d \<notin> {CHR ''='', CHR 0x00, CHR 0x0A, CHR '';''}"
  using hex_char_code [of d upper] by auto

lemma parse_digits:
  assumes "\<And>d. d < 16 \<Longrightarrow> hex_char upper d \<notin> terms"
  shows "parseHexLoop terms n (hex_digits upper w m @ rest) =
    parseHexLoop terms (n * 16 ^ w + of_nat (m mod 16 ^ w)) rest"
proof (induction w arbitrary: m rest)
  case (Suc w)
  have d: "m mod 16 < 16" by simp
  have "m mod 16 ^ Suc w = 16 * (m div 16 mod 16 ^ w) + m mod 16" by (simp add: mod_mult2_eq)
  then have "push_bit 4 (n * 16 ^ w + of_nat (m div 16 mod 16 ^ w)) + of_nat (m mod 16) =
      n * 16 ^ Suc w + of_nat (m mod 16 ^ Suc w)"
    by (simp add: push_bit_eq_mult algebra_simps)
  then show ?case using Suc [of "m div 16" "hex_char upper (m mod 16) # rest"] assms [OF d] hexDigit_char [OF d] by simp
qed simp

lemma parse_number:
  assumes "unat (a :: u16) < 16 ^ w" "rest = [] \<or> hd rest \<in> {t1, t2}" "{t1, t2} \<subseteq> {CHR ''='', CHR 0x00, CHR 0x0A, CHR '';''}"
  shows "parseHex (hex_digits upper w (unat a) @ rest) t1 t2 = Some (rest, ucast a)"
proof -
  have "hex_char upper d \<notin> {t1, t2}" if "d < 16" for d using hex_char_plain [OF that, of upper] assms(3) by blast
  moreover have "of_nat (unat a) = (ucast a :: u32)" by simp
  moreover have "parseHexLoop {t1, t2} n rest = Some (rest, n)" for n using assms(2) by (cases rest) auto
  ultimately show ?thesis using assms(1) by (simp add: parseHex_def parse_digits)
qed

text \<open>
  C38. Custom key maps can be written and read back: an entry printed with enough hexadecimal digits,
  in either case, leading zeros or not, and followed by nothing, a line end or a comment, is read as
  exactly the two codes.
\<close>

theorem parseRemap_roundtrip:
  assumes "unat a < 16 ^ w" and "unat b < 16 ^ v" and "comment = [] \<or> hd comment \<in> {CHR '';'', CHR 0x0A}"
  shows "parseRemap (hex_digits upper w (unat a) @ ''='' @ hex_digits upper' v (unat b) @ comment) = Some (a, b)"
proof -
  have le: "ucast (x :: u16) \<le> (0xFFFF :: u32)" for x
  proof -
    have "unat x < 2 ^ LENGTH(16)" by (rule unsigned_less)
    then have "take_bit 32 (unat x) = unat x" "unat x \<le> 65535" by (simp_all add: take_bit_nat_eq_self_iff)
    then show ?thesis by (simp add: word_le_nat_alt unsigned_ucast_eq)
  qed
  have "parseHex (hex_digits upper w (unat a) @ ''='' @ hex_digits upper' v (unat b) @ comment) (CHR ''='') (CHR 0x00) =
      Some (''='' @ hex_digits upper' v (unat b) @ comment, ucast a)"
    using assms(1) by (intro parse_number) auto
  moreover have "parseHex (hex_digits upper' v (unat b) @ comment) (CHR 0x0A) (CHR '';'') = Some (comment, ucast b)"
    using assms(2,3) by (intro parse_number) auto
  moreover have "ucast (ucast x :: u32) = (x :: u16)" for x by (rule bit_word_eqI) (simp add: bit_ucast_iff)
  ultimately show ?thesis using le [of a] le [of b] by (simp add: parseRemap_def linorder_not_less [symmetric] del: parseHexLoop.simps)
qed

theorem parseRemap_roundtrip_witness:
  "parseRemap (hex_digits False 4 (unat (0xe077 :: u16)) @ ''='' @ hex_digits True 2 (unat (0x3a :: u16)) @ '';Home'') =
   Some (0xe077, 0x3a)"
  by (rule parseRemap_roundtrip) simp_all

section \<open>What a configuration can do\<close>

text \<open>
  Configuring touches only tables and options: \<open>kbd_fixed\<close> hides what it may change, \<open>tables_ok\<close>
  is what it keeps.
\<close>

definition kbd_fixed :: "keyboard \<Rightarrow> keyboard" where
  "kbd_fixed s = s\<lparr>PS2ToPS2Map := [], PS2flags := [], PS2ToADBMap := [], PS2ToADBMapMapped := [], fkeymode := 0,
     swapcommandoption := False, logscancodes := 0, f12ejectdelay := 0, remapPrntScr := False, numLockSupport := False,
     numLockOnAtBoot := False, maxsleeppresstime := 0, brightnessHack := False, macroMaxTime := 0,
     keysStandard := None, keysSpecial := None, fkeymodesupported := False\<rparr>"

definition tables_ok :: "keyboard \<Rightarrow> bool" where
  "tables_ok s \<longleftrightarrow> length (PS2ToPS2Map s) = 512 \<and> (\<forall>c \<in> set (PS2ToPS2Map s). unat c < 512) \<and>
     length (PS2flags s) = 512 \<and> length (PS2ToADBMap s) = 512 \<and> length (PS2ToADBMapMapped s) = 512"

definition configured :: "keyboard \<Rightarrow> keyboard option \<Rightarrow> bool" where
  "configured s r \<longleftrightarrow> (\<exists>s'. r = Some s' \<and> tables_ok s' \<and> kbd_fixed s' = kbd_fixed s)"

lemma configured_Some: "\<lbrakk>tables_ok s'; kbd_fixed s' = kbd_fixed s\<rbrakk> \<Longrightarrow> configured s (Some s')"
  by (simp add: configured_def)

lemma configured_bind:
  assumes "configured s m" "\<And>s1. \<lbrakk>tables_ok s1; kbd_fixed s1 = kbd_fixed s\<rbrakk> \<Longrightarrow> configured s1 (f s1)"
  shows "configured s (Option.bind m f)"
  using assms by (fastforce simp: configured_def)

lemma configured_fold:
  assumes "\<And>x s. tables_ok s \<Longrightarrow> configured s (f x s)" "tables_ok s"
  shows "configured s (fold_opt f xs s)"
  using assms(2)
proof (induction xs arbitrary: s)
  case (Cons x xs)
  then show ?case using assms(1) by (auto intro: configured_bind)
qed (simp add: configured_def)

lemma configured_shift: "\<lbrakk>configured s' r; kbd_fixed s' = kbd_fixed s\<rbrakk> \<Longrightarrow> configured s r"
  by (simp add: configured_def)

lemma kbd_fixed_updates [simp]:
  "kbd_fixed (s\<lparr>PS2ToPS2Map := m2\<rparr>) = kbd_fixed s" "kbd_fixed (s\<lparr>PS2flags := m2\<rparr>) = kbd_fixed s"
  "kbd_fixed (s\<lparr>PS2ToADBMap := m1\<rparr>) = kbd_fixed s" "kbd_fixed (s\<lparr>PS2ToADBMapMapped := m1\<rparr>) = kbd_fixed s"
  "kbd_fixed (s\<lparr>fkeymode := n\<rparr>) = kbd_fixed s" "kbd_fixed (s\<lparr>swapcommandoption := b\<rparr>) = kbd_fixed s"
  "kbd_fixed (s\<lparr>logscancodes := n\<rparr>) = kbd_fixed s" "kbd_fixed (s\<lparr>f12ejectdelay := n\<rparr>) = kbd_fixed s"
  "kbd_fixed (s\<lparr>remapPrntScr := b\<rparr>) = kbd_fixed s" "kbd_fixed (s\<lparr>numLockSupport := b\<rparr>) = kbd_fixed s"
  "kbd_fixed (s\<lparr>numLockOnAtBoot := b\<rparr>) = kbd_fixed s" "kbd_fixed (s\<lparr>maxsleeppresstime := n\<rparr>) = kbd_fixed s"
  "kbd_fixed (s\<lparr>brightnessHack := b\<rparr>) = kbd_fixed s" "kbd_fixed (s\<lparr>macroMaxTime := t\<rparr>) = kbd_fixed s"
  "kbd_fixed (s\<lparr>keysStandard := ks, keysSpecial := ks', fkeymodesupported := b\<rparr>) = kbd_fixed s"
  by (simp_all add: kbd_fixed_def)

lemma tables_ok_updates [simp]:
  "tables_ok (s\<lparr>fkeymode := n\<rparr>) = tables_ok s" "tables_ok (s\<lparr>swapcommandoption := b\<rparr>) = tables_ok s"
  "tables_ok (s\<lparr>logscancodes := n\<rparr>) = tables_ok s" "tables_ok (s\<lparr>f12ejectdelay := n\<rparr>) = tables_ok s"
  "tables_ok (s\<lparr>remapPrntScr := b\<rparr>) = tables_ok s" "tables_ok (s\<lparr>numLockSupport := b\<rparr>) = tables_ok s"
  "tables_ok (s\<lparr>numLockOnAtBoot := b\<rparr>) = tables_ok s" "tables_ok (s\<lparr>maxsleeppresstime := n\<rparr>) = tables_ok s"
  "tables_ok (s\<lparr>brightnessHack := b\<rparr>) = tables_ok s" "tables_ok (s\<lparr>macroMaxTime := t\<rparr>) = tables_ok s"
  "tables_ok (s\<lparr>keysStandard := ks, keysSpecial := ks', fkeymodesupported := b\<rparr>) = tables_ok s"
  by (simp_all add: tables_ok_def)

text \<open>Every scan code of an entry has its place in the tables.\<close>

lemma scan_index_less: "scan_index code < 512"
proof -
  have "unat (code AND 0xff) \<le> 255" using unat_and_le [of code "0xff"] by simp
  then show ?thesis by (simp add: scan_index_def)
qed

lemma unat_scan_index: "unat (of_nat (scan_index code) :: u16) = scan_index code"
  using scan_index_less [of code] by (simp add: unsigned_of_nat take_bit_nat_eq_self_iff)

lemma load_entries_configured:
  assumes "\<And>psz s. tables_ok s \<Longrightarrow> configured s (f psz s)" "tables_ok s"
  shows "configured s (load_entries f pArray s)"
  using assms
  by (auto simp: load_entries_def intro!: configured_fold configured_Some split: option.split OSObject.split)

lemma loadCustomPS2Map_ok: "tables_ok s \<Longrightarrow> configured s (loadCustomPS2Map pArray s)"
  unfolding loadCustomPS2Map_def
proof (rule load_entries_configured)
  fix psz and s :: keyboard
  assume ok: "tables_ok s"
  have "unat c < 512" if "c \<in> set ((PS2ToPS2Map s)[scan_index a := of_nat (scan_index b)])" for a b c
    using ok that unat_scan_index [of b] scan_index_less [of b] set_update_subset_insert [of "PS2ToPS2Map s"]
    by (fastforce simp: tables_ok_def)
  then show "configured s (case parseRemap psz of None \<Rightarrow> Some s
     | Some (scanIn, scanOut) \<Rightarrow>
         if \<not> scan_valid scanIn \<or> \<not> scan_valid scanOut then Some s
         else map_option (\<lambda>m. s\<lparr>PS2ToPS2Map := m\<rparr>)
           (array_set (scan_index scanIn) (of_nat (scan_index scanOut)) (PS2ToPS2Map s)))"
    using ok scan_index_less by (auto simp: configured_def tables_ok_def split: option.split)
qed

lemma loadBreaklessPS2_ok: "tables_ok s \<Longrightarrow> configured s (loadBreaklessPS2 d name s)"
  unfolding loadBreaklessPS2_def
  by (rule load_entries_configured)
    (auto simp: configured_def tables_ok_def scan_index_less Let_def split: option.split)

lemma loadCustomADBMap_ok: "tables_ok s \<Longrightarrow> configured s (loadCustomADBMap d name s)"
  unfolding loadCustomADBMap_def
  by (rule load_entries_configured)
    (auto simp: configured_def tables_ok_def scan_index_less split: option.split)

lemma adb_copy_ok:
  assumes "list_all (\<lambda>(dst, src). dst < 512 \<and> src < 512) ps" "tables_ok s"
  shows "configured s (adb_copy ps s)"
  using assms
proof (induction ps arbitrary: s)
  case (Cons x ps)
  obtain dst src where x: "x = (dst, src)" by (cases x)
  let ?s = "s\<lparr>PS2ToADBMap := (PS2ToADBMap s)[dst := PS2ToADBMapMapped s ! src]\<rparr>"
  have "adb_copy (x # ps) s = adb_copy ps ?s" using Cons.prems by (simp add: adb_copy_def x tables_ok_def)
  moreover have "tables_ok ?s" using Cons.prems(2) by (simp add: tables_ok_def)
  ultimately show ?case using Cons.IH [of ?s] Cons.prems(1) configured_shift [of ?s _ s] by simp
qed (simp add: adb_copy_def configured_def)

lemma adb_put_ok: "\<lbrakk>dst < 512; tables_ok s\<rbrakk> \<Longrightarrow> configured s (adb_put dst adb s)"
  by (simp add: adb_put_def configured_def tables_ok_def)

lemma on_boolean_ok: "\<lbrakk>\<And>b. configured s (f b s); tables_ok s\<rbrakk> \<Longrightarrow> configured s (on_boolean d k f s)"
  by (auto simp: on_boolean_def intro: configured_Some split: option.split)

lemma set_options_ok [simp]:
  "(\<And>n s. tables_ok (f n s) = tables_ok s) \<Longrightarrow> tables_ok (set_number d k f s) = tables_ok s"
  "(\<And>n s. kbd_fixed (f n s) = kbd_fixed s) \<Longrightarrow> kbd_fixed (set_number d k f s) = kbd_fixed s"
  "(\<And>b s. tables_ok (g b s) = tables_ok s) \<Longrightarrow> tables_ok (set_boolean d k g s) = tables_ok s"
  "(\<And>b s. kbd_fixed (g b s) = kbd_fixed s) \<Longrightarrow> kbd_fixed (set_boolean d k g s) = kbd_fixed s"
  by (simp_all add: set_number_def set_boolean_def split: option.split)

lemmas configured_intros = configured_bind on_boolean_ok adb_copy_ok adb_put_ok configured_Some

lemma kbd_setFKeyMode_ok: "tables_ok s \<Longrightarrow> configured s (kbd_setFKeyMode d s)"
  by (auto simp: kbd_setFKeyMode_def Let_def intro: configured_Some configured_shift [OF loadCustomPS2Map_ok])

lemma kbd_applicationKey_ok: "tables_ok s \<Longrightarrow> configured s (kbd_applicationKey d s)"
  by (auto simp: kbd_applicationKey_def Let_def intro!: configured_intros)

lemma kbd_preferences_ok: "tables_ok s \<Longrightarrow> configured s (kbd_preferences d s)"
  unfolding kbd_preferences_def Let_def
  by (intro configured_bind on_boolean_ok)
    (auto intro!: adb_copy_ok intro: configured_shift [OF adb_copy_ok] configured_shift [OF kbd_applicationKey_ok]
      configured_shift [OF on_boolean_ok])

lemma kbd_setParamProperties_ok: "tables_ok s \<Longrightarrow> configured s (kbd_setParamPropertiesGated config s)"
  unfolding kbd_setParamPropertiesGated_def Let_def
  by (auto split: option.split intro!: configured_bind configured_Some
      intro: configured_shift [OF kbd_setFKeyMode_ok] kbd_preferences_ok)

section \<open>The invariant of the input path\<close>

lemma kbd_fixed_fields:
  assumes "kbd_fixed s' = kbd_fixed s"
  shows "keyBitVector s' = keyBitVector s" "kbd_ringBuffer s' = kbd_ringBuffer s" "extendCount s' = extendCount s"
    "sleepEjectTimer s' = sleepEjectTimer s" "backlightLevels s' = backlightLevels s" "kbd_provider s' = kbd_provider s"
    "macroInversion s' = macroInversion s" "macroBuffer s' = macroBuffer s" "macroMax s' = macroMax s"
    "macroCurrent s' = macroCurrent s" "macroTimer s' = macroTimer s" "kbd_cmdGate s' = kbd_cmdGate s"
    "ledState s' = ledState s"
  using assms [THEN arg_cong, of keyBitVector] assms [THEN arg_cong, of kbd_ringBuffer] assms [THEN arg_cong, of extendCount]
    assms [THEN arg_cong, of sleepEjectTimer] assms [THEN arg_cong, of backlightLevels] assms [THEN arg_cong, of kbd_provider]
    assms [THEN arg_cong, of macroInversion] assms [THEN arg_cong, of macroBuffer] assms [THEN arg_cong, of macroMax]
    assms [THEN arg_cong, of macroCurrent] assms [THEN arg_cong, of macroTimer] assms [THEN arg_cong, of kbd_cmdGate]
    assms [THEN arg_cong, of ledState]
  by (simp_all add: kbd_fixed_def)

text \<open>The driver before its start: everything but the timer is there, no packet is held back and
  the lights are off.\<close>

definition kbd_loaded :: "keyboard \<Rightarrow> bool" where
  "kbd_loaded s \<longleftrightarrow> kbd_ready (s\<lparr>sleepEjectTimer := True\<rparr>) \<and> backlightLevels s = None \<and> ledState s = 0"

lemma kbd_loaded_tables: "kbd_loaded s \<Longrightarrow> tables_ok s"
  by (simp add: kbd_loaded_def kbd_ready_def kbd_inv_def kbd_ok_def tables_ok_def)

lemma kbd_inv_fixed:
  assumes "kbd_inv s" "tables_ok s'" "kbd_fixed s' = kbd_fixed s" shows "kbd_inv s'"
  using assms(1,2) kbd_fixed_fields [OF assms(3)]
  by (simp add: kbd_inv_def kbd_ok_def tables_ok_def macro_inv_def)

lemma kbd_inv_tables: "kbd_inv s \<Longrightarrow> tables_ok s"
  by (simp add: kbd_inv_def kbd_ok_def tables_ok_def)

lemma kbd_loaded_fixed:
  assumes "kbd_loaded s" "tables_ok s'" "kbd_fixed s' = kbd_fixed s" shows "kbd_loaded s'"
  using assms(1,2) kbd_fixed_fields [OF assms(3)]
  by (simp add: kbd_loaded_def kbd_ready_def kbd_inv_def kbd_ok_def tables_ok_def macro_inv_def)

lemma kbd_loaded_configured: "\<lbrakk>kbd_loaded s; configured s r\<rbrakk> \<Longrightarrow> \<exists>s'. r = Some s' \<and> kbd_loaded s'"
  using kbd_loaded_fixed by (auto simp: configured_def)

lemma init_keyboard_loaded: "kbd_loaded init_keyboard"
proof -
  have "packet_inv 16 512 (new_ring 512 (0 :: u8))" using kbd_ring.new_ring_ok [of "0 :: u8"] by simp
  then show ?thesis using identity_map
    by (auto simp: kbd_loaded_def kbd_ready_def kbd_inv_def kbd_ok_def macro_inv_def init_keyboard_def)
qed

lemma macro_data_valid: "macro_data obj = Some m \<Longrightarrow> macro_valid m"
  by (auto simp: macro_data_def Let_def split: OSObject.splits if_splits)

lemma loadMacroData_ok: "loadMacroData d name = Some macros \<Longrightarrow> macros \<noteq> [] \<and> (\<forall>m \<in> set macros. macro_valid m)"
  using macro_data_valid by (fastforce simp: loadMacroData_def Let_def List.map_filter_def split: option.splits if_splits)

lemma fold_max_ge:
  fixes f :: "'a \<Rightarrow> nat"
  defines "g \<equiv> \<lambda>m mx. let len = f m in if len > mx then len else mx"
  shows "mx \<le> fold g ms mx" "m \<in> set ms \<Longrightarrow> f m \<le> fold g ms mx"
proof -
  show le: "mx \<le> fold g ms mx" for ms mx
    by (induction ms arbitrary: mx) (auto simp: g_def Let_def intro: le_trans less_imp_le)
  have step: "f x \<le> g x mx" for x mx by (simp add: g_def Let_def)
  show "m \<in> set ms \<Longrightarrow> f m \<le> fold g ms mx"
  proof (induction ms arbitrary: mx)
    case (Cons x ms)
    then show ?case using step [of x mx] le [of "g x mx" ms] by auto
  qed simp
qed

lemma kbd_loadMacros_ok: "kbd_loaded s \<Longrightarrow> kbd_loaded (kbd_loadMacros junk d s)"
proof (cases "loadMacroData d ''Macro Inversion''")
  case None
  assume "kbd_loaded s"
  then show ?thesis using None
    by (simp add: kbd_loadMacros_def Let_def kbd_loaded_def kbd_ready_def kbd_inv_def kbd_ok_def macro_inv_def)
next
  case (Some macros)
  assume s: "kbd_loaded s"
  let ?mx = "fold (\<lambda>m mx. let len = length m - kPrefixBytes in if len > mx then len else mx) macros 0"
  have "macro_ok ?mx m" if "m \<in> set macros" for m
    using loadMacroData_ok [OF Some] fold_max_ge(2) [OF that, of "\<lambda>m. length m - kPrefixBytes" 0] that
    by (fastforce simp: macro_ok_def macro_valid_def)
  then show ?thesis using Some s loadMacroData_ok [OF Some]
    by (simp add: kbd_loadMacros_def Let_def kbd_loaded_def kbd_ready_def kbd_inv_def kbd_ok_def macro_inv_def)
qed

lemma kbd_configure_ok:
  assumes "kbd_loaded s" shows "\<exists>s'. kbd_configure junk d s = Some s' \<and> kbd_loaded s'"
proof -
  obtain s1 where s1: "loadCustomPS2Map (asArray (getObject ''Custom PS2 Map'' d)) s = Some s1" "kbd_loaded s1"
    using kbd_loaded_configured [OF assms loadCustomPS2Map_ok] kbd_loaded_tables [OF assms] by blast
  obtain s2 where s2: "loadBreaklessPS2 d ''Breakless PS2'' s1 = Some s2" "kbd_loaded s2"
    using kbd_loaded_configured [OF s1(2) loadBreaklessPS2_ok] kbd_loaded_tables [OF s1(2)] by blast
  obtain s3 where s3: "loadCustomADBMap d ''Custom ADB Map'' s2 = Some s3" "kbd_loaded s3"
    using kbd_loaded_configured [OF s2(2) loadCustomADBMap_ok] kbd_loaded_tables [OF s2(2)] by blast
  have keys: "kbd_loaded (s3\<lparr>keysStandard := x, keysSpecial := y, fkeymodesupported := b\<rparr>)" for x y b
    by (rule kbd_loaded_fixed [OF s3(2)]) (simp_all add: kbd_loaded_tables [OF s3(2)])
  have load: "\<exists>s'. loadCustomPS2Map z (s3\<lparr>keysStandard := x, keysSpecial := y, fkeymodesupported := b\<rparr>) = Some s' \<and> kbd_loaded s'" for x y z b
    by (rule kbd_loaded_configured [OF keys loadCustomPS2Map_ok [OF kbd_loaded_tables [OF keys]]])
  let ?st = "asArray (getObject ''Function Keys Standard'' d)" and ?sp = "asArray (getObject ''Function Keys Special'' d)"
  obtain s4 where s4: "(if ?st \<noteq> None \<and> ?sp \<noteq> None
      then loadCustomPS2Map ?sp (s3\<lparr>keysStandard := ?st, keysSpecial := ?sp, fkeymodesupported := True\<rparr>)
      else Some (s3\<lparr>keysStandard := None, keysSpecial := None, fkeymodesupported := False\<rparr>)) = Some s4" "kbd_loaded s4"
    using load [where z = ?sp and x = ?st and y = ?sp and b = True] keys [where x = None and y = None and b = False]
    by (cases "?st \<noteq> None \<and> ?sp \<noteq> None") (simp_all only: if_True if_False simp_thms, blast+)
  have "kbd_configure junk d s = Some (kbd_loadMacros junk d s4)"
    by (simp only: kbd_configure_def Let_def s1(1) s2(1) s3(1) s4(1) bind.bind_lunit)
  then show ?thesis using kbd_loadMacros_ok [OF s4(2)] by simp
qed

lemma kbd_probe_ok:
  assumes "kbd_loaded s" shows "\<exists>r s'. kbd_probe junk super config s = Some (r, s') \<and> kbd_loaded s'"
proof -
  obtain s1 where s1: "(case config of None \<Rightarrow> Some s | Some d \<Rightarrow> kbd_configure junk d s) = Some s1" "kbd_loaded s1"
    using kbd_configure_ok [OF assms] assms by (cases config) auto
  let ?s = "s1\<lparr>PS2ToADBMap := PS2ToADBMapMapped s1\<rparr>"
  have t: "tables_ok ?s" using kbd_loaded_tables [OF s1(2)] by (simp add: tables_ok_def)
  then have "kbd_loaded ?s" by (rule kbd_loaded_fixed [OF s1(2)]) simp
  then obtain s2 where "kbd_setParamPropertiesGated config ?s = Some s2" "kbd_loaded s2"
    using kbd_loaded_configured kbd_setParamProperties_ok [OF t] by blast
  then have "kbd_probe junk super config s =
      (if \<not> super \<or> Option.bind config (\<lambda>d. asBoolean (getObject ''DisableDevice'' d)) = Some True then Some (False, s)
       else Some (True, s2))"
    using s1(1) by (simp add: kbd_probe_def)
  then show ?thesis using assms \<open>kbd_loaded s2\<close> by metis
qed

section \<open>Reset\<close>

text \<open>Releasing the keys dispatches one packet for every key that is down, in the order of the codes.\<close>

definition held_keys :: "keyboard \<Rightarrow> nat list" where
  "held_keys s = filter (\<lambda>k. k \<in> keys_down s) [0..<KBV_NUM_KEYCODES]"

lemma held_keys_set: "set (held_keys s) = keys_down s" "sorted (held_keys s)" "distinct (held_keys s)"
  by (auto simp: held_keys_def keys_down_def sorted_wrt_filter)

lemma keys_down_core:
  assumes "kbd_core s' = kbd_core s" shows "keys_down s' = keys_down s"
  using arg_cong [OF assms, of keyBitVector] by (simp add: keys_down_def)

lemma release_fold:
  assumes "kbd_ok s" "\<forall>k \<in> set ks. k < KBV_NUM_KEYCODES"
  shows "fold_opt (\<lambda>scanCode s. Option.bind (KBV_IS_KEYDOWN scanCode s) (\<lambda>down.
      if down then map_option snd (dispatchKeyboardEventWithPacket os (release_packet junk scanCode) s) else Some s)) ks s =
    kbd_dispatches os (map (release_packet junk) (filter (\<lambda>k. k \<in> keys_down s) ks)) s"
  using assms
proof (induction ks arbitrary: s)
  case (Cons k ks)
  have down: "KBV_IS_KEYDOWN k s = Some (k \<in> keys_down s)" using is_keydown [of s k] Cons.prems by (simp add: kbd_ok_def)
  obtain r s1 where s1: "dispatchKeyboardEventWithPacket os (release_packet junk k) s = Some (r, s1)" and core: "kbd_core s1 = kbd_core s"
    using dispatch_total [OF Cons.prems(1)] by blast
  show ?case
  proof (cases "k \<in> keys_down s")
    case True
    have "kbd_ok s1" using kbd_ok_cong [OF core] Cons.prems(1) by simp
    then show ?thesis using Cons.IH [of s1] Cons.prems(2) True down s1 keys_down_core [OF core]
      by (simp add: kbd_dispatches_def)
  next
    case False
    then show ?thesis using Cons.IH [OF Cons.prems(1)] Cons.prems(2) down by simp
  qed
qed (simp add: kbd_dispatches_def)

lemma releaseKeys_held:
  "kbd_ok s \<Longrightarrow> releaseKeys os junk s = kbd_dispatches os (map (release_packet junk) (held_keys s)) s"
  using release_fold [of s "[0..<KBV_NUM_KEYCODES]" os junk] by (simp add: releaseKeys_def held_keys_def del: KBV_NUM_KEYCODES_def)

text \<open>The state after a reset, given the state after releasing the keys.\<close>

definition kbd_cleared :: "keyboard \<Rightarrow> keyboard" where
  "kbd_cleared s = s\<lparr>keyBitVector := replicate KBV_NUNITS 0, PS2modifierState := 0, extendCount := 0,
     kbd_ringBuffer := ring_reset (kbd_ringBuffer s)\<rparr>"

lemma kbd_cleared_ok:
  assumes "kbd_inv s"
  shows "kbd_inv (kbd_cleared s)" "keys_down (kbd_cleared s) = {}" "PS2modifierState (kbd_cleared s) = 0"
    "kbd_packets (kbd_cleared s) = []" "macroCurrent (kbd_cleared s) = macroCurrent s"
proof -
  have ring: "packet_inv 16 512 (ring_reset (kbd_ringBuffer s))" "ring_packets 16 (ring_reset (kbd_ringBuffer s)) = []"
    using kbd_ring.reset_ok [of "kbd_ringBuffer s"] assms by (simp_all add: kbd_inv_def)
  then show "kbd_inv (kbd_cleared s)" using assms by (simp add: kbd_inv_def kbd_cleared_def kbd_ok_def macro_inv_def)
  show "kbd_packets (kbd_cleared s) = []" using ring(2) by (simp add: kbd_packets_def kbd_cleared_def)
  show "keys_down (kbd_cleared s) = {}" by (auto simp: keys_down_def kbd_cleared_def less_mult_imp_div_less)
qed (simp_all add: kbd_cleared_def)

lemma initKeyboard_state:
  assumes inv: "kbd_inv s" and run: "initKeyboard e p os junk s c = Some (s', c')"
  obtains s1 where "kbd_dispatches os (map (release_packet junk) (held_keys s)) s = Some s1" "kbd_core s1 = kbd_core s"
    "s' = kbd_cleared s1"
proof -
  have ok: "kbd_ok s" using inv by (simp add: kbd_inv_def)
  obtain s1 where s1: "kbd_dispatches os (map (release_packet junk) (held_keys s)) s = Some s1" "kbd_core s1 = kbd_core s"
    using dispatches_total [OF ok] by blast
  then have "releaseKeys os junk s = Some s1" using releaseKeys_held [OF ok] by metis
  then have "s' = kbd_cleared s1" using run
    by (auto simp: initKeyboard_def kbd_cleared_def Let_def elim!: bind_eq_SomeE)
  then show ?thesis using that s1 by blast
qed

definition led_request :: "nat \<Rightarrow> u8 \<Rightarrow> PS2Request" where
  "led_request p leds = (newPS2Request 4)\<lparr>req_port := p, commandsCount := 4,
     commands := [write_byte kDP_SetKeyboardLEDs, expect_ack, write_byte leds, expect_ack]\<rparr>"

lemma setLEDs_queue: "setLEDs p leds c = c\<lparr>requestQueue := requestQueue c @ [led_request p leds]\<rparr>"
  by (simp add: setLEDs_def nub_submitRequest_def submitRequest_def led_request_def newPS2Request_def)

text \<open>On the log: defaults first, then the lights, then the keyboard is enabled and translation turned on.\<close>

abbreviation on_port :: "nat \<Rightarrow> PS2Request \<Rightarrow> PS2Request" where
  "on_port p r \<equiv> r\<lparr>req_port := p\<rparr>"

lemma initKeyboard_io:
  assumes lg: "io_logs e lg" and on: "\<not> hardwareOffline c" "requestQueue c = []" and run: "initKeyboard e p os junk s c = Some (s', c')"
  shows "\<exists>r1 l1 r2 l2 r3 l3 l4. lg (hw c') = lg (hw c) @ l1 @ l2 @ l3 @ l4 \<and>
    served (suppressTimeout c) (muxPresent c) (on_port p (TPS2Request [write_byte 0xF6, expect_ack])) r1 l1 \<and>
    served (suppressTimeout c) (muxPresent c) (led_request p (ledState s')) r2 l2 \<and>
    served (suppressTimeout c) (muxPresent c) (on_port p (TPS2Request [write_byte 0xF4, expect_ack])) r3 l3 \<and>
    modified (suppressTimeout c) (muxPresent c) kCB_TranslateMode 0 l4"
proof -
  obtain r1 c1 c2 b where
    1: "submitRequestAndBlock e (on_port p (TPS2Request [write_byte 0xF6, expect_ack])) c = Some (r1, c1)" and
    2: "setKeyboardEnable (nub_submitRequestAndBlock e p) True (setLEDs p (ledState s') c1) = Some c2" and
    3: "setCommandByte e kCB_TranslateMode 0 c2 = Some (b, c')"
    using run by (auto simp: initKeyboard_def Let_def nub_setCommandByte_def nub_submitRequestAndBlock_def elim!: bind_eq_SomeE)
  let ?c = "setLEDs p (ledState s') c1" and ?led = "led_request p (ledState s')"
  obtain r3 where 4: "submitRequestAndBlock e (on_port p (TPS2Request [write_byte 0xF4, expect_ack])) ?c = Some (r3, c2)"
    using 2 by (auto simp: setKeyboardEnable_def nub_submitRequestAndBlock_def)
  have "core c1 = core c" using submitRequestAndBlock_core [OF 1] on(2) by (simp add: core_def)
  note same1 = core_eqD(1,3,4,11) [OF this]
  have q: "requestQueue ?c = [?led]" "hw ?c = hw c1" "muxPresent ?c = muxPresent c" "suppressTimeout ?c = suppressTimeout c" "\<not> hardwareOffline ?c"
    using same1 on by (simp_all add: setLEDs_queue)
  have "core c2 = (core ?c)\<lparr>requestQueue := []\<rparr>" by (rule submitRequestAndBlock_core [OF 4])
  then have "muxPresent (core c2) = muxPresent ?c" "suppressTimeout (core c2) = suppressTimeout ?c" by simp_all
  then have same2: "muxPresent c2 = muxPresent c" "suppressTimeout c2 = suppressTimeout c" using q by simp_all
  obtain l1 where l1: "lg (hw c1) = lg (hw c) @ l1"
    "served (suppressTimeout c) (muxPresent c) (on_port p (TPS2Request [write_byte 0xF6, expect_ack])) r1 l1"
    using submitRequestAndBlock_io [OF lg 1 on(1)] on(2) by auto
  obtain qs l3 where l3: "lg (hw c2) = lg (hw ?c) @ concat (map snd qs) @ l3"
    "served (suppressTimeout c) (muxPresent c) (on_port p (TPS2Request [write_byte 0xF4, expect_ack])) r3 l3"
    "list_all2 (\<lambda>r (r', l). served (suppressTimeout c) (muxPresent c) r r' l) [?led] qs"
    using submitRequestAndBlock_io [OF lg 4 q(5)] unfolding q(1,3,4) by blast
  then obtain r2 l2 where l2: "qs = [(r2, l2)]" "served (suppressTimeout c) (muxPresent c) ?led r2 l2"
    by (auto simp: list_all2_Cons1)
  obtain l4 where "lg (hw c') = lg (hw c2) @ l4" "modified (suppressTimeout c) (muxPresent c) kCB_TranslateMode 0 l4"
    using setCommandByte_io [OF lg 3] unfolding same2 by blast
  then have "lg (hw c') = lg (hw c) @ l1 @ l2 @ l3 @ l4" "modified (suppressTimeout c) (muxPresent c) kCB_TranslateMode 0 l4"
    using l1(1) l3(1) l2(1) q(2) by simp_all
  then show ?thesis using l1(2) l2(2) l3(2) by blast
qed

text \<open>
  C37. Resetting the keyboard (at the start and after every wake). Every key that was down is released
  once, in the order of the scan codes, by a packet with the prefix and the break code of the key; apart
  from these releases only the key and modifier state, the prefix counter and the ring buffer change:
  afterwards no key and no modifier counts as held and the ring buffer holds no packet. (Packets the macro
  filter holds back are neither dispatched nor dropped.) The log of the ports is four conversations with
  the keyboard and the controller: the defaults; the lights as the driver has them; enable; and the
  command byte, read and, if translation was off, written back with translation on. Each goes on to its
  next byte only after the keyboard has acknowledged the one before.
\<close>

theorem initKeyboard_outcome:
  assumes "kbd_inv s" and "io_logs e lg" and "\<not> hardwareOffline c" and "requestQueue c = []"
    and "initKeyboard e p os junk s c = Some (s', c')"
  shows "(\<exists>ks t. set ks = keys_down s \<and> sorted ks \<and> distinct ks \<and>
      kbd_dispatches os (map (\<lambda>k. [if k < 256 then 1 else 2, of_nat k OR 0x80] @ junk) ks) s = Some t \<and>
      s' = t\<lparr>keyBitVector := keyBitVector s', PS2modifierState := 0, extendCount := 0, kbd_ringBuffer := kbd_ringBuffer s'\<rparr>) \<and>
    kbd_inv s' \<and> keys_down s' = {} \<and> kbd_packets s' = [] \<and>
    ledState s' = ledState s \<and> macroBuffer s' = macroBuffer s \<and> macroCurrent s' = macroCurrent s \<and>
    (\<exists>r1 l1 r2 l2 r3 l3 l4. lg (hw c') = lg (hw c) @ l1 @ l2 @ l3 @ l4 \<and>
      served (suppressTimeout c) (muxPresent c) (on_port p (TPS2Request [write_byte 0xF6, expect_ack])) r1 l1 \<and>
      served (suppressTimeout c) (muxPresent c) (led_request p (ledState s)) r2 l2 \<and>
      served (suppressTimeout c) (muxPresent c) (on_port p (TPS2Request [write_byte 0xF4, expect_ack])) r3 l3 \<and>
      modified (suppressTimeout c) (muxPresent c) kCB_TranslateMode 0 l4)"
proof -
  obtain t where t: "kbd_dispatches os (map (release_packet junk) (held_keys s)) s = Some t" "kbd_core t = kbd_core s"
    and s': "s' = kbd_cleared t"
    using initKeyboard_state [OF assms(1,5)] .
  have pk: "release_packet junk = (\<lambda>k. [if k < 256 then 1 else 2, of_nat k OR 0x80] @ junk)"
    by (simp add: release_packet_def fun_eq_iff)
  have "s' = t\<lparr>keyBitVector := keyBitVector s', PS2modifierState := 0, extendCount := 0, kbd_ringBuffer := kbd_ringBuffer s'\<rparr>"
    by (simp add: s' kbd_cleared_def)
  then have run: "\<exists>ks t. set ks = keys_down s \<and> sorted ks \<and> distinct ks \<and>
      kbd_dispatches os (map (\<lambda>k. [if k < 256 then 1 else 2, of_nat k OR 0x80] @ junk) ks) s = Some t \<and>
      s' = t\<lparr>keyBitVector := keyBitVector s', PS2modifierState := 0, extendCount := 0, kbd_ringBuffer := kbd_ringBuffer s'\<rparr>"
    using held_keys_set t(1) unfolding pk by blast
  have kept: "ledState s' = ledState s" "macroBuffer s' = macroBuffer s" "macroCurrent s' = macroCurrent s"
    using arg_cong [OF t(2), of ledState] arg_cong [OF t(2), of macroBuffer] arg_cong [OF t(2), of macroCurrent]
    by (simp_all add: s' kbd_cleared_def kbd_core_def)
  have "kbd_inv t" using kbd_inv_core [OF t(2) assms(1)] .
  then have "kbd_inv s'" "keys_down s' = {}" "kbd_packets s' = []" using kbd_cleared_ok [of t] s' by simp_all
  with run kept show ?thesis using initKeyboard_io [OF assms(2-5)] unfolding kept(1) by (intro conjI)
qed

text \<open>A keyboard with one key down, behind a controller that acknowledges four bytes and has translation on.\<close>

definition sample_held :: keyboard where
  "sample_held = sample_keyboard\<lparr>keyBitVector := 0x40000000 # replicate 15 0\<rparr>"

definition port_at :: "u8 list \<Rightarrow> u8 list \<Rightarrow> (u16 \<times> u8) list \<Rightarrow> (script, (nat \<times> u8) list) ctl" where
  "port_at ss bs ws = (script_ctl False [] [])\<lparr>hw := \<lparr>statuses = ss, bytes = bs, written = ws\<rparr>\<rparr>"

definition sample_port :: "(script, (nat \<times> u8) list) ctl" where
  "sample_port = port_at [0, 1, 0, 1, 0, 1, 0, 1, 0, 1] [0xFA, 0xFA, 0xFA, 0xFA, 0x65] []"

definition reset_port :: "('h, 'c) env \<Rightarrow> nat \<Rightarrow> u8 \<Rightarrow> ('h, 'c) ctl \<Rightarrow> ('h, 'c) ctl option" where
  "reset_port e p leds c = do {
     (_, c) \<leftarrow> nub_submitRequestAndBlock e p (TPS2Request [write_byte kDP_SetDefaults, expect_ack]) c;
     c \<leftarrow> setKeyboardEnable (nub_submitRequestAndBlock e p) True (setLEDs p leds c);
     (_, c) \<leftarrow> nub_setCommandByte e kCB_TranslateMode 0 c;
     Some c
   }"

lemma initKeyboard_runs:
  assumes "kbd_inv s" "reset_port e p (ledState s) c = Some c'"
  shows "\<exists>s'. initKeyboard e p os junk s c = Some (s', c')"
proof -
  have ok: "kbd_ok s" using assms(1) by (simp add: kbd_inv_def)
  obtain s1 where s1: "releaseKeys os junk s = Some s1" and core: "kbd_core s1 = kbd_core s"
    using dispatches_total [OF ok, of os] releaseKeys_held [OF ok] by metis
  have led: "ledState s1 = ledState s" using arg_cong [OF core, of ledState] by (simp add: kbd_core_def)
  show ?thesis using assms(2) s1 led by (auto simp: initKeyboard_def reset_port_def Let_def elim!: bind_eq_SomeE)
qed

lemma sample_port_steps:
  "map_option snd (nub_submitRequestAndBlock script_env 0 (TPS2Request [write_byte kDP_SetDefaults, expect_ack]) sample_port) =
     Some (port_at [0, 1, 0, 1, 0, 1, 0, 1] [0xFA, 0xFA, 0xFA, 0x65] [(0x60, 0xF6)])"
  "setKeyboardEnable (nub_submitRequestAndBlock script_env 0) True
     (setLEDs 0 0 (port_at [0, 1, 0, 1, 0, 1, 0, 1] [0xFA, 0xFA, 0xFA, 0x65] [(0x60, 0xF6)])) =
     Some (port_at [0, 1] [0x65] [(0x60, 0xF6), (0x60, 0xED), (0x60, 0), (0x60, 0xF4)])"
  "nub_setCommandByte script_env kCB_TranslateMode 0 (port_at [0, 1] [0x65] [(0x60, 0xF6), (0x60, 0xED), (0x60, 0), (0x60, 0xF4)]) =
     Some (0x65, port_at [] [] [(0x60, 0xF6), (0x60, 0xED), (0x60, 0), (0x60, 0xF4), (0x64, 0x20)])"
  by code_simp+

lemma sample_port_runs: "\<exists>c'. reset_port script_env 0 0 sample_port = Some c'"
  using sample_port_steps by (auto simp: reset_port_def simp del: kDP_SetDefaults_def kCB_TranslateMode_def)

lemma sample_held_inv: "kbd_inv sample_held"
  using sample_keyboard_ready by (simp add: sample_held_def kbd_ready_def kbd_inv_def kbd_ok_def macro_inv_def)

lemma sample_held_leds: "ledState sample_held = 0"
  by (simp add: sample_held_def sample_keyboard_def init_keyboard_def)

definition tape_port :: "(script \<times> io list, (nat \<times> u8) list) ctl" where
  "tape_port = tape_ctl [0, 1, 0, 1, 0, 1, 0, 1, 0, 1] [0xFA, 0xFA, 0xFA, 0xFA, 0x65]"

theorem initKeyboard_outcome_witness:
  "\<exists>s' c' r2 l1 l2 l3 l4. initKeyboard tape_env 0 sample_os (replicate 14 0) sample_held tape_port = Some (s', c') \<and>
     keys_down s' = {} \<and> kbd_packets s' = [] \<and> kbd_inv s' \<and> snd (hw c') = l1 @ l2 @ l3 @ l4 \<and>
     served False False (led_request 0 0) r2 l2 \<and> modified False False kCB_TranslateMode 0 l4"
proof -
  have "reset_port tape_env 0 0 tape_port \<noteq> None" by code_simp
  then obtain s' c' where run: "initKeyboard tape_env 0 sample_os (replicate 14 0) sample_held tape_port = Some (s', c')"
    using initKeyboard_runs [OF sample_held_inv, of tape_env 0 tape_port] sample_held_leds by (metis not_None_eq)
  have p: "\<not> hardwareOffline tape_port" "requestQueue tape_port = []" "suppressTimeout tape_port = False" "muxPresent tape_port = False"
    "snd (hw tape_port) = []" by (simp_all add: tape_port_def tape_wf)
  from initKeyboard_outcome [OF sample_held_inv tape_logs p(1,2) run] show ?thesis
    using run unfolding p(3-5) sample_held_leds append_Nil by blast
qed

section \<open>From probe to use\<close>

lemma kbd_backlight_ok:
  assumes "kbd_ready (s\<lparr>sleepEjectTimer := True\<rparr>)" "backlightLevels s = None" "sleepEjectTimer s"
  shows "kbd_ready (kbd_backlight k (s\<lparr>kbd_provider := b\<rparr>))"
  using assms
  by (auto simp: kbd_backlight_def kbd_ready_def kbd_inv_def kbd_ok_def macro_inv_def split: option.split)

lemma kbd_start_ok:
  assumes "kbd_loaded s" "kbd_start e p os junk k s c = Some (True, s', c')"
  shows "kbd_ready s' \<and> kbd_cmdGate s'"
proof -
  let ?s = "kbd_backlight k (s\<lparr>kbd_cmdGate := True, sleepEjectTimer := True, kbd_provider := kk_provider k\<rparr>)"
  have k: "kk_start k = True" "kk_workLoop k = True" "kk_commandGate k = True" "kk_sleepEjectTimer k = True"
    using assms(2) by (cases "kk_start k"; cases "kk_workLoop k"; cases "kk_commandGate k"; cases "kk_sleepEjectTimer k";
        simp add: kbd_start_def Let_def)+
  obtain s1 c1 where init: "initKeyboard e p os junk ?s c = Some (s1, c1)"
    and s': "s' = (if numLockOnAtBoot s1 then kbd_post (SetNumLock True) s1 else s1)\<lparr>macroTimer := kk_macroTimer k,
      kbd_interruptHandlerInstalled := True, kbd_powerControlHandlerInstalled := True\<rparr>"
    using assms(2) unfolding kbd_start_def k Let_def simp_thms if_True if_False
    by (elim bind_eq_SomeE case_prodE) (simp split: prod.splits, elim bind_eq_SomeE, simp)
  let ?t = "s\<lparr>kbd_cmdGate := True, sleepEjectTimer := True\<rparr>"
  have "kbd_ready (?t\<lparr>sleepEjectTimer := True\<rparr>)" "backlightLevels ?t = None" "sleepEjectTimer ?t"
    using assms(1) by (simp_all add: kbd_loaded_def kbd_ready_def kbd_inv_def kbd_ok_def macro_inv_def)
  then have ready: "kbd_ready ?s" by (rule kbd_backlight_ok)
  then obtain t where t: "kbd_core t = kbd_core ?s" "s1 = kbd_cleared t"
    using initKeyboard_state [OF _ init] by (auto simp: kbd_ready_def)
  have "kbd_inv t" "macroCurrent t = 0" using kbd_inv_core [OF t(1)] arg_cong [OF t(1), of macroCurrent] ready
    by (simp_all add: kbd_ready_def)
  then have s1: "kbd_inv s1" "macroCurrent s1 = 0" using kbd_cleared_ok [of t] t(2) by simp_all
  have "kbd_cmdGate ?s" by (auto simp: kbd_backlight_def split: option.split)
  then have "kbd_cmdGate s1" using arg_cong [OF t(1), of kbd_cmdGate] t(2) by (simp add: kbd_core_def kbd_cleared_def)
  then show ?thesis using s1 s' by (simp add: kbd_ready_def kbd_inv_def kbd_ok_def macro_inv_def kbd_post_def)
qed

text \<open>Everything that happens to the driver in use, changes of its properties included.\<close>

datatype kbd_life = KeyInput kbd_input | KeyProperties "OSObject option" | KeyParameters "dict option"

fun kbd_live :: "kbd_os \<Rightarrow> kbd_life \<Rightarrow> keyboard \<Rightarrow> keyboard option" where
  "kbd_live os (KeyInput i) s = kbd_exec os i s"
| "kbd_live os (KeyProperties props) s = kbd_setProperties props s"
| "kbd_live os (KeyParameters d) s = kbd_setParamProperties d s"

lemma properties_ok: "kbd_inv s \<Longrightarrow> \<exists>s'. kbd_setParamPropertiesGated d s = Some s' \<and> kbd_inv s'"
  using kbd_setParamProperties_ok [OF kbd_inv_tables, of s d] kbd_inv_fixed [of s] by (auto simp: configured_def)

lemma kbd_live_ok: "kbd_inv s \<Longrightarrow> \<exists>s'. kbd_live os x s = Some s' \<and> kbd_inv s'"
  using kbd_exec_ok [of s os] properties_ok [of s]
  by (cases x) (auto simp: kbd_setProperties_def kbd_setParamProperties_def split: option.split)

lemma kbd_lives_ok: "kbd_inv s \<Longrightarrow> \<exists>s'. fold_opt (kbd_live os) inputs s = Some s' \<and> kbd_inv s'"
proof (induction inputs arbitrary: s)
  case (Cons x inputs)
  obtain s1 where "kbd_live os x s = Some s1" "kbd_inv s1" using kbd_live_ok [OF Cons.prems] by blast
  then show ?case using Cons.IH by simp
qed simp

text \<open>
  C36. From configuration to use: whatever configuration the keyboard driver finds (malformed key map
  entries, macros of any length, objects of the wrong type), its probe returns; and once a start has
  succeeded, whatever reaches the driver in whatever order (bytes, the work loop, its timers,
  messages, changes of its properties) and whatever the system answers, every operation returns,
  no table or buffer is accessed outside its bounds, and tables and buffers stay well formed.
\<close>

theorem kbd_lifecycle_safe:
  "\<exists>claimed s. kbd_probe mem super config init_keyboard = Some (claimed, s) \<and>
    (\<forall>s' c'. kbd_start e p os junk k s c = Some (True, s', c') \<longrightarrow>
      (\<forall>inputs. \<exists>s''. fold_opt (kbd_live os) inputs s' = Some s'' \<and> kbd_inv s''))"
proof -
  obtain claimed s where s: "kbd_probe mem super config init_keyboard = Some (claimed, s)" "kbd_loaded s"
    using kbd_probe_ok [OF init_keyboard_loaded] by blast
  have "\<exists>s''. fold_opt (kbd_live os) inputs s' = Some s'' \<and> kbd_inv s''"
    if "kbd_start e p os junk k s c = Some (True, s', c')" for s' c' inputs
    using kbd_lives_ok kbd_start_ok [OF s(2) that] by (auto simp: kbd_ready_def)
  then show ?thesis using s(1) by blast
qed

definition sample_config :: dict where
  "sample_config = [(''Custom PS2 Map'', OSArray [OSString ''e05b=38;swap'', OSNumber 3, OSString ''xyz'']),
     (''Macro Inversion'', OSArray [OSData (map char_of ([255, 255, 2, 110, 0, 0, 0, 0, 1, 56, 1, 30] :: nat list))])]"

definition sample_kernel :: kbd_kernel where
  "sample_kernel = \<lparr>kk_start = True, kk_workLoop = True, kk_commandGate = True, kk_sleepEjectTimer = True,
     kk_macroTimer = True, kk_provider = False, kk_backlight = False, kk_KKCL = None\<rparr>"

lemma start_runs:
  assumes "kbd_loaded s"
  shows "\<exists>s' c'. kbd_start script_env 0 sample_os (replicate 14 0) sample_kernel s sample_port = Some (True, s', c')"
proof -
  let ?s = "s\<lparr>kbd_cmdGate := True, sleepEjectTimer := True, kbd_provider := False\<rparr>"
  have "kbd_inv ?s" using assms by (simp add: kbd_loaded_def kbd_ready_def kbd_inv_def kbd_ok_def macro_inv_def)
  then obtain s1 c1 where run: "initKeyboard script_env 0 sample_os (replicate 14 0) ?s sample_port = Some (s1, c1)"
    and c1: "reset_port script_env 0 0 sample_port = Some c1"
    using initKeyboard_runs [of ?s script_env 0 sample_port] sample_port_runs assms by (fastforce simp: kbd_loaded_def)
  have "c1 = port_at [] [] [(0x60, 0xF6), (0x60, 0xED), (0x60, 0), (0x60, 0xF4), (0x64, 0x20)]"
    using c1 sample_port_steps by (auto simp: reset_port_def simp del: kDP_SetDefaults_def kCB_TranslateMode_def)
  then obtain c2 c3 where "nub_installInterruptAction script_env 0 c1 = Some c2" "nub_installPowerControlAction 0 c2 = Some c3"
    by (simp add: nub_installInterruptAction_def nub_installPowerControlAction_def installInterruptAction_def update_nub_def
      device_at_def port_at_def script_ctl_def upt_rec)
  then show ?thesis using run by (simp add: kbd_start_def sample_kernel_def kbd_backlight_def Let_def)
qed

theorem kbd_lifecycle_safe_witness:
  "\<exists>claimed s s' c' s''. kbd_probe (\<lambda>_. 0) True (Some sample_config) init_keyboard = Some (claimed, s) \<and>
     kbd_start script_env 0 sample_os (replicate 14 0) sample_kernel s sample_port = Some (True, s', c') \<and>
     fold_opt (kbd_live sample_os) [KeyInput (KeyByte 0x38), KeyParameters (Some [(''RemapPrntScr'', OSBoolean True)]),
       KeyInput KeyWork] s' = Some s'' \<and> kbd_inv s''"
proof -
  obtain claimed s where s: "kbd_probe (\<lambda>_. 0) True (Some sample_config) init_keyboard = Some (claimed, s)" "kbd_loaded s"
    using kbd_probe_ok [OF init_keyboard_loaded] by blast
  obtain s' c' where start: "kbd_start script_env 0 sample_os (replicate 14 0) sample_kernel s sample_port = Some (True, s', c')"
    using start_runs [OF s(2)] by blast
  let ?inputs = "[KeyInput (KeyByte 0x38), KeyParameters (Some [(''RemapPrntScr'', OSBoolean True)]), KeyInput KeyWork]"
  obtain claimed2 s2 where p2: "kbd_probe (\<lambda>_. 0) True (Some sample_config) init_keyboard = Some (claimed2, s2)"
    and safe: "\<forall>s' c'. kbd_start script_env 0 sample_os (replicate 14 0) sample_kernel s2 sample_port = Some (True, s', c') \<longrightarrow>
      (\<forall>inputs. \<exists>s''. fold_opt (kbd_live sample_os) inputs s' = Some s'' \<and> kbd_inv s'')"
    using kbd_lifecycle_safe [of "\<lambda>_. 0" True "Some sample_config" script_env 0 sample_os "replicate 14 0" sample_kernel sample_port]
    by (elim exE conjE)
  have "s2 = s" using p2 s(1) by simp
  with safe start obtain s'' where "fold_opt (kbd_live sample_os) ?inputs s' = Some s''" "kbd_inv s''" by meson
  with s(1) start show ?thesis by blast
qed

end
