(* ===== verification/Spec2Isabelle.thy ===== *)
theory Spec2Isabelle
  imports PS2_Power FTE0001_Pad Sentelic_FSP Elan_Setup PS2_Keyboard_Setup
begin

text \<open>
  Verification of the VoodooPS2 controller and its device drivers.

  The program. VoodooPS2 is a kernel extension that drives the i8042 controller of a PC and the
  devices behind it. \<^verbatim>\<open>ApplePS2Controller\<close> (\<^verbatim>\<open>VoodooPS2Controller/VoodooPS2Controller.cpp\<close>) owns the two
  I/O ports of the controller. It sends command bytes, polls for answers, sorts the bytes that
  arrive by the port they come from (keyboard, mouse, or one of four multiplexed mice) and serves the
  requests of the drivers one at a time. Each port has a nub, \<^verbatim>\<open>ApplePS2Device\<close>, through which a driver
  installs its callbacks and submits requests. A driver has an interrupt routine, which assembles
  bytes into packets and puts them into a ring buffer, and a work loop action, which drains the buffer
  and posts events. The drivers modelled here are the mouse (\<^verbatim>\<open>VoodooPS2Mouse\<close>), the keyboard
  (\<^verbatim>\<open>VoodooPS2Keyboard\<close>), the FocalTech touchpad and its FTE0001 variant (\<^verbatim>\<open>FocalTech\<close>) and the Sentelic
  and Elan touchpads (\<^verbatim>\<open>VoodooPS2Trackpad\<close>). The configuration of every driver
  comes from a platform profile that the controller merges with an ACPI override.

  Theories, in the order of their imports, and the code they model.
  \<^item> \<open>PS2_Prelude\<close>: machine integers, arrays with bounds, folds in the option monad.
  \<^item> \<open>Ring_Buffer\<close>: the template \<^verbatim>\<open>RingBuffer\<close> of \<^verbatim>\<open>ApplePS2Device.h\<close>. Locales \<open>packet_queue\<close> and
    \<open>packet_consumer\<close> state what an interrupt routine and a work loop rely on; they are interpreted
    for the buffer and once for every driver.
  \<^item> \<open>PS2_Defs\<close>: commands, requests, messages and register bits of \<^verbatim>\<open>ApplePS2Device.h\<close> and
    \<^verbatim>\<open>VoodooPS2Controller.h\<close>.
  \<^item> \<open>PS2_Controller\<close>: the state of the controller (record \<open>ctl\<close>) and of its nubs, port access,
    \<^verbatim>\<open>processRequest\<close>, the queue, interrupt service, the command byte and multiplexing.
  \<^item> \<open>PS2_Requests\<close>, \<open>PS2_Reads\<close>, \<open>PS2_Log\<close>, \<open>PS2_Transport\<close>: what these guarantee. A read returns the
    answer and hands every other byte to the driver it belongs to, once and in order. \<open>PS2_Log\<close> specifies
    the conversation of every command on the complete log of the ports (bytes read, bytes written,
    sleeps); requests run in order and stop at the first failure, their results are the bytes of their
    conversations, and they are disposed of once.
  \<^item> \<open>PS2_Script\<close>: a scripted hardware on which witnesses are evaluated.
  \<^item> \<open>PS2_Power\<close>: start, stop, sleep, wake and the message bus, and the controller as a state machine
    with its invariant.
  \<^item> \<open>PS2_Config\<close>: platform profiles, the meaning of links between their entries, the ACPI override and its translation.
  \<^item> \<open>PS2_Driver\<close>: the interface \<open>driver_port\<close> through which drivers send command sequences, interpreted
    on the nub operations of the controller, and an acknowledging device for the witnesses.
  \<^item> \<open>PS2_Mouse\<close>, \<open>PS2_Mouse_Setup\<close>: \<^verbatim>\<open>ApplePS2Mouse\<close>, input path and the rest.
  \<^item> \<open>PS2_ADB_Map\<close>, \<open>PS2_Keyboard\<close>, \<open>PS2_Keyboard_Dispatch\<close>, \<open>PS2_Keyboard_Macros\<close>,
    \<open>PS2_Keyboard_Inversion\<close>: \<^verbatim>\<open>ApplePS2Keyboard\<close> with its tables, scan codes, key events and macros.
  \<^item> \<open>PS2_Keyboard_Setup\<close>: its configuration, preferences, lights, reset and life cycle. For every
    configuration the driver keeps within its tables; a reset leaves no key down.
  \<^item> \<open>FocalTech_Packet\<close>: the input path of \<^verbatim>\<open>ApplePS2FocalTech\<close>. Framing, clicks, force clicks and the
    events are shown to be well formed.
  \<^item> \<open>FocalTech_Setup\<close>: its detection, setup, power management and life cycle, with the bytes each
    step puts on the wire and the confinement to its own port.
  \<^item> \<open>FTE0001_Pad\<close>: the driver \<^verbatim>\<open>ApplePS2FTE0001\<close> for the FTE0001 variant.
  \<^item> \<open>Sentelic_FSP\<close>: the driver \<^verbatim>\<open>ApplePS2SentelicFSP\<close>; its register encoding is lossless, its input
    path implements a specification from bytes to events.
  \<^item> \<open>Elan_Packet\<close>: the input path of \<^verbatim>\<open>ApplePS2Elan\<close>, all four hardware versions and the trackpoint. The
    locale \<open>faulting_consumer\<close> is a work loop whose step may fault; the packets on which it does are
    characterised exactly.
  \<^item> \<open>Elan_Setup\<close>: the rest of this driver, from the command layer to probe, start, sleep and wake. Its
    operations return whenever requests do and keep the invariant of the input path; the parity
    table is equivalent to counting bits; with the option set, the pad is paused exactly while another
    pointing device is attached.

  Conventions. The state of an object is a record whose fields are the members of the class; an
  operation takes the state and returns it changed, in the option monad. \<open>None\<close> is an operation
  that does not return normally: a null pointer is dereferenced, an array is accessed outside its
  bounds, or a loop goes on for ever. Loops that poll the hardware take their number of rounds from
  the field \<open>fuel\<close> of the environment; theorems about them show the result for every fuel that
  exceeds the number of bytes that can arrive, or that no fuel suffices. Loops that drain a buffer take
  fuel 32 (Elan: 48), more than the packets a buffer holds, and are shown to end with it. Integers have the width
  of the code and wrap around. The hardware, the clock, the attached drivers and the rest of the
  system are parameters, whose answers may depend on everything that happened before. Drivers call
  the controller through the arguments \<open>submit\<close> and \<open>sleep\<close>, which the interface theories instantiate
  with the nub operations.

  Conditional compilation follows the release build: out of order data correction, the clock and
  interrupt handling around sleep and the full initialisation after wake are modelled; the debug
  logs, the debugger support and the watchdog are not. Delays are omitted, \<^verbatim>\<open>IOSleep\<close> acts on the
  hardware. Locks are not modelled: the operations of a driver are atomic steps, which is what the
  command gate and the work loop of the code enforce. Allocations of small property objects succeed.

  Not modelled: the Synaptics and ALPS touchpads with their finger tracking; the default key
  map of the keyboard and the properties drivers publish, which other parts of the system interpret;
  the SMBus companion and the ACPI nub, which are glue to I/O Kit.
\<close>

end
